(* ===== verification/Rust_Prelude.thy ===== *)
theory Rust_Prelude
  imports Main "HOL-Library.Word"
begin

text \<open>
  Shared vocabulary of the development: the machine integers of the Rust sources, the
  operations of the Rust core library the sources use (checked and saturating arithmetic,
  \<open>Iterator::position\<close>, little-endian conversions, alignment masks), and the generic facts
  on lists and words that the component theories share.

  The kernel and the user programs are built in release mode (\<open>Makefile\<close>: \<open>MODE = release\<close>;
  \<open>build.rs\<close>: \<open>-Copt-level=z\<close>), so plain \<open>+\<close>, \<open>-\<close> and \<open>*\<close> wrap around: they are the
  operations of the word types. A Rust panic is the value \<open>Panic\<close> of type \<open>outcome\<close>.
\<close>

unbundle bit_operations_syntax

section \<open>Machine integers\<close>

type_synonym u8 = "8 word"
type_synonym u16 = "16 word"
type_synonym u32 = "32 word"
type_synonym u64 = "64 word"
type_synonym usize = "64 word"

text \<open>The result of code that may panic (a panic stops the kernel), may run away (a recursion
  deeper than the structure it is meant for), may write over memory that is not the user's through a
  pointer that the user chose (what follows is then undefined), or may switch the machine off.\<close>

datatype 'a outcome = Done 'a | Panic | Runaway | Overwrite | Shutdown

fun obind :: "'a outcome \<Rightarrow> ('a \<Rightarrow> 'b outcome) \<Rightarrow> 'b outcome" where
  "obind (Done x) f = f x"
| "obind Panic f = Panic"
| "obind Runaway f = Runaway"
| "obind Overwrite f = Overwrite"
| "obind Shutdown f = Shutdown"

lemma obind_Done_iff [simp]: "obind m f = Done y \<longleftrightarrow> (\<exists>x. m = Done x \<and> f x = Done y)"
  by (cases m) auto

text \<open>The code does not panic, and what it returns, when it returns, satisfies \<open>P\<close>.\<close>

fun safe :: "('a \<Rightarrow> bool) \<Rightarrow> 'a outcome \<Rightarrow> bool" where
  "safe P (Done x) = P x"
| "safe P Panic = False"
| "safe P Runaway = True"
| "safe P Overwrite = True"
| "safe P Shutdown = True"

lemma safe_obind [simp]: "safe P (obind m f) = safe (\<lambda>x. safe P (f x)) m"
  by (cases m) simp_all

lemma safe_mono: "safe P m \<Longrightarrow> (\<And>x. m = Done x \<Longrightarrow> P x \<Longrightarrow> Q x) \<Longrightarrow> safe Q m"
  by (cases m) simp_all

lemma safe_iff: "safe P m \<longleftrightarrow> m \<noteq> Panic \<and> (\<forall>x. m = Done x \<longrightarrow> P x)"
  by (cases m) simp_all

text \<open>The code ends without a result at most in the ways that are allowed: by running away if \<open>r\<close>, by
  overwriting if \<open>w\<close>, and never by switching the machine off.\<close>

fun stops_only :: "bool \<Rightarrow> bool \<Rightarrow> 'a outcome \<Rightarrow> bool" where
  "stops_only r w (Done x) = True"
| "stops_only r w Panic = True"
| "stops_only r w Runaway = r"
| "stops_only r w Overwrite = w"
| "stops_only r w Shutdown = False"

lemma stops_only_obind:
  "stops_only r w (obind m f) \<longleftrightarrow> stops_only r w m \<and> (\<forall>x. m = Done x \<longrightarrow> stops_only r w (f x))"
  by (cases m) auto

lemma stops_only_mono: "stops_only r w m \<Longrightarrow> (r \<Longrightarrow> r') \<Longrightarrow> (w \<Longrightarrow> w') \<Longrightarrow> stops_only r' w' m"
  by (cases m) auto

text \<open>Rust's \<open>Result<T, ()>\<close>.\<close>

type_synonym 'a result = "unit + 'a"

abbreviation Err :: "'a result" where "Err \<equiv> Inl ()"
abbreviation Ok :: "'a \<Rightarrow> 'a result" where "Ok \<equiv> Inr"

named_theorems layout \<open>numeric layout constants of the system\<close>
named_theorems frame \<open>what an operation leaves unchanged\<close>

section \<open>Rust core arithmetic\<close>

definition checked_add :: "'a::len word \<Rightarrow> 'a word \<Rightarrow> 'a word option" where
  "checked_add a b = (if unat a + unat b < 2 ^ LENGTH('a) then Some (a + b) else None)"

definition checked_mul :: "'a::len word \<Rightarrow> 'a word \<Rightarrow> 'a word option" where
  "checked_mul a b = (if unat a * unat b < 2 ^ LENGTH('a) then Some (a * b) else None)"

definition saturating_sub :: "'a::len word \<Rightarrow> 'a word \<Rightarrow> 'a word" where
  "saturating_sub a b = (if b \<le> a then a - b else 0)"

text \<open>\<open>usize::checked_add_signed\<close>: the second argument is read in two's complement.\<close>

definition checked_add_signed :: "'a::len word \<Rightarrow> 'a word \<Rightarrow> 'a word option" where
  "checked_add_signed a b =
     (let s = uint a + sint b in if 0 \<le> s \<and> s < 2 ^ LENGTH('a) then Some (a + b) else None)"

lemma checked_add_Some:
  fixes a :: "'a::len word"
  assumes "checked_add a b = Some c"
  shows "unat c = unat a + unat b" and "c = a + b"
  using assms by (auto simp: checked_add_def unat_word_ariths split: if_splits)

lemma checked_add_code [code]: "checked_add a b = (if a \<le> a + b then Some (a + b) else None)"
  by (simp add: checked_add_def no_olen_add_nat)

lemma checked_mul_Some:
  fixes a :: "'a::len word"
  assumes "checked_mul a b = Some c"
  shows "unat c = unat a * unat b" and "c = a * b"
  using assms by (auto simp: checked_mul_def unat_word_ariths split: if_splits)

lemma checked_add_signed_Some:
  fixes a :: "'a::len word"
  assumes "checked_add_signed a b = Some c"
  shows "uint c = uint a + sint b"
proof -
  from assms have r: "0 \<le> uint a + sint b" "uint a + sint b < 2 ^ LENGTH('a)" and c: "c = a + b"
    by (auto simp: checked_add_signed_def Let_def split: if_splits)
  have "uint c = (uint a + uint b) mod 2 ^ LENGTH('a)"
    by (simp add: c uint_word_ariths)
  also have "\<dots> = (uint a + sint b) mod 2 ^ LENGTH('a)"
  proof -
    have "uint b mod 2 ^ LENGTH('a) = sint b mod 2 ^ LENGTH('a)"
      using uint_word_of_int [of "sint b", where 'a = 'a] by simp
    then show ?thesis by (metis mod_add_right_eq)
  qed
  also have "\<dots> = uint a + sint b"
    using r by simp
  finally show ?thesis .
qed

section \<open>Alignment masks\<close>

text \<open>\<open>x & !(2^n - 1)\<close> rounds down to a multiple of \<open>2^n\<close>.\<close>

lemma unat_and_mask:
  fixes x :: "'a::len word"
  shows "unat (x AND mask n) = unat x mod 2 ^ n"
  by (metis take_bit_eq_mask unsigned_take_bit_eq take_bit_eq_mod)

lemma and_mask_plus_and_not_mask:
  fixes x :: "'a::len word"
  shows "(x AND mask n) + (x AND NOT (mask n)) = x"
proof -
  have "(x AND mask n) AND (x AND NOT (mask n)) = 0"
    by (rule bit_word_eqI) (auto simp: bit_and_iff bit_not_iff)
  then have "(x AND mask n) + (x AND NOT (mask n)) = (x AND mask n) OR (x AND NOT (mask n))"
    by (rule disjunctive_add_eq_or)
  also have "\<dots> = x"
    by (rule bit_word_eqI) (auto simp: bit_or_iff bit_and_iff bit_not_iff)
  finally show ?thesis .
qed

lemma unat_and_not_mask:
  fixes x :: "'a::len word"
  shows "unat (x AND NOT (mask n)) = unat x - unat x mod 2 ^ n"
proof -
  have "x AND mask n \<le> x"
    by (rule word_and_le2)
  moreover have "x AND NOT (mask n) = x - (x AND mask n)"
    using and_mask_plus_and_not_mask [of x n] by (metis add_diff_cancel_left')
  ultimately show ?thesis
    by (simp add: unat_sub unat_and_mask)
qed

lemma and_not_mask_dvd:
  fixes x :: "'a::len word"
  shows "2 ^ n dvd unat (x AND NOT (mask n))"
  by (simp add: unat_and_not_mask minus_mod_eq_mult_div)

section \<open>Searching a slice\<close>

text \<open>\<open>slice.iter().position(p)\<close>: the index of the first element that satisfies \<open>p\<close>.\<close>

fun position :: "('a \<Rightarrow> bool) \<Rightarrow> 'a list \<Rightarrow> nat option" where
  "position p [] = None"
| "position p (x # xs) = (if p x then Some 0 else map_option Suc (position p xs))"

lemma position_None_iff: "position p xs = None \<longleftrightarrow> (\<forall>x \<in> set xs. \<not> p x)"
  by (induction xs) auto

lemma position_Some_iff:
  "position p xs = Some i \<longleftrightarrow> i < length xs \<and> p (xs ! i) \<and> (\<forall>j < i. \<not> p (xs ! j))"
proof (induction xs arbitrary: i)
  case Nil
  then show ?case by simp
next
  case (Cons x xs)
  show ?case
  proof (cases i)
    case 0
    then show ?thesis by auto
  next
    case (Suc k)
    then show ?thesis using Cons.IH [of k] by (auto simp: less_Suc_eq_0_disj)
  qed
qed

lemma position_Some:
  assumes "position p xs = Some i"
  shows "i < length xs" and "p (xs ! i)"
  using assms by (auto simp: position_Some_iff)

lemma position_unique:
  assumes "i < length xs" and "p (xs ! i)" and "\<And>j. j < length xs \<Longrightarrow> p (xs ! j) \<Longrightarrow> j = i"
  shows "position p xs = Some i"
  unfolding position_Some_iff using assms(1,2) assms(3) [OF less_trans [OF _ assms(1)]] by blast

lemma position_cong:
  "length xs = length ys \<Longrightarrow> (\<And>i. i < length xs \<Longrightarrow> p (xs ! i) = q (ys ! i)) \<Longrightarrow>
   position p xs = position q ys"
proof (induction xs ys rule: list_induct2)
  case (Cons x xs y ys)
  have "p x = q y" using Cons.prems [of 0] by simp
  moreover have "position p xs = position q ys"
    using Cons.IH Cons.prems by (metis Suc_less_eq length_Cons nth_Cons_Suc)
  ultimately show ?case by simp
qed simp

lemma find_upt_Some:
  assumes "List.find p [0..<n] = Some i"
  shows "i < n" and "p i" and "\<And>j. j < i \<Longrightarrow> \<not> p j"
  using assms by (auto simp: find_Some_iff)

lemma find_upt_None: "List.find p [0..<n] = None \<longleftrightarrow> (\<forall>i < n. \<not> p i)"
  by (auto simp: find_None_iff)

text \<open>\<open>Option::is_some_and\<close>.\<close>

definition is_some_and :: "('a \<Rightarrow> bool) \<Rightarrow> 'a option \<Rightarrow> bool" where
  "is_some_and p x = (case x of None \<Rightarrow> False | Some y \<Rightarrow> p y)"

lemma is_some_and_simps [simp]:
  "is_some_and p None = False"
  "is_some_and p (Some y) = p y"
  by (simp_all add: is_some_and_def)

lemma is_some_and_iff: "is_some_and p x \<longleftrightarrow> (\<exists>y. x = Some y \<and> p y)"
  by (cases x) auto

end
