(* ===== verification/Riscv_Machine.thy ===== *)
theory Riscv_Machine
  imports Rust_Prelude
begin

text \<open>
  The machine under the kernel: the layout constants of \<open>src/arch/riscv/mod.rs\<close> and
  \<open>csr.rs\<close>, physical memory as the kernel addresses it (the kernel page table maps physical
  memory identically, \<open>src/kernel/vm.rs\<close>), and the trap frame of \<open>src/kernel/trap.rs\<close> with
  its layout in memory.

  Physical memory is a function from 8-aligned addresses to 64-bit cells. Every 64-bit access
  of the kernel (page-table entries, trap frames, the page-table words above a trap frame) is
  8-aligned; byte accesses select a byte of the enclosing cell, little-endian.
\<close>

section \<open>Layout constants\<close>

definition PAGE_SIZE :: usize where [layout]: "PAGE_SIZE = 4096"
definition PAGE_SHIFT :: nat where [layout]: "PAGE_SHIFT = 12"
definition PTE_V :: usize where [layout]: "PTE_V = 1"
definition PTE_R :: usize where [layout]: "PTE_R = 2"
definition PTE_W :: usize where [layout]: "PTE_W = 4"
definition PTE_X :: usize where [layout]: "PTE_X = 8"
definition PTE_U :: usize where [layout]: "PTE_U = 16"
definition USER_STACK_TOP :: usize where [layout]: "USER_STACK_TOP = 0x40000000"
definition SSTATUS_SPIE :: usize where [layout]: "SSTATUS_SPIE = 0x20"
definition SSTATUS_SPP :: usize where [layout]: "SSTATUS_SPP = 0x100"
definition SSTATUS_SUM :: usize where [layout]: "SSTATUS_SUM = 0x40000"

section \<open>Physical memory\<close>

type_synonym cells = "usize \<Rightarrow> u64"

definition byte_shift :: "usize \<Rightarrow> nat" where
  "byte_shift a = 8 * unat (a AND 7)"

definition cell_of :: "usize \<Rightarrow> usize" where
  "cell_of a = a AND NOT 7"

definition read_byte :: "cells \<Rightarrow> usize \<Rightarrow> u8" where
  "read_byte m a = ucast (drop_bit (byte_shift a) (m (cell_of a)))"

definition write_byte :: "usize \<Rightarrow> u8 \<Rightarrow> cells \<Rightarrow> cells" where
  "write_byte a v m =
     m(cell_of a := (m (cell_of a) AND NOT (push_bit (byte_shift a) (mask 8)))
                    OR push_bit (byte_shift a) (ucast v))"

lemma byte_shift_bound: "byte_shift a \<le> 56"
proof -
  have "a AND 7 \<le> 7" by (rule word_and_le1)
  then have "unat (a AND 7) \<le> 7" by (simp add: word_le_nat_alt)
  then show ?thesis by (simp add: byte_shift_def)
qed

lemma cell_byte_eq:
  assumes "cell_of a = cell_of b" and "byte_shift a = byte_shift b"
  shows "a = b"
proof -
  have "a AND 7 = b AND 7"
    using assms(2) by (simp add: byte_shift_def word_unat_eq_iff)
  moreover have "a AND NOT 7 = b AND NOT 7"
    using assms(1) by (simp add: cell_of_def)
  moreover have "x = (x AND y) OR (x AND NOT y)" for x y :: usize
    by (rule bit_word_eqI) (auto simp: bit_or_iff bit_and_iff bit_not_iff)
  ultimately show ?thesis by metis
qed

lemma bit_read_byte: "bit (read_byte m a) n \<longleftrightarrow> n < 8 \<and> bit (m (cell_of a)) (byte_shift a + n)"
  by (auto simp: read_byte_def bit_unsigned_iff bit_drop_bit_eq dest: bit_imp_le_length)

lemma bit_write_cell:
  fixes x :: u64 and v :: u8
  assumes "s \<le> 56"
  shows "bit ((x AND NOT (push_bit s (mask 8))) OR push_bit s (ucast v)) k \<longleftrightarrow>
         (if s \<le> k \<and> k < s + 8 then bit v (k - s) else bit x k)"
proof (cases "k < 64")
  case True
  then show ?thesis
    using assms bit_imp_le_length [of v "k - s"]
    by (auto simp: bit_or_iff bit_and_iff bit_not_iff bit_push_bit_iff bit_unsigned_iff bit_mask_iff)
next
  case False
  then have "\<not> bit x k" and "\<not> bit ((x AND NOT (push_bit s (mask 8))) OR push_bit s (ucast v)) k"
    and "\<not> k < s + 8"
    using assms by (auto dest: bit_imp_le_length)
  then show ?thesis by simp
qed

lemma read_byte_write_byte [simp]:
  "read_byte (write_byte a v m) b = (if a = b then v else read_byte m b)"
proof (cases "cell_of a = cell_of b")
  case False
  then show ?thesis by (auto simp: read_byte_def write_byte_def)
next
  case cell: True
  have disj: "a \<noteq> b \<Longrightarrow> byte_shift a + 8 \<le> byte_shift b \<or> byte_shift b + 8 \<le> byte_shift a"
    using cell_byte_eq [OF cell] unfolding byte_shift_def by presburger
  show ?thesis
  proof (rule bit_word_eqI)
    fix n assume n: "n < LENGTH(8)"
    have "bit (read_byte (write_byte a v m) b) n \<longleftrightarrow>
          (if byte_shift a \<le> byte_shift b + n \<and> byte_shift b + n < byte_shift a + 8
           then bit v (byte_shift b + n - byte_shift a) else bit (m (cell_of b)) (byte_shift b + n))"
      unfolding bit_read_byte using n cell
      by (simp add: write_byte_def bit_write_cell [OF byte_shift_bound])
    also have "\<dots> \<longleftrightarrow> bit (if a = b then v else read_byte m b) n"
      using n disj by (auto simp: bit_read_byte)
    finally show "bit (read_byte (write_byte a v m) b) n \<longleftrightarrow>
                  bit (if a = b then v else read_byte m b) n" .
  qed
qed

lemma write_byte_other_cell [frame]: "x \<noteq> cell_of a \<Longrightarrow> write_byte a v m x = m x"
  by (simp add: write_byte_def)

text \<open>Whole pages: \<open>write_bytes(page, 0, PAGE_SIZE)\<close>, \<open>PageTable::clear\<close> and
  \<open>copy_nonoverlapping(src, dst, PAGE_SIZE)\<close> on page-aligned addresses.\<close>

definition in_page :: "usize \<Rightarrow> usize \<Rightarrow> bool" where
  "in_page p x \<longleftrightarrow> x - p < PAGE_SIZE"

definition clear_page :: "usize \<Rightarrow> cells \<Rightarrow> cells" where
  "clear_page p m = (\<lambda>x. if in_page p x then 0 else m x)"

definition copy_page :: "usize \<Rightarrow> usize \<Rightarrow> cells \<Rightarrow> cells" where
  "copy_page src dst m = (\<lambda>x. if in_page dst x then m (src + (x - dst)) else m x)"

text \<open>Consecutive 64-bit stores.\<close>

fun store_words :: "usize \<Rightarrow> u64 list \<Rightarrow> cells \<Rightarrow> cells" where
  "store_words a [] m = m"
| "store_words a (w # ws) m = store_words (a + 8) ws (m(a := w))"

section \<open>The trap frame\<close>

text \<open>\<open>TrapFrame\<close> (\<open>repr(C)\<close>, 33 words of 8 bytes): x1 to x31, sstatus, sepc.\<close>

record TrapFrame =
  tf_ra :: usize  tf_sp :: usize  tf_gp :: usize  tf_tp :: usize
  tf_t0 :: usize  tf_t1 :: usize  tf_t2 :: usize  tf_s0 :: usize
  tf_s1 :: usize  tf_a0 :: usize  tf_a1 :: usize  tf_a2 :: usize
  tf_a3 :: usize  tf_a4 :: usize  tf_a5 :: usize  tf_a6 :: usize
  tf_a7 :: usize  tf_s2 :: usize  tf_s3 :: usize  tf_s4 :: usize
  tf_s5 :: usize  tf_s6 :: usize  tf_s7 :: usize  tf_s8 :: usize
  tf_s9 :: usize  tf_s10 :: usize  tf_s11 :: usize  tf_t3 :: usize
  tf_t4 :: usize  tf_t5 :: usize  tf_t6 :: usize  tf_sstatus :: usize
  tf_sepc :: usize

text \<open>\<open>TrapFrame::new\<close>.\<close>

definition trap_frame_new :: TrapFrame where
  "trap_frame_new = \<lparr>
     tf_ra = 0, tf_sp = 0, tf_gp = 0, tf_tp = 0,
     tf_t0 = 0, tf_t1 = 0, tf_t2 = 0, tf_s0 = 0,
     tf_s1 = 0, tf_a0 = 0, tf_a1 = 0, tf_a2 = 0,
     tf_a3 = 0, tf_a4 = 0, tf_a5 = 0, tf_a6 = 0,
     tf_a7 = 0, tf_s2 = 0, tf_s3 = 0, tf_s4 = 0,
     tf_s5 = 0, tf_s6 = 0, tf_s7 = 0, tf_s8 = 0,
     tf_s9 = 0, tf_s10 = 0, tf_s11 = 0, tf_t3 = 0,
     tf_t4 = 0, tf_t5 = 0, tf_t6 = 0, tf_sstatus = 0,
     tf_sepc = 0\<rparr>"

definition TRAP_FRAME_SIZE :: usize where [layout]: "TRAP_FRAME_SIZE = 264"

definition tf_words :: "TrapFrame \<Rightarrow> u64 list" where
  "tf_words f =
     [tf_ra f, tf_sp f, tf_gp f, tf_tp f, tf_t0 f, tf_t1 f, tf_t2 f, tf_s0 f,
      tf_s1 f, tf_a0 f, tf_a1 f, tf_a2 f, tf_a3 f, tf_a4 f, tf_a5 f, tf_a6 f,
      tf_a7 f, tf_s2 f, tf_s3 f, tf_s4 f, tf_s5 f, tf_s6 f, tf_s7 f, tf_s8 f,
      tf_s9 f, tf_s10 f, tf_s11 f, tf_t3 f, tf_t4 f, tf_t5 f, tf_t6 f, tf_sstatus f,
      tf_sepc f]"

definition read_tf :: "cells \<Rightarrow> usize \<Rightarrow> TrapFrame" where
  "read_tf m p = \<lparr>
     tf_ra = m p, tf_sp = m (p + 8), tf_gp = m (p + 16), tf_tp = m (p + 24),
     tf_t0 = m (p + 32), tf_t1 = m (p + 40), tf_t2 = m (p + 48), tf_s0 = m (p + 56),
     tf_s1 = m (p + 64), tf_a0 = m (p + 72), tf_a1 = m (p + 80), tf_a2 = m (p + 88),
     tf_a3 = m (p + 96), tf_a4 = m (p + 104), tf_a5 = m (p + 112), tf_a6 = m (p + 120),
     tf_a7 = m (p + 128), tf_s2 = m (p + 136), tf_s3 = m (p + 144), tf_s4 = m (p + 152),
     tf_s5 = m (p + 160), tf_s6 = m (p + 168), tf_s7 = m (p + 176), tf_s8 = m (p + 184),
     tf_s9 = m (p + 192), tf_s10 = m (p + 200), tf_s11 = m (p + 208), tf_t3 = m (p + 216),
     tf_t4 = m (p + 224), tf_t5 = m (p + 232), tf_t6 = m (p + 240), tf_sstatus = m (p + 248),
     tf_sepc = m (p + 256)\<rparr>"

definition write_tf :: "usize \<Rightarrow> TrapFrame \<Rightarrow> cells \<Rightarrow> cells" where
  "write_tf p f m = store_words p (tf_words f) m"

lemma read_write_tf [simp]: "read_tf (write_tf p f m) p = f"
  by (simp add: read_tf_def write_tf_def tf_words_def)

lemma write_read_tf [simp]: "write_tf p (read_tf m p) m = m"
  by (simp add: read_tf_def write_tf_def tf_words_def add.commute)

lemma store_words_other:
  assumes "\<And>i. i < length ws \<Longrightarrow> x \<noteq> a + 8 * of_nat i"
  shows "store_words a ws m x = m x"
  using assms
proof (induction ws arbitrary: a m)
  case (Cons w ws)
  have "x \<noteq> a" using Cons.prems [of 0] by simp
  moreover have "x \<noteq> a + 8 + 8 * of_nat i" if "i < length ws" for i
    using Cons.prems [of "Suc i"] that by (simp add: algebra_simps)
  ultimately show ?case using Cons.IH [of "a + 8"] by simp
qed simp

text \<open>The cells of a trap frame, and that a write touches no others.\<close>

definition in_tf :: "usize \<Rightarrow> usize \<Rightarrow> bool" where
  "in_tf p x \<longleftrightarrow> x - p < TRAP_FRAME_SIZE"

lemma write_tf_other [frame]:
  assumes "\<not> in_tf p x"
  shows "write_tf p f m x = m x"
  unfolding write_tf_def
proof (rule store_words_other)
  fix i assume "i < length (tf_words f)"
  then have i: "i < 33" by (simp add: tf_words_def)
  show "x \<noteq> p + 8 * of_nat i"
  proof
    assume x: "x = p + 8 * of_nat i"
    have "unat (8 * of_nat i :: usize) = 8 * i"
      using i by (simp add: unat_word_ariths unat_of_nat)
    then have "(8 * of_nat i :: usize) < 264"
      using i by (simp add: word_less_nat_alt)
    with x assms show False by (simp add: in_tf_def layout)
  qed
qed

definition disjoint_tf :: "usize \<Rightarrow> usize \<Rightarrow> bool" where
  "disjoint_tf p q \<longleftrightarrow> (\<forall>x. \<not> (in_tf p x \<and> in_tf q x))"

lemma read_tf_cong:
  assumes "\<And>x. in_tf p x \<Longrightarrow> m x = m' x"
  shows "read_tf m p = read_tf m' p"
  unfolding read_tf_def by (simp add: assms in_tf_def layout)

lemma read_tf_write_other [frame]:
  assumes "disjoint_tf p q"
  shows "read_tf (write_tf p f m) q = read_tf m q"
  using assms by (intro read_tf_cong write_tf_other) (auto simp: disjoint_tf_def)

end
