(* ===== verification/Page_Alloc.thy ===== *)
theory Page_Alloc
  imports Riscv_Machine
begin

text \<open>
  The physical page allocator, \<open>src/kernel/page.rs\<close>: a bitmap of at most 4096 pages with a
  count of free pages. The state of the global \<open>PAGE_ALLOCATOR\<close> is a \<open>PageAllocator option\<close>
  (\<open>None\<close> before \<open>init\<close>). Frames are 56-bit physical addresses, what a page-table entry can
  hold. The interface the rest of the kernel relies on is the locale \<open>frame_allocator\<close>; it is interpreted on \<open>page_alloc\<close> and \<open>page_free\<close> at the end.
\<close>

section \<open>The allocator\<close>

record PageAllocator =
  bitmap :: "u64 list"
  total_pages :: usize
  free_pages :: usize
  start_addr :: usize

definition BITMAP_SIZE :: nat where [layout]: "BITMAP_SIZE = 64"
definition MAX_PAGES :: usize where [layout]: "MAX_PAGES = 4096"

definition allocator_new :: "usize \<Rightarrow> usize \<Rightarrow> PageAllocator" where
  "allocator_new start pages = \<lparr>
     bitmap = replicate BITMAP_SIZE 0,
     total_pages = min pages MAX_PAGES,
     free_pages = min pages MAX_PAGES,
     start_addr = start\<rparr>"

text \<open>The test \<open>bitmap[i / 64] & (1 << (i % 64)) != 0\<close>.\<close>

definition page_taken :: "PageAllocator \<Rightarrow> nat \<Rightarrow> bool" where
  "page_taken a i \<longleftrightarrow> (bitmap a ! (i div 64)) AND push_bit (i mod 64) 1 \<noteq> 0"

definition allocator_alloc :: "PageAllocator \<Rightarrow> usize option \<times> PageAllocator" where
  "allocator_alloc a =
     (if free_pages a = 0 then (None, a)
      else case List.find (\<lambda>i. \<not> page_taken a i) [0..<unat (total_pages a)] of
             None \<Rightarrow> (None, a)
           | Some i \<Rightarrow>
               (Some (start_addr a + of_nat i * PAGE_SIZE),
                a\<lparr>bitmap := (bitmap a)[i div 64 := (bitmap a ! (i div 64)) OR push_bit (i mod 64) 1],
                  free_pages := free_pages a - 1\<rparr>))"

definition allocator_free :: "usize \<Rightarrow> PageAllocator \<Rightarrow> PageAllocator" where
  "allocator_free addr a =
     (if addr < start_addr a \<or> start_addr a + total_pages a * PAGE_SIZE \<le> addr then a
      else let page_idx = unat ((addr - start_addr a) div PAGE_SIZE) in
        if page_taken a page_idx then
          a\<lparr>bitmap := (bitmap a)[page_idx div 64 :=
                (bitmap a ! (page_idx div 64)) AND NOT (push_bit (page_idx mod 64) 1)],
            free_pages := free_pages a + 1\<rparr>
        else a)"

text \<open>\<open>page::init\<close>: \<open>kernel_end\<close> is the linker symbol \<open>__kernel_end\<close>.\<close>

definition page_init :: "usize \<Rightarrow> PageAllocator option" where
  "page_init kernel_end =
     (let aligned_end = (kernel_end + PAGE_SIZE - 1) AND NOT (PAGE_SIZE - 1);
          total_mem = 128 * 1024 * 1024;
          available_mem = total_mem - (aligned_end - 0x80000000);
          pages = available_mem div PAGE_SIZE
      in Some (allocator_new aligned_end pages))"

definition page_alloc :: "PageAllocator option \<Rightarrow> usize option \<times> PageAllocator option" where
  "page_alloc s = (case s of
       None \<Rightarrow> (None, None)
     | Some a \<Rightarrow> (case allocator_alloc a of (r, a') \<Rightarrow> (r, Some a')))"

definition page_free :: "usize \<Rightarrow> PageAllocator option \<Rightarrow> PageAllocator option" where
  "page_free addr s = map_option (allocator_free addr) s"

section \<open>Invariant and abstraction\<close>

definition page_index_free :: "PageAllocator \<Rightarrow> nat set" where
  "page_index_free a = {i. i < unat (total_pages a) \<and> \<not> page_taken a i}"

definition allocator_wf :: "PageAllocator \<Rightarrow> bool" where
  "allocator_wf a \<longleftrightarrow>
     length (bitmap a) = BITMAP_SIZE \<and> unat (total_pages a) \<le> unat MAX_PAGES \<and>
     unat (start_addr a) + unat (total_pages a) * unat PAGE_SIZE \<le> 2 ^ 56 \<and>
     unat PAGE_SIZE dvd unat (start_addr a) \<and>
     unat (free_pages a) = card (page_index_free a)"

definition page_addr :: "PageAllocator \<Rightarrow> nat \<Rightarrow> usize" where
  "page_addr a i = start_addr a + of_nat i * PAGE_SIZE"

definition used_frames :: "PageAllocator option \<Rightarrow> usize set" where
  "used_frames s = (case s of None \<Rightarrow> {}
     | Some a \<Rightarrow> page_addr a ` {i. i < unat (total_pages a) \<and> page_taken a i})"

definition avail_frames :: "PageAllocator option \<Rightarrow> usize set" where
  "avail_frames s = (case s of None \<Rightarrow> {} | Some a \<Rightarrow> page_addr a ` page_index_free a)"

definition frames_wf :: "PageAllocator option \<Rightarrow> bool" where
  "frames_wf s = (case s of None \<Rightarrow> True | Some a \<Rightarrow> allocator_wf a)"

lemma used_frames_code [code]:
  "used_frames s = (case s of None \<Rightarrow> {}
     | Some a \<Rightarrow> set (map (page_addr a) (filter (page_taken a) [0..<unat (total_pages a)])))"
  by (auto simp: used_frames_def split: option.split)

lemma avail_frames_code [code]:
  "avail_frames s = (case s of None \<Rightarrow> {}
     | Some a \<Rightarrow> set (map (page_addr a) (filter (\<lambda>i. \<not> page_taken a i) [0..<unat (total_pages a)])))"
  by (auto simp: avail_frames_def page_index_free_def split: option.split)

definition page_base :: "usize \<Rightarrow> usize" where
  "page_base x = x AND NOT (PAGE_SIZE - 1)"

definition page_aligned :: "usize \<Rightarrow> bool" where
  "page_aligned x \<longleftrightarrow> x mod PAGE_SIZE = 0"

lemma page_mask: "PAGE_SIZE - 1 = mask 12"
  by (simp add: layout mask_numeral)

lemma unat_page_base: "unat (page_base x) = unat x - unat x mod 4096"
  using unat_and_not_mask [of x 12] by (simp add: page_base_def page_mask)

lemma page_aligned_unat: "page_aligned x \<longleftrightarrow> 4096 dvd unat x"
  by (simp add: page_aligned_def layout word_unat_eq_iff unat_mod_distrib mod_eq_0_iff_dvd)

lemma page_base_aligned [simp]: "page_aligned (page_base x)"
  by (simp add: page_aligned_unat unat_page_base minus_mod_eq_mult_div)

lemma page_base_id: "page_aligned x \<Longrightarrow> page_base x = x"
  by (simp add: page_aligned_unat word_unat_eq_iff unat_page_base)

section \<open>Bitmap lemmas\<close>

lemma page_taken_bit: "page_taken a i \<longleftrightarrow> bit (bitmap a ! (i div 64)) (i mod 64)"
  by (simp add: page_taken_def bit_iff_and_push_bit_not_eq_0)

lemma same_bit_index: "(i::nat) div 64 = j div 64 \<Longrightarrow> i mod 64 = j mod 64 \<Longrightarrow> i = j"
  by (metis div_mult_mod_eq)

lemma bitmap_index: "i < 4096 \<Longrightarrow> length (bitmap a) = BITMAP_SIZE \<Longrightarrow> i div 64 < length (bitmap a)"
  by (simp add: layout)

lemma page_taken_set:
  assumes "length (bitmap a) = BITMAP_SIZE" and "i < 4096"
  shows "page_taken (a\<lparr>bitmap := (bitmap a)[i div 64 := (bitmap a ! (i div 64)) OR push_bit (i mod 64) 1],
                      free_pages := f\<rparr>) j \<longleftrightarrow> j = i \<or> page_taken a j"
proof (cases "i div 64 = j div 64")
  case True
  then have "j mod 64 = i mod 64 \<longleftrightarrow> j = i"
    using same_bit_index by metis
  with True bitmap_index [OF assms(2,1)] show ?thesis
    by (simp add: page_taken_bit bit_or_iff bit_exp_iff disj_commute conj_commute)
next
  case False
  then show ?thesis by (auto simp: page_taken_bit)
qed

lemma page_taken_clear:
  assumes "length (bitmap a) = BITMAP_SIZE" and "i < 4096"
  shows "page_taken (a\<lparr>bitmap := (bitmap a)[i div 64 := (bitmap a ! (i div 64)) AND NOT (push_bit (i mod 64) 1)],
                      free_pages := f\<rparr>) j \<longleftrightarrow> j \<noteq> i \<and> page_taken a j"
proof (cases "i div 64 = j div 64")
  case True
  then have "j mod 64 = i mod 64 \<longleftrightarrow> j = i"
    using same_bit_index by metis
  with True bitmap_index [OF assms(2,1)] show ?thesis
    by (simp add: page_taken_bit bit_and_iff bit_not_iff bit_exp_iff disj_commute conj_commute)
next
  case False
  then show ?thesis by (auto simp: page_taken_bit)
qed

lemma finite_page_index_free [simp]: "finite (page_index_free a)"
  by (simp add: page_index_free_def)

lemma unat_page_addr:
  assumes "allocator_wf a" and "i < unat (total_pages a)"
  shows "unat (page_addr a i) = unat (start_addr a) + i * 4096"
proof -
  have "unat (start_addr a) + i * 4096 < 2 ^ 64"
    using assms by (simp add: allocator_wf_def layout)
  moreover have "unat (of_nat i * PAGE_SIZE) = i * 4096"
    using calculation by (simp add: layout unat_word_ariths unat_of_nat)
  ultimately show ?thesis
    unfolding page_addr_def by (simp add: unat_word_ariths)
qed

lemma page_addr_inj:
  assumes "allocator_wf a" and "i < unat (total_pages a)" and "j < unat (total_pages a)"
    and "page_addr a i = page_addr a j"
  shows "i = j"
  using unat_page_addr [OF assms(1,2)] unat_page_addr [OF assms(1,3)]
  unfolding assms(4) by linarith

lemma page_addr_image_remove:
  assumes "allocator_wf a" and "i < unat (total_pages a)" and "A \<subseteq> {..<unat (total_pages a)}"
  shows "page_addr a ` (A - {i}) = page_addr a ` A - {page_addr a i}"
proof -
  have "inj_on (page_addr a) {..<unat (total_pages a)}"
    using page_addr_inj [OF assms(1)] by (auto intro: inj_onI)
  then show ?thesis
    using inj_on_image_set_diff [of "page_addr a" _ A "{i}"] assms(2,3) by auto
qed

lemma page_addr_aligned:
  assumes "allocator_wf a" and "i < unat (total_pages a)"
  shows "page_aligned (page_addr a i)"
  using assms unat_page_addr [OF assms]
  by (simp add: page_aligned_unat allocator_wf_def layout)

lemma in_range_page_index:
  assumes wf: "allocator_wf a"
    and lo: "start_addr a \<le> x" and hi: "x < start_addr a + total_pages a * PAGE_SIZE"
  defines "i \<equiv> unat ((x - start_addr a) div PAGE_SIZE)"
  shows "i < unat (total_pages a)" and "page_addr a i = page_base x"
proof -
  have sum: "unat (start_addr a + total_pages a * PAGE_SIZE) =
             unat (start_addr a) + unat (total_pages a) * 4096"
    using wf by (simp add: allocator_wf_def layout unat_word_ariths)
  have i: "i = (unat x - unat (start_addr a)) div 4096"
    using lo by (simp add: i_def layout unat_div unat_sub)
  have "unat x < unat (start_addr a) + unat (total_pages a) * 4096"
    using hi sum by (simp add: word_less_nat_alt)
  then show lt: "i < unat (total_pages a)"
    using lo by (simp add: i word_le_nat_alt less_mult_imp_div_less)
  obtain k where k: "unat (start_addr a) = 4096 * k"
    using wf by (auto simp: allocator_wf_def layout dvd_def)
  obtain d where d: "unat x = 4096 * k + d"
    using lo k by (metis word_le_nat_alt le_Suc_ex)
  have "unat (page_addr a i) = 4096 * k + d div 4096 * 4096"
    using unat_page_addr [OF wf lt] by (simp add: i k d)
  also have "\<dots> = unat (page_base x)"
    unfolding unat_page_base d mod_mult_self4 using div_mult_mod_eq [of d 4096] by linarith
  finally have "unat (page_addr a i) = unat (page_base x)" .
  then show "page_addr a i = page_base x"
    by (simp add: word_unat_eq_iff)
qed

lemma out_of_range_page_index:
  assumes wf: "allocator_wf a" and i: "i < unat (total_pages a)" and eq: "page_addr a i = page_base x"
  shows "start_addr a \<le> x" and "x < start_addr a + total_pages a * PAGE_SIZE"
proof -
  have sum: "unat (start_addr a + total_pages a * PAGE_SIZE) =
             unat (start_addr a) + unat (total_pages a) * 4096"
    using wf by (simp add: allocator_wf_def layout unat_word_ariths)
  have e: "unat x - unat x mod 4096 = unat (start_addr a) + i * 4096"
    using unat_page_addr [OF wf i] eq by (simp add: unat_page_base)
  have "unat x mod 4096 \<le> unat x" by simp
  then have x: "unat x = unat (start_addr a) + i * 4096 + unat x mod 4096"
    using e by linarith
  then show "start_addr a \<le> x"
    by (simp add: word_le_nat_alt)
  have "unat x mod 4096 < 4096" by simp
  moreover have "i * 4096 + 4096 \<le> unat (total_pages a) * 4096"
    using i by simp
  ultimately have "unat x < unat (start_addr a) + unat (total_pages a) * 4096"
    using x by linarith
  then show "x < start_addr a + total_pages a * PAGE_SIZE"
    using sum by (simp add: word_less_nat_alt)
qed

section \<open>What the operations do to the frames\<close>

lemma page_index_free_alloc:
  assumes wf: "allocator_wf a" and f: "List.find (\<lambda>i. \<not> page_taken a i) [0..<unat (total_pages a)] = Some i"
    and al: "allocator_alloc a = (Some p, a')"
  shows "p = page_addr a i" and "i \<in> page_index_free a"
    and "page_taken a' j \<longleftrightarrow> j = i \<or> page_taken a j"
    and "total_pages a' = total_pages a" and "start_addr a' = start_addr a"
    and "page_index_free a' = page_index_free a - {i}" and "allocator_wf a'"
proof -
  have i: "i < unat (total_pages a)" and ni: "\<not> page_taken a i"
    using find_upt_Some [OF f] by auto
  then have i4: "i < 4096" using wf by (simp add: allocator_wf_def layout)
  show mem: "i \<in> page_index_free a"
    using i ni by (simp add: page_index_free_def)
  have nz: "free_pages a \<noteq> 0" and p: "p = page_addr a i" and
    a': "a' = a\<lparr>bitmap := (bitmap a)[i div 64 := (bitmap a ! (i div 64)) OR push_bit (i mod 64) 1],
               free_pages := free_pages a - 1\<rparr>"
    using al f by (auto simp: allocator_alloc_def page_addr_def split: if_splits)
  have len: "length (bitmap a) = BITMAP_SIZE" using wf by (simp add: allocator_wf_def)
  show "p = page_addr a i" by (rule p)
  show tk: "page_taken a' j \<longleftrightarrow> j = i \<or> page_taken a j" for j
    unfolding a' by (rule page_taken_set [OF len i4])
  show "total_pages a' = total_pages a" and "start_addr a' = start_addr a"
    by (simp_all add: a')
  show free: "page_index_free a' = page_index_free a - {i}"
    using tk by (auto simp: page_index_free_def a')
  have "unat (free_pages a - 1) = unat (free_pages a) - 1"
    using nz by (simp add: unat_minus_one)
  also have "\<dots> = card (page_index_free a')"
    using wf mem by (simp add: free allocator_wf_def)
  finally show "allocator_wf a'"
    using wf by (simp add: allocator_wf_def a')
qed

lemma allocator_alloc_None_iff:
  assumes wf: "allocator_wf a"
  shows "fst (allocator_alloc a) = None \<longleftrightarrow> page_index_free a = {}"
proof -
  have "free_pages a = 0 \<longleftrightarrow> page_index_free a = {}"
    using wf unfolding allocator_wf_def
    by (metis card_0_eq finite_page_index_free unsigned_0 unsigned_eq_0_iff)
  moreover have "List.find (\<lambda>i. \<not> page_taken a i) [0..<unat (total_pages a)] = None \<longleftrightarrow> page_index_free a = {}"
    by (auto simp: find_None_iff page_index_free_def)
  ultimately show ?thesis
    by (auto simp: allocator_alloc_def split: option.splits)
qed

lemma allocator_alloc_None:
  "allocator_alloc a = (None, a') \<Longrightarrow> a' = a"
  by (auto simp: allocator_alloc_def split: option.splits if_splits)

lemma allocator_free_cases:
  assumes wf: "allocator_wf a"
  obtains (unused) "allocator_free x a = a" and "\<And>i. i < unat (total_pages a) \<Longrightarrow> page_taken a i \<Longrightarrow> page_addr a i \<noteq> page_base x"
  | (freed) i where "i < unat (total_pages a)" and "page_taken a i" and "page_addr a i = page_base x"
      and "\<And>j. page_taken (allocator_free x a) j \<longleftrightarrow> j \<noteq> i \<and> page_taken a j"
      and "total_pages (allocator_free x a) = total_pages a"
      and "start_addr (allocator_free x a) = start_addr a"
      and "length (bitmap (allocator_free x a)) = length (bitmap a)"
      and "free_pages (allocator_free x a) = free_pages a + 1"
proof (cases "start_addr a \<le> x \<and> x < start_addr a + total_pages a * PAGE_SIZE")
  case False
  have "allocator_free x a = a"
    using False by (auto simp: allocator_free_def not_le not_less)
  then show ?thesis
    using unused out_of_range_page_index [OF wf] False by blast
next
  case True
  then have in_bounds: "\<not> x < start_addr a" "\<not> start_addr a + total_pages a * PAGE_SIZE \<le> x"
    by (simp_all add: not_less not_le)
  define i where "i = unat ((x - start_addr a) div PAGE_SIZE)"
  have i: "i < unat (total_pages a)" and addr: "page_addr a i = page_base x"
    using in_range_page_index [OF wf] True by (simp_all add: i_def)
  have len: "length (bitmap a) = BITMAP_SIZE" and i4: "i < 4096"
    using wf i by (auto simp: allocator_wf_def layout)
  show ?thesis
  proof (cases "page_taken a i")
    case taken: True
    have eq: "allocator_free x a =
        a\<lparr>bitmap := (bitmap a)[i div 64 := (bitmap a ! (i div 64)) AND NOT (push_bit (i mod 64) 1)],
          free_pages := free_pages a + 1\<rparr>"
      using in_bounds taken by (simp add: allocator_free_def i_def [symmetric] Let_def)
    show ?thesis
      using freed [OF i taken addr] page_taken_clear [OF len i4] by (simp add: eq)
  next
    case notaken: False
    have "allocator_free x a = a"
      using notaken by (simp add: allocator_free_def i_def [symmetric] Let_def)
    moreover have "page_addr a j \<noteq> page_base x" if "j < unat (total_pages a)" "page_taken a j" for j
      using page_addr_inj [OF wf that(1) i] addr that(2) notaken by auto
    ultimately show ?thesis using unused by blast
  qed
qed

section \<open>The frame interface\<close>

text \<open>What the page-table and task code relies on: \<open>used\<close> and \<open>avail\<close> are the frames in use
  and the frames that can be handed out.\<close>

locale frame_allocator =
  fixes alloc :: "'s \<Rightarrow> usize option \<times> 's"
    and free :: "usize \<Rightarrow> 's \<Rightarrow> 's"
    and used :: "'s \<Rightarrow> usize set"
    and avail :: "'s \<Rightarrow> usize set"
    and invar :: "'s \<Rightarrow> bool"
  assumes alloc_Some: "invar s \<Longrightarrow> alloc s = (Some p, s') \<Longrightarrow>
            p \<in> avail s \<and> used s' = insert p (used s) \<and> avail s' = avail s - {p} \<and> invar s'"
    and alloc_None: "invar s \<Longrightarrow> alloc s = (None, s') \<Longrightarrow> s' = s \<and> avail s = {}"
    and used_avail_disjoint: "invar s \<Longrightarrow> used s \<inter> avail s = {}"
    and finite_avail: "invar s \<Longrightarrow> finite (avail s)"
    and frames_aligned: "invar s \<Longrightarrow> p \<in> used s \<union> avail s \<Longrightarrow> page_aligned p"
    and free_used: "invar s \<Longrightarrow> used (free x s) = used s - {page_base x}"
    and free_avail: "invar s \<Longrightarrow> avail (free x s) = avail s \<union> (used s \<inter> {page_base x})"
    and free_invar: "invar s \<Longrightarrow> invar (free x s)"

text \<open>\<open>n\<close> calls of an allocator, until one fails.\<close>

fun alloc_seq :: "('s \<Rightarrow> usize option \<times> 's) \<Rightarrow> nat \<Rightarrow> 's \<Rightarrow> usize list \<times> 's" where
  "alloc_seq al 0 s = ([], s)"
| "alloc_seq al (Suc n) s =
     (case al s of
        (None, s') \<Rightarrow> ([], s')
      | (Some p, s') \<Rightarrow> (case alloc_seq al n s' of (ps, s'') \<Rightarrow> (p # ps, s'')))"

text \<open>Any sequence of the two operations.\<close>

datatype frame_op = AllocFrame | FreeFrame usize

definition frame_step :: "('s \<Rightarrow> usize option \<times> 's) \<Rightarrow> (usize \<Rightarrow> 's \<Rightarrow> 's) \<Rightarrow> frame_op \<Rightarrow> 's \<Rightarrow> 's" where
  [simp]: "frame_step al fr op s = (case op of AllocFrame \<Rightarrow> snd (al s) | FreeFrame x \<Rightarrow> fr x s)"

context frame_allocator
begin

lemma alloc_fresh:
  assumes "invar s" and "alloc s = (Some p, s')"
  shows "p \<notin> used s" and "p \<in> avail s" and "used s' = insert p (used s)"
    and "avail s' = avail s - {p}" and "invar s'" and "page_aligned p"
  using assms alloc_Some used_avail_disjoint frames_aligned by blast+

lemma alloc_seq_spec:
  assumes "invar s" and "alloc_seq alloc n s = (ps, s')"
  shows "distinct ps \<and> set ps \<subseteq> avail s \<and> used s' = used s \<union> set ps \<and>
         avail s' = avail s - set ps \<and> invar s' \<and> length ps = min n (card (avail s))"
  using assms
proof (induction n arbitrary: s ps)
  case 0
  then show ?case by simp
next
  case (Suc n)
  show ?case
  proof (cases "alloc s")
    case (Pair r s1)
    show ?thesis
    proof (cases r)
      case None
      then show ?thesis
        using Suc.prems Pair alloc_None [OF Suc.prems(1)] by auto
    next
      case (Some p)
      note fresh = alloc_fresh [OF Suc.prems(1) Pair [unfolded Some]]
      obtain qs where qs: "alloc_seq alloc n s1 = (qs, s')" and ps: "ps = p # qs"
        using Suc.prems(2) Pair Some by (auto split: prod.splits)
      have ih: "distinct qs \<and> set qs \<subseteq> avail s1 \<and> used s' = used s1 \<union> set qs \<and>
         avail s' = avail s1 - set qs \<and> invar s' \<and> length qs = min n (card (avail s1))"
        by (rule Suc.IH [OF fresh(5) qs])
      have "card (avail s) = Suc (card (avail s1))"
        using fresh(2,4) finite_avail [OF Suc.prems(1)] by (metis card.remove)
      then show ?thesis using ih fresh ps by auto
    qed
  qed
qed

lemma free_list_used:
  assumes "invar s" and "\<And>p. p \<in> set ps \<Longrightarrow> page_aligned p"
  shows "used (fold free ps s) = used s - set ps \<and> invar (fold free ps s)"
  using assms
proof (induction ps arbitrary: s)
  case (Cons p ps)
  have "page_base p = p" using Cons.prems(2) page_base_id by simp
  with Cons.IH [of "free p s"] Cons.prems free_used free_invar show ?case by auto
qed simp

lemma step_invar:
  assumes "invar s"
  shows "invar (frame_step alloc free op s)" and "used (frame_step alloc free op s) \<union> avail (frame_step alloc free op s) = used s \<union> avail s"
proof -
  have "invar (frame_step alloc free op s) \<and>
        used (frame_step alloc free op s) \<union> avail (frame_step alloc free op s) = used s \<union> avail s"
  proof (cases op)
    case AllocFrame
    obtain r s' where a: "alloc s = (r, s')" by (cases "alloc s")
    show ?thesis
    proof (cases r)
      case None
      then show ?thesis using alloc_None [OF assms] a AllocFrame assms by simp
    next
      case (Some p)
      then show ?thesis using alloc_Some [OF assms] a AllocFrame by auto
    qed
  next
    case (FreeFrame x)
    then show ?thesis using assms free_used free_avail free_invar by auto
  qed
  then show "invar (frame_step alloc free op s)"
    and "used (frame_step alloc free op s) \<union> avail (frame_step alloc free op s) = used s \<union> avail s" by auto
qed

lemma run_invar:
  assumes "invar s"
  shows "invar (fold (frame_step alloc free) ops s) \<and>
         used (fold (frame_step alloc free) ops s) \<union> avail (fold (frame_step alloc free) ops s) = used s \<union> avail s"
  using assms by (induction ops arbitrary: s) (use step_invar in auto)

lemma alloc_seq_free_all:
  assumes "invar s" and "alloc_seq alloc n s = (ps, s')"
  shows "used (fold free ps s') = used s"
proof -
  note spec = alloc_seq_spec [OF assms]
  then have "page_aligned p" if "p \<in> set ps" for p
    using that frames_aligned [OF assms(1)] by blast
  moreover have "set ps \<inter> used s = {}"
    using spec used_avail_disjoint [OF assms(1)] by blast
  ultimately show ?thesis
    using spec free_list_used [of s' ps] by blast
qed

end

lemma page_alloc_Some:
  assumes wf: "frames_wf s" and al: "page_alloc s = (Some p, s')"
  shows "p \<in> avail_frames s \<and> used_frames s' = insert p (used_frames s) \<and>
         avail_frames s' = avail_frames s - {p} \<and> frames_wf s'"
proof -
  obtain a a' where s: "s = Some a" "s' = Some a'" and aa: "allocator_alloc a = (Some p, a')"
    using al by (auto simp: page_alloc_def split: option.splits prod.splits)
  have wa: "allocator_wf a" using wf s by (simp add: frames_wf_def)
  obtain i where f: "List.find (\<lambda>i. \<not> page_taken a i) [0..<unat (total_pages a)] = Some i"
    using aa by (auto simp: allocator_alloc_def split: if_splits option.splits)
  note facts = page_index_free_alloc [OF wa f aa]
  have addr: "page_addr a' = page_addr a"
    using facts(4,5) by (simp add: page_addr_def fun_eq_iff)
  have "i < unat (total_pages a)" using facts(2) by (simp add: page_index_free_def)
  then have "page_addr a ` (page_index_free a - {i}) = page_addr a ` page_index_free a - {page_addr a i}"
    by (rule page_addr_image_remove [OF wa]) (auto simp: page_index_free_def)
  moreover have "{j. j < unat (total_pages a) \<and> page_taken a' j} =
                 insert i {j. j < unat (total_pages a) \<and> page_taken a j}"
    using facts(2,3) by (auto simp: page_index_free_def)
  ultimately show ?thesis
    using facts by (simp add: s used_frames_def avail_frames_def frames_wf_def addr)
qed

lemma page_alloc_None:
  assumes wf: "frames_wf s" and al: "page_alloc s = (None, s')"
  shows "s' = s \<and> avail_frames s = {}"
proof (cases s)
  case None
  then show ?thesis using al by (simp add: page_alloc_def avail_frames_def)
next
  case (Some a)
  then obtain a' where a': "allocator_alloc a = (None, a')" "s' = Some a'"
    using al by (auto simp: page_alloc_def split: prod.splits)
  then show ?thesis
    using allocator_alloc_None [OF a'(1)] allocator_alloc_None_iff [of a] wf Some
    by (simp add: avail_frames_def frames_wf_def)
qed

lemma page_free_frames:
  assumes wf: "frames_wf s"
  shows "used_frames (page_free x s) = used_frames s - {page_base x}"
    and "avail_frames (page_free x s) = avail_frames s \<union> (used_frames s \<inter> {page_base x})"
    and "frames_wf (page_free x s)"
proof -
  have "used_frames (page_free x s) = used_frames s - {page_base x} \<and>
        avail_frames (page_free x s) = avail_frames s \<union> (used_frames s \<inter> {page_base x}) \<and>
        frames_wf (page_free x s)"
  proof (cases s)
    case None
    then show ?thesis by (simp add: page_free_def used_frames_def avail_frames_def frames_wf_def)
  next
    case (Some a)
    then have wa: "allocator_wf a" using wf by (simp add: frames_wf_def)
    from wa show ?thesis
    proof (cases rule: allocator_free_cases [where x = x])
      case unused
      then show ?thesis
        using Some wa by (auto simp: page_free_def used_frames_def avail_frames_def frames_wf_def)
    next
      case (freed i)
      let ?b = "allocator_free x a"
      have addr: "page_addr ?b = page_addr a"
        using freed by (simp add: page_addr_def fun_eq_iff)
      have idx: "page_index_free ?b = insert i (page_index_free a)"
        using freed by (auto simp: page_index_free_def)
      have ni: "i \<notin> page_index_free a" using freed by (simp add: page_index_free_def)
      have "card (page_index_free a) < 2 ^ 64 - 1"
      proof -
        have "card (page_index_free a) \<le> card {..<unat (total_pages a)}"
          by (rule card_mono) (auto simp: page_index_free_def)
        then show ?thesis using wa by (simp add: allocator_wf_def layout)
      qed
      then have "unat (free_pages a + 1) = Suc (unat (free_pages a))"
        using wa by (simp add: allocator_wf_def unat_word_ariths)
      then have "allocator_wf ?b"
        using wa freed idx ni by (simp add: allocator_wf_def)
      moreover have "{j. j < unat (total_pages a) \<and> page_taken ?b j} =
                     {j. j < unat (total_pages a) \<and> page_taken a j} - {i}"
        using freed(4) by auto
      moreover have "page_addr a ` ({j. j < unat (total_pages a) \<and> page_taken a j} - {i}) =
                     page_addr a ` {j. j < unat (total_pages a) \<and> page_taken a j} - {page_base x}"
        unfolding freed(3) [symmetric] by (rule page_addr_image_remove [OF wa freed(1)]) auto
      moreover have "page_addr a ` {j. j < unat (total_pages a) \<and> page_taken a j} \<inter> {page_base x} =
                     {page_addr a i}"
        unfolding freed(3) [symmetric] using freed(1,2) by blast
      ultimately show ?thesis
        by (simp add: Some page_free_def used_frames_def avail_frames_def frames_wf_def addr idx freed(5))
    qed
  qed
  then show "used_frames (page_free x s) = used_frames s - {page_base x}"
    and "avail_frames (page_free x s) = avail_frames s \<union> (used_frames s \<inter> {page_base x})"
    and "frames_wf (page_free x s)" by auto
qed

lemma used_avail_frames_disjoint:
  assumes "frames_wf s"
  shows "used_frames s \<inter> avail_frames s = {}"
proof (cases s)
  case (Some a)
  then have "allocator_wf a" using assms by (simp add: frames_wf_def)
  then show ?thesis
    using page_addr_inj [of a]
    by (auto simp: Some used_frames_def avail_frames_def page_index_free_def dest!: page_addr_inj)
qed (simp add: used_frames_def)

lemma all_frames_aligned:
  assumes "frames_wf s" and "p \<in> used_frames s \<union> avail_frames s"
  shows "page_aligned p"
  using assms page_addr_aligned
  by (auto simp: used_frames_def avail_frames_def frames_wf_def page_index_free_def split: option.splits)

interpretation frames: frame_allocator page_alloc page_free used_frames avail_frames frames_wf
proof unfold_locales
  show "finite (avail_frames s)" for s
    by (simp add: avail_frames_def split: option.splits)
qed (fact page_alloc_Some page_alloc_None used_avail_frames_disjoint all_frames_aligned page_free_frames)+

section \<open>Initialisation\<close>

lemma page_index_free_new: "page_index_free (allocator_new start n) = {..<unat (min n MAX_PAGES)}"
proof -
  have "\<not> page_taken (allocator_new start n) i" if "i < unat (min n MAX_PAGES)" for i
  proof -
    have "i < 4096" using that by (simp add: layout min_def word_le_nat_alt split: if_splits)
    then show ?thesis by (simp add: page_taken_bit allocator_new_def layout)
  qed
  then show ?thesis by (auto simp: page_index_free_def allocator_new_def)
qed

lemma allocator_new_wf:
  assumes "page_aligned start" and "unat start + unat (min n MAX_PAGES) * 4096 \<le> 2 ^ 56"
  shows "allocator_wf (allocator_new start n)"
proof -
  have "unat (min n MAX_PAGES) \<le> 4096"
    by (simp add: layout min_def word_le_nat_alt)
  moreover have "unat (free_pages (allocator_new start n)) = card (page_index_free (allocator_new start n))"
    unfolding page_index_free_new by (simp add: allocator_new_def)
  ultimately show ?thesis
    using assms by (simp add: allocator_wf_def page_aligned_unat layout allocator_new_def)
qed

text \<open>The kernel image ends inside the 128 MiB of memory from \<open>0x80000000\<close>.\<close>

definition kernel_end_ok :: "usize \<Rightarrow> bool" where
  "kernel_end_ok e \<longleftrightarrow> 0x80000000 \<le> e \<and> e \<le> 0x88000000"

lemma page_init_new:
  assumes "kernel_end_ok e"
  obtains s n where "page_init e = Some (allocator_new s n)" and "page_aligned s" and "unat e \<le> unat s"
    and "unat s + unat n * 4096 = 0x88000000" and "unat s < unat e + 4096"
proof -
  define s where "s = (e + PAGE_SIZE - 1) AND NOT (PAGE_SIZE - 1)"
  define n where "n = (128 * 1024 * 1024 - (s - 0x80000000)) div PAGE_SIZE"
  have e: "0x80000000 \<le> unat e" "unat e \<le> 0x88000000"
    using assms by (simp_all add: kernel_end_ok_def word_le_nat_alt)
  have "unat (e + 4095) = unat e + 4095" using e by (simp add: unat_word_ariths)
  then have us: "unat s = unat e + 4095 - (unat e + 4095) mod 4096"
    using unat_page_base [of "e + 4095"] by (simp add: s_def page_base_def layout add.commute)
  have al: "page_aligned s" by (simp add: s_def flip: page_base_def)
  have "(unat e + 4095) mod 4096 \<le> 4095" by simp
  then have lo: "unat e \<le> unat s" unfolding us by linarith
  have "(unat e + 4095) div 4096 \<le> (0x88000000 + 4095) div 4096"
    by (rule div_le_mono) (use e(2) in simp)
  then have hi: "unat s \<le> 0x88000000" by (simp add: us minus_mod_eq_mult_div)
  have "unat (s - 0x80000000) = unat s - 0x80000000"
    using lo e by (simp add: unat_sub word_le_nat_alt)
  then have "unat (128 * 1024 * 1024 - (s - 0x80000000)) = 0x88000000 - unat s"
    using lo e hi by (simp add: unat_sub word_le_nat_alt)
  then have "unat n = (0x88000000 - unat s) div 4096" by (simp add: n_def layout unat_div)
  moreover have "4096 dvd 0x88000000 - unat s"
    using al by (intro dvd_diff_nat) (simp_all add: page_aligned_unat)
  ultimately have "unat s + unat n * 4096 = 0x88000000" using hi by simp
  moreover have "page_init e = Some (allocator_new s n)"
    by (simp add: page_init_def s_def n_def Let_def)
  moreover have "unat s < unat e + 4096" unfolding us by simp
  ultimately show ?thesis using that al lo by blast
qed

lemma page_init_wf:
  assumes "kernel_end_ok e"
  shows "frames_wf (page_init e)" and "used_frames (page_init e) = {}"
    and "p \<in> avail_frames (page_init e) \<Longrightarrow> e \<le> p \<and> unat p + 4096 \<le> 0x88000000"
proof -
  obtain s n where sn: "page_init e = Some (allocator_new s n)" "page_aligned s" "unat e \<le> unat s"
    "unat s + unat n * 4096 = 0x88000000" using page_init_new [OF assms] .
  have le: "unat (min n MAX_PAGES) \<le> unat n" by (simp add: min_def word_le_nat_alt)
  then have bound: "unat s + unat (min n MAX_PAGES) * 4096 \<le> 0x88000000" using sn(4) by linarith
  then have wf: "allocator_wf (allocator_new s n)" by (intro allocator_new_wf [OF sn(2)]) simp
  then show "frames_wf (page_init e)" by (simp add: sn(1) frames_wf_def)
  have tot: "unat (total_pages (allocator_new s n)) = unat (min n MAX_PAGES)" by (simp add: allocator_new_def)
  show "used_frames (page_init e) = {}"
    using page_index_free_new [of s n] by (auto simp: sn(1) used_frames_def page_index_free_def tot)
  show "e \<le> p \<and> unat p + 4096 \<le> 0x88000000" if p: "p \<in> avail_frames (page_init e)"
  proof -
    obtain i where i: "i < unat (min n MAX_PAGES)" "p = page_addr (allocator_new s n) i"
      using p by (auto simp: sn(1) avail_frames_def page_index_free_new)
    have "unat p = unat s + i * 4096"
      using unat_page_addr [OF wf, of i] i tot by (simp add: allocator_new_def)
    then show ?thesis using sn(3) bound i(1) by (simp add: word_le_nat_alt)
  qed
qed

section \<open>Properties of the allocator\<close>

text \<open>C4: From initialisation on, whatever sequence of \<open>alloc\<close> and \<open>free\<close> calls is made, with any
  addresses, the bitmap and the free counter stay consistent (\<open>free_pages\<close> is the number of clear
  bits), and the frames in use and the free frames together are the frames of the start, all of
  them between the end of the kernel image and the end of memory.\<close>

theorem page_allocator_invariant:
  assumes "kernel_end_ok e" and "s = fold (frame_step page_alloc page_free) ops (page_init e)"
  shows "frames_wf s \<and> used_frames s \<union> avail_frames s = avail_frames (page_init e) \<and>
         used_frames s \<inter> avail_frames s = {} \<and>
         (\<forall>p \<in> used_frames s \<union> avail_frames s. e \<le> p \<and> unat p + unat PAGE_SIZE \<le> 0x88000000)"
proof -
  note init = page_init_wf [OF assms(1)]
  have "frames_wf s \<and> used_frames s \<union> avail_frames s = avail_frames (page_init e)"
    using frames.run_invar [OF init(1), of ops] unfolding assms(2) init(2) by simp
  then show ?thesis
    using init(3) used_avail_frames_disjoint by (auto simp: layout)
qed

theorem page_allocator_invariant_witness:
  "frames_wf (fold (frame_step page_alloc page_free) [AllocFrame, FreeFrame 0x80400010, FreeFrame 3] (page_init 0x80400000))"
  by (rule page_allocator_invariant [THEN conjunct1, of "0x80400000", OF _ refl]) (simp add: kernel_end_ok_def)

text \<open>\<open>n\<close> calls of \<open>alloc\<close> return distinct page-aligned frames that were free, exactly as many
  as there are free frames if fewer than \<open>n\<close>; and giving them all back frees exactly these.\<close>

lemma page_alloc_sequence:
  assumes "frames_wf s" and "alloc_seq page_alloc n s = (ps, s')"
  shows "distinct ps \<and> set ps \<subseteq> avail_frames s \<and> (\<forall>p \<in> set ps. page_aligned p) \<and>
         length ps = min n (card (avail_frames s)) \<and>
         used_frames s' = used_frames s \<union> set ps \<and> used_frames (fold page_free ps s') = used_frames s"
  using frames.alloc_seq_spec [OF assms] frames.alloc_seq_free_all [OF assms] all_frames_aligned [OF assms(1)]
  by blast

end
