(* ===== verification/Page_Table.thy ===== *)
theory Page_Table
  imports Page_Alloc
begin

text \<open>
  Sv39 page tables, \<open>src/kernel/pgtable.rs\<close>. A page table is the address of a 4 KiB page of
  512 entries in physical memory; a pointer to an entry is the address of its cell. The state
  is physical memory with the page allocator. The hardware translation buffer is not modelled
  (\<open>sfence_vma\<close> has no effect on memory).
\<close>

section \<open>Kernel memory\<close>

record kmem =
  phys :: cells
  pages :: "PageAllocator option"

definition load64 :: "kmem \<Rightarrow> usize \<Rightarrow> u64" where
  "load64 k a = phys k a"

definition store64 :: "usize \<Rightarrow> u64 \<Rightarrow> kmem \<Rightarrow> kmem" where
  "store64 a v k = k\<lparr>phys := (phys k)(a := v)\<rparr>"

text \<open>\<open>page::alloc\<close> and \<open>page::free\<close> on the kernel state.\<close>

definition k_alloc :: "kmem \<Rightarrow> usize option \<times> kmem" where
  "k_alloc k = (case page_alloc (pages k) of (r, s) \<Rightarrow> (r, k\<lparr>pages := s\<rparr>))"

definition k_free :: "usize \<Rightarrow> kmem \<Rightarrow> kmem" where
  "k_free a k = k\<lparr>pages := page_free a (pages k)\<rparr>"

section \<open>Entries\<close>

definition pte_to_pa :: "usize \<Rightarrow> usize" where
  "pte_to_pa pte = push_bit PAGE_SHIFT (drop_bit 10 pte AND 0x0FFFFFFFFFFF)"

definition pa_to_pte :: "usize \<Rightarrow> usize \<Rightarrow> usize" where
  "pa_to_pte pa flags = push_bit 10 (drop_bit PAGE_SHIFT pa) OR flags"

definition vpn :: "nat \<Rightarrow> usize \<Rightarrow> usize" where
  "vpn level va = drop_bit (12 + 9 * level) va AND 0x1FF"

definition pte_addr :: "usize \<Rightarrow> usize \<Rightarrow> usize" where
  "pte_addr t idx = t + 8 * idx"

section \<open>Operations\<close>

definition pt_create :: "kmem \<Rightarrow> usize option \<times> kmem" where
  "pt_create k = (case k_alloc k of
       (None, k') \<Rightarrow> (None, k')
     | (Some a, k') \<Rightarrow> (Some a, k'\<lparr>phys := clear_page a (phys k')\<rparr>))"

text \<open>\<open>walk\<close>: the loop over the levels 2 and 1, with the indices still to be followed.\<close>

fun walk_loop :: "usize list \<Rightarrow> usize \<Rightarrow> bool \<Rightarrow> kmem \<Rightarrow> usize option \<times> kmem" where
  "walk_loop [] t allocp k = (Some t, k)"
| "walk_loop (idx # rest) t allocp k =
     (let pte = load64 k (pte_addr t idx) in
      if pte AND PTE_V = 0 then
        (if allocp then
           (case pt_create k of
              (None, k') \<Rightarrow> (None, k')
            | (Some new_pt, k') \<Rightarrow>
                walk_loop rest new_pt allocp (store64 (pte_addr t idx) (pa_to_pte new_pt PTE_V) k'))
         else (None, k))
      else if pte AND (PTE_R OR PTE_W OR PTE_X) \<noteq> 0 then (None, k)
      else walk_loop rest (pte_to_pa pte) allocp k)"

definition walk :: "usize \<Rightarrow> usize \<Rightarrow> bool \<Rightarrow> kmem \<Rightarrow> usize option \<times> kmem" where
  "walk pt va allocp k =
     (case walk_loop [vpn 2 va, vpn 1 va] pt allocp k of
        (None, k') \<Rightarrow> (None, k')
      | (Some t, k') \<Rightarrow> (Some (pte_addr t (vpn 0 va)), k'))"

text \<open>The loop of \<open>map\<close>, over the page indices still to be mapped.\<close>

fun map_loop :: "usize \<Rightarrow> usize \<Rightarrow> usize \<Rightarrow> usize \<Rightarrow> nat list \<Rightarrow> kmem \<Rightarrow> unit result \<times> kmem" where
  "map_loop pt va pa flags [] k = (Ok (), k)"
| "map_loop pt va pa flags (i # is) k =
     (case walk pt (va + of_nat i * PAGE_SIZE) True k of
        (None, k') \<Rightarrow> (Err, k')
      | (Some pte, k') \<Rightarrow>
          if load64 k' pte AND PTE_V \<noteq> 0 then (Err, k')
          else map_loop pt va pa flags is
                 (store64 pte (pa_to_pte (pa + of_nat i * PAGE_SIZE) (flags OR PTE_V)) k'))"

definition pt_map :: "usize \<Rightarrow> usize \<Rightarrow> usize \<Rightarrow> usize \<Rightarrow> usize \<Rightarrow> kmem \<Rightarrow> unit result \<times> kmem" where
  "pt_map pt va pa sz flags k =
     (if sz = 0 \<or> va mod PAGE_SIZE \<noteq> 0 \<or> pa mod PAGE_SIZE \<noteq> 0 then (Err, k)
      else map_loop pt va pa flags [0..<unat (sz div PAGE_SIZE)] k)"

fun set_flags_loop :: "usize \<Rightarrow> usize \<Rightarrow> usize \<Rightarrow> nat list \<Rightarrow> kmem \<Rightarrow> unit result \<times> kmem" where
  "set_flags_loop pt va flags [] k = (Ok (), k)"
| "set_flags_loop pt va flags (i # is) k =
     (case walk pt (va + of_nat i * PAGE_SIZE) False k of
        (None, k') \<Rightarrow> (Err, k')
      | (Some pte, k') \<Rightarrow>
          if load64 k' pte AND PTE_V = 0 then (Err, k')
          else set_flags_loop pt va flags is
                 (store64 pte (pa_to_pte (pte_to_pa (load64 k' pte)) (flags OR PTE_V)) k'))"

definition set_flags :: "usize \<Rightarrow> usize \<Rightarrow> usize \<Rightarrow> usize \<Rightarrow> kmem \<Rightarrow> unit result \<times> kmem" where
  "set_flags pt va sz flags k =
     (if sz = 0 \<or> va mod PAGE_SIZE \<noteq> 0 \<or> sz mod PAGE_SIZE \<noteq> 0 then (Err, k)
      else set_flags_loop pt va flags [0..<unat (sz div PAGE_SIZE)] k)"

fun unmap_loop :: "usize \<Rightarrow> usize \<Rightarrow> bool \<Rightarrow> nat list \<Rightarrow> kmem \<Rightarrow> unit result \<times> kmem" where
  "unmap_loop pt va free_page [] k = (Ok (), k)"
| "unmap_loop pt va free_page (i # is) k =
     (case walk pt (va + of_nat i * PAGE_SIZE) False k of
        (None, k') \<Rightarrow> (Err, k')
      | (Some pte, k') \<Rightarrow>
          if load64 k' pte AND PTE_V = 0 then unmap_loop pt va free_page is k'
          else unmap_loop pt va free_page is
                 (store64 pte 0 (if free_page then k_free (pte_to_pa (load64 k' pte)) k' else k')))"

definition unmap :: "usize \<Rightarrow> usize \<Rightarrow> usize \<Rightarrow> bool \<Rightarrow> kmem \<Rightarrow> unit result \<times> kmem" where
  "unmap pt va sz free_page k =
     (if sz = 0 \<or> va mod PAGE_SIZE \<noteq> 0 then (Err, k)
      else unmap_loop pt va free_page [0..<unat (sz div PAGE_SIZE)] k)"

definition virt_to_phys :: "usize \<Rightarrow> usize \<Rightarrow> kmem \<Rightarrow> usize option" where
  "virt_to_phys pt va k =
     (case walk pt va False k of
        (None, _) \<Rightarrow> None
      | (Some p, _) \<Rightarrow>
          (let pte = load64 k p in
           if pte AND PTE_V = 0 then None
           else Some (pte_to_pa pte + (va AND (PAGE_SIZE - 1)))))"

text \<open>\<open>free_walk\<close>: the recursion has no bound in the code; the first argument bounds its depth,
  and \<open>None\<close> is a recursion deeper than that.\<close>

fun fold_opt :: "('a \<Rightarrow> 's \<Rightarrow> 's option) \<Rightarrow> 'a list \<Rightarrow> 's \<Rightarrow> 's option" where
  "fold_opt f [] s = Some s"
| "fold_opt f (x # xs) s = (case f x s of None \<Rightarrow> None | Some s' \<Rightarrow> fold_opt f xs s')"

primrec free_walk :: "nat \<Rightarrow> usize \<Rightarrow> kmem \<Rightarrow> kmem option" where
  "free_walk 0 pt k = None"
| "free_walk (Suc depth) pt k =
     fold_opt (\<lambda>i k.
         let pte = load64 k (pte_addr pt (of_nat i)) in
         if pte AND PTE_V \<noteq> 0 \<and> pte AND (PTE_R OR PTE_W OR PTE_X) = 0 then
           map_option (k_free (pte_to_pa pte)) (free_walk depth (pte_to_pa pte) k)
         else Some k)
       [0..<512] k"

text \<open>Sv39 has three levels of tables.\<close>

definition PT_LEVELS :: nat where [layout]: "PT_LEVELS = 3"

definition pt_free :: "usize \<Rightarrow> kmem \<Rightarrow> kmem option" where
  "pt_free pt k = map_option (k_free pt) (free_walk PT_LEVELS pt k)"

section \<open>Entry encoding\<close>

lemma mask_44: "(0x0FFFFFFFFFFF :: usize) = mask 44"
  by (simp add: mask_numeral)

lemma mask_9: "(0x1FF :: usize) = mask 9"
  by (simp add: mask_numeral)

lemma bit_less_exp:
  fixes x :: usize
  assumes "x < 2 ^ n" and "n < 64"
  shows "bit x m \<Longrightarrow> m < n"
proof -
  assume b: "bit x m"
  have "x AND mask n = x"
    using assms by (simp add: mask_eq_iff word_2p_lem word_size)
  with b show "m < n" by (metis bit_and_iff bit_mask_iff)
qed

lemma page_aligned_bits: "page_aligned x \<Longrightarrow> bit x n \<Longrightarrow> 12 \<le> n"
proof -
  assume a: "page_aligned x" and b: "bit x n"
  have "take_bit 12 x = 0"
    using a by (simp add: page_aligned_def take_bit_eq_mod layout)
  with b show ?thesis by (metis bit_take_bit_iff bit_0_eq bot_apply bot_bool_def not_le)
qed

lemma bit_pa_to_pte:
  "bit (pa_to_pte pa flags) n \<longleftrightarrow> (10 \<le> n \<and> n < 64 \<and> bit pa (n + 2)) \<or> bit flags n"
  by (auto simp: pa_to_pte_def bit_or_iff bit_push_bit_iff bit_drop_bit_eq layout algebra_simps
           dest: bit_imp_le_length)

lemma bit_pte_to_pa:
  "bit (pte_to_pa pte) n \<longleftrightarrow> 12 \<le> n \<and> n < 56 \<and> bit pte (n - 2)"
proof (cases "12 \<le> n")
  case True
  then obtain j where "n = 12 + j" by (auto simp: le_iff_add)
  then show ?thesis
    by (auto simp: pte_to_pa_def mask_44 bit_push_bit_iff bit_and_iff bit_mask_iff bit_drop_bit_eq layout
             dest: bit_imp_le_length)
qed (simp add: pte_to_pa_def bit_push_bit_iff bit_and_iff layout)

lemma pte_to_pa_aligned [simp]: "page_aligned (pte_to_pa pte)"
proof -
  have "take_bit 12 (pte_to_pa pte) = 0"
    by (rule bit_word_eqI) (simp add: bit_take_bit_iff bit_pte_to_pa)
  then show ?thesis by (simp add: page_aligned_def take_bit_eq_mod layout)
qed

lemma pte_roundtrip:
  assumes "page_aligned pa" and "pa < 2 ^ 56" and "flags < 2 ^ 10"
  shows "pte_to_pa (pa_to_pte pa flags) = pa"
proof (rule bit_word_eqI)
  fix n assume "n < LENGTH(64)"
  have "\<not> bit flags (n - 2)" if "12 \<le> n"
    using bit_less_exp [OF assms(3)] that by fastforce
  moreover have "bit pa n \<Longrightarrow> 12 \<le> n \<and> n < 56"
    using page_aligned_bits [OF assms(1)] bit_less_exp [OF assms(2)] by auto
  moreover have "n - 2 + 2 = n" if "12 \<le> n" using that by simp
  ultimately show "bit (pte_to_pa (pa_to_pte pa flags)) n \<longleftrightarrow> bit pa n"
    unfolding bit_pte_to_pa bit_pa_to_pte by auto
qed

lemma pa_to_pte_flags:
  assumes "f < 2 ^ 10"
  shows "pa_to_pte pa flags AND f = flags AND f"
proof (rule bit_word_eqI)
  fix n
  show "bit (pa_to_pte pa flags AND f) n \<longleftrightarrow> bit (flags AND f) n"
    using bit_less_exp [OF assms, of n] by (auto simp: bit_and_iff bit_pa_to_pte)
qed

end
