(* ===== verification/Page_Table_Tree.thy ===== *)
theory Page_Table_Tree
  imports Page_Table
begin

text \<open>
  Correctness of the page-table operations. A page table is read as a tree: a node is a table
  page reached from the root along a path of indices, and \<open>leaf\<close> is the valid entry that
  translates an address. The invariant \<open>pt_wf\<close> says that the tables reached along different
  paths are different frames in use; under it \<open>map\<close>, \<open>set_flags\<close> and \<open>unmap\<close> change \<open>leaf\<close> at
  the pages they are asked to change and nowhere else, and freeing a table returns exactly its
  nodes to the allocator.
\<close>

section \<open>Pages as sets of cells\<close>

lemma page_aligned_le: "page_aligned t \<Longrightarrow> unat t + 4096 \<le> 2 ^ 64"
proof -
  assume "page_aligned t"
  then obtain c where c: "unat t = 4096 * c" by (auto simp: page_aligned_unat dvd_def)
  have "unat t < 2 ^ 64" using unsigned_less [of t] by simp
  then have "c < 2 ^ 52" using c by simp
  then show ?thesis using c by simp
qed

lemma in_page_iff:
  assumes "page_aligned t"
  shows "in_page t x \<longleftrightarrow> page_base x = t"
proof
  assume "in_page t x"
  then have d: "unat (x - t) < 4096" by (simp add: in_page_def layout word_less_nat_alt)
  have "unat (t + (x - t)) = unat t + unat (x - t)"
    by (rule unat_add_lem [THEN iffD1]) (use d page_aligned_le [OF assms] in simp)
  then have x: "unat x = unat t + unat (x - t)" by simp
  obtain c where "unat t = 4096 * c" using assms by (auto simp: page_aligned_unat dvd_def)
  then have "unat x mod 4096 = unat (x - t)" using x d by simp
  then have "unat (page_base x) = unat t" using x by (simp add: unat_page_base)
  then show "page_base x = t" by (simp add: word_unat_eq_iff)
next
  assume t: "page_base x = t"
  have "x - page_base x = x AND mask 12"
    using and_mask_plus_and_not_mask [of x 12] by (simp add: page_base_def page_mask algebra_simps)
  moreover have "x AND mask 12 < 2 ^ 12"
    by (rule and_mask_less') simp
  ultimately show "in_page t x" by (simp add: in_page_def layout flip: t)
qed

lemma unat_pte_addr:
  assumes "page_aligned t" and "i < 512"
  shows "unat (pte_addr t i) = unat t + 8 * unat i"
proof -
  have i: "unat i < 512" using assms(2) by (simp add: word_less_nat_alt)
  then have m: "unat (8 * i) = 8 * unat i" by (simp add: unat_word_ariths)
  show ?thesis
    using page_aligned_le [OF assms(1)] i unfolding pte_addr_def
    by (simp add: unat_word_ariths m)
qed

lemma page_base_pte_addr:
  assumes "page_aligned t" and "i < 512"
  shows "page_base (pte_addr t i) = t"
proof -
  obtain c where c: "unat t = 4096 * c" using assms(1) by (auto simp: page_aligned_unat dvd_def)
  have "unat i < 512" using assms(2) by (simp add: word_less_nat_alt)
  then have "unat (page_base (pte_addr t i)) = unat t"
    by (simp add: unat_page_base unat_pte_addr [OF assms] c)
  then show ?thesis by (simp add: word_unat_eq_iff)
qed

lemma pte_addr_inject:
  assumes "page_aligned t" and "page_aligned u" and "i < 512" and "j < 512"
    and "pte_addr t i = pte_addr u j"
  shows "t = u \<and> i = j"
proof -
  have t: "t = u"
    using page_base_pte_addr [OF assms(1,3)] page_base_pte_addr [OF assms(2,4)] assms(5) by simp
  then have "unat i = unat j"
    using unat_pte_addr [OF assms(1,3)] unat_pte_addr [OF assms(2,4)] assms(5) by simp
  with t show ?thesis by (simp add: word_unat_eq_iff)
qed

lemma vpn_less [simp]: "vpn l va < 512"
proof -
  have "drop_bit (12 + 9 * l) va AND mask 9 < 2 ^ 9"
    by (rule and_mask_less') simp
  then show ?thesis unfolding vpn_def mask_9 by simp
qed

section \<open>The tree of tables\<close>

definition next_tab :: "cells \<Rightarrow> usize \<Rightarrow> usize \<Rightarrow> usize option" where
  "next_tab m t i =
     (let pte = m (pte_addr t i) in
      if pte AND PTE_V \<noteq> 0 \<and> pte AND (PTE_R OR PTE_W OR PTE_X) = 0
      then Some (pte_to_pa pte) else None)"

fun node :: "cells \<Rightarrow> usize \<Rightarrow> usize list \<Rightarrow> usize option" where
  "node m t [] = Some t"
| "node m t (i # is) = (case next_tab m t i of None \<Rightarrow> None | Some u \<Rightarrow> node m u is)"

lemma node_append: "node m t (p @ q) = (case node m t p of None \<Rightarrow> None | Some u \<Rightarrow> node m u q)"
  by (induction p arbitrary: t) (auto split: option.splits)

lemma node_snoc: "node m t (p @ [i]) = (case node m t p of None \<Rightarrow> None | Some u \<Rightarrow> next_tab m u i)"
  by (simp add: node_append split: option.splits)

definition valid_path :: "usize list \<Rightarrow> bool" where
  "valid_path p \<longleftrightarrow> length p \<le> 2 \<and> (\<forall>i \<in> set p. i < 512)"

lemma valid_path_simps [simp]:
  "valid_path []"
  "valid_path (p @ q) \<Longrightarrow> valid_path p"
  "valid_path [vpn a va, vpn b va]"
  by (auto simp: valid_path_def)

definition leaf :: "cells \<Rightarrow> usize \<Rightarrow> usize \<Rightarrow> usize option" where
  "leaf m root va =
     (case node m root [vpn 2 va, vpn 1 va] of
        None \<Rightarrow> None
      | Some t \<Rightarrow> (let pte = m (pte_addr t (vpn 0 va)) in if pte AND PTE_V = 0 then None else Some pte))"

definition pt_wf :: "kmem \<Rightarrow> usize \<Rightarrow> bool" where
  "pt_wf k root \<longleftrightarrow>
     frames_wf (pages k) \<and>
     (\<forall>p t. valid_path p \<longrightarrow> node (phys k) root p = Some t \<longrightarrow> t \<in> used_frames (pages k)) \<and>
     (\<forall>p q t. valid_path p \<longrightarrow> valid_path q \<longrightarrow> node (phys k) root p = Some t \<longrightarrow>
        node (phys k) root q = Some t \<longrightarrow> p = q) \<and>
     (\<forall>p i t. valid_path (p @ [i]) \<longrightarrow> node (phys k) root p = Some t \<longrightarrow>
        phys k (pte_addr t i) AND PTE_V \<noteq> 0 \<longrightarrow> phys k (pte_addr t i) AND (PTE_R OR PTE_W OR PTE_X) = 0)"

lemma used_frame_bound:
  assumes "frames_wf s" and "f \<in> used_frames s \<union> avail_frames s"
  shows "f < 2 ^ 56"
proof -
  obtain a i where s: "s = Some a" and wf: "allocator_wf a" and i: "i < unat (total_pages a)"
    and f: "f = page_addr a i"
    using assms by (auto simp: frames_wf_def used_frames_def avail_frames_def page_index_free_def
                         split: option.splits)
  have "unat f < 2 ^ 56"
    using unat_page_addr [OF wf i] wf i by (simp add: f allocator_wf_def layout)
  then show ?thesis by (simp add: word_less_nat_alt)
qed

lemma pt_wf_node:
  assumes "pt_wf k root" and "valid_path p" and "node (phys k) root p = Some t"
  shows "t \<in> used_frames (pages k)" and "page_aligned t" and "t < 2 ^ 56"
proof -
  show u: "t \<in> used_frames (pages k)" using assms unfolding pt_wf_def by blast
  have "frames_wf (pages k)" using assms(1) by (simp add: pt_wf_def)
  with u show "page_aligned t" and "t < 2 ^ 56"
    using all_frames_aligned used_frame_bound by blast+
qed

lemma pt_wf_inj:
  "pt_wf k root \<Longrightarrow> valid_path p \<Longrightarrow> valid_path q \<Longrightarrow> node (phys k) root p = Some t \<Longrightarrow>
   node (phys k) root q = Some t \<Longrightarrow> p = q"
  unfolding pt_wf_def by blast

lemma pt_wf_no_huge:
  "pt_wf k root \<Longrightarrow> valid_path (p @ [i]) \<Longrightarrow> node (phys k) root p = Some t \<Longrightarrow>
   phys k (pte_addr t i) AND PTE_V \<noteq> 0 \<Longrightarrow> phys k (pte_addr t i) AND (PTE_R OR PTE_W OR PTE_X) = 0"
  unfolding pt_wf_def by blast

lemma pt_wf_frames: "pt_wf k root \<Longrightarrow> frames_wf (pages k)"
  by (simp add: pt_wf_def)

lemma walk_loop_False: "walk_loop is t False k = (node (phys k) t is, k)"
  by (induction "is" t False k rule: walk_loop.induct) (auto simp: next_tab_def load64_def Let_def)

lemma walk_False:
  "walk pt va False k =
     (map_option (\<lambda>t. pte_addr t (vpn 0 va)) (node (phys k) pt [vpn 2 va, vpn 1 va]), k)"
  unfolding walk_def walk_loop_False by (simp del: node.simps split: option.split)

lemma virt_to_phys_leaf:
  "virt_to_phys pt va k = map_option (\<lambda>pte. pte_to_pa pte + (va AND (PAGE_SIZE - 1))) (leaf (phys k) pt va)"
  unfolding virt_to_phys_def walk_False leaf_def load64_def
  by (simp del: node.simps add: Let_def split: option.split)

section \<open>Installing a table\<close>

text \<open>\<open>k'\<close> extends \<open>k\<close>: tables are kept, new tables are frames that were free, and cells of
  frames in use that are not tables of this tree are untouched.\<close>

definition pt_keep :: "usize \<Rightarrow> kmem \<Rightarrow> kmem \<Rightarrow> bool" where
  "pt_keep root k k' \<longleftrightarrow>
     pt_wf k' root \<and>
     used_frames (pages k) \<subseteq> used_frames (pages k') \<and>
     (\<forall>q t. valid_path q \<longrightarrow> node (phys k) root q = Some t \<longrightarrow> node (phys k') root q = Some t) \<and>
     (\<forall>q t. valid_path q \<longrightarrow> node (phys k') root q = Some t \<longrightarrow>
        node (phys k) root q = Some t \<or> t \<notin> used_frames (pages k)) \<and>
     (\<forall>x. page_base x \<in> used_frames (pages k) \<longrightarrow>
        (\<forall>q. valid_path q \<longrightarrow> node (phys k) root q \<noteq> Some (page_base x)) \<longrightarrow> phys k' x = phys k x)"

lemma pt_keep_refl: "pt_wf k root \<Longrightarrow> pt_keep root k k"
  by (simp add: pt_keep_def)

lemma pt_keep_trans:
  assumes "pt_keep root k k'" and "pt_keep root k' k''"
  shows "pt_keep root k k''"
  unfolding pt_keep_def
proof (intro conjI allI impI)
  fix q t assume q: "valid_path q" "node (phys k'') root q = Some t"
  then have "node (phys k') root q = Some t \<or> t \<notin> used_frames (pages k')"
    using assms(2) unfolding pt_keep_def by blast
  then show "node (phys k) root q = Some t \<or> t \<notin> used_frames (pages k)"
    using q assms(1) unfolding pt_keep_def by blast
next
  fix x assume x: "page_base x \<in> used_frames (pages k)"
    "\<forall>q. valid_path q \<longrightarrow> node (phys k) root q \<noteq> Some (page_base x)"
  then have "\<forall>q. valid_path q \<longrightarrow> node (phys k') root q \<noteq> Some (page_base x)"
    using assms(1) unfolding pt_keep_def by blast
  moreover have "page_base x \<in> used_frames (pages k')" "phys k' x = phys k x"
    using x assms(1) unfolding pt_keep_def by blast+
  ultimately show "phys k'' x = phys k x"
    using assms(2) unfolding pt_keep_def by metis
qed (use assms in \<open>auto simp: pt_keep_def\<close>)

lemma pt_create_Some:
  assumes "frames_wf (pages k)" and "pt_create k = (Some n, k')"
  shows "n \<notin> used_frames (pages k)" and "n \<in> avail_frames (pages k)"
    and "used_frames (pages k') = insert n (used_frames (pages k))"
    and "avail_frames (pages k') = avail_frames (pages k) - {n}"
    and "frames_wf (pages k')" and "page_aligned n" and "n < 2 ^ 56"
    and "phys k' x = (if page_base x = n then 0 else phys k x)"
proof -
  obtain s where s: "page_alloc (pages k) = (Some n, s)"
    and k': "k' = k\<lparr>pages := s, phys := clear_page n (phys k)\<rparr>"
    using assms(2) by (auto simp: pt_create_def k_alloc_def split: prod.splits option.splits)
  note fresh = frames.alloc_fresh [OF assms(1) s]
  show "n \<notin> used_frames (pages k)" and "n \<in> avail_frames (pages k)"
    and "used_frames (pages k') = insert n (used_frames (pages k))"
    and "avail_frames (pages k') = avail_frames (pages k) - {n}"
    and "frames_wf (pages k')" and "page_aligned n"
    using fresh by (simp_all add: k')
  show "n < 2 ^ 56" using used_frame_bound [OF assms(1)] fresh(2) by blast
  show "phys k' x = (if page_base x = n then 0 else phys k x)"
    by (simp add: k' clear_page_def in_page_iff [OF fresh(6)])
qed

lemma pt_create_None:
  assumes "frames_wf (pages k)" and "pt_create k = (None, k')"
  shows "k' = k" and "avail_frames (pages k) = {}"
  using assms frames.alloc_None [OF assms(1)]
  by (auto simp: pt_create_def k_alloc_def split: prod.splits option.splits)

text \<open>The step of \<open>walk\<close> that allocates: \<open>n\<close> is a fresh zeroed table, hooked into slot \<open>i\<close> of the
  table \<open>t\<close> at path \<open>p\<close>.\<close>

lemma install_table:
  assumes wf: "pt_wf k root" and vp: "valid_path (p @ [i])"
    and t: "node (phys k) root p = Some t" and inv: "phys k (pte_addr t i) AND PTE_V = 0"
    and cr: "pt_create k = (Some n, k1)"
  defines "k2 \<equiv> store64 (pte_addr t i) (pa_to_pte n PTE_V) k1"
  shows "valid_path q \<Longrightarrow> node (phys k2) root q = (if q = p @ [i] then Some n else node (phys k) root q)"
    and "pt_keep root k k2"
    and "leaf (phys k2) root = leaf (phys k) root"
proof -
  note new = pt_create_Some [OF pt_wf_frames [OF wf] cr]
  have vp': "valid_path p" and i: "i < 512" using vp by (auto simp: valid_path_def)
  note tt = pt_wf_node [OF wf vp' t]
  have tn: "t \<noteq> n" using tt(1) new(1) by blast
  have pages2: "pages k2 = pages k1" by (simp add: k2_def store64_def)
  have cell: "phys k2 x = (if x = pte_addr t i then pa_to_pte n PTE_V
                           else if page_base x = n then 0 else phys k x)" for x
    by (simp add: k2_def store64_def new(8))
  have V: "PTE_V < 2 ^ 10" "PTE_V AND (PTE_R OR PTE_W OR PTE_X) = 0" "PTE_R OR PTE_W OR PTE_X < 2 ^ 10"
    by (simp_all add: layout)
  have link: "next_tab (phys k2) t i = Some n"
    using V pte_roundtrip [OF new(6,7) V(1)] pa_to_pte_flags [OF V(1), of n PTE_V]
      pa_to_pte_flags [OF V(3), of n PTE_V]
    by (simp add: next_tab_def cell layout)
  have empty: "next_tab (phys k2) n j = None" if "j < 512" for j
  proof -
    have "pte_addr n j \<noteq> pte_addr t i"
      using pte_addr_inject [OF new(6) tt(2) that i] tn by blast
    then show ?thesis
      by (simp add: next_tab_def cell page_base_pte_addr [OF new(6) that])
  qed
  have dead: "node (phys k) root (p @ [i]) = None"
    using t inv by (simp add: node_snoc next_tab_def)
  have other: "phys k2 (pte_addr u j) = phys k (pte_addr u j)"
    if "valid_path q" "node (phys k) root q = Some u" "j < 512" "q \<noteq> p \<or> j \<noteq> i" for q u j
  proof -
    note uu = pt_wf_node [OF wf that(1,2)]
    have "pte_addr u j = pte_addr t i \<Longrightarrow> u = t \<and> j = i"
      by (rule pte_addr_inject [OF uu(2) tt(2) that(3) i])
    then have "pte_addr u j \<noteq> pte_addr t i"
      using that(4) pt_wf_inj [OF wf that(1) vp' _ t] that(2) by blast
    moreover have "page_base (pte_addr u j) \<noteq> n"
      using page_base_pte_addr [OF uu(2) that(3)] uu(1) new(1) by auto
    ultimately show ?thesis by (simp add: cell)
  qed
  show nodes: "node (phys k2) root q = (if q = p @ [i] then Some n else node (phys k) root q)"
    if "valid_path q" for q
    using that
  proof (induction q rule: rev_induct)
    case Nil
    then show ?case by simp
  next
    case (snoc j q)
    have vq: "valid_path q" and j: "j < 512" using snoc.prems by (auto simp: valid_path_def)
    note ih = snoc.IH [OF vq]
    consider "q = p @ [i]" | "q = p" "j = i" | "q \<noteq> p @ [i]" "q \<noteq> p \<or> j \<noteq> i" by blast
    then show ?case
    proof cases
      case 1
      have "node (phys k) root (q @ [j]) = None"
        unfolding 1 node_snoc [of "phys k" root "p @ [i]" j] dead by simp
      then show ?thesis
        unfolding node_snoc [of "phys k2" root q j] ih using 1 empty [OF j] by simp
    next
      case 2
      then show ?thesis using ih t link by (simp add: node_snoc)
    next
      case 3
      show ?thesis
      proof (cases "node (phys k) root q")
        case None
        then show ?thesis using ih 3 by (auto simp: node_snoc)
      next
        case (Some u)
        have "next_tab (phys k2) u j = next_tab (phys k) u j"
          using other [OF vq Some j 3(2)] by (simp add: next_tab_def)
        then show ?thesis using ih 3 Some by (auto simp: node_snoc)
      qed
    qed
  qed
  have leaf_same: "leaf (phys k2) root va = leaf (phys k) root va" for va
  proof (cases "[vpn 2 va, vpn 1 va] = p @ [i]")
    case True
    have "pte_addr n (vpn 0 va) \<noteq> pte_addr t i"
      using pte_addr_inject [OF new(6) tt(2) vpn_less i] tn by blast
    then have "phys k2 (pte_addr n (vpn 0 va)) = 0"
      by (simp add: cell page_base_pte_addr [OF new(6)])
    moreover have "node (phys k2) root (p @ [i]) = Some n" using nodes [OF vp] by simp
    ultimately show ?thesis unfolding leaf_def True dead by simp
  next
    case False
    then have same: "node (phys k2) root [vpn 2 va, vpn 1 va] = node (phys k) root [vpn 2 va, vpn 1 va]"
      using nodes [OF valid_path_simps(3)] by (simp only: if_False)
    show ?thesis
    proof (cases "node (phys k) root [vpn 2 va, vpn 1 va]")
      case (Some u)
      have "length p \<le> 1" using vp by (auto simp: valid_path_def)
      then have "[vpn 2 va, vpn 1 va] \<noteq> p" by auto
      then have "phys k2 (pte_addr u (vpn 0 va)) = phys k (pte_addr u (vpn 0 va))"
        using other [OF _ Some vpn_less] by simp
      then show ?thesis using same Some by (simp del: node.simps add: leaf_def)
    qed (use same in \<open>simp del: node.simps add: leaf_def\<close>)
  qed
  have wf2: "pt_wf k2 root"
    unfolding pt_wf_def pages2
  proof (intro conjI allI impI)
    show "frames_wf (pages k1)" by (rule new(5))
  next
    fix q u assume "valid_path q" "node (phys k2) root q = Some u"
    then show "u \<in> used_frames (pages k1)"
      using nodes pt_wf_node(1) [OF wf] new(3) by (auto split: if_splits)
  next
    fix q r u assume "valid_path q" "valid_path r" "node (phys k2) root q = Some u" "node (phys k2) root r = Some u"
    then show "q = r"
      using nodes pt_wf_node(1) [OF wf] pt_wf_inj [OF wf] new(1) by (auto split: if_splits)
  next
    fix q j u
    assume q: "valid_path (q @ [j])" and u: "node (phys k2) root q = Some u"
      and v: "phys k2 (pte_addr u j) AND PTE_V \<noteq> 0"
    have vq: "valid_path q" and j: "j < 512" using q by (auto simp: valid_path_def)
    consider "q = p @ [i]" | "q = p" "j = i" | "q \<noteq> p @ [i]" "q \<noteq> p \<or> j \<noteq> i" by blast
    then show "phys k2 (pte_addr u j) AND (PTE_R OR PTE_W OR PTE_X) = 0"
    proof cases
      case 1
      then have "u = n" using u nodes [OF vp] by simp
      moreover have "pte_addr n j \<noteq> pte_addr t i"
        using pte_addr_inject [OF new(6) tt(2) j i] tn by blast
      ultimately show ?thesis by (simp add: cell page_base_pte_addr [OF new(6) j])
    next
      case 2
      then show ?thesis
        using u nodes [OF vq] t pa_to_pte_flags [OF V(3), of n PTE_V] V(2) by (simp add: cell)
    next
      case 3
      then have "node (phys k) root q = Some u" using u nodes [OF vq] by simp
      moreover from this have "phys k2 (pte_addr u j) = phys k (pte_addr u j)"
        using other [OF vq _ j 3(2)] by simp
      ultimately show ?thesis using pt_wf_no_huge [OF wf q] v by simp
    qed
  qed
  show "pt_keep root k k2"
    unfolding pt_keep_def
  proof (intro conjI allI impI)
    fix q u assume "valid_path q" "node (phys k) root q = Some u"
    then show "node (phys k2) root q = Some u" using nodes dead by auto
  next
    fix q u assume "valid_path q" "node (phys k2) root q = Some u"
    then show "node (phys k) root q = Some u \<or> u \<notin> used_frames (pages k)"
      using nodes new(1) by (auto split: if_splits)
  next
    fix x assume x: "page_base x \<in> used_frames (pages k)"
      "\<forall>q. valid_path q \<longrightarrow> node (phys k) root q \<noteq> Some (page_base x)"
    then have "x \<noteq> pte_addr t i"
      using t vp' page_base_pte_addr [OF tt(2) i] by auto
    then show "phys k2 x = phys k x" using x new(1) by (auto simp: cell)
  qed (use wf2 new(3) pages2 in auto)
  show "leaf (phys k2) root = leaf (phys k) root" using leaf_same by blast
qed

lemma walk_loop_True:
  assumes "pt_wf k root" and "valid_path (p @ is)" and "node (phys k) root p = Some t"
    and "walk_loop is t True k = (r, k')"
  shows "pt_keep root k k' \<and> leaf (phys k') root = leaf (phys k) root \<and> (\<forall>u. r = Some u \<longrightarrow> node (phys k') root (p @ is) = Some u) \<and>
         (r = None \<longrightarrow> avail_frames (pages k') = {})"
  using assms
proof (induction "is" arbitrary: p t k)
  case Nil
  then show ?case by (auto simp: pt_keep_refl)
next
  case (Cons i "is")
  have vp: "valid_path (p @ [i])" and vp2: "valid_path ((p @ [i]) @ is)"
    using Cons.prems(2) by (auto simp: valid_path_def)
  let ?pte = "phys k (pte_addr t i)"
  consider (alloc) "?pte AND PTE_V = 0" | (leafp) "?pte AND PTE_V \<noteq> 0" "?pte AND (PTE_R OR PTE_W OR PTE_X) \<noteq> 0"
    | (down) "?pte AND PTE_V \<noteq> 0" "?pte AND (PTE_R OR PTE_W OR PTE_X) = 0" by blast
  then show ?case
  proof cases
    case leafp
    then show ?thesis using pt_wf_no_huge [OF Cons.prems(1) vp Cons.prems(3)] by simp
  next
    case down
    then have "node (phys k) root (p @ [i]) = Some (pte_to_pa ?pte)"
      using Cons.prems(3) by (simp add: node_snoc next_tab_def)
    moreover have "walk_loop is (pte_to_pa ?pte) True k = (r, k')"
      using Cons.prems(4) down by (simp add: load64_def)
    ultimately show ?thesis using Cons.IH [OF Cons.prems(1) vp2] by simp
  next
    case alloc
    show ?thesis
    proof (cases "pt_create k")
      case (Pair c k1)
      show ?thesis
      proof (cases c)
        case None
        then show ?thesis
          using alloc Cons.prems Pair pt_create_None [OF pt_wf_frames [OF Cons.prems(1)]]
          by (auto simp: load64_def pt_keep_refl)
      next
        case (Some n)
        let ?k2 = "store64 (pte_addr t i) (pa_to_pte n PTE_V) k1"
        note ins = install_table [OF Cons.prems(1) vp Cons.prems(3) alloc Pair [unfolded Some]]
        have w2: "walk_loop is n True ?k2 = (r, k')"
          using Cons.prems(4) alloc Pair Some by (simp add: load64_def)
        have "node (phys ?k2) root (p @ [i]) = Some n" using ins(1) [OF vp] by simp
        moreover have "pt_wf ?k2 root" using ins(2) by (simp add: pt_keep_def)
        ultimately have "pt_keep root ?k2 k' \<and> leaf (phys k') root = leaf (phys ?k2) root \<and> (\<forall>u. r = Some u \<longrightarrow> node (phys k') root ((p @ [i]) @ is) = Some u) \<and>
            (r = None \<longrightarrow> avail_frames (pages k') = {})"
          using Cons.IH vp2 w2 by blast
        then show ?thesis using pt_keep_trans [OF ins(2)] ins(3) by simp
      qed
    qed
  qed
qed

lemma walk_True:
  assumes "pt_wf k root" and "walk root va True k = (r, k')"
  shows "pt_keep root k k'" and "leaf (phys k') root = leaf (phys k) root"
    and "r = Some a \<Longrightarrow> \<exists>t. node (phys k') root [vpn 2 va, vpn 1 va] = Some t \<and> a = pte_addr t (vpn 0 va)"
    and "r = None \<Longrightarrow> avail_frames (pages k') = {}"
proof -
  obtain r' where w: "walk_loop [vpn 2 va, vpn 1 va] root True k = (r', k')"
    and r: "r = map_option (\<lambda>t. pte_addr t (vpn 0 va)) r'"
    using assms(2) by (auto simp: walk_def simp del: walk_loop.simps split: prod.splits option.splits)
  note loop = walk_loop_True [OF assms(1), of "[]", simplified append_Nil, OF valid_path_simps(3) _ w, simplified node.simps(1)]
  then show "pt_keep root k k'" and "leaf (phys k') root = leaf (phys k) root" by blast+
  show "\<exists>t. node (phys k') root [vpn 2 va, vpn 1 va] = Some t \<and> a = pte_addr t (vpn 0 va)" if "r = Some a"
    using loop that r by auto
  show "avail_frames (pages k') = {}" if "r = None"
    using loop that r by auto
qed

section \<open>Writing a leaf entry\<close>

text \<open>The virtual page of an address: 27 bits, the part of the address the three indices read.\<close>

definition vpage :: "usize \<Rightarrow> usize" where
  "vpage va = drop_bit 12 va AND mask 27"

lemma bit_vpn: "bit (vpn l va) n \<longleftrightarrow> n < 9 \<and> bit va (12 + 9 * l + n)"
  by (auto simp: vpn_def mask_9 bit_and_iff bit_mask_iff bit_drop_bit_eq)

lemma bit_vpage: "bit (vpage va) n \<longleftrightarrow> n < 27 \<and> bit va (12 + n)"
  by (auto simp: vpage_def bit_and_iff bit_mask_iff bit_drop_bit_eq)

lemma vpn_vpage: "l < 3 \<Longrightarrow> vpn l va = drop_bit (9 * l) (vpage va) AND mask 9"
  by (rule bit_word_eqI) (auto simp: bit_vpn bit_vpage bit_and_iff bit_mask_iff bit_drop_bit_eq add.assoc)

lemma vpage_eq_iff:
  "vpage va = vpage vb \<longleftrightarrow> vpn 2 va = vpn 2 vb \<and> vpn 1 va = vpn 1 vb \<and> vpn 0 va = vpn 0 vb"
proof
  assume r: "vpn 2 va = vpn 2 vb \<and> vpn 1 va = vpn 1 vb \<and> vpn 0 va = vpn 0 vb"
  have "bit (vpage va) n \<longleftrightarrow> bit (vpage vb) n" for n
  proof -
    consider j where "n = j" "j < 9" | j where "n = 9 + j" "j < 9" | j where "n = 18 + j" "j < 9" | "27 \<le> n"
      by (cases "n < 9"; cases "n < 18"; cases "n < 27") (auto simp: not_less le_iff_add)
    then show ?thesis
    proof cases
      case (1 j)
      then show ?thesis using r bit_vpn [of 0 va j] bit_vpn [of 0 vb j] by (simp add: bit_vpage)
    next
      case (2 j)
      then show ?thesis using r bit_vpn [of 1 va j] bit_vpn [of 1 vb j] by (simp add: bit_vpage)
    next
      case (3 j)
      then show ?thesis using r bit_vpn [of 2 va j] bit_vpn [of 2 vb j] by (simp add: bit_vpage)
    qed (simp add: bit_vpage)
  qed
  then show "vpage va = vpage vb" by (simp add: bit_eq_iff)
qed (simp add: vpn_vpage)

definition set_page :: "usize \<Rightarrow> usize option \<Rightarrow> (usize \<Rightarrow> usize option) \<Rightarrow> usize \<Rightarrow> usize option" where
  "set_page va e f = (\<lambda>vb. if vpage vb = vpage va then e else f vb)"

lemma store_leaf:
  fixes v :: u64
  assumes wf: "pt_wf k root" and t: "node (phys k) root [vpn 2 va, vpn 1 va] = Some t"
  defines "k2 \<equiv> store64 (pte_addr t (vpn 0 va)) v k"
  shows "valid_path q \<Longrightarrow> node (phys k2) root q = node (phys k) root q"
    and "pt_keep root k k2"
    and "leaf (phys k2) root = set_page va (if v AND PTE_V = 0 then None else Some v) (leaf (phys k) root)"
proof -
  let ?p = "[vpn 2 va, vpn 1 va]"
  note tt = pt_wf_node [OF wf valid_path_simps(3) t]
  have pages2: "pages k2 = pages k" by (simp add: k2_def store64_def)
  have cell: "phys k2 x = (if x = pte_addr t (vpn 0 va) then v else phys k x)" for x
    by (simp add: k2_def store64_def)
  have same: "phys k2 (pte_addr u j) = (if q = ?p \<and> j = vpn 0 va then v else phys k (pte_addr u j))"
    if "valid_path q" "node (phys k) root q = Some u" "j < 512" for q u j
  proof -
    have "pte_addr u j = pte_addr t (vpn 0 va) \<longleftrightarrow> u = t \<and> j = vpn 0 va"
      using pte_addr_inject [OF pt_wf_node(2) [OF wf that(1,2)] tt(2) that(3) vpn_less] by blast
    moreover have "u = t \<longleftrightarrow> q = ?p"
      using pt_wf_inj [OF wf that(1) valid_path_simps(3) _ t] that(2) t by auto
    ultimately show ?thesis unfolding cell by presburger
  qed
  show nodes: "node (phys k2) root q = node (phys k) root q" if "valid_path q" for q
    using that
  proof (induction q rule: rev_induct)
    case (snoc j q)
    have vq: "valid_path q" "j < 512" "q \<noteq> ?p" using snoc.prems by (auto simp: valid_path_def)
    then have "next_tab (phys k2) u j = next_tab (phys k) u j" if "node (phys k) root q = Some u" for u
      using same [OF vq(1) that vq(2)] by (simp add: next_tab_def)
    then show ?case
      using snoc.IH [OF vq(1)] by (cases "node (phys k) root q") (simp_all add: node_snoc)
  qed simp
  have "pt_wf k2 root"
    unfolding pt_wf_def pages2
  proof (intro conjI allI impI)
    fix q j u assume q: "valid_path (q @ [j])" and u: "node (phys k2) root q = Some u"
      and v: "phys k2 (pte_addr u j) AND PTE_V \<noteq> 0"
    have vq: "valid_path q" "j < 512" "q \<noteq> ?p" using q by (auto simp: valid_path_def)
    have uk: "node (phys k) root q = Some u" using u nodes [OF vq(1)] by simp
    show "phys k2 (pte_addr u j) AND (PTE_R OR PTE_W OR PTE_X) = 0"
      using same [OF vq(1) uk vq(2)] vq(3) v pt_wf_no_huge [OF wf q uk] by simp
  qed (use wf nodes in \<open>auto simp: pt_wf_def\<close>)
  moreover have "\<exists>q. valid_path q \<and> node (phys k) root q = Some t"
    using t valid_path_simps(3) by blast
  ultimately show "pt_keep root k k2"
    unfolding pt_keep_def pages2
    using nodes page_base_pte_addr [OF tt(2) vpn_less] by (auto simp: cell)
  show "leaf (phys k2) root = set_page va (if v AND PTE_V = 0 then None else Some v) (leaf (phys k) root)"
  proof
    fix vb
    show "leaf (phys k2) root vb = set_page va (if v AND PTE_V = 0 then None else Some v) (leaf (phys k) root) vb"
    proof (cases "node (phys k) root [vpn 2 vb, vpn 1 vb]")
      case None
      then have "vpage vb \<noteq> vpage va" using t vpage_eq_iff by (metis option.distinct(1))
      then show ?thesis
        unfolding leaf_def set_page_def nodes [OF valid_path_simps(3)] None by simp
    next
      case (Some u)
      note s = same [OF valid_path_simps(3) Some vpn_less, of 0 vb]
      show ?thesis
        unfolding leaf_def set_page_def nodes [OF valid_path_simps(3)] Some option.case s
        by (auto simp: vpage_eq_iff Let_def)
    qed
  qed
qed

end
