(* ===== verification/Page_Table_Ops.thy ===== *)
theory Page_Table_Ops
  imports Page_Table_Tree
begin

text \<open>
  What \<open>map\<close>, \<open>set_flags\<close>, \<open>unmap\<close> and \<open>free\<close> of \<open>src/kernel/pgtable.rs\<close> do to the translation
  and to the frames: the loops are related to updates of \<open>leaf\<close> page by page, and freeing a
  table to the list of its sub-tables.
\<close>

section \<open>Addresses inside a run of pages\<close>

definition page_at :: "usize \<Rightarrow> nat \<Rightarrow> usize" where
  "page_at va i = va + of_nat i * PAGE_SIZE"

lemma offset_in_page:
  assumes "page_aligned b" and "off < PAGE_SIZE"
  shows "(b + off) AND (PAGE_SIZE - 1) = off" and "vpage (b + off) = vpage b"
proof -
  have b: "\<not> bit b n" if "n < 12" for n using page_aligned_bits [OF assms(1)] that by fastforce
  have o: "bit off n \<Longrightarrow> n < 12" for n
    using bit_less_exp [of off 12 n] assms(2) by (simp add: layout)
  have sum: "b + off = b OR off"
    by (rule disjunctive_add_eq_or) (rule bit_word_eqI, auto simp: bit_and_iff dest: b o)
  show "(b + off) AND (PAGE_SIZE - 1) = off"
    unfolding sum page_mask by (rule bit_word_eqI) (use b o in \<open>auto simp: bit_and_iff bit_or_iff bit_mask_iff\<close>)
  show "vpage (b + off) = vpage b"
    unfolding sum by (rule bit_word_eqI) (use o in \<open>auto simp: bit_vpage bit_or_iff\<close>)
qed

lemma page_aligned_add: "page_aligned a \<Longrightarrow> page_aligned b \<Longrightarrow> page_aligned (a + b)"
  by (simp add: page_aligned_unat unat_word_ariths dvd_mod)

lemma page_aligned_mult: "page_aligned (x * PAGE_SIZE)"
proof -
  have "take_bit 12 (push_bit 12 x) = 0"
    by (rule bit_word_eqI) (simp add: bit_take_bit_iff bit_push_bit_iff)
  then show ?thesis
    by (simp add: page_aligned_def layout take_bit_eq_mod push_bit_eq_mult)
qed

lemma page_at_aligned: "page_aligned va \<Longrightarrow> page_aligned (page_at va i)"
  unfolding page_at_def by (intro page_aligned_add page_aligned_mult)

text \<open>An address of a run of pages is an offset in one of its pages.\<close>

lemma run_address:
  assumes "unat off < n * unat PAGE_SIZE"
  obtains i r where "i < n" and "r < PAGE_SIZE" and "va + off = page_at va i + r" and "pa + off = page_at pa i + r"
proof -
  define i where "i = unat (off div PAGE_SIZE)"
  define r where "r = off mod PAGE_SIZE"
  have "of_nat i = off div PAGE_SIZE" by (simp add: i_def)
  then have off: "off = of_nat i * PAGE_SIZE + r"
    using word_mod_div_equality [of off PAGE_SIZE] by (simp add: r_def)
  have "i = unat off div 4096" by (simp add: i_def layout unat_div)
  then have "i < n" using assms by (simp add: layout less_mult_imp_div_less)
  moreover have "r < PAGE_SIZE" by (simp add: r_def layout word_mod_less_divisor)
  ultimately show ?thesis using off by (intro that) (simp_all add: page_at_def add.assoc)
qed

section \<open>Mapping\<close>

text \<open>The translation with the pages \<open>is\<close> of a run mapped.\<close>

definition map_pages :: "usize \<Rightarrow> usize \<Rightarrow> usize \<Rightarrow> nat list \<Rightarrow> (usize \<Rightarrow> usize option) \<Rightarrow> usize \<Rightarrow> usize option" where
  "map_pages va pa flags is =
     fold (\<lambda>i. set_page (page_at va i) (Some (pa_to_pte (page_at pa i) (flags OR PTE_V)))) is"

lemma map_pages_outside:
  "(\<And>i. i \<in> set is \<Longrightarrow> vpage vb \<noteq> vpage (page_at va i)) \<Longrightarrow> map_pages va pa flags is f vb = f vb"
  by (induction "is" arbitrary: f) (simp_all add: map_pages_def set_page_def)

lemma map_pages_inside:
  assumes "distinct (map (\<lambda>i. vpage (page_at va i)) is)" and "i \<in> set is" and "vpage vb = vpage (page_at va i)"
  shows "map_pages va pa flags is f vb = Some (pa_to_pte (page_at pa i) (flags OR PTE_V))"
  using assms
proof (induction "is" arbitrary: f)
  case (Cons j js)
  show ?case
  proof (cases "i \<in> set js")
    case False
    then have "i = j" using Cons.prems by simp
    moreover have "\<And>l. l \<in> set js \<Longrightarrow> vpage vb \<noteq> vpage (page_at va l)"
      using Cons.prems calculation by (auto simp: image_iff)
    ultimately show ?thesis
      using map_pages_outside [of js vb va pa flags] Cons.prems
      by (simp add: map_pages_def set_page_def)
  qed (use Cons in \<open>simp add: map_pages_def\<close>)
qed simp

lemma map_loop_spec:
  assumes "pt_wf k root" and "map_loop root va pa flags is k = (r, k')"
  shows "pt_keep root k k' \<and> (\<exists>js rest. is = js @ rest \<and> leaf (phys k') root = map_pages va pa flags js (leaf (phys k) root) \<and>
           distinct (map (\<lambda>i. vpage (page_at va i)) js) \<and> (\<forall>j \<in> set js. leaf (phys k) root (page_at va j) = None) \<and>
           (if r = Ok () then rest = []
            else \<exists>i rest'. rest = i # rest' \<and>
                   (leaf (phys k') root (page_at va i) \<noteq> None \<or> avail_frames (pages k') = {})))"
  using assms
proof (induction "is" arbitrary: k)
  case Nil
  then show ?case by (auto simp: pt_keep_refl map_pages_def)
next
  case (Cons i "is")
  obtain w k1 where w: "walk root (page_at va i) True k = (w, k1)" by (cases "walk root (page_at va i) True k")
  note wt = walk_True [OF Cons.prems(1) w]
  consider (oom) "w = None" | (mapped) a where "w = Some a" "load64 k1 a AND PTE_V \<noteq> 0"
    | (fresh) a where "w = Some a" "load64 k1 a AND PTE_V = 0" by (cases w) auto
  then show ?case
  proof cases
    case oom
    then have "r = Err" "k' = k1" using Cons.prems(2) w by (auto simp: page_at_def)
    then show ?thesis
      using wt oom by (intro conjI exI [of _ "[]"] exI [of _ "i # is"]) (simp_all add: map_pages_def)
  next
    case (mapped a)
    then have r: "r = Err" "k' = k1" using Cons.prems(2) w by (auto simp: page_at_def)
    obtain t where t: "node (phys k1) root [vpn 2 (page_at va i), vpn 1 (page_at va i)] = Some t"
      "a = pte_addr t (vpn 0 (page_at va i))" using wt(3) mapped by blast
    then have "leaf (phys k1) root (page_at va i) \<noteq> None"
      using mapped by (simp add: leaf_def load64_def del: node.simps)
    then show ?thesis
      using wt r by (intro conjI exI [of _ "[]"] exI [of _ "i # is"]) (simp_all add: map_pages_def)
  next
    case (fresh a)
    obtain t where t: "node (phys k1) root [vpn 2 (page_at va i), vpn 1 (page_at va i)] = Some t"
      "a = pte_addr t (vpn 0 (page_at va i))" using wt(3) fresh by blast
    let ?e = "pa_to_pte (page_at pa i) (flags OR PTE_V)"
    let ?k2 = "store64 a ?e k1"
    have wf1: "pt_wf k1 root" using wt(1) by (simp add: pt_keep_def)
    note st = store_leaf [where v = ?e, OF wf1 t(1), folded t(2)]
    have wf2: "pt_wf ?k2 root" using st(2) by (simp add: pt_keep_def)
    have "?e AND PTE_V \<noteq> 0"
      using pa_to_pte_flags [of PTE_V "page_at pa i" "flags OR PTE_V"]
      by (simp add: layout and.commute [of _ 1] bit.conj_disj_distrib)
    then have leaf2: "leaf (phys ?k2) root = set_page (page_at va i) (Some ?e) (leaf (phys k) root)"
      using st(3) wt(2) by simp
    have none: "leaf (phys k) root (page_at va i) = None"
      unfolding wt(2) [symmetric] leaf_def using t fresh by (simp add: load64_def del: node.simps)
    have "map_loop root va pa flags is ?k2 = (r, k')"
      using Cons.prems(2) w fresh by (simp add: page_at_def)
    from Cons.IH [OF wf2 this] obtain js rest where ih:
      "pt_keep root ?k2 k'" "is = js @ rest"
      "leaf (phys k') root = map_pages va pa flags js (leaf (phys ?k2) root)"
      "distinct (map (\<lambda>i. vpage (page_at va i)) js)" "\<forall>j \<in> set js. leaf (phys ?k2) root (page_at va j) = None"
      "if r = Ok () then rest = [] else \<exists>i rest'. rest = i # rest' \<and>
         (leaf (phys k') root (page_at va i) \<noteq> None \<or> avail_frames (pages k') = {})" by blast
    have old: "vpage (page_at va j) \<noteq> vpage (page_at va i) \<and> leaf (phys k) root (page_at va j) = None"
      if "j \<in> set js" for j
      using ih(5) that by (auto simp: leaf2 set_page_def split: if_splits)
    have "pt_keep root k k'"
      using pt_keep_trans [OF pt_keep_trans [OF wt(1) st(2)] ih(1)] .
    moreover have "leaf (phys k') root = map_pages va pa flags (i # js) (leaf (phys k) root)"
      using ih(3) leaf2 by (simp add: map_pages_def)
    moreover have "distinct (map (\<lambda>i. vpage (page_at va i)) (i # js))"
      using ih(4) by (simp add: image_iff) (metis old)
    moreover have "\<forall>j \<in> set (i # js). leaf (phys k) root (page_at va j) = None"
      using none old by simp
    ultimately show ?thesis
      using ih(2,6) by (intro conjI exI [of _ "i # js"] exI [of _ rest]) simp_all
  qed
qed

lemma leaf_page:
  assumes "vpage va = vpage vb"
  shows "leaf m root va = leaf m root vb"
  using assms unfolding leaf_def vpage_eq_iff by metis

lemma walked_leaf:
  assumes "node (phys k) root [vpn 2 va, vpn 1 va] = Some t"
  shows "load64 k (pte_addr t (vpn 0 va)) AND PTE_V = 0 \<longleftrightarrow> leaf (phys k) root va = None"
    and "leaf (phys k) root va = Some e \<Longrightarrow> load64 k (pte_addr t (vpn 0 va)) = e"
  using assms unfolding leaf_def by (auto simp: load64_def Let_def simp del: node.simps split: if_splits)

lemma flag_bounds [simp]: "PTE_V < 2 ^ 10" "PTE_R OR PTE_W OR PTE_X < 2 ^ 10"
  by (simp_all add: layout)

lemma less_exp_iff_mask: "n < 64 \<Longrightarrow> (x::usize) < 2 ^ n \<longleftrightarrow> x AND mask n = x"
  using word_2p_lem [of n x] unfolding mask_eq_iff by (simp add: word_size)

lemma flags_or_V:
  assumes "flags < 2 ^ 10"
  shows "flags OR PTE_V < 2 ^ 10"
proof -
  have "PTE_V AND mask 10 = PTE_V" by (simp add: layout mask_numeral)
  then show ?thesis
    using assms less_exp_iff_mask [of 10] by (simp add: bit.conj_disj_distrib2 del: power_numeral_even)
qed

lemma pa_to_pte_V: "pa_to_pte pa (flags OR PTE_V) AND PTE_V \<noteq> 0"
  using pa_to_pte_flags [of PTE_V pa "flags OR PTE_V"]
  by (simp add: layout and.commute [of _ 1] bit.conj_disj_distrib)

lemma pte_to_pa_bound: "pte_to_pa e < 2 ^ 56"
proof -
  have "pte_to_pa e AND mask 56 = pte_to_pa e"
    by (rule bit_word_eqI) (auto simp: bit_and_iff bit_mask_iff bit_pte_to_pa)
  then show ?thesis by (subst less_exp_iff_mask) simp_all
qed

section \<open>Changing flags\<close>

definition set_page_flags :: "usize \<Rightarrow> usize \<Rightarrow> nat list \<Rightarrow> (usize \<Rightarrow> usize option) \<Rightarrow> usize \<Rightarrow> usize option" where
  "set_page_flags va flags is f =
     (\<lambda>vb. if \<exists>i \<in> set is. vpage vb = vpage (page_at va i)
           then map_option (\<lambda>e. pa_to_pte (pte_to_pa e) (flags OR PTE_V)) (f vb) else f vb)"

lemma set_flags_loop_spec:
  assumes "pt_wf k root" and "flags < 2 ^ 10" and "set_flags_loop root va flags is k = (r, k')"
  shows "pt_keep root k k' \<and> pages k' = pages k \<and>
         (\<exists>js rest. is = js @ rest \<and> leaf (phys k') root = set_page_flags va flags js (leaf (phys k) root) \<and>
            (\<forall>j \<in> set js. leaf (phys k) root (page_at va j) \<noteq> None) \<and>
            (if r = Ok () then rest = []
             else \<exists>i rest'. rest = i # rest' \<and> leaf (phys k) root (page_at va i) = None))"
  using assms
proof (induction "is" arbitrary: k)
  case Nil
  then show ?case by (auto simp: pt_keep_refl set_page_flags_def)
next
  case (Cons i "is")
  let ?va = "page_at va i"
  show ?case
  proof (cases "leaf (phys k) root ?va")
    case None
    then have "r = Err \<and> k' = k"
      using Cons.prems(3) walked_leaf [of k root ?va]
      by (cases "node (phys k) root [vpn 2 ?va, vpn 1 ?va]")
         (auto simp: walk_False simp del: node.simps simp flip: page_at_def)
    then show ?thesis
      using None pt_keep_refl [OF Cons.prems(1)]
      by (intro conjI exI [of _ "[]"] exI [of _ "i # is"]) (simp_all add: set_page_flags_def)
  next
    case (Some e)
    then obtain t where t: "node (phys k) root [vpn 2 ?va, vpn 1 ?va] = Some t"
      unfolding leaf_def by (cases "node (phys k) root [vpn 2 ?va, vpn 1 ?va]") auto
    note wl = walked_leaf [OF t]
    let ?e = "pa_to_pte (pte_to_pa e) (flags OR PTE_V)"
    let ?k2 = "store64 (pte_addr t (vpn 0 ?va)) ?e k"
    note st = store_leaf [where v = ?e, OF Cons.prems(1) t]
    have pg: "pages ?k2 = pages k" by (simp add: store64_def)
    have wf2: "pt_wf ?k2 root" using st(2) by (simp add: pt_keep_def)
    have leaf2: "leaf (phys ?k2) root = set_page ?va (Some ?e) (leaf (phys k) root)"
      using st(3) pa_to_pte_V by simp
    have same: "pte_to_pa ?e = pte_to_pa e"
      using pte_roundtrip [OF _ pte_to_pa_bound flags_or_V [OF Cons.prems(2)]] by simp
    have "set_flags_loop root va flags is ?k2 = (r, k')"
      using Cons.prems(3) t wl(1) wl(2) [OF Some] Some
      by (simp add: walk_False del: node.simps flip: page_at_def)
    from Cons.IH [OF wf2 Cons.prems(2) this] obtain js rest where ih:
      "pt_keep root ?k2 k'" "pages k' = pages ?k2" "is = js @ rest"
      "leaf (phys k') root = set_page_flags va flags js (leaf (phys ?k2) root)"
      "\<forall>j \<in> set js. leaf (phys ?k2) root (page_at va j) \<noteq> None"
      "if r = Ok () then rest = [] else \<exists>i rest'. rest = i # rest' \<and> leaf (phys ?k2) root (page_at va i) = None"
      by blast
    have dom: "leaf (phys ?k2) root vb = None \<longleftrightarrow> leaf (phys k) root vb = None" for vb
      using Some leaf_page [of vb ?va "phys k" root] by (auto simp: leaf2 set_page_def)
    have "leaf (phys k') root vb = set_page_flags va flags (i # js) (leaf (phys k) root) vb" for vb
      using Some same leaf_page [of vb ?va "phys k" root]
      by (auto simp: ih(4) leaf2 set_page_flags_def set_page_def)
    moreover have "pt_keep root k k'" using pt_keep_trans [OF st(2) ih(1)] .
    ultimately show ?thesis
      using ih(2,3,5,6) Some unfolding pg dom
      by (intro conjI exI [of _ "i # js"] exI [of _ rest]) auto
  qed
qed

section \<open>Unmapping\<close>

definition tables :: "cells \<Rightarrow> usize \<Rightarrow> usize set" where
  "tables m root = {t. \<exists>p. valid_path p \<and> node m root p = Some t}"

lemma k_free_frames:
  assumes "frames_wf (pages k)" and "page_aligned a"
  shows "used_frames (pages (k_free a k)) = used_frames (pages k) - {a}"
    and "frames_wf (pages (k_free a k))" and "phys (k_free a k) = phys k"
  using page_free_frames [OF assms(1), of a] page_base_id [OF assms(2)] by (simp_all add: k_free_def)

lemma k_free_pt_wf:
  assumes "pt_wf k root" and "page_aligned a" and "a \<notin> tables (phys k) root"
  shows "pt_wf (k_free a k) root"
  using assms k_free_frames [OF pt_wf_frames [OF assms(1)] assms(2)]
  by (auto simp: pt_wf_def tables_def)

definition clear_pages :: "usize \<Rightarrow> nat list \<Rightarrow> (usize \<Rightarrow> usize option) \<Rightarrow> usize \<Rightarrow> usize option" where
  "clear_pages va is f = (\<lambda>vb. if \<exists>i \<in> set is. vpage vb = vpage (page_at va i) then None else f vb)"

definition targets :: "usize \<Rightarrow> nat list \<Rightarrow> (usize \<Rightarrow> usize option) \<Rightarrow> usize set" where
  "targets va is f = {pte_to_pa e | e. \<exists>i \<in> set is. f (page_at va i) = Some e}"

lemma targets_Cons: "targets va is f \<subseteq> targets va (i # is) f"
  by (auto simp: targets_def)

text \<open>One page: the entry is cleared and, when asked for, its frame given back.\<close>

lemma unmap_page:
  assumes wf: "pt_wf k root" and t: "node (phys k) root [vpn 2 va, vpn 1 va] = Some t"
    and e: "leaf (phys k) root va = Some e" and nt: "b \<Longrightarrow> pte_to_pa e \<notin> tables (phys k) root"
  defines "k2 \<equiv> store64 (pte_addr t (vpn 0 va)) 0 (if b then k_free (pte_to_pa e) k else k)"
  shows "pt_wf k2 root" and "tables (phys k2) root = tables (phys k) root"
    and "leaf (phys k2) root = set_page va None (leaf (phys k) root)"
    and "used_frames (pages k2) = used_frames (pages k) - (if b then {pte_to_pa e} else {})"
proof -
  let ?k1 = "if b then k_free (pte_to_pa e) k else k"
  have ph: "phys ?k1 = phys k" by (simp add: k_free_def)
  have wf1: "pt_wf ?k1 root" using wf nt k_free_pt_wf [OF wf] by simp
  note st = store_leaf [where v = 0, OF wf1, unfolded ph, OF t, folded k2_def]
  show "pt_wf k2 root" using st(2) by (simp add: pt_keep_def)
  show "tables (phys k2) root = tables (phys k) root" using st(1) by (auto simp: tables_def)
  show "leaf (phys k2) root = set_page va None (leaf (phys k) root)" using st(3) by simp
  show "used_frames (pages k2) = used_frames (pages k) - (if b then {pte_to_pa e} else {})"
    using k_free_frames(1) [OF pt_wf_frames [OF wf]] by (simp add: k2_def store64_def)
qed

lemma unmap_loop_spec:
  assumes "pt_wf k root" and "b \<Longrightarrow> targets va is (leaf (phys k) root) \<inter> tables (phys k) root = {}"
    and "unmap_loop root va b is k = (r, k')"
  shows "pt_wf k' root \<and> tables (phys k') root = tables (phys k) root \<and>
         (\<exists>js rest. is = js @ rest \<and> leaf (phys k') root = clear_pages va js (leaf (phys k) root) \<and>
            used_frames (pages k') = used_frames (pages k) - (if b then targets va js (leaf (phys k) root) else {}) \<and>
            (if r = Ok () then rest = []
             else \<exists>i rest'. rest = i # rest' \<and> node (phys k) root [vpn 2 (page_at va i), vpn 1 (page_at va i)] = None))"
  using assms
proof (induction "is" arbitrary: k)
  case Nil
  then show ?case by (auto simp: clear_pages_def targets_def)
next
  case (Cons i "is")
  let ?va = "page_at va i"
  show ?case
  proof (cases "node (phys k) root [vpn 2 ?va, vpn 1 ?va]")
    case None
    then have "r = Err \<and> k' = k"
      using Cons.prems(3) by (auto simp: walk_False simp del: node.simps simp flip: page_at_def)
    then show ?thesis
      using None Cons.prems(1)
      by (intro conjI exI [of _ "[]"] exI [of _ "i # is"]) (simp_all add: clear_pages_def targets_def del: node.simps)
  next
    case (Some t)
    note wl = walked_leaf [OF Some]
    show ?thesis
    proof (cases "leaf (phys k) root ?va")
      case None
      have miss: "leaf (phys k) root vb = None" if "vpage vb = vpage ?va" for vb
        using leaf_page [OF that] None by simp
      have "unmap_loop root va b is k = (r, k')"
        using Cons.prems(3) Some wl(1) None by (simp add: walk_False del: node.simps flip: page_at_def)
      moreover have "b \<Longrightarrow> targets va is (leaf (phys k) root) \<inter> tables (phys k) root = {}"
        using Cons.prems(2) by (auto simp: targets_def)
      ultimately obtain js rest where ih: "pt_wf k' root" "tables (phys k') root = tables (phys k) root" "is = js @ rest"
        "leaf (phys k') root = clear_pages va js (leaf (phys k) root)"
        "used_frames (pages k') = used_frames (pages k) - (if b then targets va js (leaf (phys k) root) else {})"
        "if r = Ok () then rest = [] else \<exists>i rest'. rest = i # rest' \<and>
           node (phys k) root [vpn 2 (page_at va i), vpn 1 (page_at va i)] = None"
        using Cons.IH [OF Cons.prems(1)] by blast
      have "clear_pages va js (leaf (phys k) root) = clear_pages va (i # js) (leaf (phys k) root)"
        using miss by (auto simp: clear_pages_def fun_eq_iff)
      moreover have "targets va js (leaf (phys k) root) = targets va (i # js) (leaf (phys k) root)"
        using None by (auto simp: targets_def)
      ultimately show ?thesis
        using ih by (intro conjI exI [of _ "i # js"] exI [of _ rest]) simp_all
    next
      case e: (Some e)
      have hit: "leaf (phys k) root vb = Some e" if "vpage vb = vpage ?va" for vb
        using leaf_page [OF that] e by simp
      let ?k2 = "store64 (pte_addr t (vpn 0 ?va)) 0 (if b then k_free (pte_to_pa e) k else k)"
      have nt: "b \<Longrightarrow> pte_to_pa e \<notin> tables (phys k) root"
        using Cons.prems(2) e by (auto simp: targets_def)
      note um = unmap_page [OF Cons.prems(1) Some e nt]
      have loop: "unmap_loop root va b is ?k2 = (r, k')"
        using Cons.prems(3) Some wl(1) wl(2) [OF e] e
        by (auto simp add: walk_False simp del: node.simps simp flip: page_at_def split: if_splits)
      have sub: "targets va js (leaf (phys ?k2) root) \<subseteq> targets va js (leaf (phys k) root)" for js
        by (auto simp: um(3) targets_def set_page_def split: if_splits)
      have "b \<Longrightarrow> targets va is (leaf (phys ?k2) root) \<inter> tables (phys ?k2) root = {}"
        unfolding um(2) using Cons.prems(2) sub [of "is"] targets_Cons [of va "is" _ i] by blast
      then obtain js rest where ih: "pt_wf k' root" "tables (phys k') root = tables (phys ?k2) root" "is = js @ rest"
        "leaf (phys k') root = clear_pages va js (leaf (phys ?k2) root)"
        "used_frames (pages k') = used_frames (pages ?k2) - (if b then targets va js (leaf (phys ?k2) root) else {})"
        "if r = Ok () then rest = [] else \<exists>i rest'. rest = i # rest' \<and>
           node (phys ?k2) root [vpn 2 (page_at va i), vpn 1 (page_at va i)] = None"
        using Cons.IH [OF um(1) _ loop] by blast
      have "clear_pages va js (leaf (phys ?k2) root) = clear_pages va (i # js) (leaf (phys k) root)"
        by (auto simp: clear_pages_def um(3) set_page_def fun_eq_iff)
      moreover have "targets va (i # js) (leaf (phys k) root) = insert (pte_to_pa e) (targets va js (leaf (phys ?k2) root))"
        using hit e by (fastforce simp: targets_def um(3) set_page_def split: if_splits)
      moreover have "node (phys ?k2) root [vpn 2 vb, vpn 1 vb] = node (phys k) root [vpn 2 vb, vpn 1 vb]" for vb
        using store_leaf(1) [where v = 0 and k = "if b then k_free (pte_to_pa e) k else k" and q = "[vpn 2 vb, vpn 1 vb]"]
          Some k_free_pt_wf [OF Cons.prems(1) _ nt] Cons.prems(1)
        by (auto simp: k_free_def simp del: node.simps)
      ultimately show ?thesis
        using ih um(2,4) by (intro conjI exI [of _ "i # js"] exI [of _ rest]) (auto simp del: node.simps)
    qed
  qed
qed

section \<open>Freeing a page table\<close>

text \<open>The sub-tables below a table, in the order \<open>free_walk\<close> frees them.\<close>

primrec subtables :: "nat \<Rightarrow> cells \<Rightarrow> usize \<Rightarrow> usize list option" where
  "subtables 0 m t = None"
| "subtables (Suc d) m t =
     fold_opt (\<lambda>i acc. case next_tab m t (of_nat i) of
         None \<Rightarrow> Some acc
       | Some u \<Rightarrow> map_option (\<lambda>l. acc @ l @ [u]) (subtables d m u)) [0..<512] []"

lemma fold_opt_sim:
  assumes "\<And>x s t. R s t \<Longrightarrow> x \<in> set xs \<Longrightarrow> rel_option R (f x s) (g x t)" and "R s t"
  shows "rel_option R (fold_opt f xs s) (fold_opt g xs t)"
  using assms
proof (induction xs arbitrary: s t)
  case (Cons x xs)
  have "rel_option R (f x s) (g x t)" using Cons.prems by simp
  then show ?case
    using Cons by (cases "f x s"; cases "g x t") auto
qed simp

lemma free_walk_subtables:
  "free_walk d t k = map_option (\<lambda>l. k\<lparr>pages := fold page_free l (pages k)\<rparr>) (subtables d (phys k) t)"
proof (induction d arbitrary: t k)
  case (Suc d)
  let ?R = "\<lambda>k' l. k' = k\<lparr>pages := fold page_free l (pages k)\<rparr>"
  have "rel_option ?R (free_walk (Suc d) t k) (subtables (Suc d) (phys k) t)"
    unfolding free_walk.simps subtables.simps
  proof (rule fold_opt_sim)
    fix i :: nat and k' l
    assume "?R k' l"
    then show "rel_option ?R
        (let pte = load64 k' (pte_addr t (of_nat i)) in
         if pte AND PTE_V \<noteq> 0 \<and> pte AND (PTE_R OR PTE_W OR PTE_X) = 0
         then map_option (k_free (pte_to_pa pte)) (free_walk d (pte_to_pa pte) k') else Some k')
        (case next_tab (phys k) t (of_nat i) of None \<Rightarrow> Some l
         | Some u \<Rightarrow> map_option (\<lambda>r. l @ r @ [u]) (subtables d (phys k) u))"
      by (auto simp: Let_def load64_def next_tab_def Suc.IH k_free_def option.rel_map
                     option.map_comp comp_def option.rel_refl split: option.split)
  qed simp
  then show ?case
    by (cases "free_walk (Suc d) t k"; cases "subtables (Suc d) (phys k) t") (simp_all del: free_walk.simps subtables.simps)
qed simp

text \<open>With every leaf entry readable, writable or executable, three levels are enough and the
  list holds every table below once.\<close>

lemma subtables_leaf_level:
  assumes "\<And>i. i < 512 \<Longrightarrow> next_tab m t i = None"
  shows "subtables (Suc d) m t = Some []"
proof -
  have "fold_opt (\<lambda>i acc. case next_tab m t (of_nat i) of None \<Rightarrow> Some acc
         | Some u \<Rightarrow> map_option (\<lambda>l. acc @ l @ [u]) (subtables d m u)) is acc = Some acc"
    if "set is \<subseteq> {..<512}" for "is" acc
    using that
  proof (induction "is" arbitrary: acc)
    case (Cons i "is")
    then have "next_tab m t (of_nat i) = None"
      by (intro assms) (simp add: word_less_nat_alt unat_of_nat)
    then show ?case using Cons by simp
  qed simp
  then show ?thesis by (simp add: subset_eq)
qed

lemma subtables_step:
  assumes "\<And>i u. i < 512 \<Longrightarrow> next_tab m t i = Some u \<Longrightarrow> \<exists>l. subtables d m u = Some l \<and> set l = B u"
  shows "\<exists>l. subtables (Suc d) m t = Some l \<and>
           set l = (\<Union>i \<in> {..<512}. case next_tab m t i of None \<Rightarrow> {} | Some u \<Rightarrow> insert u (B u))"
proof -
  let ?S = "\<lambda>i. case next_tab m t i of None \<Rightarrow> {} | Some u \<Rightarrow> insert u (B u)"
  have "\<exists>l. fold_opt (\<lambda>i acc. case next_tab m t (of_nat i) of None \<Rightarrow> Some acc
         | Some u \<Rightarrow> map_option (\<lambda>l. acc @ l @ [u]) (subtables d m u)) is acc = Some l \<and>
       set l = set acc \<union> (\<Union>i \<in> set is. ?S (of_nat i))"
    if "set is \<subseteq> {..<512}" for "is" acc
    using that
  proof (induction "is" arbitrary: acc)
    case (Cons i "is")
    have i: "of_nat i < (512 :: usize)" using Cons.prems by (simp add: word_less_nat_alt unat_of_nat)
    show ?case
    proof (cases "next_tab m t (of_nat i)")
      case None
      then show ?thesis using Cons by simp
    next
      case (Some u)
      then obtain l where l: "subtables d m u = Some l" "set l = B u" using assms [OF i] by blast
      with Some Cons.IH [of "acc @ l @ [u]"] Cons.prems show ?thesis by auto
    qed
  qed simp
  from this [of "[0..<512]" "[]"] obtain l where l: "subtables (Suc d) m t = Some l"
    "set l = (\<Union>i \<in> {..<512::nat}. ?S (of_nat i))" by (auto simp: atLeast0LessThan)
  have "of_nat ` {..<512::nat} = {..<512::usize}"
  proof (rule set_eqI)
    fix i :: usize
    have "i < 512 \<longleftrightarrow> unat i < 512" by (simp add: word_less_nat_alt)
    then show "i \<in> of_nat ` {..<512} \<longleftrightarrow> i \<in> {..<512}"
      by (auto simp: image_iff word_less_nat_alt unat_of_nat intro!: bexI [of _ "unat i"])
  qed
  then have "(\<Union>i \<in> {..<512::nat}. ?S (of_nat i)) = (\<Union>i \<in> {..<512}. ?S i)"
    by (metis (no_types, lifting) SUP_cong image_image)
  then show ?thesis using l by auto
qed

definition leaves_rwx :: "cells \<Rightarrow> usize \<Rightarrow> bool" where
  "leaves_rwx m root \<longleftrightarrow> (\<forall>va e. leaf m root va = Some e \<longrightarrow> e AND (PTE_R OR PTE_W OR PTE_X) \<noteq> 0)"

definition below :: "cells \<Rightarrow> usize \<Rightarrow> nat \<Rightarrow> usize set" where
  "below m t n = {u. \<exists>q. q \<noteq> [] \<and> length q \<le> n \<and> (\<forall>i \<in> set q. i < 512) \<and> node m t q = Some u}"

lemma tables_below: "tables m root = insert root (below m root 2)"
proof (rule set_eqI)
  fix t
  show "t \<in> tables m root \<longleftrightarrow> t \<in> insert root (below m root 2)"
    unfolding tables_def below_def valid_path_def
    by (auto intro: exI [of _ "[]"]) (metis node.simps(1) option.inject)+
qed

lemma below_Suc:
  "below m t (Suc n) = (\<Union>i \<in> {..<512}. case next_tab m t i of None \<Rightarrow> {} | Some u \<Rightarrow> insert u (below m u n))"
proof (intro set_eqI iffI)
  fix u assume "u \<in> below m t (Suc n)"
  then obtain i q where q: "length q \<le> n" "i < 512" "\<forall>j \<in> set q. j < 512" "node m t (i # q) = Some u"
    unfolding below_def by (auto simp: neq_Nil_conv)
  then obtain v where v: "next_tab m t i = Some v" "node m v q = Some u"
    by (auto split: option.splits)
  then have "u \<in> insert v (below m v n)"
    using q by (cases q) (auto simp: below_def intro!: exI [of _ q])
  then show "u \<in> (\<Union>i \<in> {..<512}. case next_tab m t i of None \<Rightarrow> {} | Some u \<Rightarrow> insert u (below m u n))"
    using v q by (intro UN_I [of i]) auto
next
  fix u assume "u \<in> (\<Union>i \<in> {..<512}. case next_tab m t i of None \<Rightarrow> {} | Some u \<Rightarrow> insert u (below m u n))"
  then obtain i v where i: "i < 512" "next_tab m t i = Some v" "u = v \<or> u \<in> below m v n"
    by (auto split: option.splits)
  then show "u \<in> below m t (Suc n)"
  proof (elim disjE)
    assume "u = v"
    then show ?thesis using i by (auto simp: below_def intro!: exI [of _ "[i]"])
  next
    assume "u \<in> below m v n"
    then obtain q where "length q \<le> n" "\<forall>j \<in> set q. j < 512" "node m v q = Some u"
      by (auto simp: below_def)
    then show ?thesis using i by (auto simp: below_def intro!: exI [of _ "i # q"])
  qed
qed

lemma subtables_below:
  assumes "\<And>q u i. length q = n \<Longrightarrow> \<forall>j \<in> set q. j < 512 \<Longrightarrow> node m t q = Some u \<Longrightarrow> i < 512 \<Longrightarrow> next_tab m u i = None"
  shows "\<exists>l. subtables (Suc n) m t = Some l \<and> set l = below m t n"
  using assms
proof (induction n arbitrary: t)
  case 0
  then have "subtables (Suc 0) m t = Some []" by (intro subtables_leaf_level) auto
  then show ?case by (auto simp: below_def)
next
  case (Suc n)
  have "\<exists>l. subtables (Suc n) m u = Some l \<and> set l = below m u n" if "i < 512" "next_tab m t i = Some u" for i u
  proof (rule Suc.IH)
    fix q v and j :: usize assume "length q = n" "\<forall>j \<in> set q. j < 512" "node m u q = Some v" "j < 512"
    then show "next_tab m v j = None" using that by (intro Suc.prems [of "i # q"]) auto
  qed
  then show ?case unfolding below_Suc by (rule subtables_step)
qed

lemma path_address:
  assumes "a < 512" and "b < 512" and "c < 512"
  obtains va where "vpn 2 va = a" and "vpn 1 va = b" and "vpn 0 va = c"
proof -
  define va where "va = push_bit 30 a OR push_bit 21 b OR push_bit 12 c"
  have hi: "bit x n \<Longrightarrow> n < 9" if "x < 512" for x :: usize and n
    using bit_less_exp [of x 9 n] that by simp
  have "vpn 2 va = a" "vpn 1 va = b" "vpn 0 va = c"
    using hi [OF assms(1)] hi [OF assms(2)] hi [OF assms(3)]
    by (auto intro!: bit_word_eqI simp: bit_vpn va_def bit_or_iff bit_push_bit_iff) fastforce+
  then show ?thesis by (rule that)
qed

lemma leaf_level_dead:
  assumes "leaves_rwx m root" and "a < 512" and "b < 512" and "i < 512" and "node m root [a, b] = Some t"
  shows "next_tab m t i = None"
proof -
  obtain va where va: "vpn 2 va = a" "vpn 1 va = b" "vpn 0 va = i" using path_address assms(2-4) .
  have "m (pte_addr t i) AND PTE_V = 0 \<or> leaf m root va = Some (m (pte_addr t i))"
    unfolding leaf_def va assms(5) by (simp add: Let_def)
  then show ?thesis using assms(1) by (auto simp: leaves_rwx_def next_tab_def)
qed

lemma pt_free_spec:
  assumes wf: "pt_wf k root" and rwx: "leaves_rwx (phys k) root"
  obtains k' where "pt_free root k = Some k'" and "phys k' = phys k"
    and "used_frames (pages k') = used_frames (pages k) - tables (phys k) root" and "frames_wf (pages k')"
proof -
  have "next_tab (phys k) u i = None"
    if q: "length q = 2" "\<forall>j \<in> set q. j < 512" "node (phys k) root q = Some u" "i < 512" for q u i
  proof -
    obtain a b where ab: "q = [a, b]" using q(1) by (auto simp: numeral_2_eq_2 length_Suc_conv)
    have "a < 512" "b < 512" using q(2) by (simp_all add: ab)
    then show ?thesis by (rule leaf_level_dead [OF rwx _ _ q(4) q(3) [unfolded ab]])
  qed
  then obtain l where l: "subtables 3 (phys k) root = Some l" "set l = below (phys k) root 2"
    using subtables_below [of 2 "phys k" root] by (auto simp: numeral_3_eq_3 numeral_2_eq_2)
  have al: "page_aligned t" if "t \<in> tables (phys k) root" for t
    using that pt_wf_node(2) [OF wf] by (auto simp: tables_def)
  let ?k' = "k\<lparr>pages := fold page_free (l @ [root]) (pages k)\<rparr>"
  have set: "set (l @ [root]) = tables (phys k) root" using l(2) by (simp add: tables_below)
  then have "used_frames (pages ?k') = used_frames (pages k) - tables (phys k) root \<and> frames_wf (pages ?k')"
    using frames.free_list_used [OF pt_wf_frames [OF wf], of "l @ [root]"] al by (simp add: set)
  moreover have "pt_free root k = Some ?k'"
    using l(1) by (simp add: pt_free_def PT_LEVELS_def free_walk_subtables k_free_def)
  ultimately show ?thesis by (intro that [of ?k']) simp_all
qed

section \<open>A new table\<close>

lemma pt_create_wf:
  assumes "frames_wf (pages k)" and "pt_create k = (Some root, k')"
  shows "pt_wf k' root" and "leaf (phys k') root = (\<lambda>_. None)"
proof -
  note new = pt_create_Some [OF assms]
  have dead: "phys k' (pte_addr root i) = 0" if "i < 512" for i
    using page_base_pte_addr [OF new(6) that] by (simp add: new(8))
  have nodes: "node (phys k') root q = (if q = [] then Some root else None)" if "valid_path q" for q
    using that by (cases q) (simp_all add: next_tab_def dead valid_path_def)
  have root: "valid_path (p @ [i]) \<Longrightarrow> node (phys k') root p = Some t \<Longrightarrow> t = root \<and> i < 512" for p i t
    using nodes [of p] by (auto simp: valid_path_def split: if_splits)
  show "pt_wf k' root"
    unfolding pt_wf_def
  proof (intro conjI allI impI)
    show "frames_wf (pages k')" by (rule new(5))
  next
    fix p i t assume "valid_path (p @ [i])" "node (phys k') root p = Some t"
    then show "phys k' (pte_addr t i) AND (PTE_R OR PTE_W OR PTE_X) = 0"
      using root dead by fastforce
  qed (use nodes new(3) in \<open>auto split: if_splits\<close>)
  show "leaf (phys k') root = (\<lambda>_. None)"
    unfolding leaf_def using nodes [OF valid_path_simps(3)] by simp
qed

section \<open>Runs of pages\<close>

definition run_length :: "usize \<Rightarrow> nat" where
  "run_length sz = unat (sz div PAGE_SIZE)"

definition run_pages :: "usize \<Rightarrow> usize \<Rightarrow> usize set" where
  "run_pages va sz = (\<lambda>i. vpage (page_at va i)) ` {..<run_length sz}"

lemma unat_vpage: "unat (vpage x) = unat x div 4096 mod 2 ^ 27"
  unfolding vpage_def by (simp add: unat_and_mask drop_bit_eq_div unat_div)

lemma vpage_page_at:
  assumes "page_aligned va"
  shows "unat (vpage (page_at va i)) = (unat va div 4096 + i) mod 2 ^ 27"
proof -
  obtain c where c: "unat va = 4096 * c" using assms by (auto simp: page_aligned_unat dvd_def)
  have "of_nat (unat va) = va" by simp
  then have "page_at va i = of_nat (4096 * c) + of_nat i * 4096"
    unfolding page_at_def PAGE_SIZE_def c by simp
  then have "page_at va i = of_nat (4096 * (c + i))" by (simp add: algebra_simps)
  then have "unat (page_at va i) = (4096 * (c + i)) mod 2 ^ 64"
    by (simp only: unat_of_nat) simp
  also have "\<dots> = 4096 * ((c + i) mod 2 ^ 52)"
    by (simp add: mult_mod_right)
  finally have "unat (page_at va i) div 4096 = (c + i) mod 2 ^ 52" by simp
  then show ?thesis by (simp add: unat_vpage c mod_mod_cancel)
qed

lemma page_at_inj:
  assumes "page_aligned va" and "vpage (page_at va i) = vpage (page_at va j)" and "i < 2 ^ 27" and "j < 2 ^ 27"
  shows "i = j"
proof -
  have "(unat va div 4096 + i) mod 2 ^ 27 = (unat va div 4096 + j) mod 2 ^ 27"
    using assms(2) vpage_page_at [OF assms(1)] by metis
  then obtain q q' where "unat va div 4096 + i + 2 ^ 27 * q = unat va div 4096 + j + 2 ^ 27 * q'"
    unfolding nat_mod_eq_iff by blast
  then have "(i + 2 ^ 27 * q) mod 2 ^ 27 = (j + 2 ^ 27 * q') mod 2 ^ 27" by simp
  then show ?thesis using assms(3,4) by simp
qed

lemma run_page_address:
  assumes "page_aligned va" and "unat off < run_length sz * unat PAGE_SIZE"
  shows "vpage (va + off) \<in> run_pages va sz"
proof -
  obtain i r where "i < run_length sz" "r < PAGE_SIZE" "va + off = page_at va i + r"
    using run_address [OF assms(2)] by metis
  then show ?thesis
    using offset_in_page(2) [OF page_at_aligned [OF assms(1)]] by (auto simp: run_pages_def)
qed

end
