(* ===== verification/Page_Table_Spec.thy ===== *)
theory Page_Table_Spec
  imports Page_Table_Ops
begin

text \<open>
  The contract of \<open>src/kernel/pgtable.rs\<close>: what \<open>map\<close>, \<open>set_flags\<close>, \<open>unmap\<close> and \<open>free\<close> promise
  in terms of \<open>virt_to_phys\<close> and of the frames in use, with runs on a small machine as witnesses.
\<close>

section \<open>A small machine\<close>

text \<open>Eight free frames from \<open>0x80400000\<close>, and a new table in the first of them.\<close>

definition machine0 :: kmem where
  "machine0 = \<lparr>phys = \<lambda>_. 0, pages = Some (allocator_new 0x80400000 8)\<rparr>"

definition machine1 :: kmem where
  "machine1 = snd (pt_create machine0)"

lemma machine0_wf: "frames_wf (pages machine0)"
  using allocator_new_wf [of "0x80400000" 8]
  by (simp add: machine0_def frames_wf_def page_aligned_def layout)

lemma machine1_create: "pt_create machine0 = (Some 0x80400000, machine1)"
proof -
  have "fst (pt_create machine0) = Some 0x80400000" by code_simp
  then show ?thesis by (simp add: machine1_def prod_eq_iff)
qed

lemmas machine1_wf = pt_create_wf [OF machine0_wf machine1_create]

section \<open>Mapping\<close>

lemma pt_map_loop:
  "pt_map root va pa sz flags k = (r, k') \<Longrightarrow> r = Ok () \<Longrightarrow>
   page_aligned va \<and> page_aligned pa \<and> map_loop root va pa flags [0..<run_length sz] k = (r, k')"
  by (auto simp: pt_map_def page_aligned_def run_length_def split: if_splits)

lemma page_at_bound:
  assumes "unat pa + unat sz \<le> 2 ^ 56" and "i < run_length sz"
  shows "page_at pa i < 2 ^ 56"
proof -
  have "run_length sz * 4096 \<le> unat sz" by (simp add: run_length_def layout unat_div)
  moreover have "unat (page_at pa i) \<le> unat pa + i * 4096"
  proof -
    have "page_at pa i = of_nat (unat pa + i * 4096)" by (simp add: page_at_def layout)
    then show ?thesis by (simp only: unat_of_nat) simp
  qed
  ultimately have "unat (page_at pa i) < 2 ^ 56" using assms by linarith
  then show ?thesis by (simp add: word_less_nat_alt)
qed

lemma pt_map_Ok:
  assumes "pt_wf k root" and "flags < 2 ^ 10" and "unat pa + unat sz \<le> 2 ^ 56"
    and "pt_map root va pa sz flags k = (Ok (), k')"
  shows "pt_keep root k k'" and "page_aligned va" and "page_aligned pa"
    and "vpage vb \<notin> run_pages va sz \<Longrightarrow> leaf (phys k') root vb = leaf (phys k) root vb"
    and "vpage vb \<in> run_pages va sz \<Longrightarrow> leaf (phys k) root vb = None"
    and "unat off < run_length sz * unat PAGE_SIZE \<Longrightarrow> virt_to_phys root (va + off) k' = Some (pa + off)"
    and "unat off < run_length sz * unat PAGE_SIZE \<Longrightarrow>
         \<exists>pa'. leaf (phys k') root (va + off) = Some (pa_to_pte pa' (flags OR PTE_V))"
proof -
  show al: "page_aligned va" "page_aligned pa" using pt_map_loop [OF assms(4)] by simp_all
  have loop: "map_loop root va pa flags [0..<run_length sz] k = (Ok (), k')"
    using pt_map_loop [OF assms(4)] by simp_all
  from map_loop_spec [OF assms(1) loop] show keep: "pt_keep root k k'" by blast
  from map_loop_spec [OF assms(1) loop]
  have leaf': "leaf (phys k') root = map_pages va pa flags [0..<run_length sz] (leaf (phys k) root)"
    and dist: "distinct (map (\<lambda>i. vpage (page_at va i)) [0..<run_length sz])"
    and none: "\<forall>i < run_length sz. leaf (phys k) root (page_at va i) = None" by auto
  show "leaf (phys k) root vb = None" if run: "vpage vb \<in> run_pages va sz"
  proof -
    obtain i where i: "i < run_length sz" "vpage vb = vpage (page_at va i)"
      using run by (auto simp: run_pages_def)
    then show ?thesis using none leaf_page [OF i(2)] by simp
  qed
  show "leaf (phys k') root vb = leaf (phys k) root vb" if run: "vpage vb \<notin> run_pages va sz"
    unfolding leaf' by (rule map_pages_outside) (use run in \<open>auto simp: run_pages_def\<close>)
  have "virt_to_phys root (va + off) k' = Some (pa + off) \<and>
        (\<exists>pa'. leaf (phys k') root (va + off) = Some (pa_to_pte pa' (flags OR PTE_V)))"
    if off: "unat off < run_length sz * unat PAGE_SIZE"
  proof -
    obtain i r where i: "i < run_length sz" "r < PAGE_SIZE" "va + off = page_at va i + r" "pa + off = page_at pa i + r"
      by (rule run_address [OF off])
    note pg = offset_in_page [OF page_at_aligned [OF al(1)] i(2), of i]
    have "leaf (phys k') root (va + off) = Some (pa_to_pte (page_at pa i) (flags OR PTE_V))"
      unfolding leaf' by (rule map_pages_inside [OF dist]) (use i pg in auto)
    moreover have "pte_to_pa (pa_to_pte (page_at pa i) (flags OR PTE_V)) = page_at pa i"
      by (rule pte_roundtrip [OF page_at_aligned [OF al(2)] page_at_bound [OF assms(3) i(1)] flags_or_V [OF assms(2)]])
    ultimately show ?thesis using i pg by (auto simp: virt_to_phys_leaf)
  qed
  then show "unat off < run_length sz * unat PAGE_SIZE \<Longrightarrow> virt_to_phys root (va + off) k' = Some (pa + off)"
    and "unat off < run_length sz * unat PAGE_SIZE \<Longrightarrow>
         \<exists>pa'. leaf (phys k') root (va + off) = Some (pa_to_pte pa' (flags OR PTE_V))" by blast+
qed

text \<open>C3: When \<open>map(va, pa, size, flags)\<close> succeeds, every address of the run was unmapped before
  and now translates to the same offset from \<open>pa\<close>, every page outside the run translates as
  before, and the tables stay well formed.\<close>

theorem pt_map_translates:
  assumes "pt_wf k root" and "flags < 2 ^ 10" and "unat pa + unat sz \<le> 2 ^ 56"
    and "pt_map root va pa sz flags k = (Ok (), k')"
  shows "pt_wf k' root \<and>
         (\<forall>off. unat off < run_length sz * unat PAGE_SIZE \<longrightarrow>
            virt_to_phys root (va + off) k = None \<and> virt_to_phys root (va + off) k' = Some (pa + off)) \<and>
         (\<forall>vb. vpage vb \<notin> run_pages va sz \<longrightarrow> virt_to_phys root vb k' = virt_to_phys root vb k)"
proof -
  note ok = pt_map_Ok [OF assms]
  have "virt_to_phys root (va + off) k = None" if "unat off < run_length sz * unat PAGE_SIZE" for off
    using ok(5) run_page_address [OF ok(2) that] by (simp add: virt_to_phys_leaf)
  then show ?thesis using ok by (auto simp: pt_keep_def virt_to_phys_leaf)
qed

definition machine2 :: kmem where
  "machine2 = snd (pt_map 0x80400000 0x10000 0x80406000 0x2000 (PTE_R OR PTE_U) machine1)"

lemma machine2_map: "pt_map 0x80400000 0x10000 0x80406000 0x2000 (PTE_R OR PTE_U) machine1 = (Ok (), machine2)"
proof -
  have "fst (pt_map 0x80400000 0x10000 0x80406000 0x2000 (PTE_R OR PTE_U) machine1) = Ok ()" by code_simp
  then show ?thesis by (simp add: machine2_def prod_eq_iff)
qed

lemma machine2_wf: "pt_wf machine2 0x80400000"
proof -
  have "map_loop 0x80400000 0x10000 0x80406000 (PTE_R OR PTE_U) [0..<run_length 0x2000] machine1 = (Ok (), machine2)"
    using pt_map_loop [OF machine2_map refl] by simp
  from map_loop_spec [OF machine1_wf(1) this] show ?thesis by (simp add: pt_keep_def)
qed

theorem pt_map_translates_witness: "virt_to_phys 0x80400000 0x10FFC machine2 = Some 0x80406FFC"
proof -
  have "unat (0xFFC :: usize) < run_length 0x2000 * unat PAGE_SIZE"
    by (simp add: run_length_def layout)
  moreover have "PTE_R OR PTE_U < 2 ^ 10" by (simp add: layout)
  moreover have "unat (0x80406000 :: usize) + unat (0x2000 :: usize) \<le> 2 ^ 56" by simp
  ultimately have "virt_to_phys 0x80400000 (0x10000 + 0xFFC) machine2 = Some (0x80406000 + 0xFFC)"
    using pt_map_translates [OF machine1_wf(1) _ _ machine2_map] by blast
  then show ?thesis by simp
qed

lemma pt_map_Err:
  assumes "pt_wf k root" and "sz \<noteq> 0" and "page_aligned va" and "page_aligned pa" and "run_length sz \<le> 2 ^ 27"
    and "pt_map root va pa sz flags k = (Err, k')"
  shows "pt_keep root k k' \<and>
         ((\<exists>i < run_length sz. leaf (phys k) root (page_at va i) \<noteq> None) \<or> avail_frames (pages k') = {}) \<and>
         (\<forall>vb. leaf (phys k) root vb \<noteq> None \<longrightarrow> leaf (phys k') root vb = leaf (phys k) root vb)"
proof -
  have loop: "map_loop root va pa flags [0..<run_length sz] k = (Err, k')"
    using assms(2-4,6) by (simp add: pt_map_def page_aligned_def run_length_def)
  from map_loop_spec [OF assms(1) loop] obtain js i rest where keep: "pt_keep root k k'"
    and upt: "[0..<run_length sz] = js @ i # rest"
    and leaf': "leaf (phys k') root = map_pages va pa flags js (leaf (phys k) root)"
    and none: "\<forall>j \<in> set js. leaf (phys k) root (page_at va j) = None"
    and why: "leaf (phys k') root (page_at va i) \<noteq> None \<or> avail_frames (pages k') = {}" by auto
  have lt: "j < run_length sz" if "j \<in> set js \<or> j = i" for j
    using that arg_cong [OF upt, of set] by auto
  have new: "vpage (page_at va i) \<noteq> vpage (page_at va j)" if "j \<in> set js" for j
  proof -
    have "distinct (js @ i # rest)" using upt by (metis distinct_upt)
    then have "j \<noteq> i" using that by auto
    moreover have "i < 2 ^ 27" "j < 2 ^ 27" using lt [of i] lt [of j] that assms(5) by auto
    ultimately show ?thesis using page_at_inj [OF assms(3), of i j] by blast
  qed
  have "leaf (phys k') root (page_at va i) = leaf (phys k) root (page_at va i)"
    unfolding leaf' by (rule map_pages_outside) (use new in auto)
  moreover have "leaf (phys k') root vb = leaf (phys k) root vb" if "leaf (phys k) root vb \<noteq> None" for vb
    unfolding leaf' by (rule map_pages_outside) (use that none leaf_page in metis)
  ultimately show ?thesis
    using why lt keep by metis
qed

text \<open>C26: When \<open>map\<close> fails on well-formed arguments, either a page of the run was already mapped or
  the allocator has run dry; translations that existed are kept, and the tables stay well formed.\<close>

theorem pt_map_error:
  assumes "pt_wf k root" and "sz \<noteq> 0" and "page_aligned va" and "page_aligned pa" and "run_length sz \<le> 2 ^ 27"
    and "pt_map root va pa sz flags k = (Err, k')"
  shows "pt_wf k' root \<and>
         ((\<exists>i < run_length sz. virt_to_phys root (page_at va i) k \<noteq> None) \<or> avail_frames (pages k') = {}) \<and>
         (\<forall>vb. virt_to_phys root vb k \<noteq> None \<longrightarrow> virt_to_phys root vb k' = virt_to_phys root vb k)"
  using pt_map_Err [OF assms] by (auto simp: virt_to_phys_leaf pt_keep_def)

theorem pt_map_error_witness:
  "virt_to_phys 0x80400000 0x10FFC (snd (pt_map 0x80400000 0xF000 0x80406000 0x3000 PTE_R machine2)) = Some 0x80406FFC"
proof -
  have "fst (pt_map 0x80400000 0xF000 0x80406000 0x3000 PTE_R machine2) = Err" by code_simp
  then have run: "pt_map 0x80400000 0xF000 0x80406000 0x3000 PTE_R machine2 =
      (Err, snd (pt_map 0x80400000 0xF000 0x80406000 0x3000 PTE_R machine2))" by (simp add: prod_eq_iff)
  have old: "virt_to_phys 0x80400000 0x10FFC machine2 = Some 0x80406FFC" by code_simp
  have "run_length 0x3000 \<le> 2 ^ 27" "page_aligned 0xF000" "page_aligned 0x80406000"
    by (simp_all add: run_length_def page_aligned_def layout)
  then show ?thesis
    using pt_map_error [OF machine2_wf _ _ _ _ run] old by simp
qed

section \<open>Changing permissions\<close>

text \<open>C28: When \<open>set_flags(va, size, flags)\<close> succeeds, no translation changes; every page of the run is
  mapped with exactly the flags asked for (and the valid bit), every other entry is untouched and
  no frame is allocated or freed.\<close>

theorem set_flags_permissions:
  assumes "pt_wf k root" and "flags < 2 ^ 10" and "set_flags root va sz flags k = (Ok (), k')"
  shows "pt_wf k' root \<and> pages k' = pages k \<and>
         (\<forall>vb. virt_to_phys root vb k' = virt_to_phys root vb k) \<and>
         (\<forall>vb. leaf (phys k') root vb =
            (if vpage vb \<in> run_pages va sz
             then Some (pa_to_pte (pte_to_pa (the (leaf (phys k) root vb))) (flags OR PTE_V))
             else leaf (phys k) root vb))"
proof -
  have "set_flags_loop root va flags [0..<run_length sz] k = (Ok (), k')"
    using assms(3) by (auto simp: set_flags_def run_length_def split: if_splits)
  from set_flags_loop_spec [OF assms(1,2) this] have keep: "pt_keep root k k'" "pages k' = pages k"
    and leaf': "leaf (phys k') root = set_page_flags va flags [0..<run_length sz] (leaf (phys k) root)"
    and some: "\<forall>i < run_length sz. leaf (phys k) root (page_at va i) \<noteq> None" by auto
  have run: "vpage vb \<in> run_pages va sz \<longleftrightarrow> (\<exists>i \<in> set [0..<run_length sz]. vpage vb = vpage (page_at va i))" for vb
    by (auto simp: run_pages_def)
  have mapped: "leaf (phys k) root vb \<noteq> None" if "vpage vb \<in> run_pages va sz" for vb
  proof -
    obtain i where i: "i < run_length sz" "vpage vb = vpage (page_at va i)"
      using \<open>vpage vb \<in> run_pages va sz\<close> by (auto simp: run_pages_def)
    show ?thesis using some i(1) leaf_page [OF i(2)] by metis
  qed
  have pa: "pte_to_pa (pa_to_pte (pte_to_pa e) (flags OR PTE_V)) = pte_to_pa e" for e
    by (rule pte_roundtrip [OF pte_to_pa_aligned pte_to_pa_bound flags_or_V [OF assms(2)]])
  show ?thesis
    unfolding virt_to_phys_leaf leaf' set_page_flags_def run [symmetric]
    using keep by (auto simp: pt_keep_def option.map_comp comp_def pa dest!: mapped)
qed

theorem set_flags_permissions_witness:
  "leaf (phys (snd (set_flags 0x80400000 0x10000 0x1000 (PTE_R OR PTE_X) machine2))) 0x80400000 0x10008 =
     Some (pa_to_pte 0x80406000 (PTE_R OR PTE_X OR PTE_V))"
proof -
  let ?r = "set_flags 0x80400000 0x10000 0x1000 (PTE_R OR PTE_X) machine2"
  have "fst ?r = Ok ()" by code_simp
  then have run: "?r = (Ok (), snd ?r)" by (simp add: prod_eq_iff)
  have "vpage 0x10008 \<in> run_pages 0x10000 0x1000"
    using run_page_address [of "0x10000" 8 "0x1000"] by (simp add: page_aligned_def run_length_def layout)
  moreover have "pte_to_pa (the (leaf (phys machine2) 0x80400000 0x10008)) = 0x80406000" by code_simp
  moreover have "PTE_R OR PTE_X < 2 ^ 10" by (simp add: layout)
  ultimately show ?thesis
    using set_flags_permissions [OF machine2_wf _ run] by (simp add: or.assoc)
qed

section \<open>Unmapping\<close>

text \<open>C29: When \<open>unmap(va, size, true)\<close> succeeds, no page of the run is mapped any more, every other page
  translates as before, and the frames given back are exactly the ones the run mapped.\<close>

theorem unmap_releases:
  assumes "pt_wf k root"
    and "targets va [0..<run_length sz] (leaf (phys k) root) \<inter> tables (phys k) root = {}"
    and "unmap root va sz True k = (Ok (), k')"
  shows "pt_wf k' root \<and>
         used_frames (pages k') = used_frames (pages k) - targets va [0..<run_length sz] (leaf (phys k) root) \<and>
         (\<forall>vb. virt_to_phys root vb k' =
            (if vpage vb \<in> run_pages va sz then None else virt_to_phys root vb k))"
proof -
  have "unmap_loop root va True [0..<run_length sz] k = (Ok (), k')"
    using assms(3) by (auto simp: unmap_def run_length_def split: if_splits)
  from unmap_loop_spec [OF assms(1) _ this] assms(2) have "pt_wf k' root"
    and leaf': "leaf (phys k') root = clear_pages va [0..<run_length sz] (leaf (phys k) root)"
    and "used_frames (pages k') = used_frames (pages k) - targets va [0..<run_length sz] (leaf (phys k) root)"
    by auto
  then show ?thesis by (auto simp: virt_to_phys_leaf clear_pages_def run_pages_def)
qed

lemma machine2_frames: "0x80406000 \<notin> used_frames (pages machine2)" "0x80407000 \<notin> used_frames (pages machine2)"
  by code_simp+

lemma machine2_tables: "t \<in> tables (phys machine2) 0x80400000 \<Longrightarrow> t \<noteq> 0x80406000 \<and> t \<noteq> 0x80407000"
  using machine2_frames pt_wf_node(1) [OF machine2_wf] by (auto simp: tables_def)

theorem unmap_releases_witness:
  "virt_to_phys 0x80400000 0x10FFC (snd (unmap 0x80400000 0x10000 0x2000 True machine2)) = None"
proof -
  let ?r = "unmap 0x80400000 0x10000 0x2000 True machine2"
  have "fst ?r = Ok ()" by code_simp
  then have run: "?r = (Ok (), snd ?r)" by (simp add: prod_eq_iff)
  have "vpage 0x10FFC \<in> run_pages 0x10000 0x2000"
    using run_page_address [of "0x10000" "0xFFC" "0x2000"] by (simp add: page_aligned_def run_length_def layout)
  moreover have "targets 0x10000 [0..<run_length 0x2000] (leaf (phys machine2) 0x80400000) = {0x80406000, 0x80407000}"
  proof -
  have "leaf (phys machine2) 0x80400000 (page_at 0x10000 0) = Some (pa_to_pte 0x80406000 (PTE_R OR PTE_U OR PTE_V))"
    "leaf (phys machine2) 0x80400000 (page_at 0x10000 1) = Some (pa_to_pte 0x80407000 (PTE_R OR PTE_U OR PTE_V))" by code_simp+
  moreover have "pte_to_pa (pa_to_pte 0x80406000 (PTE_R OR PTE_U OR PTE_V)) = 0x80406000"
    "pte_to_pa (pa_to_pte 0x80407000 (PTE_R OR PTE_U OR PTE_V)) = 0x80407000" by code_simp+
  moreover have "[0..<run_length 0x2000] = [0, 1]" by (simp add: run_length_def layout upt_rec)
    ultimately show ?thesis by (auto simp: targets_def)
  qed
  moreover from this have "targets 0x10000 [0..<run_length 0x2000] (leaf (phys machine2) 0x80400000) \<inter>
      tables (phys machine2) 0x80400000 = {}" using machine2_tables by auto
  ultimately show ?thesis
    using unmap_releases [OF machine2_wf _ run] by presburger
qed

section \<open>Freeing\<close>

text \<open>C30: Freeing a page table whose leaves all carry a permission terminates within the three Sv39
  levels and returns exactly its table pages to the allocator; memory is not written.\<close>

theorem pt_free_releases:
  assumes "pt_wf k root" and "leaves_rwx (phys k) root"
  shows "\<exists>k'. pt_free root k = Some k' \<and> phys k' = phys k \<and> frames_wf (pages k') \<and>
           used_frames (pages k') = used_frames (pages k) - tables (phys k) root"
  using pt_free_spec [OF assms] by metis

lemma machine1_rwx: "leaves_rwx (phys machine1) 0x80400000"
  by (simp add: leaves_rwx_def machine1_wf(2))

theorem pt_free_releases_witness:
  "\<exists>k'. pt_free 0x80400000 machine1 = Some k' \<and> 0x80400000 \<notin> used_frames (pages k')"
proof -
  have "0x80400000 \<in> tables (phys machine1) 0x80400000" by (simp add: tables_below)
  then show ?thesis using pt_free_releases [OF machine1_wf(1) machine1_rwx] by auto
qed

end
