(* ===== verification/Page_Table_Progress.thy ===== *)
theory Page_Table_Progress
  imports Page_Table_Spec
begin

text \<open>
  Progress of the page-table code: how many frames \<open>walk\<close> and \<open>map\<close> of \<open>src/kernel/pgtable.rs\<close>
  take, and that \<open>map\<close> succeeds when the run is unmapped and more frames are free than the
  number of tables on the paths of the run.
\<close>

section \<open>Frames taken by a walk\<close>

definition path_nodes :: "cells \<Rightarrow> usize \<Rightarrow> usize list set \<Rightarrow> usize set" where
  "path_nodes m root P = {t. \<exists>q \<in> P. node m root q = Some t}"

text \<open>The frames in use grow at most by the nodes at the paths \<open>P\<close>.\<close>

definition pt_grow :: "usize \<Rightarrow> usize list set \<Rightarrow> kmem \<Rightarrow> kmem \<Rightarrow> bool" where
  "pt_grow root P k k' \<longleftrightarrow>
     used_frames (pages k') \<subseteq> used_frames (pages k) \<union> path_nodes (phys k') root P \<and>
     used_frames (pages k') \<union> avail_frames (pages k') = used_frames (pages k) \<union> avail_frames (pages k)"

lemma pt_grow_refl [simp]: "pt_grow root P k k"
  by (simp add: pt_grow_def)

lemma path_nodes_keep:
  assumes "pt_keep root k k'" and "\<And>q. q \<in> P \<Longrightarrow> valid_path q"
  shows "path_nodes (phys k) root P \<subseteq> path_nodes (phys k') root P"
  using assms unfolding pt_keep_def path_nodes_def by blast

lemma pt_grow_trans:
  assumes "pt_grow root P k k1" and "pt_grow root Q k1 k2" and "pt_keep root k1 k2"
    and "\<And>q. q \<in> P \<Longrightarrow> valid_path q"
  shows "pt_grow root (P \<union> Q) k k2"
proof -
  have "path_nodes (phys k2) root (P \<union> Q) = path_nodes (phys k2) root P \<union> path_nodes (phys k2) root Q"
    by (auto simp: path_nodes_def)
  then show ?thesis
    using assms(1,2) path_nodes_keep [OF assms(3,4)] unfolding pt_grow_def by blast
qed

lemma pt_grow_mono: "pt_grow root P k k' \<Longrightarrow> P \<subseteq> Q \<Longrightarrow> pt_grow root Q k k'"
  unfolding pt_grow_def path_nodes_def by blast

lemma pt_grow_card:
  assumes "pt_grow root P k k'" and "finite P" and "frames_wf (pages k)" and "frames_wf (pages k')"
  shows "card (avail_frames (pages k)) \<le> card (avail_frames (pages k')) + card P"
proof -
  have "path_nodes (phys k') root P \<subseteq> (\<lambda>q. the (node (phys k') root q)) ` P"
    by (force simp: path_nodes_def)
  then have fin: "finite (path_nodes (phys k') root P)" and le: "card (path_nodes (phys k') root P) \<le> card P"
    using assms(2) by (meson finite_imageI finite_subset, meson card_image_le card_mono finite_imageI order_trans)
  have "avail_frames (pages k) \<subseteq> avail_frames (pages k') \<union> path_nodes (phys k') root P"
    using assms(1) frames.used_avail_disjoint [OF assms(3)] unfolding pt_grow_def by blast
  then have "card (avail_frames (pages k)) \<le> card (avail_frames (pages k') \<union> path_nodes (phys k') root P)"
    using fin frames.finite_avail [OF assms(4)] by (intro card_mono) auto
  also have "\<dots> \<le> card (avail_frames (pages k')) + card (path_nodes (phys k') root P)" by (rule card_Un_le)
  finally show ?thesis using le by simp
qed

definition walk_paths :: "usize \<Rightarrow> usize list set" where
  "walk_paths va = {[vpn 2 va], [vpn 2 va, vpn 1 va]}"

lemma walk_paths_valid: "q \<in> walk_paths va \<Longrightarrow> valid_path q"
  by (auto simp: walk_paths_def valid_path_def)

lemma finite_walk_paths [simp]: "finite (walk_paths va)"
  by (simp add: walk_paths_def)

lemma walk_loop_grow:
  assumes "pt_wf k root" and "valid_path (p @ is)" and "node (phys k) root p = Some t"
    and "walk_loop is t True k = (r, k')"
  shows "pt_grow root {p @ take (Suc j) is | j. j < length is} k k'"
  using assms
proof (induction "is" arbitrary: p t k)
  case Nil
  then show ?case by auto
next
  case (Cons i "is")
  have vp: "valid_path (p @ [i])" and vp2: "valid_path ((p @ [i]) @ is)"
    using Cons.prems(2) by (auto simp: valid_path_def)
  let ?pte = "phys k (pte_addr t i)"
  let ?P = "{p @ take (Suc j) (i # is) | j. j < length (i # is)}"
  have P: "insert (p @ [i]) {(p @ [i]) @ take (Suc j) is | j. j < length is} \<subseteq> ?P"
  proof -
    have "p @ [i] \<in> ?P" by (auto intro!: exI [of _ 0])
    moreover have "(p @ [i]) @ take (Suc j) is \<in> ?P" if "j < length is" for j
      using that by (auto intro!: exI [of _ "Suc j"])
    ultimately show ?thesis by blast
  qed
  consider (alloc) "?pte AND PTE_V = 0" | (down) "?pte AND PTE_V \<noteq> 0" "?pte AND (PTE_R OR PTE_W OR PTE_X) = 0"
    using pt_wf_no_huge [OF Cons.prems(1) vp Cons.prems(3)] by blast
  then show ?case
  proof cases
    case down
    then have "node (phys k) root (p @ [i]) = Some (pte_to_pa ?pte)"
      using Cons.prems(3) by (simp add: node_snoc next_tab_def)
    moreover have "walk_loop is (pte_to_pa ?pte) True k = (r, k')"
      using Cons.prems(4) down by (simp add: load64_def)
    ultimately have "pt_grow root {(p @ [i]) @ take (Suc j) is | j. j < length is} k k'"
      using Cons.IH [OF Cons.prems(1) vp2] by blast
    then show ?thesis by (rule pt_grow_mono) (use P in blast)
  next
    case alloc
    obtain c k1 where cr: "pt_create k = (c, k1)" by (cases "pt_create k")
    show ?thesis
    proof (cases c)
      case None
      then have "k' = k"
        using alloc Cons.prems cr pt_create_None [OF pt_wf_frames [OF Cons.prems(1)]] by (auto simp: load64_def)
      then show ?thesis by simp
    next
      case (Some n)
      let ?k2 = "store64 (pte_addr t i) (pa_to_pte n PTE_V) k1"
      note fresh = pt_create_Some [OF pt_wf_frames [OF Cons.prems(1)] cr [unfolded Some]]
      note ins = install_table [OF Cons.prems(1) vp Cons.prems(3) alloc cr [unfolded Some]]
      have w2: "walk_loop is n True ?k2 = (r, k')"
        using Cons.prems(4) alloc cr Some by (simp add: load64_def)
      have n: "node (phys ?k2) root (p @ [i]) = Some n" using ins(1) [OF vp] by simp
      have wf2: "pt_wf ?k2 root" using ins(2) by (simp add: pt_keep_def)
      have "pt_grow root {p @ [i]} k ?k2"
        using fresh(2-4) n by (auto simp: pt_grow_def path_nodes_def store64_def)
      moreover have "pt_grow root {(p @ [i]) @ take (Suc j) is | j. j < length is} ?k2 k'"
        by (rule Cons.IH [OF wf2 vp2 n w2])
      moreover have "pt_keep root ?k2 k'"
        using walk_loop_True [OF wf2 vp2 n w2] by blast
      ultimately have "pt_grow root ({p @ [i]} \<union> {(p @ [i]) @ take (Suc j) is | j. j < length is}) k k'"
        using vp by (intro pt_grow_trans) auto
      then show ?thesis by (rule pt_grow_mono) (use P in blast)
    qed
  qed
qed

lemma walk_grow:
  assumes "pt_wf k root" and "walk root va True k = (r, k')"
  shows "pt_grow root (walk_paths va) k k'"
proof -
  obtain r' where w: "walk_loop [vpn 2 va, vpn 1 va] root True k = (r', k')"
    using assms(2) by (auto simp: walk_def simp del: walk_loop.simps split: prod.splits option.splits)
  have "pt_grow root {[] @ take (Suc j) [vpn 2 va, vpn 1 va] | j. j < length [vpn 2 va, vpn 1 va]} k k'"
    by (rule walk_loop_grow [OF assms(1) _ _ w]) simp_all
  then show ?thesis
    by (rule pt_grow_mono) (auto simp: walk_paths_def less_Suc_eq)
qed

section \<open>Frames taken by a mapping\<close>

lemma map_loop_grow:
  assumes "pt_wf k root" and "map_loop root va pa flags is k = (r, k')"
  shows "pt_grow root (\<Union>i \<in> set is. walk_paths (page_at va i)) k k'"
  using assms
proof (induction "is" arbitrary: k)
  case Nil
  then show ?case by simp
next
  case (Cons i "is")
  obtain w k1 where w: "walk root (page_at va i) True k = (w, k1)" by (cases "walk root (page_at va i) True k")
  note wt = walk_True [OF Cons.prems(1) w] and wg = walk_grow [OF Cons.prems(1) w]
  consider (stop) "k' = k1" | (fresh) a where "w = Some a"
      "map_loop root va pa flags is (store64 a (pa_to_pte (page_at pa i) (flags OR PTE_V)) k1) = (r, k')"
    using Cons.prems(2) w by (auto simp flip: page_at_def split: option.splits if_splits)
  then show ?case
  proof cases
    case stop
    then show ?thesis using wg by (auto elim: pt_grow_mono)
  next
    case (fresh a)
    obtain t where t: "node (phys k1) root [vpn 2 (page_at va i), vpn 1 (page_at va i)] = Some t"
      "a = pte_addr t (vpn 0 (page_at va i))" using wt(3) fresh by blast
    let ?k2 = "store64 a (pa_to_pte (page_at pa i) (flags OR PTE_V)) k1"
    have wf1: "pt_wf k1 root" using wt(1) by (simp add: pt_keep_def)
    note st = store_leaf [where v = "pa_to_pte (page_at pa i) (flags OR PTE_V)", OF wf1 t(1), folded t(2)]
    have wf2: "pt_wf ?k2 root" using st(2) by (simp add: pt_keep_def)
    have keep: "pt_keep root k1 k'"
      using pt_keep_trans [OF st(2)] map_loop_spec [OF wf2 fresh(2)] by blast
    have "pt_grow root {} k1 ?k2" by (simp add: pt_grow_def store64_def)
    moreover have "pt_keep root ?k2 k'" using map_loop_spec [OF wf2 fresh(2)] by blast
    ultimately have "pt_grow root ({} \<union> (\<Union>i \<in> set is. walk_paths (page_at va i))) k1 k'"
      using Cons.IH [OF wf2 fresh(2)] by (intro pt_grow_trans) auto
    then show ?thesis
      using pt_grow_trans [OF wg _ keep walk_paths_valid] by simp
  qed
qed

definition run_paths :: "usize \<Rightarrow> usize \<Rightarrow> usize list set" where
  "run_paths va sz = (\<Union>i \<in> {..<run_length sz}. walk_paths (page_at va i))"

lemma finite_run_paths [simp]: "finite (run_paths va sz)"
  by (simp add: run_paths_def)

lemma pt_map_grow:
  assumes "pt_wf k root" and "pt_map root va pa sz flags k = (r, k')"
  shows "card (avail_frames (pages k)) \<le> card (avail_frames (pages k')) + card (run_paths va sz)"
proof (cases "sz = 0 \<or> va mod PAGE_SIZE \<noteq> 0 \<or> pa mod PAGE_SIZE \<noteq> 0")
  case True
  then show ?thesis using assms(2) by (auto simp: pt_map_def)
next
  case False
  then have loop: "map_loop root va pa flags [0..<run_length sz] k = (r, k')"
    using assms(2) by (simp add: pt_map_def run_length_def)
  then have "pt_grow root (run_paths va sz) k k'"
    using map_loop_grow [OF assms(1)] by (fastforce simp: run_paths_def atLeast0LessThan)
  moreover have "pt_wf k' root" using map_loop_spec [OF assms(1) loop] by (simp add: pt_keep_def)
  ultimately show ?thesis using assms(1) by (intro pt_grow_card) (auto simp: pt_wf_frames)
qed

lemma map_ready:
  assumes "pt_wf k root" and "sz \<noteq> 0" and "page_aligned va" and "page_aligned pa" and "run_length sz \<le> 2 ^ 27"
    and "\<And>vb. vpage vb \<in> run_pages va sz \<Longrightarrow> leaf (phys k) root vb = None"
    and "card (run_paths va sz) < card (avail_frames (pages k))"
  obtains k' where "pt_map root va pa sz flags k = (Ok (), k')"
    and "card (avail_frames (pages k)) \<le> card (avail_frames (pages k')) + card (run_paths va sz)"
proof -
  obtain r k' where m: "pt_map root va pa sz flags k = (r, k')" by (cases "pt_map root va pa sz flags k")
  note grow = pt_map_grow [OF assms(1) m]
  have "r = Ok ()"
  proof (cases r)
    case (Inl e)
    then have "(\<exists>i < run_length sz. leaf (phys k) root (page_at va i) \<noteq> None) \<or> avail_frames (pages k') = {}"
      using pt_map_Err [OF assms(1-5), of flags k'] m by simp
    moreover have "leaf (phys k) root (page_at va i) = None" if "i < run_length sz" for i
      using that by (intro assms(6)) (auto simp: run_pages_def)
    ultimately show ?thesis using grow assms(7) by auto
  qed simp
  then show ?thesis using that m grow by blast
qed

text \<open>C27: \<open>map\<close> succeeds on aligned arguments whenever no page of the run is mapped and more frames are
  free than there are tables on the paths of the run.\<close>

theorem pt_map_succeeds:
  assumes "pt_wf k root" and "sz \<noteq> 0" and "page_aligned va" and "page_aligned pa" and "run_length sz \<le> 2 ^ 27"
    and "\<forall>vb. vpage vb \<in> run_pages va sz \<longrightarrow> virt_to_phys root vb k = None"
    and "card (run_paths va sz) < card (avail_frames (pages k))"
  shows "\<exists>k'. pt_map root va pa sz flags k = (Ok (), k')"
proof -
  have "\<And>vb. vpage vb \<in> run_pages va sz \<Longrightarrow> leaf (phys k) root vb = None"
    using assms(6) by (auto simp: virt_to_phys_leaf)
  then show ?thesis using map_ready [OF assms(1-5) _ assms(7), of flags] by metis
qed

theorem pt_map_succeeds_witness:
  "\<exists>k'. pt_map 0x80400000 0x10000 0x80406000 0x1000 PTE_R machine1 = (Ok (), k')"
proof -
  have rl: "run_length 0x1000 = 1" by (simp add: run_length_def layout)
  then have "run_paths 0x10000 0x1000 = walk_paths (page_at 0x10000 0)" by (auto simp: run_paths_def)
  moreover have "card (walk_paths (page_at 0x10000 0)) \<le> 2" by (simp add: walk_paths_def card_insert_if)
  moreover have "card (avail_frames (pages machine1)) = 7" by code_simp
  ultimately have "card (run_paths 0x10000 0x1000) < card (avail_frames (pages machine1))" by simp
  moreover have "\<forall>vb. vpage vb \<in> run_pages 0x10000 0x1000 \<longrightarrow> virt_to_phys 0x80400000 vb machine1 = None"
    by (simp add: virt_to_phys_leaf machine1_wf(2))
  ultimately show ?thesis
    using pt_map_succeeds [OF machine1_wf(1), of "0x1000" "0x10000" "0x80406000" PTE_R] rl
    by (simp add: page_aligned_def layout)
qed

end
