(* ===== verification/Vm.thy ===== *)
theory Vm
  imports Page_Table_Progress
begin

text \<open>
  Kernel virtual memory, \<open>src/kernel/vm.rs\<close>: the kernel page table, the mapping of the kernel
  into every user table, and the \<open>satp\<close> value that selects a table.
\<close>

section \<open>Mappings of the kernel\<close>

definition KERNEL_START :: usize where [layout]: "KERNEL_START = 0x80200000"
definition KERNEL_SIZE :: usize where [layout]: "KERNEL_SIZE = 0x01000000"
definition UART_PAGE :: usize where [layout]: "UART_PAGE = 0x10000000"

fun map_each :: "usize \<Rightarrow> usize list \<Rightarrow> kmem \<Rightarrow> unit result \<times> kmem" where
  "map_each pt [] k = (Ok (), k)"
| "map_each pt (a # as) k =
     (case pt_map pt a a PAGE_SIZE (PTE_R OR PTE_W) k of
        (Inl _, k') \<Rightarrow> (Err, k')
      | (Inr _, k') \<Rightarrow> map_each pt as k')"

definition map_plic :: "usize \<Rightarrow> kmem \<Rightarrow> unit result \<times> kmem" where
  "map_plic pt = map_each pt [0x0c000000, 0x0c002000, 0x0c201000]"

definition map_kernel :: "usize \<Rightarrow> kmem \<Rightarrow> unit result \<times> kmem" where
  "map_kernel pt k =
     (case pt_map pt KERNEL_START KERNEL_START KERNEL_SIZE (PTE_R OR PTE_W OR PTE_X) k of
        (Inl _, k1) \<Rightarrow> (Err, k1)
      | (Inr _, k1) \<Rightarrow>
          (case pt_map pt UART_PAGE UART_PAGE PAGE_SIZE (PTE_R OR PTE_W) k1 of
             (Inl _, k2) \<Rightarrow> (Err, k2)
           | (Inr _, k2) \<Rightarrow>
               (case map_plic pt k2 of (Inl _, k3) \<Rightarrow> (Err, k3) | (Inr _, k3) \<Rightarrow> (Ok (), k3))))"

definition satp_of :: "usize \<Rightarrow> usize" where
  "satp_of pt = push_bit 60 8 OR drop_bit PAGE_SHIFT pt"

text \<open>\<open>vm::init\<close> makes the mappings of \<open>map_kernel\<close> in the same order; every \<open>expect\<close> is a panic. The result is the new \<open>KERNEL_PAGETABLE\<close> with the value
  written to \<open>satp\<close>.\<close>

definition vm_init :: "kmem \<Rightarrow> ((usize \<times> usize) \<times> kmem) outcome" where
  "vm_init k =
     (case pt_create k of
        (None, _) \<Rightarrow> Panic
      | (Some pt, k1) \<Rightarrow>
          (case map_kernel pt k1 of
             (Inl _, _) \<Rightarrow> Panic
           | (Inr _, k2) \<Rightarrow> Done ((pt, satp_of pt), k2)))"

definition kernel_satp :: "usize option \<Rightarrow> usize outcome" where
  "kernel_satp kernel_pagetable = (case kernel_pagetable of None \<Rightarrow> Panic | Some pt \<Rightarrow> Done (satp_of pt))"

definition map_user_buffer :: "usize option \<Rightarrow> usize \<Rightarrow> usize \<Rightarrow> kmem \<Rightarrow> unit result \<times> kmem" where
  "map_user_buffer kernel_pagetable va pa k =
     (case kernel_pagetable of
        None \<Rightarrow> (Err, k)
      | Some pt \<Rightarrow>
          (case pt_map pt va pa PAGE_SIZE (PTE_R OR PTE_W) k of
             (Inl _, k') \<Rightarrow> (Err, k') | (Inr _, k') \<Rightarrow> (Ok (), k')))"

section \<open>The kernel window\<close>

text \<open>Every address of the pages in \<open>S\<close> translates to itself, through an entry user mode cannot use.\<close>

definition kernel_identity :: "usize \<Rightarrow> kmem \<Rightarrow> usize set \<Rightarrow> bool" where
  "kernel_identity pt k S \<longleftrightarrow>
     (\<forall>va \<in> S. virt_to_phys pt va k = Some va \<and> (\<forall>e. leaf (phys k) pt va = Some e \<longrightarrow> e AND PTE_U = 0))"

definition run_addrs :: "usize \<Rightarrow> usize \<Rightarrow> usize set" where
  "run_addrs va sz = {va + off | off. unat off < run_length sz * unat PAGE_SIZE}"

definition kernel_addrs :: "usize set" where
  "kernel_addrs = run_addrs KERNEL_START KERNEL_SIZE \<union> run_addrs UART_PAGE PAGE_SIZE \<union>
     run_addrs 0x0c000000 PAGE_SIZE \<union> run_addrs 0x0c002000 PAGE_SIZE \<union> run_addrs 0x0c201000 PAGE_SIZE"

definition kernel_vpages :: "usize set" where
  "kernel_vpages = run_pages KERNEL_START KERNEL_SIZE \<union> run_pages UART_PAGE PAGE_SIZE \<union>
     run_pages 0x0c000000 PAGE_SIZE \<union> run_pages 0x0c002000 PAGE_SIZE \<union> run_pages 0x0c201000 PAGE_SIZE"

lemma kernel_map_step:
  assumes wf: "pt_wf k pt" and fl: "flags < 2 ^ 10" "flags AND PTE_U = 0" and b: "unat va + unat sz \<le> 2 ^ 56"
    and m: "pt_map pt va va sz flags k = (Ok (), k')" and id: "kernel_identity pt k S"
  shows "pt_wf k' pt" and "kernel_identity pt k' (S \<union> run_addrs va sz)"
    and "vpage vb \<notin> run_pages va sz \<Longrightarrow> leaf (phys k') pt vb = leaf (phys k) pt vb"
proof -
  note ok = pt_map_Ok [OF wf fl(1) b m]
  show "pt_wf k' pt" using ok(1) by (simp add: pt_keep_def)
  show "leaf (phys k') pt vb = leaf (phys k) pt vb" if "vpage vb \<notin> run_pages va sz" for vb
    using ok(4) that .
  have old: "leaf (phys k') pt x = leaf (phys k) pt x" if "x \<in> S" for x
  proof -
    have "leaf (phys k) pt x \<noteq> None" using id that by (auto simp: kernel_identity_def virt_to_phys_leaf)
    then show ?thesis using ok(4,5) by metis
  qed
  have noU: "pa_to_pte pa (flags OR PTE_V) AND PTE_U = 0" for pa
    using pa_to_pte_flags [of PTE_U pa "flags OR PTE_V"] fl(2)
    by (simp add: layout bit.conj_disj_distrib2)
  show "kernel_identity pt k' (S \<union> run_addrs va sz)"
    unfolding kernel_identity_def
  proof (intro ballI)
    fix x assume "x \<in> S \<union> run_addrs va sz"
    then show "virt_to_phys pt x k' = Some x \<and> (\<forall>e. leaf (phys k') pt x = Some e \<longrightarrow> e AND PTE_U = 0)"
    proof
      assume "x \<in> S"
      then show ?thesis using id old by (auto simp: kernel_identity_def virt_to_phys_leaf)
    next
      assume "x \<in> run_addrs va sz"
      then obtain off where off: "x = va + off" "unat off < run_length sz * unat PAGE_SIZE"
        by (auto simp: run_addrs_def)
      show ?thesis using ok(6) [OF off(2)] ok(7) [OF off(2)] noU off(1) by auto
    qed
  qed
qed

lemma map_each_Ok:
  "map_each pt (a # as) k = (Ok (), k') \<longleftrightarrow>
     (\<exists>k1. pt_map pt a a PAGE_SIZE (PTE_R OR PTE_W) k = (Ok (), k1) \<and> map_each pt as k1 = (Ok (), k'))"
  by (cases "pt_map pt a a PAGE_SIZE (PTE_R OR PTE_W) k") (auto split: sum.split)

lemma map_kernel_Ok:
  "map_kernel pt k = (Ok (), k') \<longleftrightarrow>
     (\<exists>k1 k2. pt_map pt KERNEL_START KERNEL_START KERNEL_SIZE (PTE_R OR PTE_W OR PTE_X) k = (Ok (), k1) \<and>
        pt_map pt UART_PAGE UART_PAGE PAGE_SIZE (PTE_R OR PTE_W) k1 = (Ok (), k2) \<and>
        map_plic pt k2 = (Ok (), k'))"
  unfolding map_kernel_def by (auto split: prod.splits sum.splits)

lemma map_kernel_spec:
  assumes wf: "pt_wf k pt" and m: "map_kernel pt k = (Ok (), k')"
  shows "pt_wf k' pt" and "kernel_identity pt k' kernel_addrs"
    and "vpage vb \<notin> kernel_vpages \<Longrightarrow> leaf (phys k') pt vb = leaf (phys k) pt vb"
proof -
  have fl: "PTE_R OR PTE_W < 2 ^ 10" "(PTE_R OR PTE_W) AND PTE_U = 0"
    "PTE_R OR PTE_W OR PTE_X < 2 ^ 10" "(PTE_R OR PTE_W OR PTE_X) AND PTE_U = 0" by (simp_all add: layout)
  have b: "unat KERNEL_START + unat KERNEL_SIZE \<le> 2 ^ 56" "unat UART_PAGE + unat PAGE_SIZE \<le> 2 ^ 56"
    "unat (0x0c000000 :: usize) + unat PAGE_SIZE \<le> 2 ^ 56" "unat (0x0c002000 :: usize) + unat PAGE_SIZE \<le> 2 ^ 56"
    "unat (0x0c201000 :: usize) + unat PAGE_SIZE \<le> 2 ^ 56" by (simp_all add: layout)
  obtain k1 k2 k3 k4 where
    m1: "pt_map pt KERNEL_START KERNEL_START KERNEL_SIZE (PTE_R OR PTE_W OR PTE_X) k = (Ok (), k1)" and
    m2: "pt_map pt UART_PAGE UART_PAGE PAGE_SIZE (PTE_R OR PTE_W) k1 = (Ok (), k2)" and
    m3: "pt_map pt 0x0c000000 0x0c000000 PAGE_SIZE (PTE_R OR PTE_W) k2 = (Ok (), k3)" and
    m4: "pt_map pt 0x0c002000 0x0c002000 PAGE_SIZE (PTE_R OR PTE_W) k3 = (Ok (), k4)" and
    m5: "pt_map pt 0x0c201000 0x0c201000 PAGE_SIZE (PTE_R OR PTE_W) k4 = (Ok (), k')"
    using m unfolding map_kernel_Ok map_plic_def map_each_Ok by auto
  have "kernel_identity pt k {}" by (simp add: kernel_identity_def)
  note s1 = kernel_map_step [OF wf fl(3,4) b(1) m1 this]
  note s2 = kernel_map_step [OF s1(1) fl(1,2) b(2) m2 s1(2)]
  note s3 = kernel_map_step [OF s2(1) fl(1,2) b(3) m3 s2(2)]
  note s4 = kernel_map_step [OF s3(1) fl(1,2) b(4) m4 s3(2)]
  note s5 = kernel_map_step [OF s4(1) fl(1,2) b(5) m5 s4(2)]
  show "pt_wf k' pt" by (rule s5(1))
  show "kernel_identity pt k' kernel_addrs" using s5(2) by (simp add: kernel_addrs_def)
  show "leaf (phys k') pt vb = leaf (phys k) pt vb" if "vpage vb \<notin> kernel_vpages"
    using that s1(3) s2(3) s3(3) s4(3) s5(3) by (simp add: kernel_vpages_def)
qed

lemma vm_init_spec:
  assumes "frames_wf (pages k)" and "vm_init k = Done ((pt, satp), k')"
  shows "pt_wf k' pt" and "kernel_identity pt k' kernel_addrs" and "satp = satp_of pt"
    and "page_aligned pt" and "pt < 2 ^ 56" and "vpage vb \<notin> kernel_vpages \<Longrightarrow> leaf (phys k') pt vb = None"
proof -
  obtain k1 where c: "pt_create k = (Some pt, k1)" and m: "map_kernel pt k1 = (Ok (), k')" and satp: "satp = satp_of pt"
    using assms(2) by (auto simp: vm_init_def split: prod.splits option.splits sum.splits)
  note new = pt_create_wf [OF assms(1) c] and fresh = pt_create_Some [OF assms(1) c]
  note mk = map_kernel_spec [OF new(1) m]
  show "pt_wf k' pt" "kernel_identity pt k' kernel_addrs" "satp = satp_of pt" "page_aligned pt" "pt < 2 ^ 56"
    using mk(1,2) satp fresh(6,7) by auto
  show "leaf (phys k') pt vb = None" if "vpage vb \<notin> kernel_vpages" using mk(3) that new(2) by simp
qed

text \<open>C32: When \<open>vm::init\<close> returns, the kernel table maps the kernel image window, the UART page and
  the three PLIC pages to themselves, without the user bit, and maps nothing else; the value it
  writes to \<open>satp\<close> names this table in Sv39 mode.\<close>

theorem vm_init_identity:
  assumes "frames_wf (pages k)" and "vm_init k = Done ((pt, satp), k')"
  shows "pt_wf k' pt \<and> kernel_identity pt k' kernel_addrs \<and>
         (\<forall>vb. vpage vb \<notin> kernel_vpages \<longrightarrow> virt_to_phys pt vb k' = None) \<and>
         push_bit PAGE_SHIFT (satp AND mask 44) = pt \<and> drop_bit 60 satp = 8"
proof -
  note spec = vm_init_spec [OF assms]
  note satp = spec(3)
  have sat: "bit (satp_of pt) n \<longleftrightarrow> n = 63 \<or> bit pt (n + 12)" if "n < 64" for n
  proof -
    have mode: "push_bit 60 (8::usize) = 2 ^ 63" by simp
    show ?thesis
      unfolding satp_of_def mode bit_or_iff bit_exp_iff using that
      by (simp add: bit_drop_bit_eq layout add.commute)
  qed
  have ptb: "bit pt n \<Longrightarrow> 12 \<le> n \<and> n < 56" for n
    using page_aligned_bits [OF spec(4)] bit_less_exp [OF spec(5)] by auto
  have "push_bit PAGE_SHIFT (satp AND mask 44) = pt"
  proof (rule bit_word_eqI)
    fix n assume "n < LENGTH(64)"
    then show "bit (push_bit PAGE_SHIFT (satp AND mask 44)) n \<longleftrightarrow> bit pt n"
      using sat [of "n - 12"] ptb [of n]
      by (auto simp: satp layout bit_push_bit_iff bit_and_iff bit_mask_iff)
  qed
  moreover have "drop_bit 60 satp = 8"
  proof (rule bit_word_eqI)
    fix n assume "n < LENGTH(64)"
    then show "bit (drop_bit 60 satp) n \<longleftrightarrow> bit (8::usize) n"
      using sat [of "60 + n"] ptb [of "60 + n + 12"] bit_imp_le_length [of satp "60 + n"] bit_exp_iff [of 3 n]
      by (auto simp: satp bit_drop_bit_eq)
  qed
  ultimately show ?thesis
    using spec by (simp add: virt_to_phys_leaf)
qed

section \<open>Booting with enough memory\<close>

lemma unat_vpn: "unat (vpn l va) = unat va div 2 ^ (12 + 9 * l) mod 512"
  if "l < 3" for l
proof -
  have "unat (drop_bit n x) = unat x div 2 ^ n" for n and x :: usize
    by (metis unsigned_drop_bit_eq drop_bit_eq_div take_bit_word_eq_self drop_bit_take_bit unsigned_take_bit_eq
        bot_nat_0.extremum le_refl take_bit_length_eq min_def)
  then show ?thesis unfolding vpn_def mask_9 by (simp add: unat_and_mask)
qed

lemma kernel_paths: "run_paths KERNEL_START KERNEL_SIZE \<subseteq> insert [2] ((\<lambda>j. [2, of_nat j]) ` {1..8})"
proof
  fix q assume "q \<in> run_paths KERNEL_START KERNEL_SIZE"
  then obtain i where i: "i < 4096" and q: "q \<in> walk_paths (page_at KERNEL_START i)"
    by (auto simp: run_paths_def run_length_def layout)
  have pg: "unat (page_at KERNEL_START i) = 0x80200000 + i * 4096"
    using i by (simp add: page_at_def layout unat_word_ariths unat_of_nat)
  have "unat (vpn 2 (page_at KERNEL_START i)) = 2" unfolding unat_vpn [of 2, simplified] pg using i by simp
  then have v2: "vpn 2 (page_at KERNEL_START i) = 2" by (simp add: word_unat_eq_iff)
  have "unat (vpn 1 (page_at KERNEL_START i)) = (0x80200000 + i * 4096) div 2097152 mod 512"
    using unat_vpn [of 1 "page_at KERNEL_START i"] by (simp add: pg)
  also have "(0x80200000 + i * 4096) div 2097152 = 1025 + i div 512" by linarith
  also have "(1025 + i div 512) mod 512 = 1 + i div 512" using i by (simp add: mod_if)
  finally have "unat (vpn 1 (page_at KERNEL_START i)) = 1 + i div 512" .
  moreover have "of_nat (unat (vpn 1 (page_at KERNEL_START i))) = vpn 1 (page_at KERNEL_START i)" by simp
  ultimately have "vpn 1 (page_at KERNEL_START i) = of_nat (1 + i div 512)" by (simp only:)
  moreover have "1 + i div 512 \<in> {1..8}" using i by auto
  ultimately have "[2, vpn 1 (page_at KERNEL_START i)] \<in> (\<lambda>j. [2, of_nat j]) ` {1..8}" by blast
  then show "q \<in> insert [2] ((\<lambda>j. [2, of_nat j]) ` {1..8})"
    using q v2 by (auto simp: walk_paths_def)
qed

lemma card_kernel_paths: "card (run_paths KERNEL_START KERNEL_SIZE) \<le> 9"
proof -
  have "card (run_paths KERNEL_START KERNEL_SIZE) \<le> card (insert [2] ((\<lambda>j. [2 :: usize, of_nat j]) ` {1..8}))"
    by (intro card_mono kernel_paths) simp
  also have "\<dots> \<le> 1 + card ((\<lambda>j. [2 :: usize, of_nat j]) ` {1..8::nat})" by (simp add: card_insert_if)
  also have "card ((\<lambda>j. [2 :: usize, of_nat j]) ` {1..8::nat}) \<le> card {1..8::nat}" by (rule card_image_le) simp
  finally show ?thesis by simp
qed

lemma page_run [simp]: "run_length PAGE_SIZE = 1" "run_pages a PAGE_SIZE = {vpage a}"
  by (auto simp: run_pages_def run_length_def layout page_at_def)

lemma card_page_paths: "card (run_paths a PAGE_SIZE) \<le> 2"
proof -
  have "run_paths a PAGE_SIZE = walk_paths (page_at a 0)" by (auto simp: run_paths_def)
  then show ?thesis by (simp add: walk_paths_def card_insert_if)
qed

lemma device_map_ready:
  assumes wf: "pt_wf k pt" and al: "page_aligned a" and lo: "unat a < 2 ^ 32"
    and none: "leaf (phys k) pt a = None" and c: "n + 2 < card (avail_frames (pages k))"
  obtains k' where "pt_map pt a a PAGE_SIZE (PTE_R OR PTE_W) k = (Ok (), k')" and "pt_wf k' pt"
    and "n < card (avail_frames (pages k'))" and "\<And>vb. vpage vb \<noteq> vpage a \<Longrightarrow> leaf (phys k') pt vb = leaf (phys k) pt vb"
proof -
  have "card (run_paths a PAGE_SIZE) < card (avail_frames (pages k))"
    using card_page_paths [of a] c by linarith
  moreover have "\<And>vb. vpage vb \<in> run_pages a PAGE_SIZE \<Longrightarrow> leaf (phys k) pt vb = None"
    using none leaf_page by (metis page_run(2) singletonD)
  moreover have "PAGE_SIZE \<noteq> 0" "run_length PAGE_SIZE \<le> 2 ^ 27" by (simp_all, simp add: layout)
  ultimately obtain k' where m: "pt_map pt a a PAGE_SIZE (PTE_R OR PTE_W) k = (Ok (), k')"
    "card (avail_frames (pages k)) \<le> card (avail_frames (pages k')) + card (run_paths a PAGE_SIZE)"
    using map_ready [OF wf _ al al] by metis
  have fl: "PTE_R OR PTE_W < 2 ^ 10" and b: "unat a + unat PAGE_SIZE \<le> 2 ^ 56"
    using lo by (simp_all add: layout)
  note ok = pt_map_Ok [OF wf fl b m(1)]
  show ?thesis
  proof (rule that [OF m(1)])
    show "pt_wf k' pt" using ok(1) by (simp add: pt_keep_def)
    show "n < card (avail_frames (pages k'))" using m(2) card_page_paths [of a] c by linarith
    show "leaf (phys k') pt vb = leaf (phys k) pt vb" if "vpage vb \<noteq> vpage a" for vb
      using ok(4) that by simp
  qed
qed

lemma map_each_succeeds:
  assumes "pt_wf k pt" and "distinct (map vpage as)"
    and "\<And>a. a \<in> set as \<Longrightarrow> page_aligned a \<and> unat a < 2 ^ 32 \<and> leaf (phys k) pt a = None"
    and "2 * length as < card (avail_frames (pages k))"
  shows "\<exists>k'. map_each pt as k = (Ok (), k')"
  using assms
proof (induction "as" arbitrary: k)
  case (Cons a as)
  obtain k1 where k1: "pt_map pt a a PAGE_SIZE (PTE_R OR PTE_W) k = (Ok (), k1)" "pt_wf k1 pt"
    "2 * length as < card (avail_frames (pages k1))"
    "\<And>vb. vpage vb \<noteq> vpage a \<Longrightarrow> leaf (phys k1) pt vb = leaf (phys k) pt vb"
    using device_map_ready [OF Cons.prems(1), of a "2 * length as"] Cons.prems(3,4) by auto
  have "page_aligned b \<and> unat b < 2 ^ 32 \<and> leaf (phys k1) pt b = None" if "b \<in> set as" for b
  proof -
    have "vpage b \<noteq> vpage a" using Cons.prems(2) that by simp (metis imageI)
    then show ?thesis using k1(4) Cons.prems(3) that by simp
  qed
  then obtain k' where "map_each pt as k1 = (Ok (), k')"
    using Cons.IH [OF k1(2) _ _ k1(3)] Cons.prems(2) by auto
  then show ?case using k1(1) map_each_Ok by blast
qed simp

lemma device_pages:
  "vpage UART_PAGE \<notin> run_pages KERNEL_START KERNEL_SIZE"
  "vpage 0x0c000000 \<notin> run_pages KERNEL_START KERNEL_SIZE"
  "vpage 0x0c002000 \<notin> run_pages KERNEL_START KERNEL_SIZE"
  "vpage 0x0c201000 \<notin> run_pages KERNEL_START KERNEL_SIZE"
  "distinct [vpage UART_PAGE, vpage 0x0c000000, vpage 0x0c002000, vpage 0x0c201000]"
proof -
  have "unat (vpage (page_at KERNEL_START i)) \<ge> 0x80200" if "i < 4096" for i
    using vpage_page_at [of KERNEL_START i] that by (simp add: page_aligned_def layout)
  moreover have "run_length KERNEL_SIZE = 4096" by (simp add: run_length_def layout)
  ultimately have out: "p \<notin> run_pages KERNEL_START KERNEL_SIZE" if "unat p < 0x80200" for p
    using that by (fastforce simp: run_pages_def)
  show "vpage UART_PAGE \<notin> run_pages KERNEL_START KERNEL_SIZE"
    "vpage 0x0c000000 \<notin> run_pages KERNEL_START KERNEL_SIZE"
    "vpage 0x0c002000 \<notin> run_pages KERNEL_START KERNEL_SIZE"
    "vpage 0x0c201000 \<notin> run_pages KERNEL_START KERNEL_SIZE"
    by (intro out, simp add: unat_vpage layout)+
  show "distinct [vpage UART_PAGE, vpage 0x0c000000, vpage 0x0c002000, vpage 0x0c201000]"
    by (simp add: word_unat_eq_iff unat_vpage layout)
qed

lemma map_kernel_succeeds:
  assumes wf: "pt_wf k pt" and none: "\<And>vb. leaf (phys k) pt vb = None" and c: "18 \<le> card (avail_frames (pages k))"
  obtains k' where "map_kernel pt k = (Ok (), k')"
proof -
  let ?devs = "[UART_PAGE, 0x0c000000, 0x0c002000, 0x0c201000] :: usize list"
  have al: "page_aligned KERNEL_START" "KERNEL_SIZE \<noteq> 0" "run_length KERNEL_SIZE \<le> 2 ^ 27"
    and fl: "PTE_R OR PTE_W OR PTE_X < 2 ^ 10" and b: "unat KERNEL_START + unat KERNEL_SIZE \<le> 2 ^ 56"
    by (simp_all add: page_aligned_def run_length_def layout)
  have "card (run_paths KERNEL_START KERNEL_SIZE) < card (avail_frames (pages k))"
    using card_kernel_paths c by linarith
  then obtain k1 where k1: "pt_map pt KERNEL_START KERNEL_START KERNEL_SIZE (PTE_R OR PTE_W OR PTE_X) k = (Ok (), k1)"
    "card (avail_frames (pages k)) \<le> card (avail_frames (pages k1)) + card (run_paths KERNEL_START KERNEL_SIZE)"
    using map_ready [OF wf al(2) al(1,1) al(3)] none by metis
  note ok1 = pt_map_Ok [OF wf fl b k1(1)]
  have w1: "pt_wf k1 pt" using ok1(1) by (simp add: pt_keep_def)
  have "2 * length ?devs < card (avail_frames (pages k1))" using k1(2) card_kernel_paths c by simp
  moreover have "page_aligned a \<and> unat a < 2 ^ 32 \<and> leaf (phys k1) pt a = None" if "a \<in> set ?devs" for a
  proof -
    have "vpage a \<notin> run_pages KERNEL_START KERNEL_SIZE" using that device_pages(1-4) by auto
    moreover have "page_aligned a" "unat a < 2 ^ 32" using that by (auto simp: page_aligned_def layout)
    ultimately show ?thesis using ok1(4) none by simp
  qed
  ultimately obtain k' where "map_each pt ?devs k1 = (Ok (), k')"
    using map_each_succeeds [OF w1, of ?devs] device_pages(5) by auto
  then have "map_kernel pt k = (Ok (), k')"
    unfolding map_kernel_Ok map_plic_def using k1(1) map_each_Ok by blast
  then show ?thesis by (rule that)
qed

lemma vm_init_ready:
  assumes "frames_wf (pages k)" and "19 \<le> card (avail_frames (pages k))"
  obtains pt k' where "vm_init k = Done ((pt, satp_of pt), k')"
proof -
  have "\<exists>pt k1. pt_create k = (Some pt, k1)"
  proof (cases "pt_create k")
    case (Pair r k1)
    then show ?thesis using pt_create_None(2) [OF assms(1)] assms(2) by (cases r) auto
  qed
  then obtain pt k1 where c: "pt_create k = (Some pt, k1)" by blast
  note new = pt_create_wf [OF assms(1) c] and fresh = pt_create_Some [OF assms(1) c]
  have "card (avail_frames (pages k1)) = card (avail_frames (pages k)) - 1"
    using fresh(2,4) by simp
  then have "18 \<le> card (avail_frames (pages k1))" using assms(2) by linarith
  then obtain k' where "map_kernel pt k1 = (Ok (), k')"
    using map_kernel_succeeds [OF new(1)] new(2) by (metis (no_types))
  then show ?thesis using that c by (simp add: vm_init_def)
qed

definition machine_boot :: kmem where
  "machine_boot = \<lparr>phys = \<lambda>_. 0, pages = Some (allocator_new 0x80400000 32)\<rparr>"

text \<open>\<open>vm::init\<close> does not panic when at least 19 frames are free.\<close>

lemma vm_init_succeeds:
  assumes "frames_wf (pages k)" and "19 \<le> card (avail_frames (pages k))"
  shows "\<exists>pt k'. vm_init k = Done ((pt, satp_of pt), k')"
  using vm_init_ready [OF assms] by metis


lemma machine_boot_wf: "frames_wf (pages machine_boot)" "19 \<le> card (avail_frames (pages machine_boot))"
proof -
  show "frames_wf (pages machine_boot)"
    using allocator_new_wf [of "0x80400000" 32] by (simp add: machine_boot_def frames_wf_def page_aligned_def layout)
  have "card (avail_frames (pages machine_boot)) = 32" by code_simp
  then show "19 \<le> card (avail_frames (pages machine_boot))" by simp
qed

theorem vm_init_identity_witness:
  "\<exists>pt satp k'. vm_init machine_boot = Done ((pt, satp), k') \<and> virt_to_phys pt 0x80201234 k' = Some 0x80201234"
proof -
  obtain pt k' where v: "vm_init machine_boot = Done ((pt, satp_of pt), k')"
    using vm_init_ready [OF machine_boot_wf] .
  have "kernel_identity pt k' kernel_addrs" using vm_init_identity [OF machine_boot_wf(1) v] by blast
  moreover have "0x80201234 \<in> run_addrs KERNEL_START KERNEL_SIZE"
    by (auto simp: run_addrs_def run_length_def layout intro!: exI [of _ "0x1234"])
  ultimately have "virt_to_phys pt 0x80201234 k' = Some 0x80201234"
    by (simp add: kernel_identity_def kernel_addrs_def)
  then show ?thesis using v by blast
qed

section \<open>Frames outside the kernel window\<close>

text \<open>C40: The allocator can hand out frames that the kernel table does not map. \<open>page::init\<close> manages
  16 MiB from the end of the kernel image, while \<open>vm::init\<close> maps 16 MiB from its start
  \<open>0x80200000\<close>: with the image ending page-aligned above the start, the frame at the end of the image
  plus 16 MiB minus one page is free after \<open>page::init\<close> and has no translation after \<open>vm::init\<close>, so the
  first kernel access to it faults.\<close>

theorem frame_outside_kernel_window:
  assumes "page_aligned e" and "0x80200000 < e" and "e \<le> 0x87000000"
    and "vm_init \<lparr>phys = m, pages = page_init e\<rparr> = Done ((pt, satp), k')"
  shows "e + 0xFFF000 \<in> avail_frames (page_init e) \<and> virt_to_phys pt (e + 0xFFF000) k' = None"
proof -
  have ue: "0x80200000 < unat e" "unat e \<le> 0x87000000"
    using assms(2,3) by (simp_all add: word_less_nat_alt word_le_nat_alt)
  have ok: "kernel_end_ok e" using ue by (simp add: kernel_end_ok_def word_le_nat_alt)
  obtain c where c: "unat e = 4096 * c" using assms(1) by (auto simp: page_aligned_unat dvd_def)
  obtain s n where sn: "page_init e = Some (allocator_new s n)" "page_aligned s" "unat e \<le> unat s"
    "unat s + unat n * 4096 = 0x88000000" "unat s < unat e + 4096" using page_init_new [OF ok] .
  obtain d where d: "unat s = 4096 * d" using sn(2) by (auto simp: page_aligned_unat dvd_def)
  have "c = d" using sn(3,5) c d by linarith
  then have se: "s = e" using c d by (simp add: word_unat_eq_iff)
  have "4096 \<le> unat n" using sn(4) ue unfolding se by linarith
  then have min: "unat (min n MAX_PAGES) = 4096" by (simp add: layout min_def word_le_nat_alt)
  have "e + 0xFFF000 = page_addr (allocator_new s n) 4095"
    by (simp add: page_addr_def allocator_new_def layout se)
  then have "e + 0xFFF000 \<in> page_addr (allocator_new s n) ` {..<4096}" by (rule image_eqI) simp
  then have "e + 0xFFF000 \<in> avail_frames (page_init e)"
    unfolding sn(1) avail_frames_def option.case page_index_free_new min .
  moreover have "virt_to_phys pt (e + 0xFFF000) k' = None"
  proof -
    have u: "unat (e + 0xFFF000) = unat e + 0xFFF000" using ue by (simp add: unat_word_ariths)
    then have v: "unat (vpage (e + 0xFFF000)) = c + 0xFFF"
      using ue by (simp add: unat_vpage c)
    have k: "unat (vpage (page_at KERNEL_START i)) = 0x80200 + i" if "i < 4096" for i
      using vpage_page_at [of KERNEL_START i] that by (simp add: page_aligned_def layout)
    have "vpage (e + 0xFFF000) \<notin> run_pages KERNEL_START KERNEL_SIZE"
    proof
      assume "vpage (e + 0xFFF000) \<in> run_pages KERNEL_START KERNEL_SIZE"
      then obtain i where "i < 4096" "vpage (e + 0xFFF000) = vpage (page_at KERNEL_START i)"
        by (auto simp: run_pages_def run_length_def layout)
      then show False using k [of i] v ue c by simp
    qed
    moreover have "vpage (e + 0xFFF000) \<noteq> vpage a" if "unat a < 0x80200000" for a
      using v ue c that by (auto simp: word_unat_eq_iff unat_vpage)
    ultimately have "vpage (e + 0xFFF000) \<notin> kernel_vpages"
      by (simp add: kernel_vpages_def UART_PAGE_def)
    moreover have "frames_wf (pages \<lparr>phys = m, pages = page_init e\<rparr>)" using page_init_wf(1) [OF ok] by simp
    ultimately show ?thesis using vm_init_spec [OF _ assms(4)] by (simp add: virt_to_phys_leaf)
  qed
  ultimately show ?thesis ..
qed

lemma page_init_free_count:
  assumes "kernel_end_ok e" and "e \<le> 0x87000000"
  shows "card (avail_frames (page_init e)) = 4096"
proof -
  obtain s n where sn: "page_init e = Some (allocator_new s n)" "unat s + unat n * 4096 = 0x88000000"
    "unat s < unat e + 4096" "page_aligned s" using page_init_new [OF assms(1)] .
  have wf: "allocator_wf (allocator_new s n)" using page_init_wf(1) [OF assms(1)] by (simp add: sn frames_wf_def)
  have "unat e \<le> 0x87000000" using assms(2) by (simp add: word_le_nat_alt)
  then have "4095 < unat n" using sn(2,3) by linarith
  then have min: "unat (min n MAX_PAGES) = 4096" by (simp add: layout min_def word_le_nat_alt)
  have "inj_on (page_addr (allocator_new s n)) {..<4096}"
    using page_addr_inj [OF wf] min by (auto intro!: inj_onI simp: allocator_new_def)
  then show ?thesis
    unfolding sn(1) avail_frames_def option.case page_index_free_new min by (simp add: card_image)
qed

theorem frame_outside_kernel_window_witness:
  "\<exists>pt satp k'. vm_init \<lparr>phys = \<lambda>_. 0, pages = page_init 0x80260000\<rparr> = Done ((pt, satp), k') \<and>
     virt_to_phys pt 0x8125F000 k' = None"
proof -
  have ok: "kernel_end_ok 0x80260000" by (simp add: kernel_end_ok_def)
  obtain pt k' where v: "vm_init \<lparr>phys = \<lambda>_. 0, pages = page_init 0x80260000\<rparr> = Done ((pt, satp_of pt), k')"
    using vm_init_ready [of "\<lparr>phys = \<lambda>_. 0, pages = page_init 0x80260000\<rparr>"] page_init_wf(1) [OF ok]
      page_init_free_count [OF ok] by auto
  have "page_aligned 0x80260000" by (simp add: page_aligned_def layout)
  then have "virt_to_phys pt (0x80260000 + 0xFFF000) k' = None"
    using frame_outside_kernel_window [OF _ _ _ v] by simp
  then show ?thesis using v by auto
qed

end
