(* ===== verification/Ipc_Queue.thy ===== *)
theory Ipc_Queue
  imports Riscv_Machine
begin

text \<open>
  The message queue and the endpoints of \<open>src/kernel/ipc.rs\<close>. The ring buffer is related to a
  list of messages; the interface the task manager relies on is the locale \<open>bounded_fifo\<close>,
  interpreted on the ring buffer. Indices are natural numbers: they stay below the queue size.
\<close>

section \<open>Messages and queues\<close>

definition MAX_ENDPOINTS :: nat where [layout]: "MAX_ENDPOINTS = 8"
definition CONSOLE_ENDPOINT :: usize where [layout]: "CONSOLE_ENDPOINT = 1"
definition MSG_QUEUE_SIZE :: nat where [layout]: "MSG_QUEUE_SIZE = 8"
definition IPC_BUF_SIZE :: usize where [layout]: "IPC_BUF_SIZE = 4096"

type_synonym words4 = "usize \<times> usize \<times> usize \<times> usize"

record Message =
  msg_sender :: u32
  msg_words :: words4
  msg_buf_len :: u16

record MsgQueue =
  q_buf :: "Message list"
  q_head :: nat
  q_tail :: nat
  q_count :: nat

definition msg_queue_new :: MsgQueue where
  "msg_queue_new = \<lparr>
     q_buf = replicate MSG_QUEUE_SIZE \<lparr>msg_sender = 0, msg_words = (0, 0, 0, 0), msg_buf_len = 0\<rparr>,
     q_head = 0, q_tail = 0, q_count = 0\<rparr>"

definition q_is_full :: "MsgQueue \<Rightarrow> bool" where
  "q_is_full q \<longleftrightarrow> q_count q = MSG_QUEUE_SIZE"

definition q_is_empty :: "MsgQueue \<Rightarrow> bool" where
  "q_is_empty q \<longleftrightarrow> q_count q = 0"

definition q_push :: "Message \<Rightarrow> MsgQueue \<Rightarrow> unit result \<times> MsgQueue" where
  "q_push msg q =
     (if q_is_full q then (Err, q)
      else (Ok (), q\<lparr>q_buf := (q_buf q)[q_tail q := msg],
                     q_tail := (q_tail q + 1) mod MSG_QUEUE_SIZE,
                     q_count := q_count q + 1\<rparr>))"

definition q_pop :: "MsgQueue \<Rightarrow> Message option \<times> MsgQueue" where
  "q_pop q =
     (if q_is_empty q then (None, q)
      else (Some (q_buf q ! q_head q), q\<lparr>q_head := (q_head q + 1) mod MSG_QUEUE_SIZE,
                                          q_count := q_count q - 1\<rparr>))"

definition q_peek :: "MsgQueue \<Rightarrow> Message option" where
  "q_peek q = (if q_is_empty q then None else Some (q_buf q ! q_head q))"

definition q_len :: "MsgQueue \<Rightarrow> nat" where
  "q_len q = q_count q"

text \<open>The scratch buffer \<open>copy_buf\<close> is a list of bytes.\<close>

record Endpoint =
  ep_owner :: u32
  ep_waiting_receiver :: "u32 option"
  ep_pending :: MsgQueue
  ep_copy_buf :: "u8 list"
  ep_copy_len :: usize
  ep_recv_buf_addr :: usize
  ep_recv_buf_capacity :: usize
  ep_has_buffered :: bool

section \<open>The ring buffer as a list\<close>

definition q_list :: "MsgQueue \<Rightarrow> Message list" where
  "q_list q = map (\<lambda>i. q_buf q ! ((q_head q + i) mod MSG_QUEUE_SIZE)) [0..<q_count q]"

definition q_wf :: "MsgQueue \<Rightarrow> bool" where
  "q_wf q \<longleftrightarrow> length (q_buf q) = MSG_QUEUE_SIZE \<and> q_head q < MSG_QUEUE_SIZE \<and> q_count q \<le> MSG_QUEUE_SIZE \<and>
     q_tail q = (q_head q + q_count q) mod MSG_QUEUE_SIZE"

lemma length_q_list [simp]: "length (q_list q) = q_count q"
  by (simp add: q_list_def)

lemma q_list_Nil_iff [simp]: "q_list q = [] \<longleftrightarrow> q_count q = 0"
  by (simp add: q_list_def)

lemma ring_distinct:
  assumes "i < c" and "c < (n::nat)"
  shows "(h + i) mod n \<noteq> (h + c) mod n"
proof
  assume "(h + i) mod n = (h + c) mod n"
  then obtain a b where "h + i + n * a = h + c + n * b" unfolding nat_mod_eq_iff by blast
  then have "(i + n * a) mod n = (c + n * b) mod n" by simp
  then show False using assms by simp
qed

lemma msg_queue_new_wf [simp]: "q_wf msg_queue_new" and msg_queue_new_list [simp]: "q_list msg_queue_new = []"
  by (simp_all add: q_wf_def q_list_def msg_queue_new_def layout)

lemma q_push_Ok:
  assumes wf: "q_wf q" and p: "q_push m q = (Ok (), q')"
  shows "q_list q' = q_list q @ [m] \<and> q_wf q' \<and> length (q_list q) < MSG_QUEUE_SIZE"
proof -
  have nf: "q_count q < MSG_QUEUE_SIZE"
    and q': "q' = q\<lparr>q_buf := (q_buf q)[q_tail q := m], q_tail := (q_tail q + 1) mod MSG_QUEUE_SIZE,
                    q_count := q_count q + 1\<rparr>"
    using p wf by (auto simp: q_push_def q_is_full_def q_wf_def split: if_splits)
  have tail: "q_tail q = (q_head q + q_count q) mod MSG_QUEUE_SIZE" using wf by (simp add: q_wf_def)
  have "q_buf q' ! ((q_head q + i) mod MSG_QUEUE_SIZE) = q_buf q ! ((q_head q + i) mod MSG_QUEUE_SIZE)"
    if "i < q_count q" for i
    using ring_distinct [OF that nf, of "q_head q"] by (simp add: q' tail)
  moreover have "q_buf q' ! ((q_head q + q_count q) mod MSG_QUEUE_SIZE) = m"
    using wf by (simp add: q' q_wf_def layout)
  ultimately have "q_list q' = q_list q @ [m]" by (simp add: q_list_def q')
  moreover have "q_wf q'" using wf nf by (simp add: q_wf_def q' mod_Suc_eq)
  ultimately show ?thesis using nf by simp
qed

lemma q_push_Err:
  "q_wf q \<Longrightarrow> q_push m q = (Err, q') \<Longrightarrow> q' = q \<and> length (q_list q) = MSG_QUEUE_SIZE"
  by (auto simp: q_push_def q_is_full_def split: if_splits)

lemma q_pop_Some:
  assumes wf: "q_wf q" and p: "q_pop q = (Some m, q')"
  shows "q_list q = m # q_list q' \<and> q_wf q'"
proof -
  have ne: "0 < q_count q" and m: "m = q_buf q ! q_head q"
    and q': "q' = q\<lparr>q_head := (q_head q + 1) mod MSG_QUEUE_SIZE, q_count := q_count q - 1\<rparr>"
    using p by (auto simp: q_pop_def q_is_empty_def split: if_splits)
  obtain c where c: "q_count q = Suc c" using ne by (cases "q_count q") auto
  have "q_head q mod MSG_QUEUE_SIZE = q_head q" using wf by (simp add: q_wf_def)
  then have "q_list q = m # q_list q'"
    by (simp add: q_list_def q' m c upt_conv_Cons map_Suc_upt [symmetric] comp_def mod_simps del: upt_Suc)
  moreover have "q_wf q'" using wf c by (simp add: q_wf_def q' layout mod_simps)
  ultimately show ?thesis by simp
qed

lemma q_pop_None: "q_wf q \<Longrightarrow> q_pop q = (None, q') \<Longrightarrow> q' = q \<and> q_list q = []"
  by (auto simp: q_pop_def q_is_empty_def split: if_splits)

section \<open>Bounded FIFO queues\<close>

locale bounded_fifo =
  fixes push :: "'m \<Rightarrow> 'q \<Rightarrow> unit result \<times> 'q"
    and pop :: "'q \<Rightarrow> 'm option \<times> 'q"
    and abs :: "'q \<Rightarrow> 'm list"
    and invar :: "'q \<Rightarrow> bool"
    and cap :: nat
  assumes push_Ok: "invar q \<Longrightarrow> push m q = (Ok (), q') \<Longrightarrow> abs q' = abs q @ [m] \<and> invar q' \<and> length (abs q) < cap"
    and push_Err: "invar q \<Longrightarrow> push m q = (Err, q') \<Longrightarrow> q' = q \<and> length (abs q) = cap"
    and pop_Some: "invar q \<Longrightarrow> pop q = (Some m, q') \<Longrightarrow> abs q = m # abs q' \<and> invar q'"
    and pop_None: "invar q \<Longrightarrow> pop q = (None, q') \<Longrightarrow> q' = q \<and> abs q = []"

datatype 'm queue_op = PushOp 'm | PopOp

text \<open>A run of operations returns the messages accepted and the messages delivered.\<close>

fun queue_run :: "('m \<Rightarrow> 'q \<Rightarrow> unit result \<times> 'q) \<Rightarrow> ('q \<Rightarrow> 'm option \<times> 'q) \<Rightarrow> 'm queue_op list \<Rightarrow> 'q \<Rightarrow> 'm list \<times> 'm list \<times> 'q" where
  "queue_run pu po [] q = ([], [], q)"
| "queue_run pu po (PushOp m # ops) q =
     (case pu m q of (r, q') \<Rightarrow> case queue_run pu po ops q' of (i, d, q'') \<Rightarrow>
        ((if r = Ok () then m # i else i), d, q''))"
| "queue_run pu po (PopOp # ops) q =
     (case po q of (r, q') \<Rightarrow> case queue_run pu po ops q' of (i, d, q'') \<Rightarrow>
        (i, (case r of None \<Rightarrow> d | Some m \<Rightarrow> m # d), q''))"

context bounded_fifo
begin

lemma run_fifo:
  assumes "invar q" and "queue_run push pop ops q = (accepted, delivered, q')"
  shows "abs q @ accepted = delivered @ abs q' \<and> invar q' \<and> length (abs q') \<le> max cap (length (abs q))"
  using assms
proof (induction ops arbitrary: q accepted delivered)
  case Nil
  then show ?case by simp
next
  case (Cons op ops)
  show ?case
  proof (cases op)
    case (PushOp m)
    obtain r q1 where p: "push m q = (r, q1)" by (cases "push m q")
    obtain i d where run: "queue_run push pop ops q1 = (i, d, q')"
      and eq: "accepted = (if r = Ok () then m # i else i)" "delivered = d"
      using Cons.prems(2) PushOp p by (auto split: prod.splits)
    show ?thesis
    proof (cases r)
      case (Inl e)
      then have "q1 = q" using push_Err [OF Cons.prems(1)] p by simp
      then show ?thesis using Cons.IH [OF Cons.prems(1), of i d] run eq Inl by simp
    next
      case (Inr u)
      then have q1: "abs q1 = abs q @ [m]" "invar q1" "length (abs q) < cap"
        using push_Ok [OF Cons.prems(1)] p by auto
      from Cons.IH [OF q1(2) run] show ?thesis using q1 eq Inr by simp
    qed
  next
    case PopOp
    obtain r q1 where p: "pop q = (r, q1)" by (cases "pop q")
    obtain i d where run: "queue_run push pop ops q1 = (i, d, q')"
      and eq: "accepted = i" "delivered = (case r of None \<Rightarrow> d | Some m \<Rightarrow> m # d)"
      using Cons.prems(2) PopOp p by (auto split: prod.splits)
    show ?thesis
    proof (cases r)
      case None
      then have "q1 = q" using pop_None [OF Cons.prems(1)] p by simp
      then show ?thesis using Cons.IH [OF Cons.prems(1), of i d] run eq None by simp
    next
      case (Some m)
      then have q1: "abs q = m # abs q1" "invar q1" using pop_Some [OF Cons.prems(1)] p by auto
      from Cons.IH [OF q1(2) run] show ?thesis using q1 eq Some by auto
    qed
  qed
qed

end

interpretation msgq: bounded_fifo q_push q_pop q_list q_wf MSG_QUEUE_SIZE
  by unfold_locales (fact q_push_Ok q_push_Err q_pop_Some q_pop_None)+

text \<open>C11: The ring buffer is a FIFO channel of at most eight messages: in every run of pushes and pops
  from the empty queue, the messages delivered followed by those still queued are exactly the
  messages accepted, in order.\<close>

theorem msg_queue_fifo:
  assumes "queue_run q_push q_pop ops msg_queue_new = (accepted, delivered, q)"
  shows "accepted = delivered @ q_list q \<and> q_wf q \<and> q_len q \<le> MSG_QUEUE_SIZE"
  using msgq.run_fifo [OF msg_queue_new_wf assms] by (simp add: q_len_def q_wf_def)

definition sample_message :: "u32 \<Rightarrow> Message" where
  "sample_message s = \<lparr>msg_sender = s, msg_words = (1, 2, 3, 4), msg_buf_len = 0\<rparr>"

theorem msg_queue_fifo_witness:
  "fst (snd (queue_run q_push q_pop [PushOp (sample_message 1), PushOp (sample_message 2), PopOp] msg_queue_new)) =
     [sample_message 1] \<and>
   q_wf (snd (snd (queue_run q_push q_pop [PushOp (sample_message 1), PushOp (sample_message 2), PopOp] msg_queue_new)))"
proof
  let ?r = "queue_run q_push q_pop [PushOp (sample_message 1), PushOp (sample_message 2), PopOp] msg_queue_new"
  show "fst (snd ?r) = [sample_message 1]" by code_simp
  have "?r = (fst ?r, fst (snd ?r), snd (snd ?r))" by (simp only: prod.collapse)
  then show "q_wf (snd (snd ?r))" using msg_queue_fifo by blast
qed

lemma q_peek_pop: "q_peek q = fst (q_pop q)"
  by (simp add: q_peek_def q_pop_def)

end
