(* ===== verification/Task_State.thy ===== *)
theory Task_State
  imports Vm Ipc_Queue
begin

text \<open>
  The task manager's state and its address-space bookkeeping: the types of
  \<open>src/kernel/task.rs\<close>, the kernel state the operations work on, the current task, task
  contexts, and the release of a task's memory. The lock around the manager is not modelled
  (single hart, interrupts off in the kernel); the manager exists after \<open>task::init\<close>.
\<close>

section \<open>Tasks\<close>

definition MAX_TASKS :: nat where [layout]: "MAX_TASKS = 16"
definition IDLE_PID :: u32 where [layout]: "IDLE_PID = 0"
definition HEAP_LIMIT :: usize where [layout]: "HEAP_LIMIT = USER_STACK_TOP - 2 * PAGE_SIZE"

datatype TaskState = Unused | Ready | Running | Sleeping | Zombie

datatype WaitChannel = Child u32 | UartRx | IpcCall usize | IpcRecv usize

record Task =
  t_pid :: u32
  t_state :: TaskState
  t_trap_frame :: usize
  t_kernel_stack :: usize
  t_user_stack :: usize
  t_entry :: usize
  t_pagetable :: usize
  t_exit_code :: u32
  t_image_base :: usize
  t_image_size :: usize
  t_heap_base :: usize
  t_heap_end :: usize
  t_parent_pid :: "u32 option"
  t_waiting_for :: "WaitChannel option"

record TaskManager =
  current_pid :: "u32 option"
  tasks :: "Task option list"
  next_pid :: u32
  runnable_count :: u32
  endpoints :: "Endpoint option list"
  uart_owner :: "u32 option"

text \<open>The kernel state: memory with the page allocator, the task manager, the kernel page table,
  and the PLIC's 32-bit registers. \<open>i32\<close> exit codes are 32-bit words. The task manager is a field of its
  own although the static it models lies in the memory of the kernel image: the code reaches it by
  name only, with one exception. The buffered IPC calls copy to an address chosen by a user task, and the
  kernel window, which every user table maps without \<open>PTE_U\<close>, is not excluded. There the separation would not
  be faithful, and the model of these copies (\<open>Task_Ipc\<close>) does not use it: a copy to a page without \<open>PTE_U\<close> is
  the outcome \<open>Overwrite\<close>, and nothing is said of the state after it.\<close>

record kstate =
  mem :: kmem
  mgr :: TaskManager
  kernel_pt :: "usize option"
  plic_regs :: "usize \<Rightarrow> u32"

definition task_manager_new :: TaskManager where
  "task_manager_new = \<lparr>
     current_pid = None,
     tasks = replicate MAX_TASKS None,
     next_pid = 1,
     runnable_count = 0,
     endpoints = replicate MAX_ENDPOINTS None,
     uart_owner = None\<rparr>"

section \<open>Looking up and updating tasks\<close>

definition has_pid :: "u32 \<Rightarrow> Task option \<Rightarrow> bool" where
  "has_pid p = is_some_and (\<lambda>t. t_pid t = p)"

definition task_index :: "u32 \<Rightarrow> TaskManager \<Rightarrow> nat option" where
  "task_index p m = position (has_pid p) (tasks m)"

text \<open>\<open>current\<close> and \<open>current_mut\<close>: the slot of the task with the current pid.\<close>

definition current_index :: "TaskManager \<Rightarrow> nat option" where
  "current_index m = (case current_pid m of None \<Rightarrow> None | Some p \<Rightarrow> task_index p m)"

definition task_at :: "nat \<Rightarrow> TaskManager \<Rightarrow> Task" where
  "task_at i m = the (tasks m ! i)"

definition update_task :: "nat \<Rightarrow> (Task \<Rightarrow> Task) \<Rightarrow> TaskManager \<Rightarrow> TaskManager" where
  "update_task i f m = m\<lparr>tasks := (tasks m)[i := map_option f (tasks m ! i)]\<rparr>"

definition update_mgr :: "(TaskManager \<Rightarrow> TaskManager) \<Rightarrow> kstate \<Rightarrow> kstate" where
  "update_mgr f s = s\<lparr>mgr := f (mgr s)\<rparr>"

definition load_frame :: "usize \<Rightarrow> kstate \<Rightarrow> TrapFrame" where
  "load_frame a s = read_tf (phys (mem s)) a"

definition store_frame :: "usize \<Rightarrow> TrapFrame \<Rightarrow> kstate \<Rightarrow> kstate" where
  "store_frame a f s = s\<lparr>mem := (mem s)\<lparr>phys := write_tf a f (phys (mem s))\<rparr>\<rparr>"

definition set_current :: "u32 \<Rightarrow> TaskManager \<Rightarrow> TaskManager" where
  "set_current p m = (case task_index p m of
       None \<Rightarrow> m
     | Some i \<Rightarrow> (update_task i (\<lambda>t. t\<lparr>t_state := Running\<rparr>) m)\<lparr>current_pid := Some p\<rparr>)"

section \<open>Releasing an address space\<close>

definition align_up :: "usize \<Rightarrow> usize result" where
  "align_up v = (case checked_add v (PAGE_SIZE - 1) of
       None \<Rightarrow> Err
     | Some w \<Rightarrow> Ok (w AND NOT (PAGE_SIZE - 1)))"

text \<open>\<open>(start..end).step_by(PAGE_SIZE)\<close>.\<close>

definition page_range :: "usize \<Rightarrow> usize \<Rightarrow> usize list" where
  "page_range start stop =
     map (\<lambda>i. start + of_nat i * PAGE_SIZE) [0..<(unat stop - unat start + (unat PAGE_SIZE - 1)) div unat PAGE_SIZE]"

text \<open>The two loops of \<open>free_user_space\<close> that give back the mapped pages of a range.\<close>

fun release_pages :: "usize \<Rightarrow> usize list \<Rightarrow> kmem \<Rightarrow> kmem" where
  "release_pages pt [] k = k"
| "release_pages pt (va # vas) k =
     (case walk pt va False k of
        (None, k') \<Rightarrow> release_pages pt vas k'
      | (Some pte, k') \<Rightarrow>
          if load64 k' pte AND PTE_V \<noteq> 0
          then release_pages pt vas (store64 pte 0 (k_free (pte_to_pa (load64 k' pte)) k'))
          else release_pages pt vas k')"

definition free_user_space :: "usize \<Rightarrow> usize \<Rightarrow> usize \<Rightarrow> usize \<Rightarrow> usize \<Rightarrow> usize \<Rightarrow> kmem \<Rightarrow> kmem outcome" where
  "free_user_space pt user_stack image_base image_size heap_base heap_end k =
     (let start = image_base AND NOT (PAGE_SIZE - 1);
          stop = (image_base + image_size + PAGE_SIZE - 1) AND NOT (PAGE_SIZE - 1);
          k1 = release_pages pt (page_range start stop) k;
          heap_mapped_end = (case align_up heap_end of Inl _ \<Rightarrow> heap_base | Inr v \<Rightarrow> v);
          k2 = release_pages pt (page_range heap_base heap_mapped_end) k1;
          k3 = (if user_stack \<noteq> 0 then k_free user_stack k2 else k2)
      in case pt_free pt k3 of None \<Rightarrow> Runaway | Some k4 \<Rightarrow> Done k4)"

definition free_task :: "Task \<Rightarrow> kmem \<Rightarrow> kmem outcome" where
  "free_task t k =
     obind (free_user_space (t_pagetable t) (t_user_stack t) (t_image_base t) (t_image_size t)
              (t_heap_base t) (t_heap_end t) k)
           (\<lambda>k'. Done (k_free (t_kernel_stack t) k'))"

section \<open>Task contexts\<close>

text \<open>\<open>init_context\<close>: the frame near the top of the kernel stack, with the kernel's and the task's
  \<open>satp\<close> in the two words above it.\<close>

definition frame_addr :: "usize \<Rightarrow> usize" where
  "frame_addr kernel_stack = kernel_stack + PAGE_SIZE - 16 - TRAP_FRAME_SIZE"

definition init_context :: "usize option \<Rightarrow> usize \<Rightarrow> usize \<Rightarrow> TrapFrame \<Rightarrow> kmem \<Rightarrow> (usize \<times> kmem) outcome" where
  "init_context kpt kernel_stack pt fr k =
     (let a = frame_addr kernel_stack in
      obind (kernel_satp kpt) (\<lambda>ksatp.
        Done (a, k\<lparr>phys := (write_tf a fr (phys k))(a + TRAP_FRAME_SIZE := ksatp,
                                                    a + TRAP_FRAME_SIZE + 8 := satp_of pt)\<rparr>)))"

section \<open>Lemmas on the task list\<close>

lemma has_pid_simps [simp]: "has_pid p None = False" "has_pid p (Some t) \<longleftrightarrow> t_pid t = p"
  by (simp_all add: has_pid_def)

lemma has_pid_iff: "has_pid p x \<longleftrightarrow> (\<exists>t. x = Some t \<and> t_pid t = p)"
  by (cases x) auto

definition pids_unique :: "TaskManager \<Rightarrow> bool" where
  "pids_unique m \<longleftrightarrow> (\<forall>i < length (tasks m). \<forall>j < length (tasks m). \<forall>t u.
     tasks m ! i = Some t \<longrightarrow> tasks m ! j = Some u \<longrightarrow> t_pid t = t_pid u \<longrightarrow> i = j)"

lemma task_index_Some:
  assumes "task_index p m = Some i"
  shows "i < length (tasks m)" and "tasks m ! i = Some (task_at i m)" and "t_pid (task_at i m) = p"
  using position_Some [OF assms [unfolded task_index_def]] by (auto simp: task_at_def has_pid_iff)

lemma task_index_eq:
  assumes "pids_unique m" and "i < length (tasks m)" and "tasks m ! i = Some t" and "t_pid t = p"
  shows "task_index p m = Some i"
  unfolding task_index_def
  by (rule position_unique) (use assms in \<open>auto simp: has_pid_iff pids_unique_def\<close>)

lemma task_index_None: "task_index p m = None \<longleftrightarrow> (\<forall>t. Some t \<in> set (tasks m) \<longrightarrow> t_pid t \<noteq> p)"
  by (auto simp: task_index_def position_None_iff has_pid_iff)

lemma update_task_simps [simp]:
  "current_pid (update_task i f m) = current_pid m" "next_pid (update_task i f m) = next_pid m"
  "runnable_count (update_task i f m) = runnable_count m" "endpoints (update_task i f m) = endpoints m"
  "uart_owner (update_task i f m) = uart_owner m" "length (tasks (update_task i f m)) = length (tasks m)"
  by (simp_all add: update_task_def)

lemma nth_update_task:
  "j < length (tasks m) \<Longrightarrow> tasks (update_task i f m) ! j = (if i = j then map_option f (tasks m ! j) else tasks m ! j)"
  by (simp add: update_task_def nth_list_update)

lemma store_frame_simps [simp]:
  "mgr (store_frame a f s) = mgr s" "kernel_pt (store_frame a f s) = kernel_pt s"
  "plic_regs (store_frame a f s) = plic_regs s" "load_frame a (store_frame a f s) = f"
  by (simp_all add: store_frame_def load_frame_def)

lemma update_mgr_simps [simp]:
  "mgr (update_mgr f s) = f (mgr s)" "mem (update_mgr f s) = mem s" "kernel_pt (update_mgr f s) = kernel_pt s"
  "plic_regs (update_mgr f s) = plic_regs s" "load_frame a (update_mgr f s) = load_frame a s"
  by (simp_all add: update_mgr_def load_frame_def)

end
