(* ===== verification/Address_Space.thy ===== *)
theory Address_Space
  imports Task_State
begin

text \<open>
  The release of a task's memory (\<open>free_user_space\<close> and \<open>free_task\<close> of \<open>src/kernel/task.rs\<close>): it
  returns, and gives back exactly the pages mapped in the image and heap ranges, the user stack
  and the pages of the page table.
\<close>

section \<open>The released pages\<close>

definition page_targets :: "usize list \<Rightarrow> (usize \<Rightarrow> usize option) \<Rightarrow> usize set" where
  "page_targets vas f = {pte_to_pa e | e. \<exists>va \<in> set vas. f va = Some e}"

definition without_pages :: "usize list \<Rightarrow> (usize \<Rightarrow> usize option) \<Rightarrow> usize \<Rightarrow> usize option" where
  "without_pages vas f = (\<lambda>vb. if \<exists>va \<in> set vas. vpage vb = vpage va then None else f vb)"

lemma release_pages_spec:
  assumes "pt_wf k root" and "page_targets vas (leaf (phys k) root) \<inter> tables (phys k) root = {}"
  defines "k' \<equiv> release_pages root vas k"
  shows "pt_wf k' root \<and> tables (phys k') root = tables (phys k) root \<and>
         leaf (phys k') root = without_pages vas (leaf (phys k) root) \<and>
         used_frames (pages k') = used_frames (pages k) - page_targets vas (leaf (phys k) root)"
  using assms(1,2) unfolding k'_def
proof (induction vas arbitrary: k)
  case Nil
  then show ?case by (simp add: without_pages_def page_targets_def)
next
  case (Cons va vas)
  show ?case
  proof (cases "leaf (phys k) root va")
    case None
    have step: "release_pages root (va # vas) k = release_pages root vas k"
      using walked_leaf [of k root va] None
      by (cases "node (phys k) root [vpn 2 va, vpn 1 va]") (simp_all add: walk_False del: node.simps)
    have miss: "leaf (phys k) root vb = None" if "vpage vb = vpage va" for vb
      using leaf_page [OF that] None by simp
    have "without_pages vas (leaf (phys k) root) = without_pages (va # vas) (leaf (phys k) root)"
      using miss by (auto simp: without_pages_def fun_eq_iff)
    moreover have "page_targets vas (leaf (phys k) root) = page_targets (va # vas) (leaf (phys k) root)"
      using None by (auto simp: page_targets_def)
    ultimately show ?thesis unfolding step using Cons.IH [OF Cons.prems(1)] Cons.prems(2) by simp
  next
    case (Some e)
    then obtain t where t: "node (phys k) root [vpn 2 va, vpn 1 va] = Some t"
      unfolding leaf_def by (cases "node (phys k) root [vpn 2 va, vpn 1 va]") auto
    note wl = walked_leaf [OF t]
    let ?k2 = "store64 (pte_addr t (vpn 0 va)) 0 (k_free (pte_to_pa e) k)"
    have nt: "pte_to_pa e \<notin> tables (phys k) root"
      using Cons.prems(2) Some by (auto simp: page_targets_def)
    note um = unmap_page [where b = True, OF Cons.prems(1) t Some nt, simplified if_True]
    have step: "release_pages root (va # vas) k = release_pages root vas ?k2"
      using wl(1) wl(2) [OF Some] t Some by (simp add: walk_False del: node.simps)
    have hit: "leaf (phys k) root vb = Some e" if "vpage vb = vpage va" for vb
      using leaf_page [OF that] Some by simp
    have tg: "page_targets (va # vas) (leaf (phys k) root) =
        insert (pte_to_pa e) (page_targets vas (leaf (phys ?k2) root))"
      using hit Some by (fastforce simp: page_targets_def um(3) set_page_def split: if_splits)
    have "without_pages vas (leaf (phys ?k2) root) = without_pages (va # vas) (leaf (phys k) root)"
      by (auto simp: without_pages_def um(3) set_page_def fun_eq_iff)
    moreover have "page_targets vas (leaf (phys ?k2) root) \<inter> tables (phys ?k2) root = {}"
      using Cons.prems(2) unfolding tg um(2) by blast
    ultimately show ?thesis
      unfolding step tg using Cons.IH [OF um(1)] um(2,4) by auto
  qed
qed

lemma without_pages_append:
  "without_pages ws (without_pages vs f) = without_pages (vs @ ws) f"
  by (auto simp: without_pages_def fun_eq_iff)

lemma page_targets_without:
  "page_targets vs f \<union> page_targets ws (without_pages vs f) \<subseteq> page_targets (vs @ ws) f"
  by (auto simp: page_targets_def without_pages_def split: if_splits)

lemma page_targets_append:
  assumes "\<And>va vb. vpage va = vpage vb \<Longrightarrow> f va = f vb"
  shows "page_targets (vs @ ws) f = page_targets vs f \<union> page_targets ws (without_pages vs f)"
proof
  show "page_targets (vs @ ws) f \<subseteq> page_targets vs f \<union> page_targets ws (without_pages vs f)"
  proof
    fix p assume "p \<in> page_targets (vs @ ws) f"
    then obtain e va where e: "p = pte_to_pa e" "f va = Some e" "va \<in> set vs \<union> set ws"
      by (auto simp: page_targets_def)
    show "p \<in> page_targets vs f \<union> page_targets ws (without_pages vs f)"
    proof (cases "\<exists>vb \<in> set vs. vpage va = vpage vb")
      case True
      then obtain vb where "vb \<in> set vs" "f vb = Some e" using assms e(2) by metis
      then show ?thesis using e(1) by (auto simp: page_targets_def)
    next
      case False
      then have "va \<in> set ws" "without_pages vs f va = Some e" using e by (auto simp: without_pages_def)
      then show ?thesis using e(1) by (auto simp: page_targets_def)
    qed
  qed
qed (rule page_targets_without)

section \<open>Releasing a whole address space\<close>

text \<open>The pages \<open>free_user_space\<close> looks at: the image range and the heap range.\<close>

definition image_pages :: "usize \<Rightarrow> usize \<Rightarrow> usize list" where
  "image_pages image_base image_size =
     page_range (image_base AND NOT (PAGE_SIZE - 1))
                ((image_base + image_size + PAGE_SIZE - 1) AND NOT (PAGE_SIZE - 1))"

definition heap_pages :: "usize \<Rightarrow> usize \<Rightarrow> usize list" where
  "heap_pages heap_base heap_end =
     page_range heap_base (case align_up heap_end of Inl _ \<Rightarrow> heap_base | Inr v \<Rightarrow> v)"

definition user_pages :: "usize \<Rightarrow> usize \<Rightarrow> usize \<Rightarrow> usize \<Rightarrow> usize list" where
  "user_pages image_base image_size heap_base heap_end =
     image_pages image_base image_size @ heap_pages heap_base heap_end"

text \<open>An address space that can be released: the pages mapped in its ranges are not table pages,
  and every other leaf carries a permission (the kernel window, the devices and the stack do).\<close>

definition releasable :: "usize \<Rightarrow> usize list \<Rightarrow> usize \<Rightarrow> kmem \<Rightarrow> bool" where
  "releasable pt vas user_stack k \<longleftrightarrow>
     pt_wf k pt \<and> page_targets vas (leaf (phys k) pt) \<inter> tables (phys k) pt = {} \<and>
     page_aligned user_stack \<and> user_stack \<notin> tables (phys k) pt \<and>
     (\<forall>va e. without_pages vas (leaf (phys k) pt) va = Some e \<longrightarrow> e AND (PTE_R OR PTE_W OR PTE_X) \<noteq> 0)"

lemma free_user_space_spec:
  assumes "releasable pt (user_pages image_base image_size heap_base heap_end) user_stack k"
  obtains k' where "free_user_space pt user_stack image_base image_size heap_base heap_end k = Done k'"
    and "frames_wf (pages k')"
    and "used_frames (pages k') = used_frames (pages k) - tables (phys k) pt -
           page_targets (user_pages image_base image_size heap_base heap_end) (leaf (phys k) pt) -
           (if user_stack = 0 then {} else {user_stack})"
proof -
  let ?im = "image_pages image_base image_size" and ?hp = "heap_pages heap_base heap_end"
  let ?f = "leaf (phys k) pt" and ?T = "tables (phys k) pt"
  define k1 where "k1 = release_pages pt ?im k"
  define k2 where "k2 = release_pages pt ?hp k1"
  define k3 where "k3 = (if user_stack \<noteq> 0 then k_free user_stack k2 else k2)"
  have wf: "pt_wf k pt" and al: "page_aligned user_stack" and st: "user_stack \<notin> ?T"
    and rwx: "\<forall>va e. without_pages (?im @ ?hp) ?f va = Some e \<longrightarrow> e AND (PTE_R OR PTE_W OR PTE_X) \<noteq> 0"
    and nt: "page_targets (?im @ ?hp) ?f \<inter> ?T = {}"
    using assms by (auto simp: releasable_def user_pages_def)
  have split: "page_targets (?im @ ?hp) ?f = page_targets ?im ?f \<union> page_targets ?hp (without_pages ?im ?f)"
    by (rule page_targets_append) (rule leaf_page)
  have s1: "pt_wf k1 pt" "tables (phys k1) pt = ?T" "leaf (phys k1) pt = without_pages ?im ?f"
    "used_frames (pages k1) = used_frames (pages k) - page_targets ?im ?f"
    using release_pages_spec [OF wf, of ?im] nt unfolding split k1_def by blast+
  have "page_targets ?hp (leaf (phys k1) pt) \<inter> tables (phys k1) pt = {}"
    using nt unfolding split s1 by blast
  note r2 = release_pages_spec [OF s1(1) this, folded k2_def]
  have s2: "pt_wf k2 pt" "tables (phys k2) pt = ?T" "leaf (phys k2) pt = without_pages (?im @ ?hp) ?f"
    "used_frames (pages k2) = used_frames (pages k) - page_targets (?im @ ?hp) ?f"
    using r2 unfolding s1 without_pages_append split by auto
  have ph: "phys k3 = phys k2" by (simp add: k3_def k_free_def)
  have s3: "pt_wf k3 pt" using k_free_pt_wf [OF s2(1) al] st s2(1,2) by (simp add: k3_def)
  have u3: "used_frames (pages k3) = used_frames (pages k2) - (if user_stack = 0 then {} else {user_stack})"
    using k_free_frames(1) [OF pt_wf_frames [OF s2(1)] al] by (simp add: k3_def)
  have "leaves_rwx (phys k3) pt" using rwx by (simp add: leaves_rwx_def ph s2(3))
  from pt_free_spec [OF s3 this] obtain k4 where k4: "pt_free pt k3 = Some k4" "frames_wf (pages k4)"
    "used_frames (pages k4) = used_frames (pages k3) - tables (phys k3) pt" by blast
  have "free_user_space pt user_stack image_base image_size heap_base heap_end k = Done k4"
    using k4(1) unfolding free_user_space_def Let_def k3_def k2_def k1_def image_pages_def heap_pages_def by simp
  moreover have "used_frames (pages k4) = used_frames (pages k) - ?T - page_targets (?im @ ?hp) ?f -
      (if user_stack = 0 then {} else {user_stack})"
    unfolding k4(3) ph s2(2) u3 s2(4) by blast
  ultimately show ?thesis using that k4(2) by (simp add: user_pages_def)
qed

text \<open>Every frame of a task: its table pages, the pages mapped in its image and heap ranges, its user stack
  and its kernel stack.\<close>

definition task_frames :: "Task \<Rightarrow> kmem \<Rightarrow> usize set" where
  "task_frames t k = tables (phys k) (t_pagetable t) \<union>
     page_targets (user_pages (t_image_base t) (t_image_size t) (t_heap_base t) (t_heap_end t)) (leaf (phys k) (t_pagetable t)) \<union>
     (if t_user_stack t = 0 then {} else {t_user_stack t}) \<union> {t_kernel_stack t}"

lemma free_task_frames:
  assumes "releasable (t_pagetable t) (user_pages (t_image_base t) (t_image_size t) (t_heap_base t) (t_heap_end t))
             (t_user_stack t) k"
    and "page_aligned (t_kernel_stack t)"
  shows "\<exists>k'. free_task t k = Done k' \<and> frames_wf (pages k') \<and> used_frames (pages k') = used_frames (pages k) - task_frames t k"
proof -
  obtain k' where k': "free_user_space (t_pagetable t) (t_user_stack t) (t_image_base t) (t_image_size t)
      (t_heap_base t) (t_heap_end t) k = Done k'" "frames_wf (pages k')"
    "used_frames (pages k') = used_frames (pages k) - tables (phys k) (t_pagetable t) -
       page_targets (user_pages (t_image_base t) (t_image_size t) (t_heap_base t) (t_heap_end t))
         (leaf (phys k) (t_pagetable t)) - (if t_user_stack t = 0 then {} else {t_user_stack t})"
    using free_user_space_spec [OF assms(1)] .
  then show ?thesis using k_free_frames(1,2) [OF k'(2) assms(2)] by (auto simp: free_task_def task_frames_def)
qed

text \<open>C31: Releasing a task returns (the walk of its page table ends within three levels) and gives back
  exactly its table pages, the pages mapped in its image and heap ranges, its user stack and its
  kernel stack.\<close>

theorem free_task_releases:
  assumes "releasable (t_pagetable t) (user_pages (t_image_base t) (t_image_size t) (t_heap_base t) (t_heap_end t))
             (t_user_stack t) k"
    and "page_aligned (t_kernel_stack t)"
  shows "\<exists>k'. free_task t k = Done k' \<and> frames_wf (pages k') \<and>
     used_frames (pages k') = used_frames (pages k) - tables (phys k) (t_pagetable t) -
       page_targets (user_pages (t_image_base t) (t_image_size t) (t_heap_base t) (t_heap_end t))
         (leaf (phys k) (t_pagetable t)) -
       (if t_user_stack t = 0 then {} else {t_user_stack t}) - {t_kernel_stack t}"
proof -
  have "A - (B \<union> C \<union> D \<union> E) = A - B - C - D - E" for A B C D E :: "usize set" by blast
  then show ?thesis using free_task_frames [OF assms] by (simp only: task_frames_def)
qed

text \<open>A task with one image page, on the machine with two pages mapped from \<open>0x10000\<close>.\<close>

definition sample_task :: Task where
  "sample_task = \<lparr>t_pid = 1, t_state = Zombie, t_trap_frame = 0, t_kernel_stack = 0x80405000, t_user_stack = 0x80404000,
     t_entry = 0x10000, t_pagetable = 0x80400000, t_exit_code = 0, t_image_base = 0x10000, t_image_size = 0x2000,
     t_heap_base = 0x12000, t_heap_end = 0x12000, t_parent_pid = None, t_waiting_for = None\<rparr>"

lemma sample_releasable:
  "releasable 0x80400000 (user_pages 0x10000 0x2000 0x12000 0x12000) 0x80404000 machine2"
proof -
  have pg: "user_pages 0x10000 0x2000 0x12000 0x12000 = [0x10000, 0x11000]"
    by (simp add: user_pages_def image_pages_def heap_pages_def page_range_def align_up_def checked_add_def layout
        numeral_2_eq_2 [symmetric] upt_rec)
  have leaves: "leaf (phys machine2) 0x80400000 0x10000 = Some (pa_to_pte 0x80406000 (PTE_R OR PTE_U OR PTE_V))"
    "leaf (phys machine2) 0x80400000 0x11000 = Some (pa_to_pte 0x80407000 (PTE_R OR PTE_U OR PTE_V))" by code_simp+
  have pa: "pte_to_pa (pa_to_pte 0x80406000 (PTE_R OR PTE_U OR PTE_V)) = 0x80406000"
    "pte_to_pa (pa_to_pte 0x80407000 (PTE_R OR PTE_U OR PTE_V)) = 0x80407000" by code_simp+
  have targets: "page_targets [0x10000, 0x11000] (leaf (phys machine2) 0x80400000) = {0x80406000, 0x80407000}"
    using leaves pa by (auto simp: page_targets_def)
  have "leaf (phys machine2) 0x80400000 = map_pages 0x10000 0x80406000 (PTE_R OR PTE_U) [0..<run_length 0x2000] (\<lambda>_. None)"
  proof -
    have "map_loop 0x80400000 0x10000 0x80406000 (PTE_R OR PTE_U) [0..<run_length 0x2000] machine1 = (Ok (), machine2)"
      using pt_map_loop [OF machine2_map refl] by simp
    from map_loop_spec [OF machine1_wf(1) this] show ?thesis by (auto simp: machine1_wf(2))
  qed
  moreover have "[0..<run_length 0x2000] = [0, 1]" by (simp add: run_length_def layout upt_rec)
  ultimately have none: "without_pages [0x10000, 0x11000] (leaf (phys machine2) 0x80400000) va = None" for va
    by (simp add: without_pages_def map_pages_def set_page_def page_at_def layout)
  have stack: "0x80404000 \<notin> tables (phys machine2) 0x80400000"
  proof -
    have "0x80404000 \<notin> used_frames (pages machine2)" by code_simp
    then show ?thesis using pt_wf_node(1) [OF machine2_wf] by (auto simp: tables_def)
  qed
  show ?thesis unfolding pg
    using machine2_wf machine2_tables stack targets none
    by (auto simp: releasable_def page_aligned_def layout)
qed

theorem free_task_releases_witness:
  "\<exists>k'. free_task sample_task machine2 = Done k' \<and> 0x80400000 \<notin> used_frames (pages k')"
proof -
  have "page_aligned (t_kernel_stack sample_task)" by (simp add: sample_task_def page_aligned_def layout)
  then obtain k' where k': "free_task sample_task machine2 = Done k'"
    "used_frames (pages k') \<subseteq> used_frames (pages machine2) - tables (phys machine2) 0x80400000"
    using free_task_releases [of sample_task machine2] sample_releasable by (auto simp: sample_task_def)
  moreover have "0x80400000 \<in> tables (phys machine2) 0x80400000" by (simp add: tables_below)
  ultimately show ?thesis by blast
qed

end
