(* ===== verification/Scheduler.thy ===== *)
theory Scheduler
  imports Address_Space
begin

text \<open>
  Scheduling, \<open>src/kernel/task.rs\<close>: \<open>reap_detached_zombies\<close>, \<open>schedule\<close>, \<open>exit_current\<close>,
  \<open>waitpid\<close>, \<open>wait_uart_irq\<close> and \<open>wake_uart\<close>, with the PLIC operations they use
  (\<open>src/drivers/plic.rs\<close>). A trap frame argument is the address of the frame in memory.
\<close>

section \<open>Reaping\<close>

definition detached :: "TaskManager \<Rightarrow> Task \<Rightarrow> bool" where
  "detached m t \<longleftrightarrow> t_state t = Zombie \<and> t_parent_pid t = None \<and> Some (t_pid t) \<noteq> current_pid m"

definition take_slot :: "nat \<Rightarrow> TaskManager \<Rightarrow> TaskManager" where
  "take_slot i m = m\<lparr>tasks := (tasks m)[i := None]\<rparr>"

fun reap_loop :: "nat list \<Rightarrow> kstate \<Rightarrow> kstate outcome" where
  "reap_loop [] s = Done s"
| "reap_loop (i # is) s =
     (if is_some_and (detached (mgr s)) (tasks (mgr s) ! i)
      then obind (free_task (task_at i (mgr s)) (mem s)) (\<lambda>k.
             reap_loop is (s\<lparr>mem := k, mgr := take_slot i (mgr s)\<rparr>))
      else reap_loop is s)"

definition reap_detached_zombies :: "kstate \<Rightarrow> kstate outcome" where
  "reap_detached_zombies s = reap_loop [0..<MAX_TASKS] s"

section \<open>Choosing the next task\<close>

definition ready_user :: "Task option \<Rightarrow> bool" where
  "ready_user = is_some_and (\<lambda>t. t_pid t \<noteq> IDLE_PID \<and> t_state t = Ready)"

definition scan_order :: "nat \<Rightarrow> nat list" where
  "scan_order start = map (\<lambda>offset. (start + offset) mod MAX_TASKS) [0..<MAX_TASKS]"

definition run_task :: "nat \<Rightarrow> TaskManager \<Rightarrow> TaskManager" where
  "run_task i m = (update_task i (\<lambda>t. t\<lparr>t_state := Running\<rparr>) m)\<lparr>current_pid := Some (t_pid (task_at i m))\<rparr>"

text \<open>The first half of \<open>schedule\<close>: the frame of the task that traps is saved and the task put back.\<close>

definition save_current :: "usize \<Rightarrow> kstate \<Rightarrow> kstate" where
  "save_current tf s =
     (case current_index (mgr s) of
        None \<Rightarrow> s
      | Some i \<Rightarrow>
          update_mgr (update_task i (\<lambda>t. if t_state t = Running then t\<lparr>t_state := Ready\<rparr> else t))
            (store_frame (t_trap_frame (task_at i (mgr s))) (load_frame tf s) s))"

text \<open>\<open>current_index.map_or(0, |index| (index + 1) % MAX_TASKS)\<close>.\<close>

definition scan_start :: "TaskManager \<Rightarrow> nat" where
  "scan_start m = (case current_index m of None \<Rightarrow> 0 | Some i \<Rightarrow> (i + 1) mod MAX_TASKS)"

definition schedule :: "usize \<Rightarrow> kstate \<Rightarrow> (usize \<times> kstate) outcome" where
  "schedule tf s0 =
     obind (reap_detached_zombies s0) (\<lambda>s1.
       let s = save_current tf s1 in
          case List.find (\<lambda>i. ready_user (tasks (mgr s) ! i)) (scan_order (scan_start (mgr s1))) of
            Some i \<Rightarrow> Done (t_trap_frame (task_at i (mgr s)), update_mgr (run_task i) s)
          | None \<Rightarrow>
              (case task_index IDLE_PID (mgr s) of
                 Some i \<Rightarrow> Done (t_trap_frame (task_at i (mgr s)), update_mgr (run_task i) s)
               | None \<Rightarrow> Done (tf, s)))"

section \<open>Blocking the current task\<close>

text \<open>The sequence shared by every blocking operation: state, wait channel, saved frame, counter.\<close>

definition sleep_task :: "nat \<Rightarrow> WaitChannel \<Rightarrow> usize \<Rightarrow> kstate \<Rightarrow> kstate" where
  "sleep_task i ch tf s =
     update_mgr (\<lambda>m. m\<lparr>runnable_count := saturating_sub (runnable_count m) 1\<rparr>)
       (update_mgr (update_task i (\<lambda>t. t\<lparr>t_state := Sleeping, t_waiting_for := Some ch\<rparr>))
          (store_frame (t_trap_frame (task_at i (mgr s))) (load_frame tf s) s))"

text \<open>Making a sleeping task ready.\<close>

definition wake_task :: "nat \<Rightarrow> TaskManager \<Rightarrow> TaskManager" where
  "wake_task i m =
     (update_task i (\<lambda>t. t\<lparr>t_state := Ready, t_waiting_for := None\<rparr>) m)\<lparr>runnable_count := runnable_count m + 1\<rparr>"

datatype WaitResult = Reaped u32 | WaitBlocked usize | WaitError

definition child_slot :: "u32 \<Rightarrow> u32 \<Rightarrow> TaskManager \<Rightarrow> nat option" where
  "child_slot pid parent m =
     position (is_some_and (\<lambda>t. t_pid t = pid \<and> t_parent_pid t = Some parent)) (tasks m)"

definition waitpid :: "u32 \<Rightarrow> usize \<Rightarrow> kstate \<Rightarrow> (WaitResult \<times> kstate) outcome" where
  "waitpid pid tf s =
     (if current_pid (mgr s) = Some IDLE_PID then Done (WaitError, s)
      else case current_pid (mgr s) of
        None \<Rightarrow> Done (WaitError, s)
      | Some parent_pid \<Rightarrow>
          (case child_slot pid parent_pid (mgr s) of
             None \<Rightarrow> Done (WaitError, s)
           | Some c \<Rightarrow>
               if t_state (task_at c (mgr s)) = Zombie
               then obind (free_task (task_at c (mgr s)) (mem s)) (\<lambda>k.
                      Done (Reaped (t_exit_code (task_at c (mgr s))), s\<lparr>mem := k, mgr := take_slot c (mgr s)\<rparr>))
               else (case current_index (mgr s) of
                       None \<Rightarrow> Done (WaitError, s)
                     | Some i \<Rightarrow>
                         obind (schedule tf (sleep_task i (Child pid) tf s)) (\<lambda>(f, s').
                           Done (WaitBlocked f, s')))))"

section \<open>Exit\<close>

definition exit_task :: "u32 \<Rightarrow> TaskManager \<Rightarrow> u32 option \<times> u32 option \<times> TaskManager" where
  "exit_task code m =
     (case current_index m of
        None \<Rightarrow> (None, None, m)
      | Some i \<Rightarrow>
          (Some (t_pid (task_at i m)), t_parent_pid (task_at i m),
           update_task i (\<lambda>t. t\<lparr>t_state := Zombie, t_exit_code := code\<rparr>) m))"

text \<open>The children of the task that exits become orphans.\<close>

definition orphan_children :: "u32 \<Rightarrow> TaskManager \<Rightarrow> TaskManager" where
  "orphan_children pid m =
     m\<lparr>runnable_count := runnable_count m - 1,
       tasks := map (map_option (\<lambda>t. if t_parent_pid t = Some pid then t\<lparr>t_parent_pid := None\<rparr> else t)) (tasks m)\<rparr>"

text \<open>A parent that waits for this child gets the exit code (\<open>code as usize\<close> sign-extends) and wakes up.\<close>

definition notify_parent :: "u32 \<Rightarrow> u32 \<Rightarrow> u32 \<Rightarrow> kstate \<Rightarrow> kstate" where
  "notify_parent child parent code s =
     (case task_index parent (mgr s) of
        None \<Rightarrow> s
      | Some i \<Rightarrow>
          let p = task_at i (mgr s) in
          if t_state p = Sleeping \<and> t_waiting_for p = Some (Child child)
          then let s1 = update_mgr (wake_task i)
                          (store_frame (t_trap_frame p) ((load_frame (t_trap_frame p) s)\<lparr>tf_a0 := scast code\<rparr>) s)
               in (case task_index child (mgr s1) of
                     None \<Rightarrow> s1
                   | Some c \<Rightarrow> update_mgr (update_task c (\<lambda>t. t\<lparr>t_parent_pid := None\<rparr>)) s1)
          else s)"

definition exit_current :: "u32 \<Rightarrow> kstate \<Rightarrow> usize option \<times> kstate" where
  "exit_current code s =
     (if current_pid (mgr s) = Some IDLE_PID
      then (map_option (\<lambda>i. t_trap_frame (task_at i (mgr s))) (current_index (mgr s)), s)
      else case exit_task code (mgr s) of
        (exited, parent, m1) \<Rightarrow>
          let s2 = s\<lparr>mgr := (case exited of None \<Rightarrow> m1 | Some pid \<Rightarrow> orphan_children pid m1)\<rparr>;
              s3 = (case (exited, parent) of
                      (Some c, Some p) \<Rightarrow> notify_parent c p code s2
                    | _ \<Rightarrow> s2);
              s4 = update_mgr (\<lambda>m. m\<lparr>current_pid := None\<rparr>) s3
          in case position ready_user (tasks (mgr s4)) of
               Some i \<Rightarrow> (Some (t_trap_frame (task_at i (mgr s4))), update_mgr (run_task i) s4)
             | None \<Rightarrow>
                 (case task_index IDLE_PID (mgr s4) of
                    Some i \<Rightarrow> (Some (t_trap_frame (task_at i (mgr s4))), update_mgr (run_task i) s4)
                  | None \<Rightarrow> (None, s4)))"

text \<open>The wrapper: when there is nothing left to run the machine is switched off.\<close>

definition task_exit :: "u32 \<Rightarrow> kstate \<Rightarrow> (usize \<times> kstate) outcome" where
  "task_exit code s = (case exit_current code s of (Some f, s') \<Rightarrow> Done (f, s') | (None, _) \<Rightarrow> Shutdown)"

section \<open>The UART interrupt\<close>

definition SENABLE_BASE :: usize where [layout]: "SENABLE_BASE = 0x0c002080"
definition UART0_IRQ :: u32 where [layout]: "UART0_IRQ = 10"

definition irq_register :: "u32 \<Rightarrow> usize" where
  "irq_register irq = SENABLE_BASE + (ucast irq div 32) * 4"

definition irq_bit :: "u32 \<Rightarrow> u32" where
  "irq_bit irq = push_bit (unat (irq mod 32)) 1"

definition plic_enable :: "u32 \<Rightarrow> kstate \<Rightarrow> kstate" where
  "plic_enable irq s = s\<lparr>plic_regs := (plic_regs s)(irq_register irq := plic_regs s (irq_register irq) OR irq_bit irq)\<rparr>"

definition plic_disable :: "u32 \<Rightarrow> kstate \<Rightarrow> kstate" where
  "plic_disable irq s = s\<lparr>plic_regs := (plic_regs s)(irq_register irq := plic_regs s (irq_register irq) AND NOT (irq_bit irq))\<rparr>"

definition wait_uart_irq :: "usize \<Rightarrow> kstate \<Rightarrow> (usize result \<times> kstate) outcome" where
  "wait_uart_irq tf s =
     (if current_pid (mgr s) = Some 0 \<or> current_pid (mgr s) \<noteq> uart_owner (mgr s) then Done (Err, s)
      else case current_index (mgr s) of
        None \<Rightarrow> Done (Err, s)
      | Some i \<Rightarrow>
          obind (schedule tf (plic_enable UART0_IRQ (sleep_task i UartRx tf s))) (\<lambda>(f, s').
            Done (Ok f, s')))"

definition waits_uart :: "Task \<Rightarrow> bool" where
  "waits_uart t \<longleftrightarrow> t_state t = Sleeping \<and> t_waiting_for t = Some UartRx"

fun wake_uart_loop :: "nat list \<Rightarrow> bool \<Rightarrow> kstate \<Rightarrow> bool \<times> kstate" where
  "wake_uart_loop [] woke s = (woke, s)"
| "wake_uart_loop (i # is) woke s =
     (if is_some_and waits_uart (tasks (mgr s) ! i)
      then let f = t_trap_frame (task_at i (mgr s)) in
           wake_uart_loop is True (update_mgr (wake_task i) (store_frame f ((load_frame f s)\<lparr>tf_a0 := 0\<rparr>) s))
      else wake_uart_loop is woke s)"

definition wake_uart :: "kstate \<Rightarrow> bool \<times> kstate" where
  "wake_uart s = wake_uart_loop [0..<MAX_TASKS] False s"

end
