(* ===== verification/Scheduler_Inv.thy ===== *)
theory Scheduler_Inv
  imports Scheduler
begin

text \<open>
  The invariant of the task table and its preservation by the scheduling operations of
  \<open>src/kernel/task.rs\<close>. Every operation is first related to its effect on the task manager alone
  (\<open>reap_mgr\<close>, \<open>schedule_mgr\<close>), which does not depend on memory.
\<close>

section \<open>Counting tasks\<close>

lemma length_filter_update:
  "i < length xs \<Longrightarrow> length (filter P (xs[i := y])) + of_bool (P (xs ! i)) = length (filter P xs) + of_bool (P y)"
proof (induction xs arbitrary: i)
  case (Cons x xs)
  then show ?case by (cases i) fastforce+
qed simp

definition count_tasks :: "(Task \<Rightarrow> bool) \<Rightarrow> TaskManager \<Rightarrow> nat" where
  "count_tasks P m = length (filter (is_some_and P) (tasks m))"

lemma count_tasks_le: "count_tasks P m \<le> length (tasks m)"
  by (simp add: count_tasks_def)

lemma count_update:
  assumes "i < length (tasks m)" and "tasks m ! i = Some t"
  shows "count_tasks P (update_task i f m) + of_bool (P t) = count_tasks P m + of_bool (P (f t))"
  using length_filter_update [OF assms(1), of "is_some_and P" "map_option f (tasks m ! i)"] assms(2)
  by (simp add: count_tasks_def update_task_def)

lemma count_tasks_cong: "tasks m = tasks m' \<Longrightarrow> count_tasks P m = count_tasks P m'"
  by (simp add: count_tasks_def)

lemma count_map:
  assumes "\<And>t. Some t \<in> set (tasks m) \<Longrightarrow> is_some_and P (f (Some t)) = P t" and "f None = None"
    and "tasks m' = map f (tasks m)"
  shows "count_tasks P m' = count_tasks P m"
proof -
  have "length (filter (is_some_and P) (map f xs)) = length (filter (is_some_and P) xs)"
    if "\<And>t. Some t \<in> set xs \<Longrightarrow> is_some_and P (f (Some t)) = P t" for xs
    using that
  proof (induction xs)
    case (Cons x xs)
    then show ?case using assms(2) by (cases x) auto
  qed simp
  then show ?thesis using assms(1,3) by (simp add: count_tasks_def)
qed

section \<open>The invariant\<close>

definition runnable :: "Task \<Rightarrow> bool" where
  "runnable t \<longleftrightarrow> t_pid t \<noteq> IDLE_PID \<and> (t_state t = Ready \<or> t_state t = Running)"

definition task_ok :: "u32 option \<Rightarrow> Task \<Rightarrow> bool" where
  "task_ok cur t \<longleftrightarrow>
     t_state t \<noteq> Unused \<and> (t_state t = Sleeping \<longleftrightarrow> t_waiting_for t \<noteq> None) \<and>
     (t_pid t = IDLE_PID \<longrightarrow> t_state t = Ready \<or> t_state t = Running) \<and>
     (t_state t = Running \<longrightarrow> cur = Some (t_pid t))"

definition sched_wf :: "TaskManager \<Rightarrow> bool" where
  "sched_wf m \<longleftrightarrow>
     length (tasks m) = MAX_TASKS \<and> pids_unique m \<and>
     runnable_count m = of_nat (count_tasks runnable m) \<and>
     (\<forall>t. Some t \<in> set (tasks m) \<longrightarrow> task_ok (current_pid m) t)"

text \<open>Between traps the current task is running.\<close>

definition running :: "TaskManager \<Rightarrow> bool" where
  "running m \<longleftrightarrow> (\<exists>i. current_index m = Some i \<and> t_state (task_at i m) = Running)"

definition has_idle :: "TaskManager \<Rightarrow> bool" where
  "has_idle m \<longleftrightarrow> task_index IDLE_PID m \<noteq> None"

lemma sched_wf_task_ok:
  "sched_wf m \<Longrightarrow> i < MAX_TASKS \<Longrightarrow> tasks m ! i = Some t \<Longrightarrow> task_ok (current_pid m) t"
  unfolding sched_wf_def by (metis nth_mem)

lemma sched_wf_length: "sched_wf m \<Longrightarrow> length (tasks m) = MAX_TASKS"
  by (simp add: sched_wf_def)

lemma pids_unique_update:
  assumes "pids_unique m" and "\<And>t. t_pid (f t) = t_pid t"
  shows "pids_unique (update_task i f m)"
  unfolding pids_unique_def
proof (intro allI impI)
  fix a b t u
  assume len: "a < length (tasks (update_task i f m))" "b < length (tasks (update_task i f m))"
    and eq: "tasks (update_task i f m) ! a = Some t" "tasks (update_task i f m) ! b = Some u" "t_pid t = t_pid u"
  have "\<exists>t'. tasks m ! a = Some t' \<and> t_pid t' = t_pid t" "\<exists>u'. tasks m ! b = Some u' \<and> t_pid u' = t_pid u"
    using len eq(1,2) assms(2) by (auto simp: nth_update_task split: if_splits)
  then show "a = b" using assms(1) len eq(3) by (auto simp: pids_unique_def)
qed

lemma count_word:
  assumes "c + of_bool a = d + of_bool b"
  shows "(of_nat c :: u32) + of_bool a = of_nat d + of_bool b"
  using arg_cong [OF assms, of "of_nat :: nat \<Rightarrow> u32"] by simp

text \<open>One task changes: the conditions under which the invariant survives.\<close>

lemma sched_wf_update:
  assumes wf: "sched_wf m" and t: "tasks m ! i = Some t" and i: "i < MAX_TASKS" and pid: "\<And>t. t_pid (f t) = t_pid t"
    and tk: "tasks m' = tasks (update_task i f m)"
    and cnt: "runnable_count m' + of_bool (runnable t) = runnable_count m + of_bool (runnable (f t))"
    and ok: "task_ok (current_pid m') (f t)"
    and other: "\<And>u. Some u \<in> set (tasks m) \<Longrightarrow> t_pid u \<noteq> t_pid t \<Longrightarrow> task_ok (current_pid m) u \<Longrightarrow> task_ok (current_pid m') u"
  shows "sched_wf m'"
  unfolding sched_wf_def
proof (intro conjI allI impI)
  have len: "length (tasks m) = MAX_TASKS" using wf by (rule sched_wf_length)
  show "length (tasks m') = MAX_TASKS" by (simp add: tk len)
  show "pids_unique m'" using pids_unique_update [OF _ pid, of m i] wf by (simp add: pids_unique_def tk sched_wf_def)
  have "count_tasks runnable m' + of_bool (runnable t) = count_tasks runnable m + of_bool (runnable (f t))"
    using count_update [of i m t runnable f] t i len count_tasks_cong [OF tk] by simp
  from count_word [OF this] have "runnable_count m' + of_bool (runnable t) = of_nat (count_tasks runnable m') + of_bool (runnable t)"
    using cnt wf by (simp add: sched_wf_def)
  then show "runnable_count m' = of_nat (count_tasks runnable m')" by simp
next
  fix u assume "Some u \<in> set (tasks m')"
  then obtain j where j: "j < MAX_TASKS" "tasks m' ! j = Some u"
    using sched_wf_length [OF wf] by (auto simp: tk in_set_conv_nth)
  have len: "length (tasks m) = MAX_TASKS" using wf by (rule sched_wf_length)
  show "task_ok (current_pid m') u"
  proof (cases "j = i")
    case True
    then show ?thesis using j t ok len by (simp add: tk nth_update_task)
  next
    case False
    then have u: "tasks m ! j = Some u" using j len by (simp add: tk nth_update_task)
    have "t_pid u \<noteq> t_pid t"
      using wf u t i j(1) False len by (auto simp: sched_wf_def pids_unique_def)
    moreover have "Some u \<in> set (tasks m)" using u j(1) len nth_mem by metis
    ultimately show ?thesis using other sched_wf_task_ok [OF wf j(1) u] by blast
  qed
qed

section \<open>The manager after reaping\<close>

definition reap_mgr :: "TaskManager \<Rightarrow> TaskManager" where
  "reap_mgr m = m\<lparr>tasks := map (\<lambda>x. if is_some_and (detached m) x then None else x) (tasks m)\<rparr>"

lemma detached_tasks [simp]: "detached (m\<lparr>tasks := x\<rparr>) = detached m"
  by (simp add: detached_def fun_eq_iff)

lemma reap_loop_mgr:
  assumes "reap_loop is s = Done s'" and "set is \<subseteq> {..<length (tasks (mgr s))}"
  shows "mgr s' = (mgr s)\<lparr>tasks := map (\<lambda>i. if i \<in> set is \<and> is_some_and (detached (mgr s)) (tasks (mgr s) ! i)
            then None else tasks (mgr s) ! i) [0..<length (tasks (mgr s))]\<rparr> \<and>
         kernel_pt s' = kernel_pt s \<and> plic_regs s' = plic_regs s"
  using assms
proof (induction "is" arbitrary: s)
  case Nil
  then show ?case by (simp add: map_nth)
next
  case (Cons i "is")
  show ?case
  proof (cases "is_some_and (detached (mgr s)) (tasks (mgr s) ! i)")
    case False
    then have r: "reap_loop is s = Done s'" using Cons.prems by simp
    have "(\<lambda>j. if j \<in> set (i # is) \<and> is_some_and (detached (mgr s)) (tasks (mgr s) ! j) then None else tasks (mgr s) ! j) =
          (\<lambda>j. if j \<in> set is \<and> is_some_and (detached (mgr s)) (tasks (mgr s) ! j) then None else tasks (mgr s) ! j)"
      using False by auto
    then show ?thesis using Cons.IH [OF r] Cons.prems(2) by simp
  next
    case True
    then obtain k where r: "reap_loop is (s\<lparr>mem := k, mgr := take_slot i (mgr s)\<rparr>) = Done s'"
      using Cons.prems by auto
    have i: "i < length (tasks (mgr s))" using Cons.prems(2) by simp
    from Cons.IH [OF r] Cons.prems(2) have
      "mgr s' = (take_slot i (mgr s))\<lparr>tasks := map (\<lambda>j. if j \<in> set is \<and> is_some_and (detached (mgr s)) ((tasks (mgr s))[i := None] ! j)
            then None else (tasks (mgr s))[i := None] ! j) [0..<length (tasks (mgr s))]\<rparr>"
      "kernel_pt s' = kernel_pt s" "plic_regs s' = plic_regs s"
      by (simp_all add: take_slot_def cong: if_cong)
    moreover have "map (\<lambda>j. if j \<in> set is \<and> is_some_and (detached (mgr s)) ((tasks (mgr s))[i := None] ! j)
            then None else (tasks (mgr s))[i := None] ! j) [0..<length (tasks (mgr s))] =
          map (\<lambda>j. if j \<in> set (i # is) \<and> is_some_and (detached (mgr s)) (tasks (mgr s) ! j)
            then None else tasks (mgr s) ! j) [0..<length (tasks (mgr s))]"
      using True i by (auto simp: nth_list_update)
    ultimately show ?thesis by (simp add: take_slot_def)
  qed
qed

lemma reap_mgr:
  assumes "reap_detached_zombies s = Done s'" and "length (tasks (mgr s)) = MAX_TASKS"
  shows "mgr s' = reap_mgr (mgr s)" and "kernel_pt s' = kernel_pt s" and "plic_regs s' = plic_regs s"
proof -
  have "map (\<lambda>i. if i \<in> set [0..<MAX_TASKS] \<and> is_some_and (detached (mgr s)) (tasks (mgr s) ! i)
            then None else tasks (mgr s) ! i) [0..<MAX_TASKS] =
        map (\<lambda>x. if is_some_and (detached (mgr s)) x then None else x) (tasks (mgr s))"
    by (rule nth_equalityI) (use assms(2) in auto)
  then show "mgr s' = reap_mgr (mgr s)" "kernel_pt s' = kernel_pt s" "plic_regs s' = plic_regs s"
    using reap_loop_mgr [OF assms(1) [unfolded reap_detached_zombies_def]] assms(2)
    by (simp_all add: reap_mgr_def atLeast0LessThan)
qed

lemma reap_mgr_simps [simp]:
  "current_pid (reap_mgr m) = current_pid m" "next_pid (reap_mgr m) = next_pid m"
  "runnable_count (reap_mgr m) = runnable_count m" "endpoints (reap_mgr m) = endpoints m"
  "uart_owner (reap_mgr m) = uart_owner m" "length (tasks (reap_mgr m)) = length (tasks m)"
  by (simp_all add: reap_mgr_def)

lemma nth_reap_mgr:
  "i < length (tasks m) \<Longrightarrow> tasks (reap_mgr m) ! i = (if is_some_and (detached m) (tasks m ! i) then None else tasks m ! i)"
  by (simp add: reap_mgr_def)

lemma reap_mgr_mem: "Some t \<in> set (tasks (reap_mgr m)) \<longleftrightarrow> Some t \<in> set (tasks m) \<and> \<not> detached m t"
  by (auto simp: reap_mgr_def image_iff split: if_splits)

lemma reap_mgr_wf:
  assumes "sched_wf m"
  shows "sched_wf (reap_mgr m)"
  unfolding sched_wf_def
proof (intro conjI allI impI)
  have "count_tasks runnable (reap_mgr m) = count_tasks runnable m"
    by (rule count_map [where f = "\<lambda>x. if is_some_and (detached m) x then None else x"])
       (auto simp: reap_mgr_def detached_def runnable_def)
  then show "runnable_count (reap_mgr m) = of_nat (count_tasks runnable (reap_mgr m))"
    using assms by (simp add: sched_wf_def)
  show "pids_unique (reap_mgr m)"
    unfolding pids_unique_def
  proof (intro allI impI)
    fix i j t u
    assume "i < length (tasks (reap_mgr m))" "j < length (tasks (reap_mgr m))"
      "tasks (reap_mgr m) ! i = Some t" "tasks (reap_mgr m) ! j = Some u" "t_pid t = t_pid u"
    then show "i = j"
      using assms by (auto simp: nth_reap_mgr sched_wf_def pids_unique_def split: if_splits)
  qed
qed (use assms reap_mgr_mem in \<open>auto simp: sched_wf_def\<close>)

lemma task_index_reap:
  assumes "sched_wf m" and "task_index p m = Some i" and "\<not> detached m (task_at i m)"
  shows "task_index p (reap_mgr m) = Some i" and "task_at i (reap_mgr m) = task_at i m"
proof -
  note ti = task_index_Some [OF assms(2)]
  have nth: "tasks (reap_mgr m) ! i = Some (task_at i m)"
    using ti assms(3) by (simp add: nth_reap_mgr)
  show "task_index p (reap_mgr m) = Some i"
    using reap_mgr_wf [OF assms(1)] ti nth by (intro task_index_eq) (auto simp: sched_wf_def)
  show "task_at i (reap_mgr m) = task_at i m" using nth by (simp add: task_at_def)
qed

lemma idle_not_detached: "sched_wf m \<Longrightarrow> task_index IDLE_PID m = Some i \<Longrightarrow> \<not> detached m (task_at i m)"
  using sched_wf_task_ok task_index_Some [of IDLE_PID m i] sched_wf_length [of m]
  by (fastforce simp: detached_def task_ok_def)

lemma current_not_detached: "current_index m = Some i \<Longrightarrow> \<not> detached m (task_at i m)"
  using task_index_Some by (auto simp: current_index_def detached_def split: option.splits)

lemma current_index_reap:
  assumes "sched_wf m"
  shows "current_index (reap_mgr m) = current_index m"
proof (cases "current_index m")
  case (Some i)
  then obtain p where p: "current_pid m = Some p" "task_index p m = Some i"
    by (auto simp: current_index_def split: option.splits)
  then show ?thesis
    using task_index_reap(1) [OF assms p(2) current_not_detached [OF Some]] Some by (simp add: current_index_def)
next
  case None
  show ?thesis
  proof (cases "current_pid m")
    case (Some p)
    then have "task_index p m = None" using None by (simp add: current_index_def)
    then have "task_index p (reap_mgr m) = None"
      by (auto simp: task_index_None reap_mgr_mem)
    then show ?thesis using Some None by (simp add: current_index_def)
  qed (simp add: current_index_def)
qed

end
