(* ===== verification/Schedule_Spec.thy ===== *)
theory Schedule_Spec
  imports Scheduler_Inv
begin

text \<open>
  \<open>schedule\<close> of \<open>src/kernel/task.rs\<close>: its effect on the task manager (\<open>schedule_mgr\<close>), the
  invariant, the cyclic order in which runnable tasks get the hart, and the bound on the wait of
  a runnable task.
\<close>

section \<open>The effect on the manager\<close>

definition put_back :: "TaskManager \<Rightarrow> TaskManager" where
  "put_back m = (case current_index m of
       None \<Rightarrow> m
     | Some i \<Rightarrow> update_task i (\<lambda>t. if t_state t = Running then t\<lparr>t_state := Ready\<rparr> else t) m)"

definition next_slot :: "nat \<Rightarrow> TaskManager \<Rightarrow> nat option" where
  "next_slot start m = (case List.find (\<lambda>i. ready_user (tasks m ! i)) (scan_order start) of
       Some i \<Rightarrow> Some i
     | None \<Rightarrow> task_index IDLE_PID m)"

definition schedule_mgr :: "TaskManager \<Rightarrow> TaskManager" where
  "schedule_mgr m = (let m2 = put_back (reap_mgr m) in
     case next_slot (scan_start m) m2 of Some i \<Rightarrow> run_task i m2 | None \<Rightarrow> m2)"

lemma save_current_mgr [simp]:
  "mgr (save_current tf s) = put_back (mgr s)" "kernel_pt (save_current tf s) = kernel_pt s"
  "plic_regs (save_current tf s) = plic_regs s"
  by (simp_all add: save_current_def put_back_def split: option.split)

lemma run_task_at: "i < length (tasks m) \<Longrightarrow> tasks m ! i = Some t \<Longrightarrow> task_at i (run_task i m) = t\<lparr>t_state := Running\<rparr>"
  by (simp add: run_task_def task_at_def nth_update_task)

lemma schedule_next:
  "schedule tf s = obind (reap_detached_zombies s) (\<lambda>s1.
     let s2 = save_current tf s1 in
     case next_slot (scan_start (mgr s1)) (mgr s2) of
       Some i \<Rightarrow> Done (t_trap_frame (task_at i (mgr s2)), update_mgr (run_task i) s2)
     | None \<Rightarrow> Done (tf, s2))"
  by (cases "reap_detached_zombies s")
     (auto simp: schedule_def next_slot_def Let_def split: option.split)

lemma scan_start_reap: "sched_wf m \<Longrightarrow> scan_start (reap_mgr m) = scan_start m"
  by (simp add: scan_start_def current_index_reap)

lemma schedule_Done:
  assumes "sched_wf (mgr s)" and "schedule tf s = Done (f, s')"
  shows "mgr s' = schedule_mgr (mgr s)" and "kernel_pt s' = kernel_pt s" and "plic_regs s' = plic_regs s"
    and "f = (case next_slot (scan_start (mgr s)) (put_back (reap_mgr (mgr s))) of
                Some i \<Rightarrow> t_trap_frame (task_at i (put_back (reap_mgr (mgr s)))) | None \<Rightarrow> tf)"
proof -
  obtain s1 where r: "reap_detached_zombies s = Done s1"
    using assms(2) by (auto simp: schedule_def)
  note m1 = reap_mgr [OF r sched_wf_length [OF assms(1)]]
  have "mgr s' = schedule_mgr (mgr s) \<and> kernel_pt s' = kernel_pt s \<and> plic_regs s' = plic_regs s \<and>
    f = (case next_slot (scan_start (mgr s)) (put_back (reap_mgr (mgr s))) of
            Some i \<Rightarrow> t_trap_frame (task_at i (put_back (reap_mgr (mgr s)))) | None \<Rightarrow> tf)"
    using assms(2) m1(2,3) unfolding schedule_next r obind.simps Let_def m1(1) save_current_mgr
      scan_start_reap [OF assms(1)] schedule_mgr_def
    by (cases "next_slot (scan_start (mgr s)) (put_back (reap_mgr (mgr s)))") (auto simp: m1(1))
  then show "mgr s' = schedule_mgr (mgr s)" "kernel_pt s' = kernel_pt s" "plic_regs s' = plic_regs s"
    "f = (case next_slot (scan_start (mgr s)) (put_back (reap_mgr (mgr s))) of
            Some i \<Rightarrow> t_trap_frame (task_at i (put_back (reap_mgr (mgr s)))) | None \<Rightarrow> tf)" by auto
qed

lemma schedule_total:
  assumes "reap_detached_zombies s = Done s1"
  obtains f s' where "schedule tf s = Done (f, s')"
proof -
  have "\<exists>f s'. schedule tf s = Done (f, s')"
    by (simp add: schedule_def assms Let_def split: option.split)
  then show ?thesis using that by blast
qed

section \<open>The invariant\<close>

lemma put_back_simps [simp]:
  "current_pid (put_back m) = current_pid m" "next_pid (put_back m) = next_pid m"
  "runnable_count (put_back m) = runnable_count m" "endpoints (put_back m) = endpoints m"
  "uart_owner (put_back m) = uart_owner m" "length (tasks (put_back m)) = length (tasks m)"
  by (simp_all add: put_back_def split: option.split)

lemma current_index_Some:
  assumes "current_index m = Some i"
  shows "i < length (tasks m)" and "tasks m ! i = Some (task_at i m)" and "current_pid m = Some (t_pid (task_at i m))"
proof -
  obtain p where p: "current_pid m = Some p" "task_index p m = Some i"
    using assms by (auto simp: current_index_def split: option.splits)
  show "i < length (tasks m)" "tasks m ! i = Some (task_at i m)" "current_pid m = Some (t_pid (task_at i m))"
    using task_index_Some [OF p(2)] p(1) by auto
qed

lemma put_back_wf:
  assumes wf: "sched_wf m"
  shows "sched_wf (put_back m)"
proof (cases "current_index m")
  case None
  then show ?thesis using wf by (simp add: put_back_def)
next
  case (Some i)
  note ci = current_index_Some [OF Some]
  let ?f = "\<lambda>t. if t_state t = Running then t\<lparr>t_state := Ready\<rparr> else t"
  have i: "i < MAX_TASKS" using ci(1) wf by (simp add: sched_wf_def)
  have "sched_wf (update_task i ?f m)"
  proof (rule sched_wf_update [OF wf ci(2) i, where f = ?f])
    show "task_ok (current_pid (update_task i ?f m)) (?f (task_at i m))"
      using sched_wf_task_ok [OF wf i ci(2)] by (auto simp: task_ok_def)
  qed (auto simp: runnable_def)
  then show ?thesis using Some by (simp add: put_back_def)
qed

lemma nth_put_back:
  assumes wf: "sched_wf m" and j: "j < MAX_TASKS"
  shows "tasks (put_back m) ! j = map_option (\<lambda>t. if t_state t = Running then t\<lparr>t_state := Ready\<rparr> else t) (tasks m ! j)"
proof (cases "tasks m ! j")
  case None
  then show ?thesis using wf j by (auto simp: put_back_def nth_update_task sched_wf_def split: option.split)
next
  case (Some t)
  show ?thesis
  proof (cases "current_index m = Some j")
    case True
    then show ?thesis using wf j by (simp add: put_back_def nth_update_task sched_wf_def)
  next
    case False
    have "t_state t \<noteq> Running"
    proof
      assume "t_state t = Running"
      then have "current_pid m = Some (t_pid t)"
        using sched_wf_task_ok [OF wf j Some] by (simp add: task_ok_def)
      then have "current_index m = Some j"
        using task_index_eq [of m j t "t_pid t"] wf j Some by (simp add: current_index_def sched_wf_def)
      then show False using False by simp
    qed
    moreover have "tasks (put_back m) ! j = tasks m ! j"
      using False wf j by (auto simp: put_back_def nth_update_task sched_wf_def split: option.split)
    ultimately show ?thesis using Some by simp
  qed
qed

lemma ready_user_put_back:
  assumes "sched_wf m" and "j < MAX_TASKS"
  shows "ready_user (tasks (put_back (reap_mgr m)) ! j) \<longleftrightarrow> is_some_and runnable (tasks m ! j)"
proof -
  have "tasks (reap_mgr m) ! j = (if is_some_and (detached m) (tasks m ! j) then None else tasks m ! j)"
    using assms by (intro nth_reap_mgr) (simp add: sched_wf_def)
  then show ?thesis
    using nth_put_back [OF reap_mgr_wf [OF assms(1)] assms(2)] sched_wf_task_ok [OF assms]
    by (cases "tasks m ! j") (auto simp: ready_user_def runnable_def detached_def task_ok_def)
qed

lemma run_task_simps [simp]:
  "next_pid (run_task i m) = next_pid m" "runnable_count (run_task i m) = runnable_count m"
  "endpoints (run_task i m) = endpoints m" "uart_owner (run_task i m) = uart_owner m"
  "length (tasks (run_task i m)) = length (tasks m)" "tasks (run_task i m) = tasks (update_task i (\<lambda>t. t\<lparr>t_state := Running\<rparr>) m)"
  "current_pid (run_task i m) = Some (t_pid (task_at i m))"
  by (simp_all add: run_task_def)

lemma run_task_wf:
  assumes wf: "sched_wf m" and i: "i < MAX_TASKS" "tasks m ! i = Some t" and st: "t_state t = Ready"
    and none: "\<And>u. Some u \<in> set (tasks m) \<Longrightarrow> t_state u \<noteq> Running"
  shows "sched_wf (run_task i m)" and "current_index (run_task i m) = Some i" and "running (run_task i m)"
proof -
  let ?f = "\<lambda>t. t\<lparr>t_state := Running\<rparr>"
  have t: "task_at i m = t" using i by (simp add: task_at_def)
  show wf': "sched_wf (run_task i m)"
  proof (rule sched_wf_update [OF wf i(2,1), where f = ?f])
    show "task_ok (current_pid (run_task i m)) (?f t)"
      using sched_wf_task_ok [OF wf i] st by (auto simp: task_ok_def t)
    show "task_ok (current_pid (run_task i m)) u" if "Some u \<in> set (tasks m)" "task_ok (current_pid m) u" for u
      using none [OF that(1)] that(2) by (auto simp: task_ok_def)
  qed (use st in \<open>auto simp: runnable_def\<close>)
  have nth: "tasks (run_task i m) ! i = Some (?f t)"
    using i wf by (simp add: nth_update_task sched_wf_def)
  show ci: "current_index (run_task i m) = Some i"
    using task_index_eq [of "run_task i m" i "?f t" "t_pid t"] wf' i nth
    by (simp add: current_index_def sched_wf_def t)
  show "running (run_task i m)"
    using ci nth by (simp add: running_def task_at_def)
qed

lemma put_back_not_running:
  assumes "sched_wf m" and "Some u \<in> set (tasks (put_back m))"
  shows "t_state u \<noteq> Running"
proof -
  obtain j where "j < MAX_TASKS" "tasks (put_back m) ! j = Some u"
    using assms by (auto simp: in_set_conv_nth sched_wf_def)
  then obtain t where "u = (if t_state t = Running then t\<lparr>t_state := Ready\<rparr> else t)"
    using nth_put_back [OF assms(1)] by auto
  then show ?thesis by (simp split: if_splits)
qed

lemma scan_order_find:
  assumes "List.find P (scan_order start) = Some i"
  obtains k where "k < MAX_TASKS" and "i = (start + k) mod MAX_TASKS" and "P i"
    and "\<And>l. l < k \<Longrightarrow> \<not> P ((start + l) mod MAX_TASKS)"
  using assms by (auto simp: find_Some_iff scan_order_def)

lemma scan_order_None:
  assumes "List.find P (scan_order start) = None" and "j < MAX_TASKS"
  shows "\<not> P j"
proof -
  have "(start + (j + MAX_TASKS - start mod MAX_TASKS)) mod MAX_TASKS = (start mod MAX_TASKS + (j + MAX_TASKS - start mod MAX_TASKS)) mod MAX_TASKS"
    by (simp add: mod_add_left_eq)
  also have "start mod MAX_TASKS + (j + MAX_TASKS - start mod MAX_TASKS) = j + MAX_TASKS"
    by (simp add: layout)
  finally have "(start + (j + MAX_TASKS - start mod MAX_TASKS) mod MAX_TASKS) mod MAX_TASKS = j"
    using assms(2) by (simp add: mod_add_right_eq)
  moreover have "(j + MAX_TASKS - start mod MAX_TASKS) mod MAX_TASKS < MAX_TASKS" by (simp add: layout)
  ultimately have "j \<in> set (scan_order start)"
    by (force simp: scan_order_def)
  then show ?thesis using assms(1) by (auto simp: find_None_iff)
qed

section \<open>Who runs next\<close>

text \<open>How long a slot has to wait in the scan after the current slot.\<close>

definition turn :: "TaskManager \<Rightarrow> nat \<Rightarrow> nat" where
  "turn m j = (j + MAX_TASKS - scan_start m) mod MAX_TASKS"

lemma scan_start_less: "length (tasks m) = MAX_TASKS \<Longrightarrow> scan_start m < MAX_TASKS"
  by (auto simp: scan_start_def layout split: option.split)

lemma turn_scan:
  assumes "scan_start m < MAX_TASKS" and "k < MAX_TASKS"
  shows "turn m ((scan_start m + k) mod MAX_TASKS) = k"
  using assms by (auto simp: turn_def layout mod_if)

lemma turn_slot:
  assumes "scan_start m < MAX_TASKS" and "j < MAX_TASKS"
  shows "(scan_start m + turn m j) mod MAX_TASKS = j"
  using assms by (auto simp: turn_def layout mod_if)

lemma turn_less: "turn m j < MAX_TASKS"
  by (simp add: turn_def layout)

definition runnable_slot :: "TaskManager \<Rightarrow> nat \<Rightarrow> bool" where
  "runnable_slot m j \<longleftrightarrow> j < MAX_TASKS \<and> is_some_and runnable (tasks m ! j)"

lemma next_slot_user:
  assumes wf: "sched_wf m" and ex: "runnable_slot m j"
  obtains i where "next_slot (scan_start m) (put_back (reap_mgr m)) = Some i" and "runnable_slot m i"
    and "\<And>l. runnable_slot m l \<Longrightarrow> turn m i \<le> turn m l"
proof -
  let ?P = "\<lambda>i. ready_user (tasks (put_back (reap_mgr m)) ! i)"
  have lt: "scan_start m < MAX_TASKS" using scan_start_less wf by (simp add: sched_wf_def)
  have P: "?P l \<longleftrightarrow> runnable_slot m l" if "l < MAX_TASKS" for l
    using ready_user_put_back [OF wf that] that by (simp add: runnable_slot_def)
  show ?thesis
  proof (cases "List.find ?P (scan_order (scan_start m))")
    case None
    then show ?thesis using scan_order_None [OF None, of j] P [of j] ex by (simp add: runnable_slot_def)
  next
    case (Some i)
    obtain k where k: "k < MAX_TASKS" "i = (scan_start m + k) mod MAX_TASKS" "?P i"
      "\<And>l. l < k \<Longrightarrow> \<not> ?P ((scan_start m + l) mod MAX_TASKS)"
      using scan_order_find [OF Some] by blast
    have i: "i < MAX_TASKS" using k(2) by (simp add: layout)
    show ?thesis
    proof (rule that)
      show "next_slot (scan_start m) (put_back (reap_mgr m)) = Some i" by (simp add: next_slot_def Some)
      show "runnable_slot m i" using P i k(3) by blast
      fix l assume l: "runnable_slot m l"
      have "\<not> turn m l < k"
      proof
        assume "turn m l < k"
        moreover have "l < MAX_TASKS" "?P l" using P l by (auto simp: runnable_slot_def)
        ultimately show False using k(4) [of "turn m l"] turn_slot [OF lt, of l] by simp
      qed
      then show "turn m i \<le> turn m l" using turn_scan [OF lt k(1)] k(2) by simp
    qed
  qed
qed

lemma next_slot_idle:
  assumes wf: "sched_wf m" and none: "\<And>j. \<not> runnable_slot m j"
  shows "next_slot (scan_start m) (put_back (reap_mgr m)) = task_index IDLE_PID (put_back (reap_mgr m))"
proof (cases "List.find (\<lambda>i. ready_user (tasks (put_back (reap_mgr m)) ! i)) (scan_order (scan_start m))")
  case (Some i)
  obtain k where k: "i = (scan_start m + k) mod MAX_TASKS" "ready_user (tasks (put_back (reap_mgr m)) ! i)"
    using scan_order_find [OF Some] by blast
  then have "i < MAX_TASKS" by (simp add: layout)
  then show ?thesis using none [of i] k(2) ready_user_put_back [OF wf, of i] by (simp add: runnable_slot_def)
qed (simp add: next_slot_def)

lemma idle_index_put_back:
  assumes "sched_wf m" and "task_index IDLE_PID m = Some i"
  shows "task_index IDLE_PID (put_back (reap_mgr m)) = Some i"
proof -
  note r = task_index_reap [OF assms idle_not_detached [OF assms]]
  note ti = task_index_Some [OF r(1)]
  have wf: "sched_wf (put_back (reap_mgr m))" by (intro put_back_wf reap_mgr_wf assms)
  have i: "i < MAX_TASKS" using ti(1) assms(1) by (simp add: sched_wf_def)
  have "\<exists>t. tasks (put_back (reap_mgr m)) ! i = Some t \<and> t_pid t = IDLE_PID"
    using nth_put_back [OF reap_mgr_wf [OF assms(1)] i] ti(2,3) by simp
  then show ?thesis using wf i by (auto intro!: task_index_eq simp: sched_wf_def)
qed

text \<open>The slot that runs after \<open>schedule\<close>.\<close>

lemma schedule_mgr_runs:
  assumes wf: "sched_wf m" and idle: "has_idle m"
  obtains i t where "next_slot (scan_start m) (put_back (reap_mgr m)) = Some i" and "i < MAX_TASKS"
    and "tasks (put_back (reap_mgr m)) ! i = Some t" and "t_state t = Ready"
    and "if \<exists>j. runnable_slot m j then runnable_slot m i \<and> (\<forall>j. runnable_slot m j \<longrightarrow> turn m i \<le> turn m j)
         else t_pid t = IDLE_PID"
proof -
  have wf2: "sched_wf (put_back (reap_mgr m))" by (intro put_back_wf reap_mgr_wf wf)
  obtain z where z: "task_index IDLE_PID m = Some z" using idle by (auto simp: has_idle_def)
  note iz = task_index_Some [OF idle_index_put_back [OF wf z]]
  show ?thesis
  proof (cases "\<exists>j. runnable_slot m j")
    case True
    then obtain i where i: "next_slot (scan_start m) (put_back (reap_mgr m)) = Some i" "runnable_slot m i"
      "\<And>l. runnable_slot m l \<Longrightarrow> turn m i \<le> turn m l" using next_slot_user [OF wf] by blast
    then have "ready_user (tasks (put_back (reap_mgr m)) ! i)" "i < MAX_TASKS"
      using ready_user_put_back [OF wf, of i] by (auto simp: runnable_slot_def)
    then show ?thesis using that i True by (auto simp: ready_user_def is_some_and_iff)
  next
    case False
    have zlt: "z < MAX_TASKS" using iz(1) wf2 by (simp add: sched_wf_def)
    have "t_state (task_at z (put_back (reap_mgr m))) = Ready"
      using put_back_not_running [OF reap_mgr_wf [OF wf]] sched_wf_task_ok [OF wf2 zlt iz(2)] iz
      by (metis nth_mem task_ok_def)
    then show ?thesis
      using that [OF _ zlt iz(2)] next_slot_idle [OF wf] idle_index_put_back [OF wf z] False iz(3) by auto
  qed
qed

lemma schedule_mgr_wf:
  assumes wf: "sched_wf m" and idle: "has_idle m"
  shows "sched_wf (schedule_mgr m)" and "running (schedule_mgr m)" and "has_idle (schedule_mgr m)"
proof -
  obtain i t where i: "next_slot (scan_start m) (put_back (reap_mgr m)) = Some i" "i < MAX_TASKS"
    "tasks (put_back (reap_mgr m)) ! i = Some t" "t_state t = Ready"
    using schedule_mgr_runs [OF wf idle] by metis
  have wf2: "sched_wf (put_back (reap_mgr m))" by (intro put_back_wf reap_mgr_wf wf)
  have none: "\<And>u. Some u \<in> set (tasks (put_back (reap_mgr m))) \<Longrightarrow> t_state u \<noteq> Running"
    using put_back_not_running [OF reap_mgr_wf [OF wf]] .
  have eq: "schedule_mgr m = run_task i (put_back (reap_mgr m))" by (simp add: schedule_mgr_def i(1) Let_def)
  show wf3: "sched_wf (schedule_mgr m)" and "running (schedule_mgr m)"
    unfolding eq using run_task_wf [OF wf2 i(2-4) none] by blast+
  obtain z where z: "task_index IDLE_PID m = Some z" using idle by (auto simp: has_idle_def)
  note iz = task_index_Some [OF idle_index_put_back [OF wf z]]
  have "\<exists>u. tasks (schedule_mgr m) ! z = Some u \<and> t_pid u = IDLE_PID"
    using iz by (simp add: eq nth_update_task)
  then show "has_idle (schedule_mgr m)"
    using task_index_eq wf3 iz(1) by (fastforce simp: has_idle_def eq sched_wf_def)
qed

section \<open>Round robin\<close>

lemma schedule_mgr_current:
  assumes "sched_wf m" and "has_idle m"
    and "next_slot (scan_start m) (put_back (reap_mgr m)) = Some i"
  shows "current_index (schedule_mgr m) = Some i"
    and "\<exists>t. tasks (schedule_mgr m) ! i = Some t \<and> t_state t = Running \<and>
           t_trap_frame t = t_trap_frame (task_at i (put_back (reap_mgr m)))"
proof -
  obtain i' t where i: "next_slot (scan_start m) (put_back (reap_mgr m)) = Some i'" "i' < MAX_TASKS"
    "tasks (put_back (reap_mgr m)) ! i' = Some t" "t_state t = Ready"
    using schedule_mgr_runs [OF assms(1,2)] by metis
  have [simp]: "i' = i" using i(1) assms(3) by simp
  have wf2: "sched_wf (put_back (reap_mgr m))" by (intro put_back_wf reap_mgr_wf assms)
  have eq: "schedule_mgr m = run_task i (put_back (reap_mgr m))" by (simp add: schedule_mgr_def assms(3) Let_def)
  show "current_index (schedule_mgr m) = Some i"
    unfolding eq using run_task_wf(2) [OF wf2 i(2-4) put_back_not_running [OF reap_mgr_wf [OF assms(1)]]] by simp
  show "\<exists>t. tasks (schedule_mgr m) ! i = Some t \<and> t_state t = Running \<and>
           t_trap_frame t = t_trap_frame (task_at i (put_back (reap_mgr m)))"
    using i(2,3) wf2 by (simp add: eq nth_update_task task_at_def sched_wf_def)
qed

text \<open>C5: \<open>schedule\<close> keeps the invariant of the task table (unique pids, exact runnable count, at most one
  running task) and leaves exactly the chosen task running: the first runnable user task in cyclic
  slot order after the current one, or the idle task when no user task is runnable; the frame
  it returns is that task's.\<close>

theorem schedule_round_robin:
  assumes "sched_wf (mgr s)" and "has_idle (mgr s)" and "schedule tf s = Done (f, s')"
  shows "sched_wf (mgr s') \<and> has_idle (mgr s') \<and>
         (\<exists>i t. current_index (mgr s') = Some i \<and> tasks (mgr s') ! i = Some t \<and> t_state t = Running \<and>
            f = t_trap_frame t \<and>
            (if \<exists>j. runnable_slot (mgr s) j
             then runnable_slot (mgr s) i \<and> (\<forall>j. runnable_slot (mgr s) j \<longrightarrow> turn (mgr s) i \<le> turn (mgr s) j)
             else t_pid t = IDLE_PID))"
proof -
  note d = schedule_Done [OF assms(1,3)]
  obtain i u where i: "next_slot (scan_start (mgr s)) (put_back (reap_mgr (mgr s))) = Some i" "i < MAX_TASKS"
    "tasks (put_back (reap_mgr (mgr s))) ! i = Some u"
    "if \<exists>j. runnable_slot (mgr s) j then runnable_slot (mgr s) i \<and> (\<forall>j. runnable_slot (mgr s) j \<longrightarrow> turn (mgr s) i \<le> turn (mgr s) j)
     else t_pid u = IDLE_PID"
    using schedule_mgr_runs [OF assms(1,2)] by metis
  note c = schedule_mgr_current [OF assms(1,2) i(1)]
  have wf2: "sched_wf (put_back (reap_mgr (mgr s)))" by (intro put_back_wf reap_mgr_wf assms)
  have "tasks (mgr s') ! i = Some (u\<lparr>t_state := Running\<rparr>)"
    using i(1-3) wf2 by (simp add: d(1) schedule_mgr_def Let_def nth_update_task sched_wf_def)
  then show ?thesis
    using schedule_mgr_wf [OF assms(1,2)] c i d by (auto simp: task_at_def)
qed

section \<open>No starvation\<close>

text \<open>No zombie waits to be reaped.\<close>

definition no_orphan_zombie :: "TaskManager \<Rightarrow> bool" where
  "no_orphan_zombie m \<longleftrightarrow> (\<forall>t. Some t \<in> set (tasks m) \<longrightarrow> t_state t = Zombie \<longrightarrow> t_parent_pid t \<noteq> None)"

lemma no_orphan_same:
  assumes "no_orphan_zombie m" and "\<And>t. Some t \<in> set (tasks m') \<Longrightarrow> t_state t = Zombie \<Longrightarrow> Some t \<in> set (tasks m)"
  shows "no_orphan_zombie m'"
  using assms unfolding no_orphan_zombie_def by blast

lemma no_orphan_update:
  assumes "no_orphan_zombie m" and "tasks m' = tasks (update_task i f m)" and "\<And>t. t_state (f t) \<noteq> Zombie"
  shows "no_orphan_zombie m'"
proof (rule no_orphan_same [OF assms(1)])
  fix t assume t: "Some t \<in> set (tasks m')" "t_state t = Zombie"
  then have "Some t \<in> insert (map_option f (tasks m ! i)) (set (tasks m))"
    unfolding assms(2) update_task_def using set_update_subset_insert by fastforce
  moreover have "Some t \<noteq> map_option f (tasks m ! i)" using assms(3) t(2) by (cases "tasks m ! i") auto
  ultimately show "Some t \<in> set (tasks m)" by blast
qed

lemma reap_none:
  assumes "no_orphan_zombie (mgr s)" and "length (tasks (mgr s)) = MAX_TASKS"
  shows "reap_detached_zombies s = Done s" and "reap_mgr (mgr s) = mgr s"
proof -
  have no: "\<not> is_some_and (detached (mgr s)) (tasks (mgr s) ! i)" if "i < MAX_TASKS" for i
  proof (cases "tasks (mgr s) ! i")
    case (Some t)
    then have "Some t \<in> set (tasks (mgr s))" using that assms(2) nth_mem by metis
    then show ?thesis using assms(1) Some by (auto simp: no_orphan_zombie_def detached_def)
  qed simp
  have "reap_loop is s = Done s" if "set is \<subseteq> {..<MAX_TASKS}" for "is"
    using that by (induction "is") (use no in auto)
  then show "reap_detached_zombies s = Done s" by (simp add: reap_detached_zombies_def atLeast0LessThan)
  have "map (\<lambda>x. if is_some_and (detached (mgr s)) x then None else x) (tasks (mgr s)) = tasks (mgr s)"
    by (rule nth_equalityI) (use no assms(2) in auto)
  then show "reap_mgr (mgr s) = mgr s" by (simp add: reap_mgr_def)
qed

lemma runnable_slot_schedule:
  assumes "sched_wf m" and "has_idle m"
  shows "runnable_slot (schedule_mgr m) j = runnable_slot m j"
proof (cases "j < MAX_TASKS")
  case True
  obtain i t where i: "next_slot (scan_start m) (put_back (reap_mgr m)) = Some i" "i < MAX_TASKS"
    "tasks (put_back (reap_mgr m)) ! i = Some t" "t_state t = Ready"
    using schedule_mgr_runs [OF assms] by metis
  have wf2: "sched_wf (put_back (reap_mgr m))" by (intro put_back_wf reap_mgr_wf assms)
  have "is_some_and runnable (tasks (schedule_mgr m) ! j) \<longleftrightarrow> is_some_and runnable (tasks (put_back (reap_mgr m)) ! j)"
    using i True wf2 by (auto simp: schedule_mgr_def Let_def nth_update_task sched_wf_def runnable_def)
  also have "\<dots> \<longleftrightarrow> ready_user (tasks (put_back (reap_mgr m)) ! j)"
  proof (cases "tasks (put_back (reap_mgr m)) ! j")
    case (Some u)
    have "length (tasks (put_back (reap_mgr m))) = MAX_TASKS" using wf2 by (rule sched_wf_length)
    then have "Some u \<in> set (tasks (put_back (reap_mgr m)))" using True Some nth_mem by metis
    then have "t_state u \<noteq> Running" by (rule put_back_not_running [OF reap_mgr_wf [OF assms(1)]])
    then show ?thesis by (simp add: Some runnable_def ready_user_def)
  qed (simp add: ready_user_def)
  also have "\<dots> \<longleftrightarrow> is_some_and runnable (tasks m ! j)" by (rule ready_user_put_back [OF assms(1) True])
  finally show ?thesis using True by (simp add: runnable_slot_def)
qed (simp add: runnable_slot_def)

lemma no_orphan_schedule:
  assumes wf: "sched_wf m" and z: "no_orphan_zombie m"
  shows "no_orphan_zombie (schedule_mgr m)"
  unfolding no_orphan_zombie_def
proof (intro allI impI)
  fix t assume t: "Some t \<in> set (tasks (schedule_mgr m))" "t_state t = Zombie"
  let ?m2 = "put_back (reap_mgr m)"
  have len: "length (tasks ?m2) = MAX_TASKS" "length (tasks m) = MAX_TASKS" using wf by (simp_all add: sched_wf_def)
  obtain j where j: "j < MAX_TASKS" "tasks (schedule_mgr m) ! j = Some t"
    using t(1) len by (auto simp: in_set_conv_nth schedule_mgr_def Let_def split: option.splits)
  have "tasks ?m2 ! j = Some t"
  proof (cases "next_slot (scan_start m) ?m2")
    case None
    then show ?thesis using j by (simp add: schedule_mgr_def)
  next
    case (Some i)
    then have "(if i = j then map_option (\<lambda>t. t\<lparr>t_state := Running\<rparr>) (tasks ?m2 ! j) else tasks ?m2 ! j) = Some t"
      using j len by (simp add: schedule_mgr_def nth_update_task)
    then show ?thesis using t(2) by (auto split: if_splits)
  qed
  then obtain u where "tasks (reap_mgr m) ! j = Some u" "t = (if t_state u = Running then u\<lparr>t_state := Ready\<rparr> else u)"
    using nth_put_back [OF reap_mgr_wf [OF wf] j(1)] by auto
  then have "tasks (reap_mgr m) ! j = Some t" using t(2) by (simp split: if_splits)
  then have "Some t \<in> set (tasks (reap_mgr m))" using j(1) len by (metis nth_mem reap_mgr_simps(6))
  then have "Some t \<in> set (tasks m)" by (simp add: reap_mgr_mem)
  then show "t_parent_pid t \<noteq> None" using z t(2) by (simp add: no_orphan_zombie_def)
qed

lemma turn_after:
  assumes lt: "scan_start m < MAX_TASKS" and i: "i < MAX_TASKS" and j: "j < MAX_TASKS" and less: "turn m i < turn m j"
    and start: "scan_start m' = (i + 1) mod MAX_TASKS"
  shows "turn m' j = turn m j - turn m i - 1"
proof -
  have "scan_start m' = (scan_start m + turn m i + 1) mod MAX_TASKS"
    using turn_slot [OF lt i] start by (metis mod_add_left_eq)
  then have "(scan_start m' + (turn m j - turn m i - 1)) mod MAX_TASKS =
        (scan_start m + turn m i + 1 + (turn m j - turn m i - 1)) mod MAX_TASKS"
    by (simp add: mod_add_left_eq)
  also have "\<dots> = j" using turn_slot [OF lt j] less by simp
  finally have "j = (scan_start m' + (turn m j - turn m i - 1)) mod MAX_TASKS" by simp
  moreover have "scan_start m' < MAX_TASKS" by (simp add: start layout)
  moreover have "turn m j - turn m i - 1 < MAX_TASKS" using turn_less [of m j] by linarith
  ultimately show ?thesis using turn_scan by metis
qed

text \<open>A run in which every trap is a yield or a timer tick.\<close>

fun yields :: "nat \<Rightarrow> usize \<Rightarrow> kstate \<Rightarrow> (usize \<times> kstate) outcome" where
  "yields 0 tf s = Done (tf, s)"
| "yields (Suc n) tf s = obind (schedule tf s) (\<lambda>(f, s'). yields n f s')"

lemma yields_reach:
  assumes "sched_wf (mgr s)" and "has_idle (mgr s)" and "no_orphan_zombie (mgr s)" and "runnable_slot (mgr s) j"
  shows "\<exists>n f s'. 0 < n \<and> n \<le> Suc (turn (mgr s) j) \<and> yields n tf s = Done (f, s') \<and> current_index (mgr s') = Some j \<and>
           running (mgr s') \<and> f = t_trap_frame (task_at j (mgr s'))"
  using assms
proof (induction "turn (mgr s) j" arbitrary: s tf rule: less_induct)
  case less
  have len: "length (tasks (mgr s)) = MAX_TASKS" using less.prems(1) by (rule sched_wf_length)
  obtain f s1 where sch: "schedule tf s = Done (f, s1)"
    using schedule_total [OF reap_none(1) [OF less.prems(3) len]] .
  note d = schedule_Done [OF less.prems(1) sch]
  obtain i t where i: "next_slot (scan_start (mgr s)) (put_back (reap_mgr (mgr s))) = Some i" "i < MAX_TASKS"
    "runnable_slot (mgr s) i" "turn (mgr s) i \<le> turn (mgr s) j"
    using schedule_mgr_runs [OF less.prems(1,2)] less.prems(4) by metis
  note c = schedule_mgr_current [OF less.prems(1,2) i(1)]
  note wf1 = schedule_mgr_wf [OF less.prems(1,2)]
  have j: "j < MAX_TASKS" using less.prems(4) by (simp add: runnable_slot_def)
  have lt: "scan_start (mgr s) < MAX_TASKS" using scan_start_less [OF len] .
  show ?case
  proof (cases "i = j")
    case True
    have "f = t_trap_frame (task_at j (mgr s1))" using c(2) d(1,4) i(1) True by (auto simp: task_at_def)
    then show ?thesis
      using sch c(1) d(1) wf1(2) True by (intro exI [of _ 1] exI [of _ f] exI [of _ s1]) auto
  next
    case False
    have "turn (mgr s) i \<noteq> turn (mgr s) j" using False turn_slot [OF lt] i(2) j by metis
    then have less': "turn (mgr s) i < turn (mgr s) j" using i(4) by simp
    have "scan_start (mgr s1) = (i + 1) mod MAX_TASKS" using c(1) d(1) by (simp add: scan_start_def)
    from turn_after [OF lt i(2) j less' this] have t1: "turn (mgr s1) j = turn (mgr s) j - turn (mgr s) i - 1" .
    then have "turn (mgr s1) j < turn (mgr s) j" using less' by simp
    moreover have "runnable_slot (mgr s1) j" using runnable_slot_schedule [OF less.prems(1,2)] less.prems(4) d(1) by simp
    moreover have "no_orphan_zombie (mgr s1)" using no_orphan_schedule [OF less.prems(1,3)] d(1) by simp
    ultimately obtain n f' s' where n: "0 < n" "n \<le> Suc (turn (mgr s1) j)" "yields n f s1 = Done (f', s')"
      "current_index (mgr s') = Some j" "running (mgr s')" "f' = t_trap_frame (task_at j (mgr s'))"
      using less.hyps [of s1 f] wf1 d(1) by metis
    then show ?thesis
      using sch t1 less' by (intro exI [of _ "Suc n"] exI [of _ f'] exI [of _ s']) auto
  qed
qed

text \<open>C6: No runnable user task starves: from any state with an idle task and no zombie left to reap,
  it has the hart after at most sixteen calls of \<open>schedule\<close>, all of which return.\<close>

theorem schedule_no_starvation:
  assumes "sched_wf (mgr s)" and "has_idle (mgr s)" and "no_orphan_zombie (mgr s)" and "runnable_slot (mgr s) j"
  shows "\<exists>n f s'. 0 < n \<and> n \<le> MAX_TASKS \<and> yields n tf s = Done (f, s') \<and>
           current_index (mgr s') = Some j \<and> running (mgr s') \<and> f = t_trap_frame (task_at j (mgr s'))"
proof -
  have "Suc (turn (mgr s) j) \<le> MAX_TASKS" using turn_less [of "mgr s" j] by simp
  then show ?thesis using yields_reach [OF assms, of tf] by (meson le_trans)
qed

section \<open>A sample state\<close>

text \<open>Executable forms of the invariant, for concrete states.\<close>

lemma unique_distinct:
  "(\<forall>i < length xs. \<forall>j < length xs. \<forall>t u. xs ! i = Some t \<longrightarrow> xs ! j = Some u \<longrightarrow> f t = f u \<longrightarrow> i = j) \<longleftrightarrow>
   distinct (List.map_filter (map_option f) xs)" (is "?U xs \<longleftrightarrow> _")
proof (induction xs)
  case Nil
  then show ?case by (simp add: map_filter_simps)
next
  case (Cons x xs)
  have split: "?U (x # xs) \<longleftrightarrow> ?U xs \<and> (\<forall>t. x = Some t \<longrightarrow> (\<forall>u. Some u \<in> set xs \<longrightarrow> f t \<noteq> f u))"
  proof (intro iffI conjI allI impI)
    assume u: "?U (x # xs)"
    fix t v assume x: "x = Some t" and "Some v \<in> set xs"
    then obtain n where "n < length xs" "xs ! n = Some v" by (auto simp: in_set_conv_nth)
    then have n: "Suc n < length (x # xs)" "(x # xs) ! Suc n = Some v" by simp_all
    have "f t = f v \<Longrightarrow> 0 = Suc n" by (rule u [rule_format, of 0 "Suc n" t v]) (use n x in simp_all)
    then show "f t \<noteq> f v" by blast
  next
    fix i j t v assume u: "?U (x # xs)" and h: "i < length xs" "j < length xs" "xs ! i = Some t" "xs ! j = Some v" "f t = f v"
    have "Suc i = Suc j" by (rule u [rule_format, of "Suc i" "Suc j" t v]) (use h in simp_all)
    then show "i = j" by simp
  next
    fix i j t v assume h: "?U xs \<and> (\<forall>t. x = Some t \<longrightarrow> (\<forall>u. Some u \<in> set xs \<longrightarrow> f t \<noteq> f u))"
      "i < length (x # xs)" "j < length (x # xs)" "(x # xs) ! i = Some t" "(x # xs) ! j = Some v" "f t = f v"
    have no: False if "x = Some a" "n < length xs" "xs ! n = Some b" "f a = f b" for a b n
      using h(1) that nth_mem [OF that(2)] by metis
    show "i = j"
    proof (cases i)
      case 0
      then show ?thesis using h no [of t "j - 1" v] by (cases j) simp_all
    next
      case (Suc i')
      show ?thesis
      proof (cases j)
        case 0
        then show ?thesis using h no [of v i' t] Suc by simp
      next
        case (Suc j')
        have "i' = j'" by (rule h(1) [THEN conjunct1, rule_format, of i' j' t v]) (use h \<open>i = Suc i'\<close> Suc in simp_all)
        then show ?thesis using \<open>i = Suc i'\<close> Suc by simp
      qed
    qed
  qed
  have "distinct (List.map_filter (map_option f) (x # xs)) \<longleftrightarrow>
        distinct (List.map_filter (map_option f) xs) \<and> (\<forall>t. x = Some t \<longrightarrow> (\<forall>u. Some u \<in> set xs \<longrightarrow> f t \<noteq> f u))"
    by (cases x) (auto simp: map_filter_simps map_filter_def image_iff)
  then show ?case using split Cons.IH by simp
qed

lemma pids_unique_code [code]:
  "pids_unique m \<longleftrightarrow> distinct (List.map_filter (map_option t_pid) (tasks m))"
  unfolding pids_unique_def by (rule unique_distinct)

lemma sched_wf_code [code]:
  "sched_wf m \<longleftrightarrow> length (tasks m) = MAX_TASKS \<and> pids_unique m \<and>
     runnable_count m = of_nat (count_tasks runnable m) \<and>
     list_all (\<lambda>x. case x of None \<Rightarrow> True | Some t \<Rightarrow> task_ok (current_pid m) t) (tasks m)"
  by (auto simp: sched_wf_def list_all_iff split: option.splits)

lemma no_orphan_zombie_code [code]:
  "no_orphan_zombie m \<longleftrightarrow>
     list_all (\<lambda>x. case x of None \<Rightarrow> True | Some t \<Rightarrow> t_state t = Zombie \<longrightarrow> t_parent_pid t \<noteq> None) (tasks m)"
  by (auto simp: no_orphan_zombie_def list_all_iff split: option.splits)

definition mk_task :: "u32 \<Rightarrow> TaskState \<Rightarrow> usize \<Rightarrow> u32 option \<Rightarrow> WaitChannel option \<Rightarrow> Task" where
  "mk_task p st f par w = \<lparr>t_pid = p, t_state = st, t_trap_frame = f, t_kernel_stack = 0, t_user_stack = 0,
     t_entry = 0x10000, t_pagetable = 0x80400000, t_exit_code = 0, t_image_base = 0x10000, t_image_size = 0,
     t_heap_base = 0x10000, t_heap_end = 0x10000, t_parent_pid = par, t_waiting_for = w\<rparr>"

text \<open>The idle task, the running task 1, and task 2, ready.\<close>

definition manager3 :: TaskManager where
  "manager3 = task_manager_new\<lparr>current_pid := Some 1,
     tasks := [Some (mk_task 0 Ready 0x1000 None None), Some (mk_task 1 Running 0x2000 None None),
               Some (mk_task 2 Ready 0x3000 (Some 1) None)] @ replicate 13 None,
     next_pid := 3, runnable_count := 2\<rparr>"

definition kernel3 :: kstate where
  "kernel3 = \<lparr>mem = machine1, mgr = manager3, kernel_pt = Some 0x80400000, plic_regs = \<lambda>_. 0\<rparr>"

lemma kernel3_mgr: "mgr kernel3 = manager3"
  by (simp add: kernel3_def)

lemma kernel3_wf: "sched_wf (mgr kernel3)" "has_idle (mgr kernel3)" "no_orphan_zombie (mgr kernel3)"
  by code_simp+

lemma kernel3_schedule: "\<exists>s'. schedule 0x2000 kernel3 = Done (0x3000, s')"
proof -
  obtain f s' where s: "schedule 0x2000 kernel3 = Done (f, s')"
    using schedule_total [OF reap_none(1) [OF kernel3_wf(3)]] kernel3_wf(1) by (metis sched_wf_length)
  have "f = (case next_slot (scan_start manager3) (put_back (reap_mgr manager3)) of
               Some i \<Rightarrow> t_trap_frame (task_at i (put_back (reap_mgr manager3))) | None \<Rightarrow> 0x2000)"
    using schedule_Done(4) [OF kernel3_wf(1) s] unfolding kernel3_mgr .
  also have "\<dots> = 0x3000" by code_simp
  finally show ?thesis using s by blast
qed

theorem schedule_round_robin_witness:
  "\<exists>s'. schedule 0x2000 kernel3 = Done (0x3000, s') \<and> sched_wf (mgr s')"
proof -
  obtain s' where "schedule 0x2000 kernel3 = Done (0x3000, s')" using kernel3_schedule by blast
  then show ?thesis using schedule_round_robin [OF kernel3_wf(1,2)] by blast
qed

theorem schedule_no_starvation_witness:
  "\<exists>n f s'. n \<le> MAX_TASKS \<and> yields n 0x2000 kernel3 = Done (f, s') \<and> current_index (mgr s') = Some 2"
proof -
  have "runnable_slot (mgr kernel3) 2" by code_simp
  then show ?thesis using schedule_no_starvation [OF kernel3_wf] by blast
qed

end
