(* ===== verification/Task_Lifecycle.thy ===== *)
theory Task_Lifecycle
  imports Schedule_Spec
begin

text \<open>
  Blocking, waking, exit and \<open>waitpid\<close> of \<open>src/kernel/task.rs\<close>: each keeps the invariant of the
  task table, and an exit status reaches the parent exactly once, whether the child exits
  before or after the parent waits.
\<close>

section \<open>Invariant of the building blocks\<close>

lemma sched_wf_other [simp]:
  "sched_wf (m\<lparr>endpoints := es\<rparr>) = sched_wf m" "sched_wf (m\<lparr>uart_owner := o'\<rparr>) = sched_wf m"
  "sched_wf (m\<lparr>next_pid := n\<rparr>) = sched_wf m"
  by (simp_all add: sched_wf_def pids_unique_def count_tasks_def)

lemma has_idle_other [simp]:
  "has_idle (m\<lparr>endpoints := es\<rparr>) = has_idle m" "has_idle (m\<lparr>current_pid := c\<rparr>) = has_idle m"
  by (simp_all add: has_idle_def task_index_def)

lemma sched_wf_map:
  assumes wf: "sched_wf m" and tk: "tasks m' = map (map_option f) (tasks m)"
    and f: "\<And>t. t_pid (f t) = t_pid t \<and> t_state (f t) = t_state t \<and> t_waiting_for (f t) = t_waiting_for t"
    and same: "runnable_count m' = runnable_count m" "current_pid m' = current_pid m"
  shows "sched_wf m'"
  unfolding sched_wf_def
proof (intro conjI allI impI)
  show "length (tasks m') = MAX_TASKS" using wf by (simp add: tk sched_wf_def)
  have "List.map_filter (map_option t_pid) (map (map_option f) xs) = List.map_filter (map_option t_pid) xs" for xs
    by (induction xs) (auto simp: map_filter_simps f split: option.split)
  then show "pids_unique m'" using wf by (simp add: pids_unique_code tk sched_wf_def)
  have "count_tasks runnable m' = count_tasks runnable m"
    by (rule count_map [where f = "map_option f"]) (use f in \<open>auto simp: runnable_def tk\<close>)
  then show "runnable_count m' = of_nat (count_tasks runnable m')" using wf same by (simp add: sched_wf_def)
  fix t assume "Some t \<in> set (tasks m')"
  then obtain x where x: "x \<in> set (tasks m)" "Some t = map_option f x" by (auto simp: tk)
  obtain u where "x = Some u" "t = f u" using x(2) by (cases x) auto
  with x(1) have u: "Some u \<in> set (tasks m)" "t = f u" by simp_all
  from u show "task_ok (current_pid m') t" using wf f [of u] same by (auto simp: sched_wf_def task_ok_def)
qed

lemma wake_task_wf:
  assumes wf: "sched_wf m" and i: "i < MAX_TASKS" "tasks m ! i = Some t" and st: "t_state t = Sleeping"
  shows "sched_wf (wake_task i m)"
proof (rule sched_wf_update [OF wf i(2,1)])
  have ok: "task_ok (current_pid m) t" by (rule sched_wf_task_ok [OF wf i])
  show "task_ok (current_pid (wake_task i m)) (t\<lparr>t_state := Ready, t_waiting_for := None\<rparr>)"
    by (simp add: task_ok_def)
  show "runnable_count (wake_task i m) + of_bool (runnable t) =
        runnable_count m + of_bool (runnable (t\<lparr>t_state := Ready, t_waiting_for := None\<rparr>))"
    using st ok by (simp add: wake_task_def runnable_def task_ok_def)
qed (auto simp: wake_task_def)

lemma wake_task_simps [simp]:
  "current_pid (wake_task i m) = current_pid m" "next_pid (wake_task i m) = next_pid m"
  "endpoints (wake_task i m) = endpoints m" "uart_owner (wake_task i m) = uart_owner m"
  "tasks (wake_task i m) = tasks (update_task i (\<lambda>t. t\<lparr>t_state := Ready, t_waiting_for := None\<rparr>) m)"
  by (simp_all add: wake_task_def)

definition sleep_mgr :: "nat \<Rightarrow> WaitChannel \<Rightarrow> TaskManager \<Rightarrow> TaskManager" where
  "sleep_mgr i ch m = (update_task i (\<lambda>t. t\<lparr>t_state := Sleeping, t_waiting_for := Some ch\<rparr>) m)
     \<lparr>runnable_count := saturating_sub (runnable_count m) 1\<rparr>"

lemma sleep_task_mgr [simp]:
  "mgr (sleep_task i ch tf s) = sleep_mgr i ch (mgr s)" "kernel_pt (sleep_task i ch tf s) = kernel_pt s"
  "plic_regs (sleep_task i ch tf s) = plic_regs s"
  by (simp_all add: sleep_task_def sleep_mgr_def)

lemma sleep_mgr_simps [simp]:
  "current_pid (sleep_mgr i ch m) = current_pid m" "next_pid (sleep_mgr i ch m) = next_pid m"
  "endpoints (sleep_mgr i ch m) = endpoints m" "uart_owner (sleep_mgr i ch m) = uart_owner m"
  "tasks (sleep_mgr i ch m) = tasks (update_task i (\<lambda>t. t\<lparr>t_state := Sleeping, t_waiting_for := Some ch\<rparr>) m)"
  by (simp_all add: sleep_mgr_def)

lemma runnable_count_pos:
  assumes wf: "sched_wf m" and i: "i < MAX_TASKS" "tasks m ! i = Some t" and r: "runnable t"
  shows "1 \<le> runnable_count m"
proof -
  have len: "length (tasks m) = MAX_TASKS" using wf by (rule sched_wf_length)
  have "Some t \<in> set (tasks m)" using i len nth_mem by metis
  then have "Some t \<in> set (filter (is_some_and runnable) (tasks m))" using r by simp
  then have "0 < count_tasks runnable m" unfolding count_tasks_def by (rule length_pos_if_in_set)
  moreover have "count_tasks runnable m < 2 ^ 32"
    using count_tasks_le [of runnable m] len by (simp add: layout)
  ultimately have "(of_nat (count_tasks runnable m) :: u32) \<noteq> 0"
    by (simp add: word_of_nat_eq_0_iff dvd_def) (metis mult_0_right mult_le_cancel2 leD le_refl nat_dvd_not_less dvd_triv_left less_numeral_extra(3) not_gr0)
  then show ?thesis using wf by (simp add: sched_wf_def word_le_nat_alt unat_gt_0 Suc_le_eq)
qed

lemma sleep_mgr_wf:
  assumes wf: "sched_wf m" and i: "i < MAX_TASKS" "tasks m ! i = Some t" and r: "runnable t"
  shows "sched_wf (sleep_mgr i ch m)"
proof (rule sched_wf_update [OF wf i(2,1)])
  show "task_ok (current_pid (sleep_mgr i ch m)) (t\<lparr>t_state := Sleeping, t_waiting_for := Some ch\<rparr>)"
    using r by (simp add: task_ok_def runnable_def)
  show "runnable_count (sleep_mgr i ch m) + of_bool (runnable t) =
        runnable_count m + of_bool (runnable (t\<lparr>t_state := Sleeping, t_waiting_for := Some ch\<rparr>))"
    using runnable_count_pos [OF wf i r] r by (simp add: sleep_mgr_def saturating_sub_def runnable_def)
qed (auto simp: sleep_mgr_def)

lemma has_idle_iff: "has_idle m \<longleftrightarrow> (\<exists>t. Some t \<in> set (tasks m) \<and> t_pid t = IDLE_PID)"
  by (auto simp: has_idle_def task_index_None)

lemma has_idle_update:
  assumes "\<And>t. t_pid (f t) = t_pid t"
  shows "has_idle (update_task i f m) = has_idle m"
proof -
  have "has_pid IDLE_PID (tasks (update_task i f m) ! j) = has_pid IDLE_PID (tasks m ! j)" if "j < length (tasks m)" for j
    using that assms by (auto simp: nth_update_task has_pid_iff)
  then have "task_index IDLE_PID (update_task i f m) = task_index IDLE_PID m"
    unfolding task_index_def by (intro position_cong) auto
  then show ?thesis by (simp add: has_idle_def)
qed

lemma has_idle_cong: "tasks m = tasks m' \<Longrightarrow> has_idle m = has_idle m'"
  by (simp add: has_idle_def task_index_def)

lemma has_idle_steps [simp]:
  "has_idle (wake_task i m) = has_idle m" "has_idle (sleep_mgr i ch m) = has_idle m"
  "has_idle (run_task i m) = has_idle m"
  using has_idle_cong [OF wake_task_simps(5)] has_idle_cong [OF sleep_mgr_simps(5)] has_idle_cong [OF run_task_simps(6)]
  by (simp_all add: has_idle_update)

lemma current_task:
  assumes "sched_wf m" and "current_index m = Some i"
  shows "i < MAX_TASKS" and "tasks m ! i = Some (task_at i m)" and "current_pid m = Some (t_pid (task_at i m))"
  using current_index_Some [OF assms(2)] assms(1) by (auto simp: sched_wf_def)

lemma current_runnable:
  assumes "running m" and "current_index m = Some i" and "current_pid m \<noteq> Some IDLE_PID"
  shows "runnable (task_at i m)"
proof -
  have "t_state (task_at i m) = Running" using assms(1,2) by (auto simp: running_def)
  then show ?thesis using current_index_Some(3) [OF assms(2)] assms(3) by (simp add: runnable_def)
qed

text \<open>A task that blocks: the invariant holds again after \<open>schedule\<close> has chosen the next one.\<close>

lemma block_and_schedule:
  assumes wf: "sched_wf (mgr s)" "has_idle (mgr s)" "running (mgr s)" and ci: "current_index (mgr s) = Some i"
    and nid: "current_pid (mgr s) \<noteq> Some IDLE_PID"
    and m1: "mgr s1 = (sleep_mgr i ch (mgr s))\<lparr>endpoints := es\<rparr>" and sch: "schedule tf s1 = Done (f, s')"
  shows "sched_wf (mgr s')" and "has_idle (mgr s')" and "running (mgr s')" and "endpoints (mgr s') = es"
    and "mgr s' = schedule_mgr ((sleep_mgr i ch (mgr s))\<lparr>endpoints := es\<rparr>)"
proof -
  note ct = current_task [OF wf(1) ci]
  have "sched_wf (sleep_mgr i ch (mgr s))"
    by (rule sleep_mgr_wf [OF wf(1) ct(1,2) current_runnable [OF wf(3) ci nid]])
  then have wf1: "sched_wf (mgr s1)" by (simp add: m1)
  have id1: "has_idle (mgr s1)" using wf(2) by (simp add: m1)
  note d = schedule_Done [OF wf1 sch]
  show "sched_wf (mgr s')" "has_idle (mgr s')" "running (mgr s')"
    using schedule_mgr_wf [OF wf1 id1] d(1) by auto
  show "mgr s' = schedule_mgr ((sleep_mgr i ch (mgr s))\<lparr>endpoints := es\<rparr>)" using d(1) m1 by simp
  then show "endpoints (mgr s') = es" by (simp add: schedule_mgr_def Let_def split: option.split)
qed

section \<open>Exit\<close>

lemma no_running:
  assumes wf: "sched_wf m" and ci: "current_index m = Some i" and st: "t_state (task_at i m) \<noteq> Running"
    and u: "Some u \<in> set (tasks m)"
  shows "t_state u \<noteq> Running"
proof
  assume r: "t_state u = Running"
  obtain j where j: "j < length (tasks m)" "tasks m ! j = Some u" using u by (auto simp: in_set_conv_nth)
  have "task_ok (current_pid m) u" using wf u by (simp add: sched_wf_def)
  then have "current_pid m = Some (t_pid u)" using r by (simp add: task_ok_def)
  then have "current_index m = Some j"
    using task_index_eq [of m j u "t_pid u"] wf j by (simp add: current_index_def sched_wf_def)
  then show False using ci st r j by (simp add: task_at_def)
qed

lemma drop_current_wf:
  assumes "sched_wf m" and "\<And>u. Some u \<in> set (tasks m) \<Longrightarrow> t_state u \<noteq> Running"
  shows "sched_wf (m\<lparr>current_pid := None\<rparr>)"
  using assms by (auto simp: sched_wf_def pids_unique_def count_tasks_def task_ok_def)

text \<open>The task table after the first part of \<open>exit_current\<close>: the task is a zombie, its children are
  orphans, the counter is one less.\<close>

definition orphan :: "u32 \<Rightarrow> Task \<Rightarrow> Task" where
  "orphan pid t = (if t_parent_pid t = Some pid then t\<lparr>t_parent_pid := None\<rparr> else t)"

lemma orphan_simps [simp]:
  "t_pid (orphan p t) = t_pid t" "t_state (orphan p t) = t_state t" "t_waiting_for (orphan p t) = t_waiting_for t"
  "t_trap_frame (orphan p t) = t_trap_frame t" "t_exit_code (orphan p t) = t_exit_code t"
  by (simp_all add: orphan_def)

definition zombie_mgr :: "nat \<Rightarrow> u32 \<Rightarrow> TaskManager \<Rightarrow> TaskManager" where
  "zombie_mgr i code m =
     orphan_children (t_pid (task_at i m)) (update_task i (\<lambda>t. t\<lparr>t_state := Zombie, t_exit_code := code\<rparr>) m)"

lemma zombie_mgr_simps [simp]:
  "current_pid (zombie_mgr i code m) = current_pid m" "length (tasks (zombie_mgr i code m)) = length (tasks m)"
  "endpoints (zombie_mgr i code m) = endpoints m" "next_pid (zombie_mgr i code m) = next_pid m"
  by (simp_all add: zombie_mgr_def orphan_children_def)

lemma nth_zombie_mgr:
  "j < length (tasks m) \<Longrightarrow> tasks (zombie_mgr i code m) ! j =
     map_option (\<lambda>t. orphan (t_pid (task_at i m)) (if i = j then t\<lparr>t_state := Zombie, t_exit_code := code\<rparr> else t)) (tasks m ! j)"
  by (cases "tasks m ! j") (simp_all add: zombie_mgr_def orphan_children_def nth_update_task orphan_def)

lemma zombie_mgr_wf:
  assumes wf: "sched_wf m" "running m" and ci: "current_index m = Some i" and nid: "current_pid m \<noteq> Some IDLE_PID"
  shows "sched_wf (zombie_mgr i code m)" and "current_index (zombie_mgr i code m) = Some i"
    and "\<And>u. Some u \<in> set (tasks (zombie_mgr i code m)) \<Longrightarrow> t_state u \<noteq> Running"
proof -
  note ct = current_task [OF wf(1) ci]
  let ?f = "\<lambda>t. t\<lparr>t_state := Zombie, t_exit_code := code\<rparr>"
  let ?m1 = "(update_task i ?f m)\<lparr>runnable_count := runnable_count m - 1\<rparr>"
  have r: "runnable (task_at i m)" by (rule current_runnable [OF wf(2) ci nid])
  have ok: "task_ok (current_pid m) (task_at i m)" by (rule sched_wf_task_ok [OF wf(1) ct(1,2)])
  have "sched_wf ?m1"
  proof (rule sched_wf_update [OF wf(1) ct(2,1), where f = ?f])
    show "task_ok (current_pid ?m1) (?f (task_at i m))"
      using ok r by (auto simp: task_ok_def runnable_def)
  qed (use r in \<open>auto simp: runnable_def\<close>)
  then show wf1: "sched_wf (zombie_mgr i code m)"
  proof (rule sched_wf_map [where f = "orphan (t_pid (task_at i m))"])
    show "tasks (zombie_mgr i code m) = map (map_option (orphan (t_pid (task_at i m)))) (tasks ?m1)"
      by (simp add: zombie_mgr_def orphan_children_def orphan_def [abs_def])
  qed (simp_all add: zombie_mgr_def orphan_children_def)
  have nth: "\<exists>z. tasks (zombie_mgr i code m) ! i = Some z \<and> t_pid z = t_pid (task_at i m) \<and> t_state z = Zombie"
    using ct wf(1) by (simp add: nth_zombie_mgr sched_wf_def)
  then show ci1: "current_index (zombie_mgr i code m) = Some i"
    using task_index_eq [of "zombie_mgr i code m" i] wf1 ct by (auto simp: current_index_def sched_wf_def)
  show "t_state u \<noteq> Running" if "Some u \<in> set (tasks (zombie_mgr i code m))" for u
    by (rule no_running [OF wf1 ci1 _ that]) (use nth in \<open>auto simp: task_at_def\<close>)
qed

lemma has_idle_zombie [simp]: "has_idle (zombie_mgr i code m) = has_idle m"
proof -
  have "has_pid IDLE_PID (tasks (zombie_mgr i code m) ! j) = has_pid IDLE_PID (tasks m ! j)" if "j < length (tasks m)" for j
    by (cases "tasks m ! j") (simp_all add: nth_zombie_mgr that)
  then have "task_index IDLE_PID (zombie_mgr i code m) = task_index IDLE_PID m"
    unfolding task_index_def by (intro position_cong) auto
  then show ?thesis by (simp add: has_idle_def)
qed

text \<open>Telling the parent.\<close>

definition parent_waits :: "u32 \<Rightarrow> u32 \<Rightarrow> TaskManager \<Rightarrow> nat \<Rightarrow> bool" where
  "parent_waits child parent m j \<longleftrightarrow> task_index parent m = Some j \<and>
     t_state (task_at j m) = Sleeping \<and> t_waiting_for (task_at j m) = Some (Child child)"

definition detach :: "u32 \<Rightarrow> TaskManager \<Rightarrow> TaskManager" where
  "detach c m = (case task_index c m of None \<Rightarrow> m | Some i \<Rightarrow> update_task i (\<lambda>t. t\<lparr>t_parent_pid := None\<rparr>) m)"

lemma notify_parent_cases:
  obtains (nobody) "notify_parent c p code s = s" and "\<And>j. \<not> parent_waits c p (mgr s) j"
  | (woken) j where "parent_waits c p (mgr s) j"
      and "mgr (notify_parent c p code s) = detach c (wake_task j (mgr s))"
      and "mem (notify_parent c p code s) = mem (store_frame (t_trap_frame (task_at j (mgr s)))
             ((load_frame (t_trap_frame (task_at j (mgr s))) s)\<lparr>tf_a0 := scast code\<rparr>) s)"
      and "kernel_pt (notify_parent c p code s) = kernel_pt s" and "plic_regs (notify_parent c p code s) = plic_regs s"
proof (cases "\<exists>j. parent_waits c p (mgr s) j")
  case False
  then have "notify_parent c p code s = s"
    by (auto simp: notify_parent_def parent_waits_def Let_def split: option.split)
  then show ?thesis using nobody False by blast
next
  case True
  then obtain j where j: "parent_waits c p (mgr s) j" by blast
  then show ?thesis
    by (intro woken [OF j])
       (auto simp: notify_parent_def parent_waits_def Let_def detach_def update_mgr_def split: option.split)
qed

lemma detach_wf: "sched_wf m \<Longrightarrow> sched_wf (detach c m)"
proof (cases "task_index c m")
  case (Some i)
  assume wf: "sched_wf m"
  note ti = task_index_Some [OF Some]
  have "i < MAX_TASKS" using ti wf by (simp add: sched_wf_def)
  then have "sched_wf (update_task i (\<lambda>t. t\<lparr>t_parent_pid := None\<rparr>) m)"
    using sched_wf_task_ok [OF wf _ ti(2)]
    by (intro sched_wf_update [OF wf ti(2), where f = "\<lambda>t. t\<lparr>t_parent_pid := None\<rparr>"])
       (auto simp: runnable_def task_ok_def)
  then show ?thesis by (simp add: detach_def Some)
qed (simp add: detach_def)

lemma detach_simps [simp]:
  "current_pid (detach c m) = current_pid m" "length (tasks (detach c m)) = length (tasks m)" "endpoints (detach c m) = endpoints m"
  "has_idle (detach c m) = has_idle m"
  by (simp_all add: detach_def has_idle_update split: option.split)

lemma nth_detach:
  assumes "sched_wf m" and "j < MAX_TASKS"
  shows "tasks (detach c m) ! j = map_option (\<lambda>t. if t_pid t = c then t\<lparr>t_parent_pid := None\<rparr> else t) (tasks m ! j)"
proof (cases "tasks m ! j")
  case None
  then show ?thesis using assms by (auto simp: detach_def nth_update_task sched_wf_def split: option.split)
next
  case (Some t)
  have len: "length (tasks m) = MAX_TASKS" using assms(1) by (rule sched_wf_length)
  show ?thesis
  proof (cases "t_pid t = c")
    case True
    then have "task_index c m = Some j"
      using task_index_eq [of m j t c] assms Some len by (simp add: sched_wf_def)
    then show ?thesis using True Some assms len by (simp add: detach_def nth_update_task)
  next
    case False
    have "tasks (detach c m) ! j = Some t"
    proof (cases "task_index c m")
      case (Some k)
      have "k \<noteq> j" using task_index_Some(2,3) [OF Some] \<open>tasks m ! j = Some t\<close> False by auto
      then show ?thesis using Some \<open>tasks m ! j = Some t\<close> assms len by (simp add: detach_def nth_update_task)
    qed (simp add: detach_def Some)
    then show ?thesis using Some False by simp
  qed
qed

text \<open>The choice at the end of \<open>exit_current\<close>.\<close>

definition exit_pick :: "TaskManager \<Rightarrow> nat option" where
  "exit_pick m = (case position ready_user (tasks m) of Some i \<Rightarrow> Some i | None \<Rightarrow> task_index IDLE_PID m)"

lemma exit_pick_Some:
  assumes wf: "sched_wf m" and idle: "has_idle m" and none: "\<And>u. Some u \<in> set (tasks m) \<Longrightarrow> t_state u \<noteq> Running"
  obtains i t where "exit_pick m = Some i" and "i < MAX_TASKS" and "tasks m ! i = Some t" and "t_state t = Ready"
proof (cases "position ready_user (tasks m)")
  case (Some i)
  note p = position_Some [OF Some]
  then show ?thesis
    using that Some wf by (auto simp: exit_pick_def ready_user_def is_some_and_iff sched_wf_def)
next
  case None
  obtain z where z: "task_index IDLE_PID m = Some z" using idle by (auto simp: has_idle_def)
  note tz = task_index_Some [OF z]
  have "t_state (task_at z m) = Ready"
    using sched_wf_task_ok [OF wf _ tz(2)] tz none wf by (metis nth_mem sched_wf_length task_ok_def)
  then show ?thesis using that None z tz wf by (auto simp: exit_pick_def sched_wf_def)
qed

definition exit_notify :: "nat \<Rightarrow> u32 \<Rightarrow> kstate \<Rightarrow> kstate" where
  "exit_notify i code s =
     (let s2 = s\<lparr>mgr := zombie_mgr i code (mgr s)\<rparr> in
      case t_parent_pid (task_at i (mgr s)) of
        None \<Rightarrow> s2
      | Some p \<Rightarrow> notify_parent (t_pid (task_at i (mgr s))) p code s2)"

lemma exit_current_eq:
  assumes "current_pid (mgr s) \<noteq> Some IDLE_PID" and "current_index (mgr s) = Some i"
  shows "exit_current code s =
    (let s4 = update_mgr (\<lambda>m. m\<lparr>current_pid := None\<rparr>) (exit_notify i code s) in
     case exit_pick (mgr s4) of
       Some j \<Rightarrow> (Some (t_trap_frame (task_at j (mgr s4))), update_mgr (run_task j) s4)
     | None \<Rightarrow> (None, s4))"
  using assms
  by (auto simp: exit_current_def exit_task_def exit_notify_def exit_pick_def zombie_mgr_def Let_def split: option.split)

text \<open>Facts that hold after the parent has been told, whether it waited or not.\<close>

lemma exit_notify_spec:
  assumes wf: "sched_wf (mgr s)" "running (mgr s)" "has_idle (mgr s)" and ci: "current_index (mgr s) = Some i"
    and nid: "current_pid (mgr s) \<noteq> Some IDLE_PID"
  shows "sched_wf (mgr (exit_notify i code s))" and "has_idle (mgr (exit_notify i code s))"
    and "\<And>u. Some u \<in> set (tasks (mgr (exit_notify i code s))) \<Longrightarrow> t_state u \<noteq> Running"
    and "\<exists>z. tasks (mgr (exit_notify i code s)) ! i = Some z \<and> t_state z = Zombie \<and> t_exit_code z = code \<and>
           t_pid z = t_pid (task_at i (mgr s))"
    and "endpoints (mgr (exit_notify i code s)) = endpoints (mgr s)"
proof -
  let ?m2 = "zombie_mgr i code (mgr s)" and ?pid = "t_pid (task_at i (mgr s))" and ?s2 = "s\<lparr>mgr := zombie_mgr i code (mgr s)\<rparr>"
  note ct = current_task [OF wf(1) ci]
  note z = zombie_mgr_wf [OF wf(1,2) ci nid]
  have len: "length (tasks (mgr s)) = MAX_TASKS" using wf(1) by (rule sched_wf_length)
  have zi: "\<exists>z. tasks ?m2 ! i = Some z \<and> t_state z = Zombie \<and> t_exit_code z = code \<and> t_pid z = ?pid"
    using ct len by (simp add: nth_zombie_mgr)
  consider (same) "exit_notify i code s = ?s2"
    | (woken) j where "j < MAX_TASKS" "j \<noteq> i" "\<exists>t. tasks ?m2 ! j = Some t \<and> t_state t = Sleeping"
        "mgr (exit_notify i code s) = detach ?pid (wake_task j ?m2)"
  proof -
    assume exS: "exit_notify i code s = ?s2 \<Longrightarrow> thesis"
    assume exW: "\<And>j. j < MAX_TASKS \<Longrightarrow> j \<noteq> i \<Longrightarrow> \<exists>t. tasks ?m2 ! j = Some t \<and> t_state t = Sleeping \<Longrightarrow>
        mgr (exit_notify i code s) = detach ?pid (wake_task j ?m2) \<Longrightarrow> thesis"
    show thesis
  proof (cases "t_parent_pid (task_at i (mgr s))")
    case None
    then show ?thesis using exS by (simp add: exit_notify_def)
  next
    case (Some p)
    then have en: "exit_notify i code s = notify_parent ?pid p code ?s2" by (simp add: exit_notify_def)
    show ?thesis
    proof (cases rule: notify_parent_cases [of ?pid p code ?s2])
      case nobody
      then show ?thesis using exS en by simp
    next
      case (woken j)
      then have pw: "parent_waits ?pid p ?m2 j" by simp
      have ti: "task_index p ?m2 = Some j" and st: "t_state (task_at j ?m2) = Sleeping"
        using pw unfolding parent_waits_def by blast+
      note tj = task_index_Some [OF ti]
      obtain zz where zz: "tasks ?m2 ! i = Some zz" "t_state zz = Zombie" using zi by blast
      have ji: "j \<noteq> i"
      proof
        assume "j = i"
        then have "task_at j ?m2 = zz" using zz(1) by (simp add: task_at_def)
        then show False using zz(2) st by simp
      qed
      have jl: "j < MAX_TASKS" using tj(1) len by simp
      have ex: "\<exists>t. tasks ?m2 ! j = Some t \<and> t_state t = Sleeping" using tj(2) st by blast
      have eq: "mgr (exit_notify i code s) = detach ?pid (wake_task j ?m2)" using woken(2) unfolding en by simp
      show ?thesis by (rule exW [OF jl ji ex eq])
    qed
  qed
  qed
  then have "sched_wf (mgr (exit_notify i code s)) \<and> has_idle (mgr (exit_notify i code s)) \<and>
    (\<forall>u. Some u \<in> set (tasks (mgr (exit_notify i code s))) \<longrightarrow> t_state u \<noteq> Running) \<and>
    (\<exists>z. tasks (mgr (exit_notify i code s)) ! i = Some z \<and> t_state z = Zombie \<and> t_exit_code z = code \<and> t_pid z = ?pid) \<and>
    endpoints (mgr (exit_notify i code s)) = endpoints (mgr s)"
  proof cases
    case same
    then show ?thesis using z zi wf(3) by simp
  next
    case (woken j)
    have w: "sched_wf (wake_task j ?m2)" using woken(3) by (auto intro: wake_task_wf [OF z(1) woken(1)])
    have len2: "length (tasks (wake_task j ?m2)) = MAX_TASKS" using w by (rule sched_wf_length)
    have nr: "t_state u \<noteq> Running" if u: "Some u \<in> set (tasks (mgr (exit_notify i code s)))" for u
    proof -
      obtain l where l: "l < MAX_TASKS" "tasks (detach ?pid (wake_task j ?m2)) ! l = Some u"
        using u len2 unfolding woken(4) by (auto simp: in_set_conv_nth)
      then obtain v where v: "tasks (wake_task j ?m2) ! l = Some v" "t_state u = t_state v"
        using nth_detach [OF w l(1)] by (auto split: if_splits)
      obtain x where x: "tasks ?m2 ! l = Some x" "t_state v = (if l = j then Ready else t_state x)"
        using v(1) l(1) len by (auto simp: nth_update_task split: if_splits)
      then have "Some x \<in> set (tasks ?m2)" using l(1) len nth_mem by (metis zombie_mgr_simps(2))
      then show ?thesis using z(3) x(2) v(2) by auto
    qed
    have "\<exists>z. tasks (wake_task j ?m2) ! i = Some z \<and> t_state z = Zombie \<and> t_exit_code z = code \<and> t_pid z = ?pid"
      using zi woken(2) ct(1) len by (simp add: nth_update_task)
    then have zz: "\<exists>z. tasks (detach ?pid (wake_task j ?m2)) ! i = Some z \<and> t_state z = Zombie \<and> t_exit_code z = code \<and> t_pid z = ?pid"
      using nth_detach [OF w ct(1), of ?pid] by auto
    show ?thesis using detach_wf [OF w] nr zz wf(3) by (simp add: woken(4))
  qed
  then show "sched_wf (mgr (exit_notify i code s))" "has_idle (mgr (exit_notify i code s))"
    "\<And>u. Some u \<in> set (tasks (mgr (exit_notify i code s))) \<Longrightarrow> t_state u \<noteq> Running"
    "\<exists>z. tasks (mgr (exit_notify i code s)) ! i = Some z \<and> t_state z = Zombie \<and> t_exit_code z = code \<and> t_pid z = ?pid"
    "endpoints (mgr (exit_notify i code s)) = endpoints (mgr s)" by auto
qed

lemma parent_waits_zombie:
  assumes wf: "sched_wf m" "running m" and ci: "current_index m = Some i" and w: "parent_waits c p m j"
  shows "j \<noteq> i" and "parent_waits c p (zombie_mgr i code m) j"
    and "t_trap_frame (task_at j (zombie_mgr i code m)) = t_trap_frame (task_at j m)"
proof -
  have ti: "task_index p m = Some j" and st: "t_state (task_at j m) = Sleeping" "t_waiting_for (task_at j m) = Some (Child c)"
    using w by (auto simp: parent_waits_def)
  note tj = task_index_Some [OF ti]
  show ji: "j \<noteq> i" using wf(2) ci st(1) by (auto simp: running_def)
  have nth: "tasks (zombie_mgr i code m) ! j = Some (orphan (t_pid (task_at i m)) (task_at j m))"
    using tj ji by (simp add: nth_zombie_mgr)
  have "has_pid p (tasks (zombie_mgr i code m) ! l) = has_pid p (tasks m ! l)" if "l < length (tasks m)" for l
    by (cases "tasks m ! l") (simp_all add: nth_zombie_mgr that)
  then have "task_index p (zombie_mgr i code m) = task_index p m"
    unfolding task_index_def by (intro position_cong) auto
  then show "parent_waits c p (zombie_mgr i code m) j"
    using ti st nth by (simp add: parent_waits_def task_at_def)
  show "t_trap_frame (task_at j (zombie_mgr i code m)) = t_trap_frame (task_at j m)"
    using nth by (simp add: task_at_def)
qed

text \<open>What the exit does to a parent that waits.\<close>

lemma exit_notify_parent:
  assumes wf: "sched_wf (mgr s)" "running (mgr s)" and ci: "current_index (mgr s) = Some i"
    and nid: "current_pid (mgr s) \<noteq> Some IDLE_PID"
    and pp: "t_parent_pid (task_at i (mgr s)) = Some p" and w: "parent_waits (t_pid (task_at i (mgr s))) p (mgr s) j"
  shows "tf_a0 (load_frame (t_trap_frame (task_at j (mgr s))) (exit_notify i code s)) = scast code"
    and "\<exists>t. tasks (mgr (exit_notify i code s)) ! j = Some t \<and> t_pid t = p \<and> t_state t = Ready \<and> t_waiting_for t = None"
    and "\<exists>z. tasks (mgr (exit_notify i code s)) ! i = Some z \<and> t_parent_pid z = None"
proof -
  let ?m2 = "zombie_mgr i code (mgr s)" and ?c = "t_pid (task_at i (mgr s))" and ?s2 = "s\<lparr>mgr := zombie_mgr i code (mgr s)\<rparr>"
  note z1 = parent_waits_zombie(1) [OF wf ci w]
  note z2 = parent_waits_zombie(2,3) [OF wf ci w, of code]
  note z = z1 z2
  have en: "exit_notify i code s = notify_parent ?c p code ?s2" using pp by (simp add: exit_notify_def)
  have ti: "task_index p ?m2 = Some j" and st: "t_state (task_at j ?m2) = Sleeping" using z(2) by (auto simp: parent_waits_def)
  note tj = task_index_Some [OF ti]
  have wz: "sched_wf ?m2" by (rule zombie_mgr_wf(1) [OF wf ci nid])
  have jl: "j < MAX_TASKS" using tj(1) sched_wf_length [OF wz] by simp
  have ww: "sched_wf (wake_task j ?m2)" by (rule wake_task_wf [OF wz jl tj(2) st])
  note ct = current_task [OF wf(1) ci]
  show "tf_a0 (load_frame (t_trap_frame (task_at j (mgr s))) (exit_notify i code s)) = scast code"
    "\<exists>t. tasks (mgr (exit_notify i code s)) ! j = Some t \<and> t_pid t = p \<and> t_state t = Ready \<and> t_waiting_for t = None"
    "\<exists>z. tasks (mgr (exit_notify i code s)) ! i = Some z \<and> t_parent_pid z = None"
  proof (atomize (full), cases rule: notify_parent_cases [of ?c p code ?s2])
    case nobody
    then show "tf_a0 (load_frame (t_trap_frame (task_at j (mgr s))) (exit_notify i code s)) = scast code \<and>
      (\<exists>t. tasks (mgr (exit_notify i code s)) ! j = Some t \<and> t_pid t = p \<and> t_state t = Ready \<and> t_waiting_for t = None) \<and>
      (\<exists>z. tasks (mgr (exit_notify i code s)) ! i = Some z \<and> t_parent_pid z = None)"
      using z(2) by (metis kstate.select_convs(2) kstate.surjective kstate.update_convs(2))
  next
    case (woken l)
    have lj: "l = j" using woken(1) ti by (simp add: parent_waits_def)
    have fr: "tf_a0 (load_frame (t_trap_frame (task_at j (mgr s))) (exit_notify i code s)) = scast code"
      unfolding en load_frame_def woken(3) lj by (simp add: store_frame_def z(3))
    have dj: "tasks (detach ?c (wake_task j ?m2)) ! j = Some (if p = ?c
        then (task_at j ?m2)\<lparr>t_state := Ready, t_waiting_for := None, t_parent_pid := None\<rparr>
        else (task_at j ?m2)\<lparr>t_state := Ready, t_waiting_for := None\<rparr>)"
      using nth_detach [OF ww jl, of ?c] tj jl by (simp add: nth_update_task)
    have zi: "\<exists>z. tasks (wake_task j ?m2) ! i = Some z \<and> t_pid z = ?c"
      using ct z(1) sched_wf_length [OF wf(1)] by (simp add: nth_update_task nth_zombie_mgr)
    have di: "\<exists>z. tasks (detach ?c (wake_task j ?m2)) ! i = Some z \<and> t_parent_pid z = None"
      using nth_detach [OF ww ct(1), of ?c] zi by auto
    show "tf_a0 (load_frame (t_trap_frame (task_at j (mgr s))) (exit_notify i code s)) = scast code \<and>
      (\<exists>t. tasks (mgr (exit_notify i code s)) ! j = Some t \<and> t_pid t = p \<and> t_state t = Ready \<and> t_waiting_for t = None) \<and>
      (\<exists>z. tasks (mgr (exit_notify i code s)) ! i = Some z \<and> t_parent_pid z = None)"
      using fr dj di tj(3) woken(2) unfolding lj en by simp
  qed
qed

lemma exit_current_spec:
  assumes wf: "sched_wf (mgr s)" "running (mgr s)" "has_idle (mgr s)" and ci: "current_index (mgr s) = Some i"
    and nid: "current_pid (mgr s) \<noteq> Some IDLE_PID"
  obtains k s' where "exit_current code s = (Some (t_trap_frame (task_at k (mgr s'))), s')"
    and "sched_wf (mgr s')" and "running (mgr s')" and "has_idle (mgr s')" and "current_index (mgr s') = Some k"
    and "mem s' = mem (exit_notify i code s)" and "k < MAX_TASKS"
    and "tasks (mgr s') = tasks (update_task k (\<lambda>t. t\<lparr>t_state := Running\<rparr>) (mgr (exit_notify i code s)))"
    and "t_state (task_at k (mgr (exit_notify i code s))) = Ready"
proof -
  let ?m3 = "mgr (exit_notify i code s)" and ?m4 = "(mgr (exit_notify i code s))\<lparr>current_pid := None\<rparr>"
  note sp = exit_notify_spec [OF wf ci nid, where code = code]
  have wf4: "sched_wf ?m4" by (rule drop_current_wf [OF sp(1,3)])
  have id4: "has_idle ?m4" using sp(2) by simp
  obtain k t where k: "exit_pick ?m4 = Some k" "k < MAX_TASKS" "tasks ?m4 ! k = Some t" "t_state t = Ready"
    using exit_pick_Some [OF wf4 id4] sp(3) by auto
  define s' where "s' = update_mgr (run_task k) (update_mgr (\<lambda>m. m\<lparr>current_pid := None\<rparr>) (exit_notify i code s))"
  have mg: "mgr s' = run_task k ?m4" by (simp add: s'_def)
  note rt = run_task_wf [OF wf4 k(2-4)]
  have none: "\<And>u. Some u \<in> set (tasks ?m4) \<Longrightarrow> t_state u \<noteq> Running" using sp(3) by simp
  have at: "task_at k (mgr s') = t\<lparr>t_state := Running\<rparr>"
    using run_task_at [of k ?m4 t] k sched_wf_length [OF wf4] mg by simp
  have ex: "exit_current code s = (Some (t_trap_frame (task_at k (mgr s'))), s')"
    unfolding exit_current_eq [OF nid ci] using k at by (simp add: s'_def task_at_def Let_def)
  show thesis
  proof (rule that [OF ex])
    show "sched_wf (mgr s')" "running (mgr s')" "current_index (mgr s') = Some k"
      using rt none by (simp_all add: mg)
    show "has_idle (mgr s')" using id4 by (simp add: mg)
    show "tasks (mgr s') = tasks (update_task k (\<lambda>t. t\<lparr>t_state := Running\<rparr>) (mgr (exit_notify i code s)))"
      by (simp add: mg update_task_def)
    show "t_state (task_at k (mgr (exit_notify i code s))) = Ready" using k by (simp add: task_at_def)
  qed (simp_all add: s'_def k)
qed

text \<open>C12: Exit: from the invariant, \<open>exit_current\<close> of a user task never finds nothing to run; it keeps the
  invariant, leaves the task a zombie that holds its exit code, and returns the frame of
  another task, which is now the running one. A parent asleep in \<open>waitpid\<close> for this task is woken with
  the sign-extended code in its saved \<open>a0\<close>.\<close>

theorem exit_delivers_code:
  assumes "sched_wf (mgr s)" and "running (mgr s)" and "has_idle (mgr s)" and "current_index (mgr s) = Some i"
    and "current_pid (mgr s) \<noteq> Some IDLE_PID"
  shows "\<exists>k s'. task_exit code s = Done (t_trap_frame (task_at k (mgr s')), s') \<and>
    sched_wf (mgr s') \<and> running (mgr s') \<and> has_idle (mgr s') \<and> current_index (mgr s') = Some k \<and> k \<noteq> i \<and>
    (\<exists>z. tasks (mgr s') ! i = Some z \<and> t_pid z = t_pid (task_at i (mgr s)) \<and> t_state z = Zombie \<and> t_exit_code z = code) \<and>
    (\<forall>p j. t_parent_pid (task_at i (mgr s)) = Some p \<and> parent_waits (t_pid (task_at i (mgr s))) p (mgr s) j \<longrightarrow>
       tf_a0 (load_frame (t_trap_frame (task_at j (mgr s))) s') = scast code \<and>
       (\<exists>t. tasks (mgr s') ! j = Some t \<and> t_pid t = p \<and> t_state t \<in> {Ready, Running} \<and> t_waiting_for t = None))"
proof -
  obtain k s' where ex: "exit_current code s = (Some (t_trap_frame (task_at k (mgr s'))), s')"
    and w': "sched_wf (mgr s')" "running (mgr s')" "has_idle (mgr s')" "current_index (mgr s') = Some k"
    and mm: "mem s' = mem (exit_notify i code s)" "k < MAX_TASKS"
    and tk: "tasks (mgr s') = tasks (update_task k (\<lambda>t. t\<lparr>t_state := Running\<rparr>) (mgr (exit_notify i code s)))"
    and kr: "t_state (task_at k (mgr (exit_notify i code s))) = Ready"
    using exit_current_spec [OF assms] by blast
  note sp = exit_notify_spec [OF assms(1,2,3,4,5), where code = code]
  have len: "length (tasks (mgr (exit_notify i code s))) = MAX_TASKS" by (rule sched_wf_length [OF sp(1)])
  have ki: "k \<noteq> i" using sp(4) kr by (auto simp: task_at_def)
  have nth: "tasks (mgr s') ! j = (if k = j then map_option (\<lambda>t. t\<lparr>t_state := Running\<rparr>) (tasks (mgr (exit_notify i code s)) ! j)
      else tasks (mgr (exit_notify i code s)) ! j)" if "j < MAX_TASKS" for j
    using that len by (simp add: tk nth_update_task)
  have il: "i < MAX_TASKS" by (rule current_task(1) [OF assms(1,4)])
  have z: "\<exists>z. tasks (mgr s') ! i = Some z \<and> t_pid z = t_pid (task_at i (mgr s)) \<and> t_state z = Zombie \<and> t_exit_code z = code"
    using sp(4) ki nth [OF il] by auto
  have par: "tf_a0 (load_frame (t_trap_frame (task_at j (mgr s))) s') = scast code \<and>
       (\<exists>t. tasks (mgr s') ! j = Some t \<and> t_pid t = p \<and> t_state t \<in> {Ready, Running} \<and> t_waiting_for t = None)"
    if a: "t_parent_pid (task_at i (mgr s)) = Some p" "parent_waits (t_pid (task_at i (mgr s))) p (mgr s) j" for p j
  proof -
    note ep = exit_notify_parent [OF assms(1,2,4,5) a, of code]
    have jl: "j < MAX_TASKS"
      using a(2) task_index_Some(1) sched_wf_length [OF assms(1)] by (fastforce simp: parent_waits_def)
    have "load_frame x s' = load_frame x (exit_notify i code s)" for x by (simp add: load_frame_def mm)
    then show ?thesis using ep(1,2) nth [OF jl] by auto
  qed
  have "task_exit code s = Done (t_trap_frame (task_at k (mgr s')), s')" by (simp add: task_exit_def ex)
  then show ?thesis using w' ki z par by blast
qed

text \<open>Task 2 runs and its parent, task 1, waits for it.\<close>

definition manager_wait :: TaskManager where
  "manager_wait = task_manager_new\<lparr>current_pid := Some 2,
     tasks := [Some (mk_task 0 Ready 0x1000 None None), Some (mk_task 1 Sleeping 0x2000 None (Some (Child 2))),
               Some (mk_task 2 Running 0x3000 (Some 1) None)] @ replicate 13 None,
     next_pid := 3, runnable_count := 1\<rparr>"

definition kernel_wait :: kstate where
  "kernel_wait = \<lparr>mem = machine1, mgr = manager_wait, kernel_pt = Some 0x80400000, plic_regs = \<lambda>_. 0\<rparr>"

lemma kernel_wait_mgr: "mgr kernel_wait = manager_wait"
  by (simp add: kernel_wait_def)

lemma manager_wait_facts:
  "sched_wf manager_wait" "has_idle manager_wait" "current_index manager_wait = Some 2"
  "t_state (task_at 2 manager_wait) = Running" "current_pid manager_wait \<noteq> Some IDLE_PID"
  "t_parent_pid (task_at 2 manager_wait) = Some 1" "task_index 1 manager_wait = Some 1"
  "t_state (task_at 1 manager_wait) = Sleeping" "t_waiting_for (task_at 1 manager_wait) = Some (Child 2)"
  "t_pid (task_at 2 manager_wait) = 2" "t_trap_frame (task_at 1 manager_wait) = 0x2000"
  by code_simp+

theorem exit_delivers_code_witness:
  "\<exists>f s'. task_exit (- 1) kernel_wait = Done (f, s') \<and> sched_wf (mgr s') \<and>
     tf_a0 (load_frame 0x2000 s') = scast (- 1 :: u32)"
proof -
  have "running manager_wait" using manager_wait_facts by (auto simp: running_def)
  moreover have "parent_waits 2 1 manager_wait 1" using manager_wait_facts by (simp add: parent_waits_def)
  ultimately show ?thesis
    using exit_delivers_code [of kernel_wait 2 "- 1"] manager_wait_facts by (fastforce simp: kernel_wait_mgr)
qed

section \<open>Waiting for a child\<close>

lemma nth_take_slot: "j < length (tasks m) \<Longrightarrow> tasks (take_slot i m) ! j = (if i = j then None else tasks m ! j)"
  by (simp add: take_slot_def nth_list_update)

lemma take_slot_simps [simp]:
  "current_pid (take_slot i m) = current_pid m" "runnable_count (take_slot i m) = runnable_count m"
  "endpoints (take_slot i m) = endpoints m" "next_pid (take_slot i m) = next_pid m" "uart_owner (take_slot i m) = uart_owner m"
  "length (tasks (take_slot i m)) = length (tasks m)"
  by (simp_all add: take_slot_def)

lemma take_slot_wf:
  assumes wf: "sched_wf m" and i: "i < MAX_TASKS" "tasks m ! i = Some t" and nr: "\<not> runnable t"
  shows "sched_wf (take_slot i m)"
  unfolding sched_wf_def
proof (intro conjI allI impI)
  have len: "length (tasks m) = MAX_TASKS" using wf by (rule sched_wf_length)
  show "length (tasks (take_slot i m)) = MAX_TASKS" by (simp add: len)
  show "pids_unique (take_slot i m)"
    using wf len by (auto simp: pids_unique_def sched_wf_def nth_take_slot)
  have "count_tasks runnable (take_slot i m) = count_tasks runnable m"
    using length_filter_update [of i "tasks m" "is_some_and runnable" None] i nr len
    by (simp add: count_tasks_def take_slot_def)
  then show "runnable_count (take_slot i m) = of_nat (count_tasks runnable (take_slot i m))"
    using wf by (simp add: sched_wf_def)
  fix u assume "Some u \<in> set (tasks (take_slot i m))"
  then have "Some u \<in> insert None (set (tasks m))"
    unfolding take_slot_def using set_update_subset_insert by fastforce
  then show "task_ok (current_pid (take_slot i m)) u" using wf by (simp add: sched_wf_def)
qed

lemma child_slot_eq:
  assumes wf: "sched_wf m" and c: "tasks m ! c = Some t" "c < MAX_TASKS" "t_pid t = pid" "t_parent_pid t = Some parent"
  shows "child_slot pid parent m = Some c"
  unfolding child_slot_def
proof (rule position_unique)
  fix j assume "j < length (tasks m)" "is_some_and (\<lambda>t. t_pid t = pid \<and> t_parent_pid t = Some parent) (tasks m ! j)"
  then show "j = c" using wf c by (auto simp: sched_wf_def pids_unique_def is_some_and_iff)
qed (use assms in \<open>auto simp: sched_wf_def\<close>)

text \<open>C13: \<open>waitpid\<close> on a zombie child returns its exit code at once, frees its slot and gives back exactly its
  frames: its table pages, the pages mapped in its image and heap ranges, its user stack and its kernel stack; a second \<open>waitpid\<close> on the same pid is an error, so the code is delivered once.\<close>

theorem waitpid_reaps_zombie:
  assumes "sched_wf (mgr s)" and "running (mgr s)" and "current_pid (mgr s) = Some parent" and "parent \<noteq> IDLE_PID"
    and "tasks (mgr s) ! c = Some t" and "c < MAX_TASKS" and "t_parent_pid t = Some parent" and "t_state t = Zombie"
    and "releasable (t_pagetable t) (user_pages (t_image_base t) (t_image_size t) (t_heap_base t) (t_heap_end t))
             (t_user_stack t) (mem s)"
    and "page_aligned (t_kernel_stack t)"
  shows "\<exists>s'. waitpid (t_pid t) tf s = Done (Reaped (t_exit_code t), s') \<and> sched_wf (mgr s') \<and>
    running (mgr s') \<and> tasks (mgr s') = (tasks (mgr s))[c := None] \<and> frames_wf (pages (mem s')) \<and>
    used_frames (pages (mem s')) = used_frames (pages (mem s)) -
      (tables (phys (mem s)) (t_pagetable t) \<union>
       page_targets (user_pages (t_image_base t) (t_image_size t) (t_heap_base t) (t_heap_end t))
         (leaf (phys (mem s)) (t_pagetable t)) \<union>
       (if t_user_stack t = 0 then {} else {t_user_stack t}) \<union> {t_kernel_stack t}) \<and>
    (\<forall>tf'. waitpid (t_pid t) tf' s' = Done (WaitError, s'))"
proof -
  have cs: "child_slot (t_pid t) parent (mgr s) = Some c" by (rule child_slot_eq [OF assms(1,5-6) refl assms(7)])
  have at: "task_at c (mgr s) = t" by (simp add: task_at_def assms(5))
  obtain k where k: "free_task t (mem s) = Done k" "frames_wf (pages k)"
    "used_frames (pages k) = used_frames (pages (mem s)) - task_frames t (mem s)"
    using free_task_frames [OF assms(9,10)] by blast
  define s' where "s' = s\<lparr>mem := k, mgr := take_slot c (mgr s)\<rparr>"
  have w: "waitpid (t_pid t) tf s = Done (Reaped (t_exit_code t), s')"
    using assms(3,4,8) by (simp add: waitpid_def cs at k(1) s'_def)
  have wf': "sched_wf (mgr s')"
    using take_slot_wf [OF assms(1,6,5)] assms(8) by (simp add: s'_def runnable_def)
  obtain i where i: "current_index (mgr s) = Some i" "t_state (task_at i (mgr s)) = Running"
    using assms(2) by (auto simp: running_def)
  note ct = current_task [OF assms(1) i(1)]
  have ic: "i \<noteq> c" using i(2) at assms(8) by auto
  have ni: "tasks (mgr s') ! i = Some (task_at i (mgr s))"
    using ct ic sched_wf_length [OF assms(1)] by (simp add: s'_def nth_take_slot)
  then have "current_index (mgr s') = Some i"
    using task_index_eq [of "mgr s'" i] wf' ct by (simp add: current_index_def sched_wf_def s'_def)
  then have run: "running (mgr s')" using i(2) ni by (simp add: running_def task_at_def)
  have "child_slot (t_pid t) parent (mgr s') = None"
    unfolding child_slot_def position_None_iff
  proof
    fix x assume "x \<in> set (tasks (mgr s'))"
    then obtain j where j: "j < MAX_TASKS" "x = tasks (mgr s') ! j"
      using sched_wf_length [OF wf'] by (auto simp: in_set_conv_nth)
    then show "\<not> is_some_and (\<lambda>u. t_pid u = t_pid t \<and> t_parent_pid u = Some parent) x"
      using assms(1,5,6) by (auto simp: s'_def nth_take_slot sched_wf_def pids_unique_def is_some_and_iff)
  qed
  then have again: "waitpid (t_pid t) tf' s' = Done (WaitError, s')" for tf'
    using assms(3,4) by (simp add: waitpid_def s'_def)
  show ?thesis
    by (rule exI [of _ s']) (use w wf' run k(2) k(3) [unfolded task_frames_def] again in \<open>simp add: s'_def take_slot_def\<close>)
qed

text \<open>Task 2 runs; its child, task 1, is a zombie that holds 7.\<close>

definition zombie_child :: Task where
  "zombie_child = sample_task\<lparr>t_exit_code := 7, t_parent_pid := Some 2\<rparr>"

definition manager_zombie :: TaskManager where
  "manager_zombie = task_manager_new\<lparr>current_pid := Some 2,
     tasks := [Some (mk_task 0 Ready 0x1000 None None), Some zombie_child,
               Some (mk_task 2 Running 0x3000 None None)] @ replicate 13 None,
     next_pid := 3, runnable_count := 1\<rparr>"

definition kernel_zombie :: kstate where
  "kernel_zombie = \<lparr>mem = machine2, mgr = manager_zombie, kernel_pt = Some 0x80400000, plic_regs = \<lambda>_. 0\<rparr>"

lemma manager_zombie_facts:
  "sched_wf manager_zombie" "current_index manager_zombie = Some 2" "t_state (task_at 2 manager_zombie) = Running"
  "current_pid manager_zombie = Some 2" "tasks manager_zombie ! 1 = Some zombie_child"
  by code_simp+

theorem waitpid_reaps_zombie_witness:
  "\<exists>s'. waitpid 1 0x3000 kernel_zombie = Done (Reaped 7, s') \<and> tasks (mgr s') ! 1 = None"
proof -
  have "running manager_zombie" using manager_zombie_facts by (auto simp: running_def)
  moreover have "t_pid zombie_child = 1" "t_exit_code zombie_child = 7" "t_parent_pid zombie_child = Some 2"
    "t_state zombie_child = Zombie" "page_aligned (t_kernel_stack zombie_child)"
    by (simp_all add: zombie_child_def sample_task_def page_aligned_def layout)
  moreover have "releasable (t_pagetable zombie_child) (user_pages (t_image_base zombie_child) (t_image_size zombie_child)
      (t_heap_base zombie_child) (t_heap_end zombie_child)) (t_user_stack zombie_child) machine2"
    using sample_releasable by (simp add: zombie_child_def sample_task_def)
  moreover have "(2 :: u32) \<noteq> IDLE_PID" "1 < MAX_TASKS" "length (tasks manager_zombie) = 16" by code_simp+
  ultimately show ?thesis
    using waitpid_reaps_zombie [of kernel_zombie 2 1 zombie_child "0x3000"] manager_zombie_facts
    by (fastforce simp: kernel_zombie_def)
qed

section \<open>Waiting first\<close>

lemma schedule_mgr_keeps:
  assumes wf: "sched_wf m" "has_idle m" and j: "j < MAX_TASKS" "tasks m ! j = Some t" and st: "t_state t = Sleeping"
  shows "tasks (schedule_mgr m) ! j = Some t"
proof -
  obtain i u where i: "next_slot (scan_start m) (put_back (reap_mgr m)) = Some i" "i < MAX_TASKS"
    "tasks (put_back (reap_mgr m)) ! i = Some u" "t_state u = Ready"
    using schedule_mgr_runs [OF wf] by metis
  have "tasks (put_back (reap_mgr m)) ! j = Some t"
    using nth_put_back [OF reap_mgr_wf [OF wf(1)] j(1)] nth_reap_mgr [of j m] j st sched_wf_length [OF wf(1)]
    by (simp add: detached_def)
  then show ?thesis
    using i st j(1) sched_wf_length [OF wf(1)] by (auto simp: schedule_mgr_def nth_update_task)
qed

lemma no_orphan_sleep:
  assumes "no_orphan_zombie m" and "tasks m' = tasks (update_task i (\<lambda>t. t\<lparr>t_state := Sleeping, t_waiting_for := ch\<rparr>) m)"
    and "tasks m ! i = Some t" and "i < length (tasks m)"
  shows "no_orphan_zombie m'"
  unfolding no_orphan_zombie_def assms(2)
proof (intro allI impI)
  fix u assume "Some u \<in> set (tasks (update_task i (\<lambda>t. t\<lparr>t_state := Sleeping, t_waiting_for := ch\<rparr>) m))" and z: "t_state u = Zombie"
  then have "Some u \<in> insert (Some (t\<lparr>t_state := Sleeping, t_waiting_for := ch\<rparr>)) (set (tasks m))"
    unfolding update_task_def using assms(3) set_update_subset_insert by fastforce
  then have "Some u \<in> set (tasks m)" using z by auto
  then show "t_parent_pid u \<noteq> None" using assms(1) z by (simp add: no_orphan_zombie_def)
qed

text \<open>C14: \<open>waitpid\<close> on a child that is still alive puts the caller to sleep on that child and returns the frame
  of the task that runs next; the invariant holds again, and when the child later exits it finds
  the caller waiting.\<close>

theorem waitpid_blocks_for_child:
  assumes "sched_wf (mgr s)" and "running (mgr s)" and "has_idle (mgr s)" and "no_orphan_zombie (mgr s)"
    and "current_pid (mgr s) = Some parent" and "parent \<noteq> IDLE_PID" and "current_index (mgr s) = Some i"
    and "tasks (mgr s) ! c = Some t" and "c < MAX_TASKS" and "t_parent_pid t = Some parent" and "t_state t \<noteq> Zombie"
  shows "\<exists>f s'. waitpid (t_pid t) tf s = Done (WaitBlocked f, s') \<and> sched_wf (mgr s') \<and> running (mgr s') \<and> has_idle (mgr s') \<and>
    tasks (mgr s') ! i = Some ((task_at i (mgr s))\<lparr>t_state := Sleeping, t_waiting_for := Some (Child (t_pid t))\<rparr>) \<and>
    parent_waits (t_pid t) parent (mgr s') i \<and> current_index (mgr s') \<noteq> Some i"
proof -
  let ?s1 = "sleep_task i (Child (t_pid t)) tf s"
  have cs: "child_slot (t_pid t) parent (mgr s) = Some c" by (rule child_slot_eq [OF assms(1,8-9) refl assms(10)])
  have at: "task_at c (mgr s) = t" by (simp add: task_at_def assms(8))
  note ct = current_task [OF assms(1,7)]
  have len: "length (tasks (mgr s)) = MAX_TASKS" by (rule sched_wf_length [OF assms(1)])
  have nid: "current_pid (mgr s) \<noteq> Some IDLE_PID" using assms(5,6) by simp
  have rn: "runnable (task_at i (mgr s))" by (rule current_runnable [OF assms(2,7) nid])
  have wf1: "sched_wf (mgr ?s1)" using sleep_mgr_wf [OF assms(1) ct(1,2) rn] by simp
  have "no_orphan_zombie (mgr ?s1)"
    by (rule no_orphan_sleep [OF assms(4) _ ct(2)]) (simp_all add: ct len)
  then obtain f s' where sch: "schedule tf ?s1 = Done (f, s')"
    using schedule_total reap_none(1) sched_wf_length [OF wf1] by metis
  have w: "waitpid (t_pid t) tf s = Done (WaitBlocked f, s')"
    using assms(5,6,7,11) sch by (simp add: waitpid_def cs at)
  have m1: "mgr ?s1 = (sleep_mgr i (Child (t_pid t)) (mgr s))\<lparr>endpoints := endpoints (mgr s)\<rparr>"
    by (simp add: sleep_mgr_def update_task_def)
  note b = block_and_schedule [OF assms(1,3,2,7) nid m1 sch]
  let ?u = "(task_at i (mgr s))\<lparr>t_state := Sleeping, t_waiting_for := Some (Child (t_pid t))\<rparr>"
  have "tasks (mgr ?s1) ! i = Some ?u" using ct len by (simp add: nth_update_task)
  then have ui: "tasks (mgr s') ! i = Some ?u"
    using schedule_mgr_keeps [OF wf1 _ ct(1)] assms(3) unfolding b(5) m1 [symmetric] by simp
  have pid: "t_pid (task_at i (mgr s)) = parent" using ct(3) assms(5) by simp
  have "task_index parent (mgr s') = Some i"
    using task_index_eq [of "mgr s'" i ?u parent] b(1) ui ct(1) pid by (simp add: sched_wf_def)
  then have pw: "parent_waits (t_pid t) parent (mgr s') i" using ui by (simp add: parent_waits_def task_at_def)
  have "current_index (mgr s') \<noteq> Some i" using b(3) ui by (auto simp: running_def task_at_def)
  then show ?thesis using w b(1-3) ui pw by blast
qed

theorem waitpid_blocks_for_child_witness:
  "\<exists>f s'. waitpid 2 0x2000 kernel3 = Done (WaitBlocked f, s') \<and> parent_waits 2 1 (mgr s') 1"
proof -
  have "current_index manager3 = Some 1" "t_state (task_at 1 manager3) = Running" "current_pid manager3 = Some 1"
    "tasks manager3 ! 2 = Some (mk_task 2 Ready 0x3000 (Some 1) None)" "2 < MAX_TASKS" "(1::u32) \<noteq> IDLE_PID"
    by code_simp+
  moreover from this have "running (mgr kernel3)" by (simp add: running_def kernel3_mgr)
  ultimately show ?thesis
    using waitpid_blocks_for_child [OF kernel3_wf(1) _ kernel3_wf(2,3), of 1 1 2 "mk_task 2 Ready 0x3000 (Some 1) None" "0x2000"]
    by (fastforce simp: kernel3_mgr mk_task_def)
qed

end
