(* ===== verification/Task_Ipc.thy ===== *)
theory Task_Ipc
  imports Task_Lifecycle
begin

text \<open>
  Synchronous IPC of \<open>src/kernel/task.rs\<close>: endpoints, calls, receives and replies, with and
  without a data buffer. A blocking operation returns the frame of the task that runs next.
  Copies between address spaces translate every byte through the page table of the task
  they belong to, in the memory as it is at that moment.
\<close>

section \<open>Endpoints\<close>

datatype IpcResult = Continue | Blocked usize | IpcError

text \<open>\<open>endpoints.get(e).and_then(|e| e.as_ref())\<close>.\<close>

definition get_endpoint :: "usize \<Rightarrow> TaskManager \<Rightarrow> Endpoint option" where
  "get_endpoint e m = (if unat e < length (endpoints m) then endpoints m ! unat e else None)"

definition update_endpoint :: "usize \<Rightarrow> (Endpoint \<Rightarrow> Endpoint) \<Rightarrow> TaskManager \<Rightarrow> TaskManager" where
  "update_endpoint e f m = m\<lparr>endpoints := (endpoints m)[unat e := map_option f (endpoints m ! unat e)]\<rparr>"

definition update_frame :: "usize \<Rightarrow> (TrapFrame \<Rightarrow> TrapFrame) \<Rightarrow> kstate \<Rightarrow> kstate" where
  "update_frame a f s = store_frame a (f (load_frame a s)) s"

definition endpoint_new :: "u32 \<Rightarrow> Endpoint" where
  "endpoint_new owner = \<lparr>
     ep_owner = owner,
     ep_waiting_receiver = None,
     ep_pending = msg_queue_new,
     ep_copy_buf = replicate (unat IPC_BUF_SIZE) 0,
     ep_copy_len = 0,
     ep_recv_buf_addr = 0,
     ep_recv_buf_capacity = 0,
     ep_has_buffered = False\<rparr>"

definition register_endpoint :: "usize \<Rightarrow> u32 \<Rightarrow> TaskManager \<Rightarrow> unit result \<times> TaskManager" where
  "register_endpoint e owner m =
     (if of_nat MAX_ENDPOINTS \<le> e \<or> endpoints m ! unat e \<noteq> None then (Err, m)
      else if task_index owner m = None then (Err, m)
      else (Ok (), m\<lparr>endpoints := (endpoints m)[unat e := Some (endpoint_new owner)]\<rparr>))"

section \<open>Messages in registers\<close>

definition set_message :: "u32 \<Rightarrow> words4 \<Rightarrow> TrapFrame \<Rightarrow> TrapFrame" where
  "set_message sender ws fr = (case ws of (w0, w1, w2, w3) \<Rightarrow>
     fr\<lparr>tf_a0 := ucast sender, tf_a1 := w0, tf_a2 := w1, tf_a3 := w2, tf_a4 := w3\<rparr>)"

definition set_reply :: "words4 \<Rightarrow> TrapFrame \<Rightarrow> TrapFrame" where
  "set_reply ws fr = (case ws of (w0, w1, w2, w3) \<Rightarrow>
     fr\<lparr>tf_a0 := w0, tf_a1 := w1, tf_a2 := w2, tf_a3 := w3\<rparr>)"

definition push_message :: "Message \<Rightarrow> Endpoint \<Rightarrow> Endpoint" where
  "push_message msg ep = ep\<lparr>ep_pending := snd (q_push msg (ep_pending ep))\<rparr>"

definition ipc_call :: "usize \<Rightarrow> words4 \<Rightarrow> usize \<Rightarrow> kstate \<Rightarrow> (IpcResult \<times> kstate) outcome" where
  "ipc_call e ws tf s =
     (case current_pid (mgr s) of None \<Rightarrow> Done (IpcError, s) | Some sender \<Rightarrow>
      case get_endpoint e (mgr s) of None \<Rightarrow> Done (IpcError, s) | Some ep \<Rightarrow>
      let owner = ep_owner ep;
          receiver_waiting = (ep_waiting_receiver ep = Some owner) in
      if sender = owner \<or> q_is_full (ep_pending ep) then Done (IpcError, s)
      else case task_index sender (mgr s) of None \<Rightarrow> Done (IpcError, s) | Some i \<Rightarrow>
      let s1 = sleep_task i (IpcCall e) tf s in
      obind
        (if receiver_waiting
         then case task_index owner (mgr s1) of None \<Rightarrow> Panic | Some r \<Rightarrow>
              Done (update_mgr (update_endpoint e (\<lambda>ep. ep\<lparr>ep_waiting_receiver := None\<rparr>))
                     (update_mgr (wake_task r)
                       (update_frame (t_trap_frame (task_at r (mgr s1))) (set_message sender ws) s1)))
         else Done (update_mgr (update_endpoint e
                     (push_message \<lparr>msg_sender = sender, msg_words = ws, msg_buf_len = 0\<rparr>)) s1))
        (\<lambda>s2. obind (schedule tf s2) (\<lambda>(f, s3). Done (Blocked f, s3))))"

definition ipc_recv :: "usize \<Rightarrow> usize \<Rightarrow> kstate \<Rightarrow> (IpcResult \<times> kstate) outcome" where
  "ipc_recv e tf s =
     (case current_pid (mgr s) of None \<Rightarrow> Done (IpcError, s) | Some receiver \<Rightarrow>
      case get_endpoint e (mgr s) of None \<Rightarrow> Done (IpcError, s) | Some ep \<Rightarrow>
      if ep_owner ep \<noteq> receiver then Done (IpcError, s)
      else case q_pop (ep_pending ep) of
        (Some msg, q) \<Rightarrow>
          Done (Continue, update_frame tf (set_message (msg_sender msg) (msg_words msg))
                            (update_mgr (update_endpoint e (\<lambda>ep. ep\<lparr>ep_pending := q\<rparr>)) s))
      | (None, _) \<Rightarrow>
          let s1 = update_mgr (update_endpoint e (\<lambda>ep. ep\<lparr>ep_waiting_receiver := Some receiver\<rparr>)) s in
          (case current_index (mgr s1) of
             None \<Rightarrow> Done (IpcError, s1)
           | Some i \<Rightarrow> obind (schedule tf (sleep_task i (IpcRecv e) tf s1)) (\<lambda>(f, s2). Done (Blocked f, s2))))"

text \<open>\<open>is_none_or(|endpoint| endpoint.owner != replier)\<close>, negated: the caller owns the endpoint.\<close>

definition owns_endpoint :: "u32 \<Rightarrow> usize \<Rightarrow> TaskManager \<Rightarrow> bool" where
  "owns_endpoint p e m = is_some_and (\<lambda>ep. ep_owner ep = p) (get_endpoint e m)"

definition ipc_reply :: "u32 \<Rightarrow> words4 \<Rightarrow> kstate \<Rightarrow> unit result \<times> kstate" where
  "ipc_reply client ws s =
     (case current_pid (mgr s) of None \<Rightarrow> (Err, s) | Some replier \<Rightarrow>
      case task_index client (mgr s) of None \<Rightarrow> (Err, s) | Some i \<Rightarrow>
      case t_waiting_for (task_at i (mgr s)) of
        Some (IpcCall e) \<Rightarrow>
          if \<not> owns_endpoint replier e (mgr s) then (Err, s)
          else if t_state (task_at i (mgr s)) \<noteq> Sleeping then (Err, s)
          else (Ok (), update_mgr (wake_task i)
                  (update_frame (t_trap_frame (task_at i (mgr s))) (set_reply ws) s))
      | _ \<Rightarrow> (Err, s))"

section \<open>Copying between address spaces\<close>

text \<open>The loops of \<open>mem_copy_from_user\<close>, \<open>mem_copy_to_user\<close> and \<open>ipc_reply_buf\<close>, over the byte indices.\<close>

fun copy_in :: "usize \<Rightarrow> nat list \<Rightarrow> usize \<Rightarrow> kmem \<Rightarrow> u8 list \<Rightarrow> unit result \<times> u8 list" where
  "copy_in pt [] src k dst = (Ok (), dst)"
| "copy_in pt (i # is) src k dst =
     (case virt_to_phys pt (src + of_nat i) k of
        None \<Rightarrow> (Err, dst)
      | Some pa \<Rightarrow> copy_in pt is src k (dst[i := read_byte (phys k) pa]))"

text \<open>The code writes to whatever the table of the task maps, the kernel's own memory included: every user
  table maps the kernel window, without \<open>PTE_U\<close>, and the task manager, the allocator's bitmap, the page
  tables and the kernel stacks lie in it. A write through an entry without \<open>PTE_U\<close> changes state that the
  model keeps outside \<open>phys\<close>, or structures that the kernel relies on: it is the outcome \<open>Overwrite\<close>.\<close>

definition user_page :: "usize \<Rightarrow> usize \<Rightarrow> kmem \<Rightarrow> bool" where
  "user_page pt va k =
     (case walk pt va False k of
        (None, _) \<Rightarrow> False
      | (Some p, _) \<Rightarrow> load64 k p AND PTE_U \<noteq> 0)"

fun copy_out :: "usize \<Rightarrow> nat list \<Rightarrow> usize \<Rightarrow> u8 list \<Rightarrow> kmem \<Rightarrow> (unit result \<times> kmem) outcome" where
  "copy_out pt [] dst src k = Done (Ok (), k)"
| "copy_out pt (i # is) dst src k =
     (case virt_to_phys pt (dst + of_nat i) k of
        None \<Rightarrow> Done (Err, k)
      | Some pa \<Rightarrow>
          if \<not> user_page pt (dst + of_nat i) k then Overwrite
          else copy_out pt is dst src (k\<lparr>phys := write_byte pa (src ! i) (phys k)\<rparr>))"

fun copy_across :: "usize \<Rightarrow> usize \<Rightarrow> nat list \<Rightarrow> usize \<Rightarrow> usize \<Rightarrow> kmem \<Rightarrow> (unit result \<times> kmem) outcome" where
  "copy_across spt dpt [] src dst k = Done (Ok (), k)"
| "copy_across spt dpt (i # is) src dst k =
     (case virt_to_phys spt (src + of_nat i) k of
        None \<Rightarrow> Done (Err, k)
      | Some spa \<Rightarrow>
          (case virt_to_phys dpt (dst + of_nat i) k of
             None \<Rightarrow> Done (Err, k)
           | Some dpa \<Rightarrow>
               if \<not> user_page dpt (dst + of_nat i) k then Overwrite
               else copy_across spt dpt is src dst
                      (k\<lparr>phys := write_byte dpa (read_byte (phys k) spa) (phys k)\<rparr>)))"

definition mem_copy_from_user :: "usize \<Rightarrow> u8 list \<Rightarrow> usize \<Rightarrow> usize \<Rightarrow> kmem \<Rightarrow> unit result \<times> u8 list" where
  "mem_copy_from_user pt dst user_src len k =
     copy_in pt [0..<min (unat len) (length dst)] user_src k dst"

definition mem_copy_to_user :: "usize \<Rightarrow> usize \<Rightarrow> u8 list \<Rightarrow> usize \<Rightarrow> kmem \<Rightarrow> (unit result \<times> kmem) outcome" where
  "mem_copy_to_user pt user_dst src len k =
     copy_out pt [0..<min (unat len) (length src)] user_dst src k"

text \<open>\<open>&buf[..n]\<close>, which panics out of range.\<close>

definition slice_to :: "u8 list \<Rightarrow> usize \<Rightarrow> u8 list outcome" where
  "slice_to buf n = (if unat n \<le> length buf then Done (take (unat n) buf) else Panic)"

text \<open>The page tables found by the loop of \<open>ipc_reply_buf\<close>: that of the last task with the pid.\<close>

definition table_of_pid :: "u32 option \<Rightarrow> TaskManager \<Rightarrow> usize option" where
  "table_of_pid p m =
     (case List.find (\<lambda>x. is_some_and (\<lambda>t. Some (t_pid t) = p) x) (rev (tasks m)) of
        Some (Some t) \<Rightarrow> Some (t_pagetable t)
      | _ \<Rightarrow> None)"

definition ipc_reply_buf :: "u32 \<Rightarrow> words4 \<Rightarrow> usize \<Rightarrow> usize \<Rightarrow> kstate \<Rightarrow> (unit result \<times> kstate) outcome" where
  "ipc_reply_buf client ws user_buf buf_len s =
     (case current_pid (mgr s) of None \<Rightarrow> Done (Err, s) | Some replier \<Rightarrow>
      case task_index client (mgr s) of None \<Rightarrow> Done (Err, s) | Some i \<Rightarrow>
      case t_waiting_for (task_at i (mgr s)) of
        Some (IpcCall e) \<Rightarrow>
          if \<not> owns_endpoint replier e (mgr s) then Done (Err, s)
          else if t_state (task_at i (mgr s)) \<noteq> Sleeping then Done (Err, s)
          else
            let fa = t_trap_frame (task_at i (mgr s));
                caller_buf_addr = tf_a5 (load_frame fa s);
                copy_len = min (min buf_len (tf_a6 (load_frame fa s))) IPC_BUF_SIZE;
                s1 = update_frame fa (\<lambda>fr. (set_reply ws fr)\<lparr>tf_a5 := copy_len\<rparr>) s;
                wake = (\<lambda>s. update_mgr (wake_task i) s)
            in if copy_len = 0 then Done (Ok (), wake s1)
               else (case (table_of_pid (current_pid (mgr s)) (mgr s), table_of_pid (Some client) (mgr s)) of
                       (Some spt, Some dpt) \<Rightarrow>
                         obind (copy_across spt dpt [0..<unat copy_len] user_buf caller_buf_addr (mem s1)) (\<lambda>(res, k).
                           case res of
                             Inl _ \<Rightarrow> Done (Err, s1\<lparr>mem := k\<rparr>)
                           | Inr _ \<Rightarrow> Done (Ok (), wake (s1\<lparr>mem := k\<rparr>)))
                     | _ \<Rightarrow> Panic)
      | _ \<Rightarrow> Done (Err, s))"

section \<open>Calls and receives with a buffer\<close>

text \<open>The first part of \<open>ipc_call_buf\<close>: the sender's data is copied into the endpoint.\<close>

definition fill_copy_buf :: "usize \<Rightarrow> usize \<Rightarrow> usize \<Rightarrow> kstate \<Rightarrow> (unit result \<times> kstate) outcome" where
  "fill_copy_buf e user_buf buf_len s =
     (if buf_len = 0 then Done (Ok (), update_mgr (update_endpoint e (\<lambda>ep. ep\<lparr>ep_copy_len := 0\<rparr>)) s)
      else case current_index (mgr s) of None \<Rightarrow> Done (Err, s) | Some i \<Rightarrow>
      case get_endpoint e (mgr s) of None \<Rightarrow> Panic | Some ep \<Rightarrow>
      obind (slice_to (ep_copy_buf ep) buf_len) (\<lambda>ep_buf.
        case mem_copy_from_user (t_pagetable (task_at i (mgr s))) ep_buf user_buf buf_len (mem s) of
          (r, bytes) \<Rightarrow>
            let s1 = update_mgr (update_endpoint e (\<lambda>ep. ep\<lparr>ep_copy_buf := bytes @ drop (unat buf_len) (ep_copy_buf ep)\<rparr>)) s in
            (case r of
               Inl _ \<Rightarrow> Done (Err, s1)
             | Inr _ \<Rightarrow> Done (Ok (), update_mgr (update_endpoint e (\<lambda>ep. ep\<lparr>ep_copy_len := buf_len\<rparr>)) s1))))"

text \<open>The receiver that waits gets the message, and the data if it waits with a buffer.\<close>

definition deliver_buffered :: "usize \<Rightarrow> u32 \<Rightarrow> words4 \<Rightarrow> usize \<Rightarrow> nat \<Rightarrow> kstate \<Rightarrow> kstate outcome" where
  "deliver_buffered e sender ws buf_len r s =
     (case get_endpoint e (mgr s) of None \<Rightarrow> Panic | Some ep \<Rightarrow>
      let receiver = task_at r (mgr s);
          fa = t_trap_frame receiver;
          s1 = update_frame fa (set_message sender ws) s;
          recv_addr = ep_recv_buf_addr ep
      in obind
           (if buf_len \<noteq> 0 \<and> recv_addr \<noteq> 0
            then let copy_len = min buf_len (ep_recv_buf_capacity ep) in
                 obind (slice_to (ep_copy_buf ep) copy_len) (\<lambda>ep_buf.
                   obind (mem_copy_to_user (t_pagetable receiver) recv_addr ep_buf copy_len (mem s1)) (\<lambda>(res, k).
                     Done (update_frame fa (\<lambda>fr. fr\<lparr>tf_a5 := (case res of Inr _ \<Rightarrow> copy_len | Inl _ \<Rightarrow> 0)\<rparr>)
                             (s1\<lparr>mem := k\<rparr>))))
            else Done (update_frame fa (\<lambda>fr. fr\<lparr>tf_a5 := 0\<rparr>) s1))
           (\<lambda>s2. Done (update_mgr (update_endpoint e (\<lambda>ep. ep\<lparr>ep_recv_buf_addr := 0, ep_recv_buf_capacity := 0,
                                                              ep_waiting_receiver := None\<rparr>))
                        (update_mgr (wake_task r) s2))))"

definition ipc_call_buf :: "usize \<Rightarrow> words4 \<Rightarrow> usize \<Rightarrow> usize \<Rightarrow> usize \<Rightarrow> kstate \<Rightarrow> (IpcResult \<times> kstate) outcome" where
  "ipc_call_buf e ws user_buf buf_len tf s =
     (case current_pid (mgr s) of None \<Rightarrow> Done (IpcError, s) | Some sender \<Rightarrow>
      case get_endpoint e (mgr s) of None \<Rightarrow> Done (IpcError, s) | Some ep \<Rightarrow>
      let owner = ep_owner ep;
          receiver_waiting = (ep_waiting_receiver ep = Some owner);
          buffered_blocked = (ep_has_buffered ep \<and> \<not> receiver_waiting) in
      if sender = owner \<or> q_is_full (ep_pending ep) \<or> buffered_blocked then Done (IpcError, s)
      else if IPC_BUF_SIZE < buf_len then Done (IpcError, s)
      else obind (fill_copy_buf e user_buf buf_len s) (\<lambda>(filled, s1).
        case filled of Inl _ \<Rightarrow> Done (IpcError, s1) | Inr _ \<Rightarrow>
        case task_index sender (mgr s1) of None \<Rightarrow> Done (IpcError, s1) | Some i \<Rightarrow>
        let s2 = sleep_task i (IpcCall e) tf s1;
            message = \<lparr>msg_sender = sender, msg_words = ws, msg_buf_len = ucast buf_len\<rparr> in
        obind
          (if receiver_waiting
           then case task_index owner (mgr s2) of None \<Rightarrow> Panic | Some r \<Rightarrow> deliver_buffered e sender ws buf_len r s2
           else Done (update_mgr (update_endpoint e (\<lambda>ep.
                   push_message message (if buf_len \<noteq> 0 then ep\<lparr>ep_has_buffered := True\<rparr> else ep))) s2))
          (\<lambda>s3. obind (schedule tf s3) (\<lambda>(f, s4). Done (Blocked f, s4)))))"

definition ipc_recv_buf :: "usize \<Rightarrow> usize \<Rightarrow> usize \<Rightarrow> usize \<Rightarrow> kstate \<Rightarrow> (IpcResult \<times> kstate) outcome" where
  "ipc_recv_buf e user_buf capacity tf s =
     (case current_pid (mgr s) of None \<Rightarrow> Done (IpcError, s) | Some receiver \<Rightarrow>
      case get_endpoint e (mgr s) of None \<Rightarrow> Done (IpcError, s) | Some ep \<Rightarrow>
      if ep_owner ep \<noteq> receiver then Done (IpcError, s)
      else case q_pop (ep_pending ep) of
        (Some msg, q) \<Rightarrow>
          let s1 = update_frame tf (set_message (msg_sender msg) (msg_words msg))
                     (update_mgr (update_endpoint e (\<lambda>ep. ep\<lparr>ep_pending := q\<rparr>)) s);
              no_data = (\<lambda>s. Done (Continue, update_frame tf (\<lambda>fr. fr\<lparr>tf_a5 := 0\<rparr>) s)) in
          if msg_buf_len msg = 0 then no_data s1
          else
            let s2 = update_mgr (update_endpoint e (\<lambda>ep. ep\<lparr>ep_has_buffered := False\<rparr>)) s1;
                copy_len = min (ucast (msg_buf_len msg)) capacity in
            (case current_index (mgr s2) of
               None \<Rightarrow> no_data s2
             | Some i \<Rightarrow>
                 obind (slice_to (ep_copy_buf ep) copy_len) (\<lambda>ep_buf.
                   obind (mem_copy_to_user (t_pagetable (task_at i (mgr s2))) user_buf ep_buf copy_len (mem s2)) (\<lambda>(res, k).
                     case res of
                       Inl _ \<Rightarrow> no_data (s2\<lparr>mem := k\<rparr>)
                     | Inr _ \<Rightarrow>
                         Done (Continue, update_frame tf (\<lambda>fr. fr\<lparr>tf_a5 := copy_len\<rparr>) (s2\<lparr>mem := k\<rparr>)))))
      | (None, _) \<Rightarrow>
          let s1 = update_mgr (update_endpoint e (\<lambda>ep. ep\<lparr>ep_waiting_receiver := Some receiver,
                                 ep_recv_buf_addr := user_buf, ep_recv_buf_capacity := capacity\<rparr>)) s in
          (case current_index (mgr s1) of
             None \<Rightarrow> Done (IpcError, s1)
           | Some i \<Rightarrow> obind (schedule tf (sleep_task i (IpcRecv e) tf s1)) (\<lambda>(f, s2). Done (Blocked f, s2))))"

end
