(* ===== verification/Ipc_Inv.thy ===== *)
theory Ipc_Inv
  imports Task_Ipc
begin

text \<open>
  The invariant of the task manager with its endpoints (\<open>src/kernel/task.rs\<close>): who waits for
  which event, how the endpoints record it, and the building blocks of the IPC operations that
  keep it. The operations themselves follow in \<open>Ipc_Spec\<close>.
\<close>

section \<open>Who waits for what\<close>

definition waits_on :: "TaskManager \<Rightarrow> u32 \<Rightarrow> WaitChannel \<Rightarrow> bool" where
  "waits_on m p ch \<longleftrightarrow> (\<exists>t. Some t \<in> set (tasks m) \<and> t_pid t = p \<and> t_waiting_for t = Some ch)"

lemma waits_on_cong: "tasks m = tasks m' \<Longrightarrow> waits_on m = waits_on m'"
  by (simp add: waits_on_def fun_eq_iff)

lemma waits_on_at:
  assumes "pids_unique m" and "i < length (tasks m)" and "tasks m ! i = Some t"
  shows "waits_on m (t_pid t) ch \<longleftrightarrow> t_waiting_for t = Some ch"
proof
  assume "waits_on m (t_pid t) ch"
  then obtain j u where "j < length (tasks m)" "tasks m ! j = Some u" "t_pid u = t_pid t" "t_waiting_for u = Some ch"
    by (auto simp: waits_on_def in_set_conv_nth)
  moreover from this have "j = i" using assms unfolding pids_unique_def by metis
  ultimately show "t_waiting_for t = Some ch" using assms(3) by simp
next
  assume "t_waiting_for t = Some ch"
  then show "waits_on m (t_pid t) ch" using assms nth_mem unfolding waits_on_def by metis
qed

lemma waits_on_update:
  assumes u: "pids_unique m" and i: "i < length (tasks m)" "tasks m ! i = Some t" and pid: "\<And>x. t_pid (f x) = t_pid x"
  shows "waits_on (update_task i f m) p ch \<longleftrightarrow> (if p = t_pid t then t_waiting_for (f t) = Some ch else waits_on m p ch)"
proof (cases "p = t_pid t")
  case True
  have "tasks (update_task i f m) ! i = Some (f t)" using i by (simp add: nth_update_task)
  then show ?thesis
    using waits_on_at [OF pids_unique_update [OF u pid], of i i "f t"] i True by (simp add: pid)
next
  case False
  have "waits_on (update_task i f m) p ch \<longleftrightarrow> waits_on m p ch"
  proof
    assume "waits_on (update_task i f m) p ch"
    then obtain j x where "j < length (tasks m)" "tasks (update_task i f m) ! j = Some x" "t_pid x = p" "t_waiting_for x = Some ch"
      by (auto simp: waits_on_def in_set_conv_nth)
    moreover from this have "j \<noteq> i" using False i by (auto simp: nth_update_task pid)
    ultimately show "waits_on m p ch" unfolding waits_on_def using nth_mem [of j "tasks m"] by (auto simp: nth_update_task)
  next
    assume "waits_on m p ch"
    then obtain j x where j: "j < length (tasks m)" "tasks m ! j = Some x" "t_pid x = p" "t_waiting_for x = Some ch"
      by (auto simp: waits_on_def in_set_conv_nth)
    then have "j \<noteq> i" using False i by auto
    then have "tasks (update_task i f m) ! j = Some x" using j by (simp add: nth_update_task)
    then show "waits_on (update_task i f m) p ch"
      unfolding waits_on_def using j nth_mem [of j "tasks (update_task i f m)"] by (auto intro: exI [of _ x])
  qed
  then show ?thesis using False by simp
qed

lemma waits_on_sleep:
  assumes "pids_unique m" and "i < length (tasks m)" and "tasks m ! i = Some t"
  shows "waits_on (sleep_mgr i c m) p ch \<longleftrightarrow> (if p = t_pid t then c = ch else waits_on m p ch)"
  using waits_on_update [OF assms, of "\<lambda>t. t\<lparr>t_state := Sleeping, t_waiting_for := Some c\<rparr>" p ch]
    waits_on_cong [OF sleep_mgr_simps(5), of i c m] by simp

lemma waits_on_wake:
  assumes "pids_unique m" and "i < length (tasks m)" and "tasks m ! i = Some t"
  shows "waits_on (wake_task i m) p ch \<longleftrightarrow> p \<noteq> t_pid t \<and> waits_on m p ch"
  using waits_on_update [OF assms, of "\<lambda>t. t\<lparr>t_state := Ready, t_waiting_for := None\<rparr>" p ch]
    waits_on_cong [OF wake_task_simps(5), of i m] by simp

lemma schedule_mgr_origin:
  assumes wf: "sched_wf m" and j: "j < MAX_TASKS" "tasks (schedule_mgr m) ! j = Some t"
    and st: "t_state t \<noteq> Ready" "t_state t \<noteq> Running"
  shows "tasks m ! j = Some t"
proof -
  let ?m2 = "put_back (reap_mgr m)"
  have len: "length (tasks ?m2) = MAX_TASKS" "length (tasks m) = MAX_TASKS" using wf by (simp_all add: sched_wf_def)
  have "tasks ?m2 ! j = Some t"
    using j st len by (auto simp: schedule_mgr_def Let_def nth_update_task split: option.splits if_splits)
  then show ?thesis
    using nth_put_back [OF reap_mgr_wf [OF wf] j(1)] nth_reap_mgr [of j m] j(1) len st by (auto split: if_splits)
qed

lemma waiting_sleeps:
  assumes "sched_wf m" and "Some t \<in> set (tasks m)" and "t_waiting_for t \<noteq> None"
  shows "t_state t = Sleeping"
  using assms by (auto simp: sched_wf_def task_ok_def)

lemma waits_on_schedule:
  assumes wf: "sched_wf m" and idle: "has_idle m"
  shows "waits_on (schedule_mgr m) = waits_on m"
proof (intro ext iffI)
  fix p ch
  have len: "length (tasks m) = MAX_TASKS" "length (tasks (schedule_mgr m)) = MAX_TASKS"
    using wf schedule_mgr_wf(1) [OF wf idle] by (simp_all add: sched_wf_def)
  assume "waits_on m p ch"
  then obtain t j where t: "j < MAX_TASKS" "tasks m ! j = Some t" "t_pid t = p" "t_waiting_for t = Some ch" "t_state t = Sleeping"
    using waiting_sleeps [OF wf] len(1) by (fastforce simp: waits_on_def in_set_conv_nth)
  then have "tasks (schedule_mgr m) ! j = Some t" by (intro schedule_mgr_keeps [OF wf idle])
  then show "waits_on (schedule_mgr m) p ch" unfolding waits_on_def using t len(2) nth_mem by metis
next
  fix p ch
  have wf': "sched_wf (schedule_mgr m)" by (rule schedule_mgr_wf(1) [OF wf idle])
  have len: "length (tasks m) = MAX_TASKS" "length (tasks (schedule_mgr m)) = MAX_TASKS"
    using wf wf' by (simp_all add: sched_wf_def)
  assume "waits_on (schedule_mgr m) p ch"
  then obtain t j where t: "j < MAX_TASKS" "tasks (schedule_mgr m) ! j = Some t" "t_pid t = p"
    "t_waiting_for t = Some ch" "t_state t = Sleeping"
    using waiting_sleeps [OF wf'] len(2) by (fastforce simp: waits_on_def in_set_conv_nth)
  then have "tasks m ! j = Some t" by (intro schedule_mgr_origin [OF wf]) simp_all
  then show "waits_on m p ch" unfolding waits_on_def using t len(1) nth_mem by metis
qed

section \<open>The invariant of the endpoints\<close>

text \<open>An endpoint records its owner as waiting exactly when the owner sleeps on it, and then its queue is empty;
  at most one queued message has its data in the endpoint's buffer.\<close>

definition endpoint_ok :: "(u32 \<Rightarrow> WaitChannel \<Rightarrow> bool) \<Rightarrow> usize \<Rightarrow> Endpoint \<Rightarrow> bool" where
  "endpoint_ok W e ep \<longleftrightarrow>
     q_wf (ep_pending ep) \<and> length (ep_copy_buf ep) = 4096 \<and>
     (\<forall>p. W p (IpcRecv e) \<longleftrightarrow> ep_waiting_receiver ep = Some p) \<and>
     (\<forall>p. ep_waiting_receiver ep = Some p \<longrightarrow> p = ep_owner ep \<and> q_list (ep_pending ep) = []) \<and>
     (\<forall>msg \<in> set (q_list (ep_pending ep)). msg_buf_len msg \<le> 4096) \<and>
     length (filter (\<lambda>msg. msg_buf_len msg \<noteq> 0) (q_list (ep_pending ep))) \<le> of_bool (ep_has_buffered ep)"

definition ipc_wf :: "TaskManager \<Rightarrow> bool" where
  "ipc_wf m \<longleftrightarrow>
     length (endpoints m) = MAX_ENDPOINTS \<and>
     (\<forall>e ep. get_endpoint e m = Some ep \<longrightarrow> endpoint_ok (waits_on m) e ep) \<and>
     (\<forall>p e. waits_on m p (IpcRecv e) \<longrightarrow> get_endpoint e m \<noteq> None) \<and>
     (\<forall>p e. waits_on m p (IpcCall e) \<longrightarrow> is_some_and (\<lambda>ep. ep_owner ep \<noteq> p) (get_endpoint e m))"

definition pids_fresh :: "TaskManager \<Rightarrow> bool" where
  "pids_fresh m \<longleftrightarrow> (\<forall>t. Some t \<in> set (tasks m) \<longrightarrow> t_pid t < next_pid m)"

text \<open>The invariant inside the kernel, and between traps.\<close>

definition mgr_ok :: "TaskManager \<Rightarrow> bool" where
  "mgr_ok m \<longleftrightarrow> sched_wf m \<and> has_idle m \<and> ipc_wf m \<and> pids_fresh m"

definition kernel_ok :: "TaskManager \<Rightarrow> bool" where
  "kernel_ok m \<longleftrightarrow> mgr_ok m \<and> running m"

lemma mgr_okI: "sched_wf m \<Longrightarrow> has_idle m \<Longrightarrow> ipc_wf m \<Longrightarrow> pids_fresh m \<Longrightarrow> mgr_ok m"
  by (simp add: mgr_ok_def)

lemma mgr_okD: "mgr_ok m \<Longrightarrow> sched_wf m" "mgr_ok m \<Longrightarrow> has_idle m" "mgr_ok m \<Longrightarrow> ipc_wf m" "mgr_ok m \<Longrightarrow> pids_fresh m"
  "mgr_ok m \<Longrightarrow> pids_unique m" "mgr_ok m \<Longrightarrow> length (tasks m) = MAX_TASKS"
  by (simp_all add: mgr_ok_def sched_wf_def)

lemma kernel_okD: "kernel_ok m \<Longrightarrow> mgr_ok m" "kernel_ok m \<Longrightarrow> running m"
  by (simp_all add: kernel_ok_def)

lemma get_endpoint_update [simp]:
  "get_endpoint e' (update_endpoint e f m) = (if e' = e then map_option f (get_endpoint e m) else get_endpoint e' m)"
  by (auto simp: get_endpoint_def update_endpoint_def nth_list_update word_unat_eq_iff)

lemma get_endpoint_cong: "endpoints m = endpoints m' \<Longrightarrow> get_endpoint e m = get_endpoint e m'"
  by (simp add: get_endpoint_def)

lemma get_endpoint_steps [simp]:
  "get_endpoint e (wake_task i m) = get_endpoint e m" "get_endpoint e (sleep_mgr i ch m) = get_endpoint e m"
  by (simp_all add: get_endpoint_def)

lemma update_endpoint_simps [simp]:
  "tasks (update_endpoint e f m) = tasks m" "current_pid (update_endpoint e f m) = current_pid m"
  "next_pid (update_endpoint e f m) = next_pid m" "runnable_count (update_endpoint e f m) = runnable_count m"
  "length (endpoints (update_endpoint e f m)) = length (endpoints m)" "uart_owner (update_endpoint e f m) = uart_owner m"
  by (simp_all add: update_endpoint_def)

lemma update_endpoint_wf [simp]:
  "sched_wf (update_endpoint e f m) = sched_wf m" "has_idle (update_endpoint e f m) = has_idle m"
  "waits_on (update_endpoint e f m) = waits_on m" "pids_fresh (update_endpoint e f m) = pids_fresh m"
  "task_index p (update_endpoint e f m) = task_index p m" "current_index (update_endpoint e f m) = current_index m"
  "task_at i (update_endpoint e f m) = task_at i m" "running (update_endpoint e f m) = running m"
  by (simp_all add: update_endpoint_def waits_on_def fun_eq_iff pids_fresh_def task_index_def current_index_def task_at_def running_def
       cong: option.case_cong)

lemma ipc_wf_cong:
  assumes "endpoints m = endpoints m'" and "waits_on m = waits_on m'"
  shows "ipc_wf m = ipc_wf m'"
  using assms(2) get_endpoint_cong [OF assms(1)] assms(1) by (simp add: ipc_wf_def)

lemma pids_fresh_sub:
  assumes "pids_fresh m" and "next_pid m' = next_pid m"
    and "\<And>t. Some t \<in> set (tasks m') \<Longrightarrow> \<exists>u. Some u \<in> set (tasks m) \<and> t_pid u = t_pid t"
  shows "pids_fresh m'"
  unfolding pids_fresh_def
proof (intro allI impI)
  fix t assume "Some t \<in> set (tasks m')"
  from assms(3) [OF this] obtain u where "Some u \<in> set (tasks m)" "t_pid u = t_pid t" by blast
  then have "t_pid t < next_pid m" using assms(1) unfolding pids_fresh_def by metis
  then show "t_pid t < next_pid m'" using assms(2) by simp
qed

lemma pids_fresh_cong: "tasks m = tasks m' \<Longrightarrow> next_pid m = next_pid m' \<Longrightarrow> pids_fresh m = pids_fresh m'"
  by (simp add: pids_fresh_def)

lemma pids_fresh_update:
  assumes "pids_fresh m" and "\<And>t. t_pid (f t) = t_pid t"
  shows "pids_fresh (update_task i f m)"
proof (rule pids_fresh_sub [OF assms(1)])
  fix t assume "Some t \<in> set (tasks (update_task i f m))"
  then obtain j where j: "j < length (tasks m)" "tasks (update_task i f m) ! j = Some t" by (auto simp: in_set_conv_nth)
  then obtain u where "tasks m ! j = Some u" "t_pid u = t_pid t"
    using assms(2) by (auto simp: nth_update_task split: if_splits)
  then show "\<exists>u. Some u \<in> set (tasks m) \<and> t_pid u = t_pid t" using j(1) nth_mem by metis
qed simp

lemma pids_fresh_steps:
  assumes "pids_fresh m"
  shows "pids_fresh (sleep_mgr i ch m)" and "pids_fresh (wake_task i m)"
  using pids_fresh_update [OF assms, of "\<lambda>t. t\<lparr>t_state := Sleeping, t_waiting_for := Some ch\<rparr>" i]
    pids_fresh_update [OF assms, of "\<lambda>t. t\<lparr>t_state := Ready, t_waiting_for := None\<rparr>" i]
  by (simp_all add: pids_fresh_def)

lemma pids_fresh_schedule:
  assumes wf: "sched_wf m" and f: "pids_fresh m"
  shows "pids_fresh (schedule_mgr m)"
proof (rule pids_fresh_sub [OF f])
  fix t assume t: "Some t \<in> set (tasks (schedule_mgr m))"
  let ?m2 = "put_back (reap_mgr m)"
  have len: "length (tasks ?m2) = MAX_TASKS" "length (tasks m) = MAX_TASKS" using wf by (simp_all add: sched_wf_def)
  obtain j where j: "j < MAX_TASKS" "tasks (schedule_mgr m) ! j = Some t"
    using t len by (auto simp: in_set_conv_nth schedule_mgr_def Let_def split: option.splits)
  have "\<exists>v. tasks ?m2 ! j = Some v \<and> t_pid v = t_pid t"
    using j len by (auto simp: schedule_mgr_def Let_def nth_update_task split: option.splits if_splits)
  then have "\<exists>v. tasks (reap_mgr m) ! j = Some v \<and> t_pid v = t_pid t"
    using nth_put_back [OF reap_mgr_wf [OF wf] j(1)] by (auto split: if_splits)
  then have "\<exists>v. tasks m ! j = Some v \<and> t_pid v = t_pid t"
    using nth_reap_mgr [of j m] j(1) len by (auto split: if_splits)
  then show "\<exists>u. Some u \<in> set (tasks m) \<and> t_pid u = t_pid t" using j(1) len nth_mem by metis
qed (simp add: schedule_mgr_def Let_def split: option.split)

lemma endpoints_schedule_mgr [simp]: "endpoints (schedule_mgr m) = endpoints m"
  "next_pid (schedule_mgr m) = next_pid m" "uart_owner (schedule_mgr m) = uart_owner m"
  by (simp_all add: schedule_mgr_def Let_def split: option.split)

lemma schedule_mgr_ok:
  assumes "mgr_ok m"
  shows "kernel_ok (schedule_mgr m)"
proof -
  note w = schedule_mgr_wf [OF mgr_okD(1) [OF assms] mgr_okD(2) [OF assms]]
  have "ipc_wf (schedule_mgr m) = ipc_wf m"
    by (rule ipc_wf_cong) (use waits_on_schedule mgr_okD [OF assms] in auto)
  then show ?thesis
    using w pids_fresh_schedule mgr_okD [OF assms] by (simp add: kernel_ok_def mgr_ok_def)
qed

lemma schedule_ok:
  assumes "mgr_ok (mgr s)" and "schedule tf s = Done (f, s')"
  shows "kernel_ok (mgr s')" and "next_pid (mgr s') = next_pid (mgr s)" and "kernel_pt s' = kernel_pt s"
  using schedule_mgr_ok [OF assms(1)] schedule_Done [OF mgr_okD(1) [OF assms(1)] assms(2)] by simp_all

section \<open>Building blocks that keep the invariant\<close>

text \<open>A change of one endpoint that leaves its owner and its receiver alone.\<close>

lemma update_endpoint_ok:
  assumes ok: "mgr_ok m"
    and f: "\<And>ep. get_endpoint e m = Some ep \<Longrightarrow> endpoint_ok (waits_on m) e ep \<Longrightarrow> endpoint_ok (waits_on m) e (f ep)"
    and o: "\<And>ep. ep_owner (f ep) = ep_owner ep"
  shows "mgr_ok (update_endpoint e f m)"
proof (rule mgr_okI)
  note wf = mgr_okD(3) [OF ok, unfolded ipc_wf_def]
  show "ipc_wf (update_endpoint e f m)"
    unfolding ipc_wf_def
  proof (intro conjI allI impI)
    show "length (endpoints (update_endpoint e f m)) = MAX_ENDPOINTS" using wf by simp
    show "endpoint_ok (waits_on (update_endpoint e f m)) e' ep" if "get_endpoint e' (update_endpoint e f m) = Some ep" for e' ep
      using that wf f by (cases "e' = e") auto
    show "get_endpoint e' (update_endpoint e f m) \<noteq> None" if "waits_on (update_endpoint e f m) p (IpcRecv e')" for p e'
      using that wf by (auto split: if_splits)
    show "is_some_and (\<lambda>ep. ep_owner ep \<noteq> p) (get_endpoint e' (update_endpoint e f m))"
      if "waits_on (update_endpoint e f m) p (IpcCall e')" for p e'
    proof -
      have "is_some_and (\<lambda>ep. ep_owner ep \<noteq> p) (get_endpoint e' m)" using that wf by simp
      then show ?thesis by (auto simp: is_some_and_iff o)
    qed
  qed
qed (use mgr_okD [OF ok] in simp_all)

text \<open>A sleep on an event other than a receive.\<close>

lemma sleep_mgr_ok:
  assumes ok: "mgr_ok m" and i: "i < MAX_TASKS" "tasks m ! i = Some t" "runnable t"
    and ch: "\<And>e. ch \<noteq> IpcRecv e" "\<And>e. ch = IpcCall e \<Longrightarrow> is_some_and (\<lambda>ep. ep_owner ep \<noteq> t_pid t) (get_endpoint e m)"
  shows "mgr_ok (sleep_mgr i ch m)"
proof (rule mgr_okI)
  note wf = mgr_okD(3) [OF ok, unfolded ipc_wf_def]
  note ok' = sched_wf_task_ok [OF mgr_okD(1) [OF ok] i(1,2)]
  have awake: "t_waiting_for t = None"
    using ok' i(3) unfolding task_ok_def runnable_def by auto
  have il: "i < length (tasks m)" using i(1) mgr_okD(6) [OF ok] by simp
  have was: "\<not> waits_on m (t_pid t) c" for c
    using waits_on_at [OF mgr_okD(5) [OF ok] il i(2)] awake by simp
  note w = waits_on_sleep [OF mgr_okD(5) [OF ok] il i(2)]
  have "waits_on (sleep_mgr i ch m) p (IpcRecv e) = waits_on m p (IpcRecv e)" for p e
    using w was ch(1) by auto
  then show "ipc_wf (sleep_mgr i ch m)"
    using wf w ch(2) by (auto simp: ipc_wf_def endpoint_ok_def)
qed (use mgr_okD [OF ok] sleep_mgr_wf [OF _ i] pids_fresh_steps in simp_all)

text \<open>A task is woken from an event other than a receive.\<close>

lemma wake_task_ok:
  assumes ok: "mgr_ok m" and i: "i < MAX_TASKS" "tasks m ! i = Some t" "t_waiting_for t = Some ch"
    and ch: "\<And>e. ch \<noteq> IpcRecv e"
  shows "mgr_ok (wake_task i m)"
proof (rule mgr_okI)
  note wf = mgr_okD(3) [OF ok, unfolded ipc_wf_def]
  have il: "i < length (tasks m)" using i(1) mgr_okD(6) [OF ok] by simp
  note w = waits_on_wake [OF mgr_okD(5) [OF ok] il i(2)]
  note at = waits_on_at [OF mgr_okD(5) [OF ok] il i(2)]
  have st: "t_state t = Sleeping"
    using waiting_sleeps [OF mgr_okD(1) [OF ok], of t] i(2,3) il nth_mem by (metis option.distinct(1))
  have recv: "waits_on (wake_task i m) p (IpcRecv e) = waits_on m p (IpcRecv e)" for p e
    using w at i(3) ch by auto
  have "waits_on (wake_task i m) p (IpcCall e) \<Longrightarrow> waits_on m p (IpcCall e)" for p e
    using w by simp
  then show "ipc_wf (wake_task i m)"
    using wf by (simp add: ipc_wf_def endpoint_ok_def recv)
  show "sched_wf (wake_task i m)" by (rule wake_task_wf [OF mgr_okD(1) [OF ok] i(1,2) st])
qed (use mgr_okD [OF ok] pids_fresh_steps in simp_all)

text \<open>The owner of an endpoint blocks in a receive.\<close>

lemma recv_block_ok:
  assumes ok: "mgr_ok m" and i: "i < MAX_TASKS" "tasks m ! i = Some t" "runnable t"
    and ep: "get_endpoint e m = Some ep" "ep_owner ep = t_pid t" "q_list (ep_pending ep) = []"
    and f: "\<And>ep. ep_waiting_receiver (f ep) = Some (t_pid t) \<and> ep_owner (f ep) = ep_owner ep \<and> ep_pending (f ep) = ep_pending ep \<and>
             ep_copy_buf (f ep) = ep_copy_buf ep \<and> ep_has_buffered (f ep) = ep_has_buffered ep"
  shows "mgr_ok (sleep_mgr i (IpcRecv e) (update_endpoint e f m))"
proof (rule mgr_okI)
  let ?m = "sleep_mgr i (IpcRecv e) (update_endpoint e f m)"
  note wf = mgr_okD(3) [OF ok, unfolded ipc_wf_def]
  have il: "i < length (tasks m)" using i(1) mgr_okD(6) [OF ok] by simp
  have awake: "t_waiting_for t = None"
    using sched_wf_task_ok [OF mgr_okD(1) [OF ok] i(1,2)] i(3) unfolding task_ok_def runnable_def by auto
  have was: "\<not> waits_on m (t_pid t) c" for c
    using waits_on_at [OF mgr_okD(5) [OF ok] il i(2)] awake by simp
  have u: "pids_unique (update_endpoint e f m)" using mgr_okD(5) [OF ok] by (simp add: pids_unique_def)
  have w: "waits_on ?m p c \<longleftrightarrow> (if p = t_pid t then IpcRecv e = c else waits_on m p c)" for p c
    using waits_on_sleep [OF u, of i t "IpcRecv e" p c] il i(2) by simp
  have ge: "get_endpoint e' ?m = (if e' = e then Some (f ep) else get_endpoint e' m)" for e'
    using ep(1) by simp
  have epok: "endpoint_ok (waits_on m) e ep" using wf ep(1) by blast
  show "ipc_wf ?m"
    unfolding ipc_wf_def
  proof (intro conjI allI impI)
    show "length (endpoints ?m) = MAX_ENDPOINTS" using wf by simp
    show "endpoint_ok (waits_on ?m) e' ep'" if g: "get_endpoint e' ?m = Some ep'" for e' ep'
    proof (cases "e' = e")
      case True
      have nobody: "\<not> waits_on m p (IpcRecv e)" for p
        using epok was [of "IpcRecv e"] ep(2) unfolding endpoint_ok_def by metis
      show ?thesis
        using epok g True f [of ep] ep(2) w nobody
        unfolding endpoint_ok_def ge by (auto simp: ep(3) simp del: q_list_Nil_iff)
    next
      case False
      then have "endpoint_ok (waits_on m) e' ep'" using g wf by (simp add: ge)
      moreover have "waits_on ?m p (IpcRecv e') = waits_on m p (IpcRecv e')" for p
        using w was False by auto
      ultimately show ?thesis unfolding endpoint_ok_def by simp
    qed
    show "get_endpoint e' ?m \<noteq> None" if "waits_on ?m p (IpcRecv e')" for p e'
      using that wf ep(1) by (auto simp: w split: if_splits)
    show "is_some_and (\<lambda>ep. ep_owner ep \<noteq> p) (get_endpoint e' ?m)" if "waits_on ?m p (IpcCall e')" for p e'
    proof -
      have "is_some_and (\<lambda>ep. ep_owner ep \<noteq> p) (get_endpoint e' m)" using that wf by (auto simp: w split: if_splits)
      then show ?thesis using f ep(1) by (auto simp: ge)
    qed
  qed
  show "sched_wf ?m" using sleep_mgr_wf [of "update_endpoint e f m" i t] mgr_okD(1) [OF ok] i by simp
qed (use mgr_okD [OF ok] pids_fresh_steps in simp_all)

text \<open>A waiting receiver is woken and the endpoint forgets it.\<close>

lemma deliver_ok:
  assumes ok: "mgr_ok m" and ep: "get_endpoint e m = Some ep" "ep_waiting_receiver ep = Some p" "task_index p m = Some r"
    and f: "\<And>ep. ep_waiting_receiver (f ep) = None \<and> ep_owner (f ep) = ep_owner ep \<and> ep_pending (f ep) = ep_pending ep \<and>
             ep_copy_buf (f ep) = ep_copy_buf ep \<and> ep_has_buffered (f ep) = ep_has_buffered ep"
  shows "mgr_ok (update_endpoint e f (wake_task r m))"
proof (rule mgr_okI)
  let ?m = "update_endpoint e f (wake_task r m)"
  note wf = mgr_okD(3) [OF ok, unfolded ipc_wf_def]
  note tr = task_index_Some [OF ep(3)]
  have epok: "endpoint_ok (waits_on m) e ep" using wf ep(1) by blast
  note at = waits_on_at [OF mgr_okD(5) [OF ok] tr(1,2), unfolded tr(3)]
  have wt: "t_waiting_for (task_at r m) = Some (IpcRecv e)"
    using epok ep(2) at unfolding endpoint_ok_def by blast
  have st: "t_state (task_at r m) = Sleeping"
    using waiting_sleeps [OF mgr_okD(1) [OF ok], of "task_at r m"] wt tr(1,2) nth_mem by (metis option.distinct(1))
  have w: "waits_on (wake_task r m) q c \<longleftrightarrow> q \<noteq> p \<and> waits_on m q c" for q c
    using waits_on_wake [OF mgr_okD(5) [OF ok] tr(1,2), unfolded tr(3)] by simp
  have ge: "get_endpoint e' ?m = (if e' = e then Some (f ep) else get_endpoint e' m)" for e'
    using ep(1) by simp
  show "ipc_wf ?m"
    unfolding ipc_wf_def
  proof (intro conjI allI impI)
    show "length (endpoints ?m) = MAX_ENDPOINTS" using wf by simp
    show "endpoint_ok (waits_on ?m) e' ep'" if g: "get_endpoint e' ?m = Some ep'" for e' ep'
    proof (cases "e' = e")
      case True
      show ?thesis
        using epok g True f [of ep] ep(2) w unfolding endpoint_ok_def ge by auto
    next
      case False
      then have "endpoint_ok (waits_on m) e' ep'" using g wf by (simp add: ge)
      moreover have "waits_on ?m q (IpcRecv e') = waits_on m q (IpcRecv e')" for q
        using w at wt False by auto
      ultimately show ?thesis unfolding endpoint_ok_def by simp
    qed
    show "get_endpoint e' ?m \<noteq> None" if "waits_on ?m q (IpcRecv e')" for q e'
      using that wf ep(1) by (auto simp: w split: if_splits)
    show "is_some_and (\<lambda>ep. ep_owner ep \<noteq> q) (get_endpoint e' ?m)" if "waits_on ?m q (IpcCall e')" for q e'
    proof -
      have "is_some_and (\<lambda>ep. ep_owner ep \<noteq> q) (get_endpoint e' m)" using that wf by (auto simp: w split: if_splits)
      then show ?thesis using f ep(1) by (auto simp: ge)
    qed
  qed
  have rl: "r < MAX_TASKS" using tr(1) mgr_okD(6) [OF ok] by simp
  show "sched_wf ?m" using wake_task_wf [OF mgr_okD(1) [OF ok] rl tr(2) st] by simp
qed (use mgr_okD [OF ok] pids_fresh_steps in simp_all)

end
