(* ===== verification/Ipc_Spec.thy ===== *)
theory Ipc_Spec
  imports Ipc_Inv
begin

text \<open>
  The IPC operations of \<open>src/kernel/task.rs\<close> keep the invariant of \<open>Ipc_Inv\<close> and never panic;
  then what they do: the rendezvous of a call with a waiting receiver, the queueing of a call,
  the receipt of the oldest message, and who may reply to whom.
\<close>

section \<open>Scheduling never panics\<close>

lemma free_task_no_panic: "free_task t k \<noteq> Panic"
  by (simp add: free_task_def free_user_space_def Let_def split: option.split)

lemma reap_loop_no_panic: "reap_loop is s \<noteq> Panic"
proof (induction "is" arbitrary: s)
  case (Cons i "is")
  then show ?case
    using free_task_no_panic [of "task_at i (mgr s)" "mem s"]
    by (cases "free_task (task_at i (mgr s)) (mem s)") auto
qed simp

lemma schedule_no_panic: "schedule tf s \<noteq> Panic"
  using reap_loop_no_panic [of "[0..<MAX_TASKS]" s]
  by (cases "reap_loop [0..<MAX_TASKS] s")
     (simp_all add: schedule_def reap_detached_zombies_def Let_def split: option.split)

text \<open>What a kernel operation keeps: the invariant, the kernel's page table, the next pid.\<close>

definition keeps :: "kstate \<Rightarrow> kstate \<Rightarrow> bool" where
  "keeps s s' \<longleftrightarrow> kernel_ok (mgr s') \<and> kernel_pt s' = kernel_pt s \<and> next_pid (mgr s') = next_pid (mgr s)"

lemma keeps_refl [simp]: "kernel_ok (mgr s) \<Longrightarrow> keeps s s"
  by (simp add: keeps_def)

lemma update_frame_simps [simp]:
  "mgr (update_frame a f s) = mgr s" "kernel_pt (update_frame a f s) = kernel_pt s"
  "plic_regs (update_frame a f s) = plic_regs s" "load_frame a (update_frame a f s) = f (load_frame a s)"
  by (simp_all add: update_frame_def)

lemma safe_schedule:
  assumes "mgr_ok (mgr s)" and "kernel_pt s = kernel_pt s0" and "next_pid (mgr s) = next_pid (mgr s0)"
    and "\<And>f s'. schedule tf s = Done (f, s') \<Longrightarrow> keeps s0 s' \<Longrightarrow> P (f, s')"
  shows "safe P (schedule tf s)"
  using schedule_no_panic [of tf s] schedule_ok [OF assms(1), of tf] assms(2-4)
  by (auto simp: safe_iff keeps_def)

section \<open>The operations keep the invariant\<close>

lemma current_slot:
  assumes ok: "kernel_ok m" and nid: "current_pid m \<noteq> Some IDLE_PID"
  obtains i t where "current_index m = Some i" and "i < MAX_TASKS" and "tasks m ! i = Some t" and "runnable t"
    and "current_pid m = Some (t_pid t)" and "task_index (t_pid t) m = Some i" and "task_at i m = t"
    and "t_waiting_for t = None"
proof -
  note wf = mgr_okD(1) [OF kernel_okD(1) [OF ok]]
  obtain i where i: "current_index m = Some i" using kernel_okD(2) [OF ok] by (auto simp: running_def)
  note ct = current_task [OF wf i]
  note r = current_runnable [OF kernel_okD(2) [OF ok] i nid]
  have "t_waiting_for (task_at i m) = None"
    using sched_wf_task_ok [OF wf ct(1,2)] r unfolding task_ok_def runnable_def by auto
  moreover have "task_index (t_pid (task_at i m)) m = Some i" using i ct(3) by (simp add: current_index_def)
  ultimately show ?thesis using that [OF i ct(1,2) r ct(3)] by simp
qed

lemma get_endpoint_ok: "mgr_ok m \<Longrightarrow> get_endpoint e m = Some ep \<Longrightarrow> endpoint_ok (waits_on m) e ep"
  by (simp add: mgr_ok_def ipc_wf_def)

lemma push_message_ok:
  assumes "endpoint_ok W e ep" and "\<not> q_is_full (ep_pending ep)" and "ep_waiting_receiver ep = None"
    and "msg_buf_len msg \<le> 4096"
    and "msg_buf_len msg \<noteq> 0 \<Longrightarrow> \<not> ep_has_buffered ep"
  shows "endpoint_ok W e (push_message msg (if msg_buf_len msg \<noteq> 0 then ep\<lparr>ep_has_buffered := True\<rparr> else ep))"
    and "q_list (ep_pending (push_message msg ep)) = q_list (ep_pending ep) @ [msg]"
proof -
  obtain q where q: "q_push msg (ep_pending ep) = (Ok (), q)" using assms(2) by (simp add: q_push_def)
  have wf: "q_wf (ep_pending ep)" using assms(1) by (simp add: endpoint_ok_def)
  note p = q_push_Ok [OF wf q]
  show "q_list (ep_pending (push_message msg ep)) = q_list (ep_pending ep) @ [msg]"
    using p by (simp add: push_message_def q)
  show "endpoint_ok W e (push_message msg (if msg_buf_len msg \<noteq> 0 then ep\<lparr>ep_has_buffered := True\<rparr> else ep))"
    using assms p by (auto simp: endpoint_ok_def push_message_def q)
qed

lemma pop_message_ok:
  assumes "endpoint_ok W e ep" and "q_pop (ep_pending ep) = (Some msg, q)"
  shows "endpoint_ok W e (ep\<lparr>ep_pending := q\<rparr>)" and "q_list (ep_pending ep) = msg # q_list q"
    and "msg_buf_len msg \<noteq> 0 \<Longrightarrow> endpoint_ok W e (ep\<lparr>ep_pending := q, ep_has_buffered := False\<rparr>)"
    and "msg_buf_len msg \<le> 4096" and "ep_waiting_receiver ep = None"
proof -
  have wf: "q_wf (ep_pending ep)" using assms(1) by (simp add: endpoint_ok_def)
  note p = q_pop_Some [OF wf assms(2)]
  then show l: "q_list (ep_pending ep) = msg # q_list q" by blast
  show "msg_buf_len msg \<le> 4096" using assms(1) l by (simp add: endpoint_ok_def)
  show none: "ep_waiting_receiver ep = None"
    using assms(1) l by (cases "ep_waiting_receiver ep") (auto simp: endpoint_ok_def simp del: q_list_Nil_iff)
  have f: "length (filter (\<lambda>msg. msg_buf_len msg \<noteq> 0) (q_list q)) + of_bool (msg_buf_len msg \<noteq> 0) \<le> of_bool (ep_has_buffered ep)"
    using assms(1) by (cases "ep_has_buffered ep") (auto simp: endpoint_ok_def l simp del: q_list_Nil_iff split: if_splits)
  then show "endpoint_ok W e (ep\<lparr>ep_pending := q\<rparr>)"
    using assms(1) p none by (auto simp: endpoint_ok_def simp del: q_list_Nil_iff)
  show "endpoint_ok W e (ep\<lparr>ep_pending := q, ep_has_buffered := False\<rparr>)" if "msg_buf_len msg \<noteq> 0"
  proof -
    have "length (filter (\<lambda>msg. msg_buf_len msg \<noteq> 0) (q_list q)) = 0"
      using f that by (cases "ep_has_buffered ep") auto
    then show ?thesis using assms(1) p none by (auto simp: endpoint_ok_def simp del: q_list_Nil_iff)
  qed
qed

lemma task_index_update:
  assumes "\<And>t. t_pid (f t) = t_pid t"
  shows "task_index p (update_task i f m) = task_index p m"
proof -
  have "has_pid p (tasks (update_task i f m) ! j) = has_pid p (tasks m ! j)" if "j < length (tasks m)" for j
    using that assms by (auto simp: nth_update_task has_pid_iff)
  then show ?thesis unfolding task_index_def by (intro position_cong) auto
qed

lemma task_index_cong: "tasks m = tasks m' \<Longrightarrow> task_index p m = task_index p m'"
  by (simp add: task_index_def)

lemma current_index_cong: "tasks m = tasks m' \<Longrightarrow> current_pid m = current_pid m' \<Longrightarrow> current_index m = current_index m'"
  by (simp add: current_index_def task_index_def split: option.split)

lemma running_cong: "tasks m = tasks m' \<Longrightarrow> current_pid m = current_pid m' \<Longrightarrow> running m = running m'"
  using current_index_cong [of m m'] by (simp add: running_def task_at_def)

lemma task_index_steps [simp]:
  "task_index p (sleep_mgr i ch m) = task_index p m" "task_index p (wake_task i m) = task_index p m"
  using task_index_cong [OF sleep_mgr_simps(5)] task_index_cong [OF wake_task_simps(5)]
  by (simp_all add: task_index_update)

text \<open>A recorded receiver exists and sleeps.\<close>

lemma waiting_receiver_slot:
  assumes ok: "mgr_ok m" and ep: "get_endpoint e m = Some ep" "ep_waiting_receiver ep = Some p"
  obtains r where "task_index p m = Some r" and "r < MAX_TASKS" and "tasks m ! r = Some (task_at r m)"
    and "t_state (task_at r m) = Sleeping" and "t_waiting_for (task_at r m) = Some (IpcRecv e)" and "p = ep_owner ep"
proof -
  have e: "waits_on m p (IpcRecv e)" "p = ep_owner ep"
    using get_endpoint_ok [OF ok ep(1)] ep(2) by (auto simp: endpoint_ok_def)
  then obtain t where t: "Some t \<in> set (tasks m)" "t_pid t = p" "t_waiting_for t = Some (IpcRecv e)"
    by (auto simp: waits_on_def)
  have "task_index p m \<noteq> None" using t(1,2) by (auto simp: task_index_None)
  then obtain r where r: "task_index p m = Some r" by blast
  note tr = task_index_Some [OF r]
  have "t_waiting_for (task_at r m) = Some (IpcRecv e)"
    using waits_on_at [OF mgr_okD(5) [OF ok] tr(1,2), unfolded tr(3)] e(1) by blast
  moreover have "Some (task_at r m) \<in> set (tasks m)" using tr(1,2) nth_mem by metis
  ultimately show ?thesis
    using that r tr e(2) waiting_sleeps [OF mgr_okD(1) [OF ok], of "task_at r m"] mgr_okD(6) [OF ok] by simp
qed

lemma ipc_call_safe:
  assumes ok: "kernel_ok (mgr s)" and nid: "current_pid (mgr s) \<noteq> Some IDLE_PID"
  shows "safe (\<lambda>(r, s'). keeps s s') (ipc_call e ws tf s)"
proof (cases "get_endpoint e (mgr s)")
  case None
  then show ?thesis using ok by (simp add: ipc_call_def split: option.split)
next
  case (Some ep)
  obtain i t where ci: "current_index (mgr s) = Some i" and i: "i < MAX_TASKS" "tasks (mgr s) ! i = Some t" "runnable t"
    and cp: "current_pid (mgr s) = Some (t_pid t)" and ti: "task_index (t_pid t) (mgr s) = Some i"
    using current_slot [OF ok nid] by metis
  show ?thesis
  proof (cases "t_pid t = ep_owner ep \<or> q_is_full (ep_pending ep)")
    case True
    then show ?thesis using ok Some cp by (simp add: ipc_call_def)
  next
    case False
    let ?s1 = "sleep_task i (IpcCall e) tf s"
    have ok1: "mgr_ok (mgr ?s1)"
      using sleep_mgr_ok [OF kernel_okD(1) [OF ok] i, of "IpcCall e"] Some False by auto
    have ep1: "get_endpoint e (mgr ?s1) = Some ep" using Some by simp
    note epok = get_endpoint_ok [OF ok1 ep1]
    show ?thesis
    proof (cases "ep_waiting_receiver ep")
      case None
      let ?msg = "\<lparr>msg_sender = t_pid t, msg_words = ws, msg_buf_len = 0\<rparr>"
      have "mgr_ok (update_endpoint e (push_message ?msg) (mgr ?s1))"
        by (rule update_endpoint_ok [OF ok1])
           (use push_message_ok(1) [of _ e ep ?msg] ep1 False None in \<open>auto simp: push_message_def\<close>)
      then show ?thesis
        using Some cp ti False None by (simp add: ipc_call_def Let_def) (rule safe_schedule [where ?s0.0 = s], simp_all)
    next
      case (Some p)
      obtain r where r: "task_index p (mgr ?s1) = Some r" "p = ep_owner ep"
        using waiting_receiver_slot [OF ok1 ep1 Some] by metis
      have "mgr_ok (update_endpoint e (\<lambda>ep. ep\<lparr>ep_waiting_receiver := None\<rparr>) (wake_task r (mgr ?s1)))"
        by (rule deliver_ok [OF ok1 ep1 Some r(1)]) simp
      then show ?thesis
        using \<open>get_endpoint e (mgr s) = Some ep\<close> cp ti False Some r
        by (simp add: ipc_call_def Let_def) (rule safe_schedule [where ?s0.0 = s], simp_all)
    qed
  qed
qed

lemma ipc_recv_safe:
  assumes ok: "kernel_ok (mgr s)" and nid: "current_pid (mgr s) \<noteq> Some IDLE_PID"
  shows "safe (\<lambda>(r, s'). keeps s s') (ipc_recv e tf s)"
proof (cases "get_endpoint e (mgr s)")
  case None
  then show ?thesis using ok by (simp add: ipc_recv_def split: option.split)
next
  case (Some ep)
  obtain i t where ci: "current_index (mgr s) = Some i" and i: "i < MAX_TASKS" "tasks (mgr s) ! i = Some t" "runnable t"
    and cp: "current_pid (mgr s) = Some (t_pid t)"
    using current_slot [OF ok nid] by metis
  note ok' = kernel_okD(1) [OF ok]
  note epok = get_endpoint_ok [OF ok' Some]
  show ?thesis
  proof (cases "ep_owner ep = t_pid t")
    case False
    then show ?thesis using ok Some cp by (simp add: ipc_recv_def)
  next
    case own: True
    obtain m q where pop: "q_pop (ep_pending ep) = (m, q)" by (cases "q_pop (ep_pending ep)")
    show ?thesis
    proof (cases m)
      case None
      have "q_list (ep_pending ep) = []"
        using q_pop_None pop None epok by (auto simp: endpoint_ok_def)
      then have "mgr_ok (sleep_mgr i (IpcRecv e) (update_endpoint e (\<lambda>ep. ep\<lparr>ep_waiting_receiver := Some (t_pid t)\<rparr>) (mgr s)))"
        by (intro recv_block_ok [OF ok' i Some own]) simp_all
      then show ?thesis
        using Some cp own pop None ci by (simp add: ipc_recv_def Let_def) (rule safe_schedule [where ?s0.0 = s], simp_all)
    next
      case msg: (Some msg)
      have "mgr_ok (update_endpoint e (\<lambda>ep. ep\<lparr>ep_pending := q\<rparr>) (mgr s))"
        by (rule update_endpoint_ok [OF ok']) (use pop_message_ok(1) pop msg Some in auto)
      then show ?thesis
        using Some cp own pop msg kernel_okD(2) [OF ok] by (simp add: ipc_recv_def keeps_def kernel_ok_def)
    qed
  qed
qed

lemma call_waiter:
  assumes ok: "mgr_ok m" and "task_index c m = Some i" and "t_waiting_for (task_at i m) = Some (IpcCall e)"
  shows "mgr_ok (wake_task i m)"
  using task_index_Some [OF assms(2)] assms(3) mgr_okD(6) [OF ok] wake_task_ok [OF ok, of i "task_at i m" "IpcCall e"] by simp

lemma running_wake:
  assumes "running m" and "tasks m ! i = Some t" and "t_state t \<noteq> Running" and "i < length (tasks m)"
  shows "running (wake_task i m)" and "current_index (wake_task i m) = current_index m"
proof -
  show ci: "current_index (wake_task i m) = current_index m" by (simp add: current_index_def cong: option.case_cong)
  obtain k where k: "current_index m = Some k" "t_state (task_at k m) = Running" using assms(1) by (auto simp: running_def)
  have "k < length (tasks m)" using current_index_Some [OF k(1)] by simp
  then have "task_at k (wake_task i m) = task_at k m" using k(2) assms by (auto simp: task_at_def nth_update_task)
  then show "running (wake_task i m)" using k ci by (simp add: running_def)
qed

lemma ipc_reply_keeps:
  assumes ok: "kernel_ok (mgr s)" and r: "ipc_reply c ws s = (res, s')"
  shows "keeps s s'"
  using r ok call_waiter [OF kernel_okD(1) [OF ok], of c] running_wake(1) [OF kernel_okD(2) [OF ok]] task_index_Some [of c "mgr s"]
  by (auto simp: ipc_reply_def keeps_def kernel_ok_def split: option.splits WaitChannel.splits if_splits)

section \<open>The operations with a buffer\<close>

lemma update_endpoint_twice: "update_endpoint e g (update_endpoint e f m) = update_endpoint e (g \<circ> f) m"
  by (cases "unat e < length (endpoints m)") (simp_all add: update_endpoint_def option.map_comp list_update_beyond)

lemma update_mgr_twice: "update_mgr g (update_mgr f s) = update_mgr (g \<circ> f) s"
  by (simp add: update_mgr_def)

lemma copy_in_length: "copy_in pt is src k dst = (r, d) \<Longrightarrow> length d = length dst"
  by (induction pt "is" src k dst rule: copy_in.induct) (auto split: option.splits)

lemma mem_copy_from_user_length: "mem_copy_from_user pt dst src len k = (r, d) \<Longrightarrow> length d = length dst"
  by (auto simp: mem_copy_from_user_def intro: copy_in_length)

text \<open>The copies that write return, or write where they must not; they do not panic.\<close>

lemma copy_no_panic:
  "copy_out pt is dst src k \<noteq> Panic" "copy_across spt dpt is from_va to_va k \<noteq> Panic" "mem_copy_to_user pt dst src len k \<noteq> Panic"
proof -
  show c: "copy_out pt is dst src k \<noteq> Panic" for pt "is" dst src k
    by (induction pt "is" dst src k rule: copy_out.induct) (auto split: option.splits)
  show "copy_across spt dpt is from_va to_va k \<noteq> Panic"
    by (induction spt dpt "is" from_va to_va k rule: copy_across.induct) (auto split: option.splits)
  show "mem_copy_to_user pt dst src len k \<noteq> Panic" by (simp add: mem_copy_to_user_def c)
qed

lemma safe_copies:
  assumes "\<And>x. P x"
  shows "safe P (mem_copy_to_user pt dst src len k)" and "safe P (copy_across spt dpt is from_va to_va k)"
  using assms copy_no_panic by (simp_all add: safe_iff)

text \<open>\<open>fill_copy_buf\<close> changes nothing but the buffer of the endpoint and its length field.\<close>

lemma fill_copy_buf_spec:
  assumes ep: "get_endpoint e (mgr s) = Some ep" "length (ep_copy_buf ep) = 4096" and n: "buf_len \<le> IPC_BUF_SIZE"
  shows "safe (\<lambda>(r, s1). \<exists>b n. length b = 4096 \<and> s1 = update_mgr (update_endpoint e (\<lambda>_. ep\<lparr>ep_copy_buf := b, ep_copy_len := n\<rparr>)) s)
           (fill_copy_buf e user_buf buf_len s)"
proof -
  have le: "unat buf_len \<le> 4096" using n by (simp add: word_le_nat_alt layout)
  have same: "update_endpoint e f (mgr s) = update_endpoint e (\<lambda>_. f ep) (mgr s)" for f
    using ep(1) by (auto simp: update_endpoint_def get_endpoint_def split: if_splits)
  have app: "update_mgr (update_endpoint e f) s = update_mgr (update_endpoint e (\<lambda>_. f ep)) s" for f
    using same [of f] by (simp add: update_mgr_def)
  show ?thesis
  proof (cases "buf_len = 0")
    case True
    have "update_mgr (update_endpoint e (\<lambda>ep. ep\<lparr>ep_copy_len := 0\<rparr>)) s =
        update_mgr (update_endpoint e (\<lambda>_. ep\<lparr>ep_copy_buf := ep_copy_buf ep, ep_copy_len := 0\<rparr>)) s"
      using app [of "\<lambda>ep. ep\<lparr>ep_copy_len := 0\<rparr>"] by simp
    then have "\<exists>b n. length b = 4096 \<and> update_mgr (update_endpoint e (\<lambda>ep. ep\<lparr>ep_copy_len := 0\<rparr>)) s =
        update_mgr (update_endpoint e (\<lambda>_. ep\<lparr>ep_copy_buf := b, ep_copy_len := n\<rparr>)) s"
      using ep(2) by blast
    then show ?thesis using True by (simp add: fill_copy_buf_def)
  next
    case False
    show ?thesis
    proof (cases "current_index (mgr s)")
      case None
      have "(endpoints (mgr s))[unat e := Some ep] = endpoints (mgr s)" "endpoints (mgr s) ! unat e = Some ep"
        using ep(1) by (auto simp: get_endpoint_def list_update_same_conv split: if_splits)
      then have "s = update_mgr (update_endpoint e (\<lambda>_. ep\<lparr>ep_copy_buf := ep_copy_buf ep, ep_copy_len := ep_copy_len ep\<rparr>)) s"
        by (simp add: update_mgr_def update_endpoint_def)
      then have "\<exists>b n. length b = 4096 \<and> s = update_mgr (update_endpoint e (\<lambda>_. ep\<lparr>ep_copy_buf := b, ep_copy_len := n\<rparr>)) s"
        using ep(2) by blast
      then show ?thesis using None False by (simp add: fill_copy_buf_def)
    next
      case (Some i)
      obtain r d where c: "mem_copy_from_user (t_pagetable (task_at i (mgr s))) (take (unat buf_len) (ep_copy_buf ep))
          user_buf buf_len (mem s) = (r, d)" by (cases "mem_copy_from_user (t_pagetable (task_at i (mgr s)))
          (take (unat buf_len) (ep_copy_buf ep)) user_buf buf_len (mem s)")
      have len: "length (d @ drop (unat buf_len) (ep_copy_buf ep)) = 4096"
        using mem_copy_from_user_length [OF c] ep(2) le by simp
      show ?thesis
      proof (cases r)
        case (Inl u)
        have "\<exists>b n. length b = 4096 \<and> update_mgr (update_endpoint e (\<lambda>ep. ep\<lparr>ep_copy_buf := d @ drop (unat buf_len) (ep_copy_buf ep)\<rparr>)) s
          = update_mgr (update_endpoint e (\<lambda>_. ep\<lparr>ep_copy_buf := b, ep_copy_len := n\<rparr>)) s"
          by (intro exI [of _ "d @ drop (unat buf_len) (ep_copy_buf ep)"] exI [of _ "ep_copy_len ep"])
             (use len app [of "\<lambda>ep. ep\<lparr>ep_copy_buf := d @ drop (unat buf_len) (ep_copy_buf ep)\<rparr>"] in simp)
        then show ?thesis
          using False Some ep le c Inl by (simp add: fill_copy_buf_def slice_to_def Let_def)
      next
        case (Inr u)
        have "\<exists>b n. length b = 4096 \<and>
          update_mgr (update_endpoint e (\<lambda>ep. ep\<lparr>ep_copy_len := buf_len\<rparr>))
            (update_mgr (update_endpoint e (\<lambda>ep. ep\<lparr>ep_copy_buf := d @ drop (unat buf_len) (ep_copy_buf ep)\<rparr>)) s)
          = update_mgr (update_endpoint e (\<lambda>_. ep\<lparr>ep_copy_buf := b, ep_copy_len := n\<rparr>)) s"
          by (intro exI [of _ "d @ drop (unat buf_len) (ep_copy_buf ep)"] exI [of _ buf_len])
             (use len app [of "(\<lambda>ep. ep\<lparr>ep_copy_len := buf_len\<rparr>) \<circ> (\<lambda>ep. ep\<lparr>ep_copy_buf := d @ drop (unat buf_len) (ep_copy_buf ep)\<rparr>)"]
               in \<open>simp add: update_mgr_twice comp_def update_endpoint_twice [unfolded comp_def]\<close>)
        then show ?thesis
          using False Some ep le c Inr by (simp add: fill_copy_buf_def slice_to_def Let_def)
      qed
    qed
  qed
qed

lemma update_endpoint_ok':
  assumes "mgr_ok m" and "get_endpoint e m = Some ep" and "endpoint_ok (waits_on m) e ep'" and "ep_owner ep' = ep_owner ep"
  shows "mgr_ok (update_endpoint e (\<lambda>_. ep') m)"
proof -
  have "update_endpoint e (\<lambda>_. ep') m = update_endpoint e (\<lambda>x. if ep_owner x = ep_owner ep then ep' else x) m"
    using assms(2) by (auto simp: update_endpoint_def get_endpoint_def split: if_splits)
  also have "mgr_ok \<dots>"
    by (rule update_endpoint_ok [OF assms(1)]) (use assms in auto)
  finally show ?thesis .
qed

lemma u16_of_len:
  assumes "(n :: usize) \<le> IPC_BUF_SIZE"
  shows "(ucast n :: u16) \<le> 4096" and "(ucast n :: u16) = 0 \<longleftrightarrow> n = 0" and "unat (ucast n :: u16) = unat n"
proof -
  have le: "unat n \<le> 4096" using assms by (simp add: word_le_nat_alt layout)
  then show eq: "unat (ucast n :: u16) = unat n" by (simp add: unsigned_ucast_eq take_bit_nat_eq_self)
  show "(ucast n :: u16) \<le> 4096" using le eq by (simp add: word_le_nat_alt)
  show "(ucast n :: u16) = 0 \<longleftrightarrow> n = 0" by (metis eq unat_eq_0)
qed

lemma deliver_buffered_safe:
  assumes ok: "mgr_ok (mgr s)" and ep: "get_endpoint e (mgr s) = Some ep" "ep_waiting_receiver ep = Some p"
    and r: "task_index p (mgr s) = Some r" and n: "buf_len \<le> IPC_BUF_SIZE"
  shows "safe (\<lambda>s'. mgr_ok (mgr s') \<and> kernel_pt s' = kernel_pt s \<and> next_pid (mgr s') = next_pid (mgr s))
           (deliver_buffered e sender ws buf_len r s)"
proof -
  have len: "length (ep_copy_buf ep) = 4096" using get_endpoint_ok [OF ok ep(1)] by (simp add: endpoint_ok_def)
  have "min buf_len c \<le> 4096" for c
    using n by (intro order_trans [OF min.cobounded1]) (simp add: layout)
  then have "unat (min buf_len c) \<le> 4096" for c by (simp add: word_le_nat_alt)
  moreover have "mgr_ok (update_endpoint e (\<lambda>ep. ep\<lparr>ep_recv_buf_addr := 0, ep_recv_buf_capacity := 0, ep_waiting_receiver := None\<rparr>)
      (wake_task r (mgr s)))"
    by (rule deliver_ok [OF ok ep r]) simp
  ultimately show ?thesis
    by (simp add: deliver_buffered_def ep Let_def slice_to_def len safe_copies split: prod.split)
qed

lemma ipc_call_buf_safe:
  assumes ok: "kernel_ok (mgr s)" and nid: "current_pid (mgr s) \<noteq> Some IDLE_PID"
  shows "safe (\<lambda>(r, s'). keeps s s') (ipc_call_buf e ws user_buf buf_len tf s)"
proof (cases "get_endpoint e (mgr s)")
  case None
  then show ?thesis using ok by (simp add: ipc_call_buf_def split: option.split)
next
  case (Some ep)
  obtain i t where ci: "current_index (mgr s) = Some i" and i: "i < MAX_TASKS" "tasks (mgr s) ! i = Some t" "runnable t"
    and cp: "current_pid (mgr s) = Some (t_pid t)" and ti: "task_index (t_pid t) (mgr s) = Some i"
    using current_slot [OF ok nid] by metis
  note ok' = kernel_okD(1) [OF ok]
  note epok = get_endpoint_ok [OF ok' Some]
  let ?rej = "t_pid t = ep_owner ep \<or> q_is_full (ep_pending ep) \<or>
    (ep_has_buffered ep \<and> ep_waiting_receiver ep \<noteq> Some (ep_owner ep)) \<or> IPC_BUF_SIZE < buf_len"
  show ?thesis
  proof (cases ?rej)
    case True
    then show ?thesis using ok Some cp by (auto simp: ipc_call_buf_def Let_def)
  next
    case False
    have n: "buf_len \<le> IPC_BUF_SIZE" using False by (meson not_less)
    have len: "length (ep_copy_buf ep) = 4096" using epok by (simp add: endpoint_ok_def)
    show ?thesis
    proof (cases "fill_copy_buf e user_buf buf_len s")
      case (Done x)
      then obtain res b cl where fill: "fill_copy_buf e user_buf buf_len s =
          Done (res, update_mgr (update_endpoint e (\<lambda>_. ep\<lparr>ep_copy_buf := b, ep_copy_len := cl\<rparr>)) s)" and b: "length b = 4096"
        using fill_copy_buf_spec [OF Some len n, of user_buf] by auto
      let ?ep = "ep\<lparr>ep_copy_buf := b, ep_copy_len := cl\<rparr>"
      let ?s1 = "update_mgr (update_endpoint e (\<lambda>_. ?ep)) s"
      have "endpoint_ok (waits_on (mgr s)) e ?ep" using epok b by (simp add: endpoint_ok_def)
      then have ok1: "kernel_ok (mgr ?s1)"
        using update_endpoint_ok' [OF ok' Some, of ?ep] kernel_okD(2) [OF ok] by (simp add: kernel_ok_def)
      let ?s2 = "sleep_task i (IpcCall e) tf ?s1"
      have ok2: "mgr_ok (mgr ?s2)"
        using sleep_mgr_ok [OF kernel_okD(1) [OF ok1], of i t "IpcCall e"] i Some False by auto
      have ep2: "get_endpoint e (mgr ?s2) = Some ?ep" using Some by simp
      show ?thesis
      proof (cases res)
        case (Inl u)
        then show ?thesis using False Some cp fill ok1 by (auto simp: ipc_call_buf_def Let_def keeps_def)
      next
        case (Inr u)
        show ?thesis
        proof (cases "ep_waiting_receiver ep")
          case None
          let ?msg = "\<lparr>msg_sender = t_pid t, msg_words = ws, msg_buf_len = ucast buf_len\<rparr>"
          have "mgr_ok (update_endpoint e (\<lambda>ep. push_message ?msg (if buf_len \<noteq> 0 then ep\<lparr>ep_has_buffered := True\<rparr> else ep)) (mgr ?s2))"
          proof (rule update_endpoint_ok [OF ok2])
            fix x assume x: "get_endpoint e (mgr ?s2) = Some x" "endpoint_ok (waits_on (mgr ?s2)) e x"
            then have xe: "x = ?ep" using ep2 by simp
            have "endpoint_ok (waits_on (mgr ?s2)) e (push_message ?msg (if msg_buf_len ?msg \<noteq> 0 then x\<lparr>ep_has_buffered := True\<rparr> else x))"
              by (rule push_message_ok(1) [OF x(2)]) (use False None xe u16_of_len [OF n] in auto)
            then show "endpoint_ok (waits_on (mgr ?s2)) e (push_message ?msg (if buf_len \<noteq> 0 then x\<lparr>ep_has_buffered := True\<rparr> else x))"
              using u16_of_len [OF n] by simp
          qed (simp add: push_message_def)
          then show ?thesis
            using Some cp ti False None Inr fill
            by (simp add: ipc_call_buf_def Let_def) (rule safe_schedule [where ?s0.0 = s], simp_all)
        next
          case recv: (Some p)
          have ep2r: "ep_waiting_receiver ?ep = Some p" using recv by simp
          obtain r where r: "task_index p (mgr ?s2) = Some r" "p = ep_owner ep"
            using waiting_receiver_slot [OF ok2 ep2 ep2r] by auto
          note d = deliver_buffered_safe [OF ok2 ep2 ep2r r(1) n, of "t_pid t" ws]
          have "safe (\<lambda>s3. safe (\<lambda>(f, s4). keeps s s4) (schedule tf s3)) (deliver_buffered e (t_pid t) ws buf_len r ?s2)"
            by (rule safe_mono [OF d]) (rule safe_schedule [where ?s0.0 = s], auto)
          then show ?thesis
            using Some cp ti False recv r Inr fill by (simp add: ipc_call_buf_def Let_def case_prod_unfold)
        qed
      qed
    next
      case Panic
      then show ?thesis using fill_copy_buf_spec [OF Some len n, of user_buf] by simp
    qed (use ok False Some cp in \<open>auto simp: ipc_call_buf_def Let_def\<close>)
  qed
qed

lemma ipc_recv_buf_safe:
  assumes ok: "kernel_ok (mgr s)" and nid: "current_pid (mgr s) \<noteq> Some IDLE_PID"
  shows "safe (\<lambda>(r, s'). keeps s s') (ipc_recv_buf e user_buf capacity tf s)"
proof (cases "get_endpoint e (mgr s)")
  case None
  then show ?thesis using ok by (simp add: ipc_recv_buf_def split: option.split)
next
  case (Some ep)
  obtain i t where ci: "current_index (mgr s) = Some i" and i: "i < MAX_TASKS" "tasks (mgr s) ! i = Some t" "runnable t"
    and cp: "current_pid (mgr s) = Some (t_pid t)"
    using current_slot [OF ok nid] by metis
  note ok' = kernel_okD(1) [OF ok]
  note epok = get_endpoint_ok [OF ok' Some]
  show ?thesis
  proof (cases "ep_owner ep = t_pid t")
    case False
    then show ?thesis using ok Some cp by (simp add: ipc_recv_buf_def)
  next
    case own: True
    obtain m q where pop: "q_pop (ep_pending ep) = (m, q)" by (cases "q_pop (ep_pending ep)")
    show ?thesis
    proof (cases m)
      case None
      have "q_list (ep_pending ep) = []"
        using q_pop_None pop None epok by (auto simp: endpoint_ok_def)
      then have "mgr_ok (sleep_mgr i (IpcRecv e) (update_endpoint e (\<lambda>ep. ep\<lparr>ep_waiting_receiver := Some (t_pid t),
          ep_recv_buf_addr := user_buf, ep_recv_buf_capacity := capacity\<rparr>) (mgr s)))"
        by (intro recv_block_ok [OF ok' i Some own]) simp_all
      then show ?thesis
        using Some cp own pop None ci by (simp add: ipc_recv_buf_def Let_def) (rule safe_schedule [where ?s0.0 = s], simp_all)
    next
      case msg: (Some msg)
      note pm = pop_message_ok [OF epok pop [unfolded msg]]
      have ok1: "mgr_ok (update_endpoint e (\<lambda>ep. ep\<lparr>ep_pending := q\<rparr>) (mgr s))"
        by (rule update_endpoint_ok [OF ok']) (use pm(1) Some in auto)
      have ok2: "mgr_ok (update_endpoint e (\<lambda>ep. ep\<lparr>ep_has_buffered := False\<rparr>) (update_endpoint e (\<lambda>ep. ep\<lparr>ep_pending := q\<rparr>) (mgr s)))"
        if "msg_buf_len msg \<noteq> 0"
        unfolding update_endpoint_twice
        by (rule update_endpoint_ok [OF ok']) (use pm(3) [OF that] Some in auto)
      have "min (ucast (msg_buf_len msg)) c \<le> (4096 :: usize)" for c
      proof (rule order_trans [OF min.cobounded1])
        show "ucast (msg_buf_len msg) \<le> (4096 :: usize)"
          using pm(4) by (simp add: word_le_nat_alt unsigned_ucast_eq take_bit_nat_eq_self less_le_trans [OF unsigned_less])
      qed
      then have "unat (min (ucast (msg_buf_len msg)) c :: usize) \<le> length (ep_copy_buf ep)" for c
        using epok by (simp add: word_le_nat_alt endpoint_ok_def)
      then show ?thesis
        using Some cp own pop msg kernel_okD(2) [OF ok] ok1 ok2 ci
        by (auto simp: ipc_recv_buf_def keeps_def kernel_ok_def Let_def slice_to_def intro!: safe_copies split: sum.split)
    qed
  qed
qed

lemma table_of_pid_Some:
  assumes "task_index p m = Some i"
  shows "table_of_pid (Some p) m \<noteq> None"
proof -
  note ti = task_index_Some [OF assms]
  have "Some (task_at i m) \<in> set (tasks m)" using ti(1,2) nth_mem by metis
  then have "List.find (\<lambda>x. is_some_and (\<lambda>t. Some (t_pid t) = Some p) x) (rev (tasks m)) \<noteq> None"
    using ti(3) by (auto simp: find_None_iff)
  then obtain x where x: "List.find (\<lambda>x. is_some_and (\<lambda>t. Some (t_pid t) = Some p) x) (rev (tasks m)) = Some x" by blast
  then have "is_some_and (\<lambda>t. Some (t_pid t) = Some p) x" by (auto simp: find_Some_iff)
  then show ?thesis using x by (cases x) (auto simp: table_of_pid_def)
qed

lemma ipc_reply_buf_safe:
  assumes ok: "kernel_ok (mgr s)" and nid: "current_pid (mgr s) \<noteq> Some IDLE_PID"
  shows "safe (\<lambda>(r, s'). keeps s s') (ipc_reply_buf c ws user_buf buf_len s)"
proof -
  obtain i and t :: Task where cp: "current_index (mgr s) = Some i" "current_pid (mgr s) = Some (t_pid t)"
    and ti: "task_index (t_pid t) (mgr s) = Some i"
    by (rule current_slot [OF ok nid])
  obtain spt where spt: "table_of_pid (Some (t_pid t)) (mgr s) = Some spt" using table_of_pid_Some [OF ti] by blast
  show ?thesis
  proof (cases "task_index c (mgr s)")
    case None
    then show ?thesis using ok cp by (simp add: ipc_reply_buf_def)
  next
    case (Some j)
    note tj = task_index_Some [OF Some]
    obtain dpt where dpt: "table_of_pid (Some c) (mgr s) = Some dpt" using table_of_pid_Some [OF Some] by blast
    show ?thesis
    proof (cases "\<exists>e. t_waiting_for (task_at j (mgr s)) = Some (IpcCall e) \<and> owns_endpoint (t_pid t) e (mgr s) \<and>
        t_state (task_at j (mgr s)) = Sleeping")
      case False
      then show ?thesis using ok cp Some by (auto simp: ipc_reply_buf_def split: option.split WaitChannel.split)
    next
      case True
      then obtain e where e: "t_waiting_for (task_at j (mgr s)) = Some (IpcCall e)" "owns_endpoint (t_pid t) e (mgr s)"
        "t_state (task_at j (mgr s)) = Sleeping" by blast
      have "kernel_ok (wake_task j (mgr s))"
        using call_waiter [OF kernel_okD(1) [OF ok] Some e(1)] running_wake(1) [OF kernel_okD(2) [OF ok] tj(2) _ tj(1)] e(3)
        by (simp add: kernel_ok_def)
      then show ?thesis
        using cp Some e spt dpt ok
        by (auto simp: ipc_reply_buf_def Let_def keeps_def intro!: safe_copies split: sum.split)
    qed
  qed
qed

section \<open>Registering an endpoint\<close>

lemma endpoint_new_ok:
  assumes "\<And>p. \<not> W p (IpcRecv e)"
  shows "endpoint_ok W e (endpoint_new owner)"
  using assms by (simp add: endpoint_ok_def endpoint_new_def layout del: q_list_Nil_iff)

lemma register_endpoint_keeps:
  assumes ok: "mgr_ok m" and r: "register_endpoint e owner m = (res, m')"
  shows "mgr_ok m'" and "next_pid m' = next_pid m" and "running m \<Longrightarrow> running m'" and "res = Err \<Longrightarrow> m' = m"
proof -
  note wf = mgr_okD(3) [OF ok, unfolded ipc_wf_def]
  have "m' = m \<or> (unat e < MAX_ENDPOINTS \<and> endpoints m ! unat e = None \<and>
      m' = m\<lparr>endpoints := (endpoints m)[unat e := Some (endpoint_new owner)]\<rparr> \<and> res = Ok ())"
  proof (cases "of_nat MAX_ENDPOINTS \<le> e \<or> endpoints m ! unat e \<noteq> None \<or> task_index owner m = None")
    case True
    then have "m' = m" using r unfolding register_endpoint_def by (metis prod.inject)
    then show ?thesis by simp
  next
    case False
    then have "unat e < MAX_ENDPOINTS" by (simp add: word_le_nat_alt layout not_le)
    then show ?thesis using r False by (auto simp: register_endpoint_def)
  qed
  then consider "m' = m" | "unat e < MAX_ENDPOINTS" "endpoints m ! unat e = None"
      "m' = m\<lparr>endpoints := (endpoints m)[unat e := Some (endpoint_new owner)]\<rparr>" "res = Ok ()"
    by (elim disjE conjE) assumption+
  then have "mgr_ok m' \<and> next_pid m' = next_pid m \<and> (running m \<longrightarrow> running m') \<and> (res = Err \<longrightarrow> m' = m)"
  proof cases
    case 1
    then show ?thesis using ok by simp
  next
    case 2
    have w: "waits_on m' = waits_on m" by (rule waits_on_cong) (simp add: 2)
    have none: "get_endpoint e m = None" using 2 by (simp add: get_endpoint_def)
    have ge: "get_endpoint e' m' = (if e' = e then Some (endpoint_new owner) else get_endpoint e' m)" for e'
      using 2 wf by (auto simp: get_endpoint_def nth_list_update word_unat_eq_iff)
    have nobody: "\<not> waits_on m p (IpcRecv e)" "\<not> waits_on m p (IpcCall e)" for p
      using wf none by (metis is_some_and_simps(1))+
    have "ipc_wf m'"
      unfolding ipc_wf_def w ge using wf nobody endpoint_new_ok [of "waits_on m" e owner] 2 by auto
    moreover have "sched_wf m'" "has_idle m'" "pids_fresh m'"
      using 2 mgr_okD [OF ok] by (simp_all add: pids_fresh_def)
    moreover have "running m \<longrightarrow> running m'" using running_cong [of m m'] 2(3) by simp
    ultimately show ?thesis using 2 by (simp add: mgr_ok_def)
  qed
  then show "mgr_ok m'" "next_pid m' = next_pid m" "running m \<Longrightarrow> running m'" "res = Err \<Longrightarrow> m' = m" by auto
qed

end
