(* ===== verification/Task_Memory.thy ===== *)
theory Task_Memory
  imports Task_Ipc
begin

text \<open>
  Creating tasks and changing their memory, \<open>src/kernel/task.rs\<close>: the idle task, user images,
  \<open>fork\<close>, the replacement of an image by \<open>exec\<close>, \<open>sbrk\<close>, the grant of the UART, and the queries on
  tasks.
\<close>

section \<open>The question mark on kernel memory\<close>

definition ok_or :: "'a option \<times> kmem \<Rightarrow> 'a result \<times> kmem" where
  "ok_or r = (case r of (None, k) \<Rightarrow> (Err, k) | (Some x, k) \<Rightarrow> (Ok x, k))"

definition try_k :: "'a result \<times> kmem \<Rightarrow> ('a \<Rightarrow> kmem \<Rightarrow> 'b result \<times> kmem) \<Rightarrow> 'b result \<times> kmem" where
  "try_k r f = (case r of (Inl _, k) \<Rightarrow> (Err, k) | (Inr x, k) \<Rightarrow> f x k)"

lemma try_k_Ok_iff: "try_k r f = (Ok y, k') \<longleftrightarrow> (\<exists>x k. r = (Ok x, k) \<and> f x k = (Ok y, k'))"
  by (cases r) (auto simp: try_k_def split: sum.split)

lemma ok_or_Ok_iff: "ok_or r = (Ok x, k) \<longleftrightarrow> r = (Some x, k)"
  by (cases r) (auto simp: ok_or_def split: option.split)

section \<open>Creating tasks\<close>

definition free_slot :: "TaskManager \<Rightarrow> nat option" where
  "free_slot m = position (\<lambda>x. x = None) (tasks m)"

definition put_task :: "nat \<Rightarrow> Task \<Rightarrow> TaskManager \<Rightarrow> TaskManager" where
  "put_task i t m = m\<lparr>tasks := (tasks m)[i := Some t]\<rparr>"

text \<open>The memory of the idle task: kernel stack and page table, released again on failure.\<close>

definition idle_memory :: "kmem \<Rightarrow> ((usize \<times> usize) result \<times> kmem) outcome" where
  "idle_memory k =
     (case k_alloc k of (None, k1) \<Rightarrow> Done (Err, k1) | (Some kernel_stack, k1) \<Rightarrow>
      case pt_create k1 of (None, k2) \<Rightarrow> Done (Err, k_free kernel_stack k2) | (Some pt, k2) \<Rightarrow>
      case map_kernel pt k2 of
        (Inl _, k3) \<Rightarrow> (case pt_free pt k3 of None \<Rightarrow> Runaway | Some k4 \<Rightarrow> Done (Err, k_free kernel_stack k4))
      | (Inr _, k3) \<Rightarrow> Done (Ok (kernel_stack, pt), k3))"

definition idle_frame :: "usize \<Rightarrow> usize \<Rightarrow> TrapFrame" where
  "idle_frame kernel_stack entry =
     trap_frame_new\<lparr>tf_sp := kernel_stack + PAGE_SIZE - 16, tf_sepc := entry, tf_sstatus := SSTATUS_SPP OR SSTATUS_SPIE\<rparr>"

definition create_idle :: "usize \<Rightarrow> kstate \<Rightarrow> (u32 result \<times> kstate) outcome" where
  "create_idle entry s =
     (if task_index IDLE_PID (mgr s) \<noteq> None then Done (Err, s)
      else case free_slot (mgr s) of None \<Rightarrow> Done (Err, s) | Some slot \<Rightarrow>
      obind (idle_memory (mem s)) (\<lambda>(r, k).
        case r of Inl _ \<Rightarrow> Done (Err, s\<lparr>mem := k\<rparr>) | Inr (kernel_stack, pt) \<Rightarrow>
        obind (init_context (kernel_pt s) kernel_stack pt (idle_frame kernel_stack entry) k) (\<lambda>(tf, k').
          Done (Ok IDLE_PID, s\<lparr>mem := k',
            mgr := put_task slot \<lparr>t_pid = IDLE_PID, t_state = Ready, t_trap_frame = tf, t_kernel_stack = kernel_stack,
                     t_user_stack = 0, t_entry = entry, t_pagetable = pt, t_exit_code = 0, t_image_base = 0,
                     t_image_size = 0, t_heap_base = 0, t_heap_end = 0, t_parent_pid = None, t_waiting_for = None\<rparr>
                   (mgr s)\<rparr>))))"

definition user_frame :: "usize \<Rightarrow> TrapFrame" where
  "user_frame entry =
     trap_frame_new\<lparr>tf_sp := USER_STACK_TOP, tf_sepc := entry, tf_sstatus := SSTATUS_SPIE OR SSTATUS_SUM\<rparr>"

definition create_user_image :: "usize \<Rightarrow> usize \<Rightarrow> usize \<Rightarrow> usize \<Rightarrow> usize \<Rightarrow> kstate \<Rightarrow> (u32 result \<times> kstate) outcome" where
  "create_user_image pt user_stack entry image_base image_size s =
     (case checked_add image_base image_size of None \<Rightarrow> Done (Err, s) | Some heap_base \<Rightarrow>
      let fail = (\<lambda>k. obind (free_user_space pt user_stack image_base image_size heap_base heap_base k)
                        (\<lambda>k'. Done (Err, s\<lparr>mem := k'\<rparr>))) in
      if HEAP_LIMIT < heap_base \<or> heap_base mod PAGE_SIZE \<noteq> 0 then fail (mem s)
      else case free_slot (mgr s) of None \<Rightarrow> fail (mem s) | Some slot \<Rightarrow>
      case k_alloc (mem s) of (None, k) \<Rightarrow> fail k | (Some kernel_stack, k) \<Rightarrow>
      let pid = next_pid (mgr s) in
      obind (init_context (kernel_pt s) kernel_stack pt (user_frame entry) k) (\<lambda>(tf, k').
        Done (Ok pid, s\<lparr>mem := k',
          mgr := (put_task slot \<lparr>t_pid = pid, t_state = Ready, t_trap_frame = tf, t_kernel_stack = kernel_stack,
                    t_user_stack = user_stack, t_entry = entry, t_pagetable = pt, t_exit_code = 0,
                    t_image_base = image_base, t_image_size = image_size, t_heap_base = heap_base,
                    t_heap_end = heap_base, t_parent_pid = current_pid (mgr s), t_waiting_for = None\<rparr>
                  (mgr s))\<lparr>next_pid := pid + 1, runnable_count := runnable_count (mgr s) + 1\<rparr>\<rparr>)))"

section \<open>Fork\<close>

text \<open>A page of the parent is copied into a new frame and mapped with the permission bits it has.\<close>

definition clone_page :: "usize \<Rightarrow> usize \<Rightarrow> usize \<Rightarrow> kmem \<Rightarrow> unit result \<times> kmem" where
  "clone_page child_pt va source_pte k =
     try_k (ok_or (k_alloc k)) (\<lambda>page k1.
       pt_map child_pt va page PAGE_SIZE (source_pte AND 0x3fe)
         (k1\<lparr>phys := copy_page (pte_to_pa source_pte) page (phys k1)\<rparr>))"

text \<open>The valid entry of a page, if there is one.\<close>

definition source_pte :: "usize \<Rightarrow> usize \<Rightarrow> kmem \<Rightarrow> usize option" where
  "source_pte pt va k =
     (case walk pt va False k of
        (None, _) \<Rightarrow> None
      | (Some p, k') \<Rightarrow> if load64 k' p AND PTE_V \<noteq> 0 then Some (load64 k' p) else None)"

fun fork_image :: "usize \<Rightarrow> usize \<Rightarrow> usize list \<Rightarrow> kmem \<Rightarrow> unit result \<times> kmem" where
  "fork_image parent_pt child_pt [] k = (Ok (), k)"
| "fork_image parent_pt child_pt (va # vas) k =
     (case source_pte parent_pt va k of
        None \<Rightarrow> fork_image parent_pt child_pt vas k
      | Some pte \<Rightarrow> try_k (clone_page child_pt va pte k) (\<lambda>_ k'. fork_image parent_pt child_pt vas k'))"

fun fork_heap :: "usize \<Rightarrow> usize \<Rightarrow> usize list \<Rightarrow> kmem \<Rightarrow> unit result \<times> kmem" where
  "fork_heap parent_pt child_pt [] k = (Ok (), k)"
| "fork_heap parent_pt child_pt (va # vas) k =
     (case source_pte parent_pt va k of
        None \<Rightarrow> (Err, k)
      | Some pte \<Rightarrow> try_k (clone_page child_pt va pte k) (\<lambda>_ k'. fork_heap parent_pt child_pt vas k'))"

text \<open>The memory of the child: kernel stack, user stack and page table.\<close>

definition fork_memory :: "Task \<Rightarrow> kmem \<Rightarrow> (usize \<times> usize \<times> usize) result \<times> kmem" where
  "fork_memory p k =
     try_k (ok_or (k_alloc k)) (\<lambda>child_kernel_stack k1.
     try_k (ok_or (k_alloc k1)) (\<lambda>child_user_stack k2.
     try_k (ok_or (pt_create k2)) (\<lambda>child_pt k3.
     try_k (map_kernel child_pt k3) (\<lambda>_ k4.
       let start = t_image_base p AND NOT (PAGE_SIZE - 1);
           stop = (t_image_base p + t_image_size p + PAGE_SIZE - 1) AND NOT (PAGE_SIZE - 1) in
     try_k (fork_image (t_pagetable p) child_pt (page_range start stop) k4) (\<lambda>_ k5.
     try_k (align_up (t_heap_end p), k5) (\<lambda>heap_mapped_end k6.
     try_k (fork_heap (t_pagetable p) child_pt (page_range (t_heap_base p) heap_mapped_end) k6) (\<lambda>_ k7.
     try_k (pt_map child_pt (USER_STACK_TOP - PAGE_SIZE) child_user_stack PAGE_SIZE (PTE_R OR PTE_W OR PTE_U)
              (k7\<lparr>phys := copy_page (t_user_stack p) child_user_stack (phys k7)\<rparr>)) (\<lambda>_ k8.
       (Ok (child_kernel_stack, child_user_stack, child_pt), k8)))))))))"

definition fork :: "usize \<Rightarrow> kstate \<Rightarrow> (u32 result \<times> kstate) outcome" where
  "fork tf s =
     (if current_pid (mgr s) = Some IDLE_PID then Done (Err, s)
      else case current_index (mgr s) of None \<Rightarrow> Done (Err, s) | Some i \<Rightarrow>
      let p = task_at i (mgr s) in
      case fork_memory p (mem s) of
        (Inl _, k) \<Rightarrow> Done (Err, s\<lparr>mem := k\<rparr>)
      | (Inr (child_kernel_stack, child_user_stack, child_pt), k) \<Rightarrow>
          let pid = next_pid (mgr s);
              child_frame = (read_tf (phys k) tf)\<lparr>tf_a0 := 0\<rparr>;
              m1 = (mgr s)\<lparr>next_pid := pid + 1\<rparr> in
          obind (init_context (kernel_pt s) child_kernel_stack child_pt child_frame k) (\<lambda>(child_tf, k').
            case free_slot m1 of
              None \<Rightarrow> Done (Err, s\<lparr>mem := k', mgr := m1\<rparr>)
            | Some slot \<Rightarrow>
                let s1 = s\<lparr>mem := k',
                  mgr := (put_task slot \<lparr>t_pid = pid, t_state = Ready, t_trap_frame = child_tf,
                            t_kernel_stack = child_kernel_stack, t_user_stack = child_user_stack, t_entry = t_entry p,
                            t_pagetable = child_pt, t_exit_code = 0, t_image_base = t_image_base p,
                            t_image_size = t_image_size p, t_heap_base = t_heap_base p, t_heap_end = t_heap_end p,
                            t_parent_pid = current_pid (mgr s), t_waiting_for = None\<rparr>
                          m1)\<lparr>runnable_count := runnable_count m1 + 1\<rparr>\<rparr>
                in Done (Ok pid, update_frame tf (\<lambda>fr. fr\<lparr>tf_a0 := ucast pid\<rparr>) s1)))"

section \<open>Replacing the image\<close>

definition replace_current :: "usize \<Rightarrow> usize \<Rightarrow> usize \<Rightarrow> usize \<Rightarrow> usize \<Rightarrow> usize \<Rightarrow> kstate \<Rightarrow> (unit result \<times> kstate) outcome" where
  "replace_current pt user_stack entry image_base image_size tf s =
     (case checked_add image_base image_size of None \<Rightarrow> Done (Err, s) | Some heap_base \<Rightarrow>
      if HEAP_LIMIT < heap_base \<or> heap_base mod PAGE_SIZE \<noteq> 0 then Done (Err, s)
      else case current_index (mgr s) of None \<Rightarrow> Done (Err, s) | Some i \<Rightarrow>
      let old = task_at i (mgr s);
          s1 = s\<lparr>mgr := update_task i (\<lambda>t. t\<lparr>t_pagetable := pt, t_user_stack := user_stack, t_entry := entry,
                          t_image_base := image_base, t_image_size := image_size, t_heap_base := heap_base,
                          t_heap_end := heap_base\<rparr>) (mgr s),
                  mem := store64 (t_trap_frame old + TRAP_FRAME_SIZE + 8) (satp_of pt) (mem s)\<rparr>;
          s2 = update_frame tf (\<lambda>fr. fr\<lparr>tf_sp := USER_STACK_TOP, tf_sepc := entry, tf_a0 := 0, tf_a1 := 0, tf_a2 := 0\<rparr>) s1
      in obind (free_user_space (t_pagetable old) (t_user_stack old) (t_image_base old) (t_image_size old)
                  (t_heap_base old) (t_heap_end old) (mem s2)) (\<lambda>k.
           Done (Ok (), s2\<lparr>mem := k\<rparr>)))"

section \<open>The heap\<close>

definition sbrk_rollback :: "usize \<Rightarrow> usize \<Rightarrow> usize \<Rightarrow> kmem \<Rightarrow> kmem" where
  "sbrk_rollback pt old_mapped_end mapped_end k =
     (if old_mapped_end < mapped_end then snd (unmap pt old_mapped_end (mapped_end - old_mapped_end) True k) else k)"

text \<open>The loop that grows the heap, over the page addresses still to be mapped.\<close>

fun sbrk_grow :: "usize \<Rightarrow> usize \<Rightarrow> usize list \<Rightarrow> kmem \<Rightarrow> unit result \<times> kmem" where
  "sbrk_grow pt old_mapped_end [] k = (Ok (), k)"
| "sbrk_grow pt old_mapped_end (mapped_end # rest) k =
     (case k_alloc k of
        (None, k1) \<Rightarrow> (Err, sbrk_rollback pt old_mapped_end mapped_end k1)
      | (Some page, k1) \<Rightarrow>
          (case pt_map pt mapped_end page PAGE_SIZE (PTE_R OR PTE_W OR PTE_U) (k1\<lparr>phys := clear_page page (phys k1)\<rparr>) of
             (Inl _, k2) \<Rightarrow> (Err, sbrk_rollback pt old_mapped_end mapped_end (k_free page k2))
           | (Inr _, k2) \<Rightarrow> sbrk_grow pt old_mapped_end rest k2))"

definition sbrk_remap :: "usize \<Rightarrow> usize \<Rightarrow> usize \<Rightarrow> kmem \<Rightarrow> unit result \<times> kmem" where
  "sbrk_remap pt old_mapped_end new_mapped_end k =
     (if old_mapped_end < new_mapped_end then sbrk_grow pt old_mapped_end (page_range old_mapped_end new_mapped_end) k
      else if new_mapped_end < old_mapped_end then unmap pt new_mapped_end (old_mapped_end - new_mapped_end) True k
      else (Ok (), k))"

definition sbrk :: "usize \<Rightarrow> kstate \<Rightarrow> usize result \<times> kstate" where
  "sbrk increment s =
     (if current_pid (mgr s) = Some IDLE_PID then (Err, s)
      else case current_index (mgr s) of None \<Rightarrow> (Err, s) | Some i \<Rightarrow>
      let t = task_at i (mgr s); old_end = t_heap_end t in
      case checked_add_signed old_end increment of None \<Rightarrow> (Err, s) | Some new_end \<Rightarrow>
      if new_end < t_heap_base t \<or> HEAP_LIMIT < new_end then (Err, s)
      else case align_up old_end of Inl _ \<Rightarrow> (Err, s) | Inr old_mapped_end \<Rightarrow>
      case align_up new_end of Inl _ \<Rightarrow> (Err, s) | Inr new_mapped_end \<Rightarrow>
      case sbrk_remap (t_pagetable t) old_mapped_end new_mapped_end (mem s) of
        (Inl _, k) \<Rightarrow> (Err, s\<lparr>mem := k\<rparr>)
      | (Inr _, k) \<Rightarrow> (Ok old_end, s\<lparr>mem := k, mgr := update_task i (\<lambda>t. t\<lparr>t_heap_end := new_end\<rparr>) (mgr s)\<rparr>))"

section \<open>The UART and queries\<close>

definition grant_uart :: "u32 \<Rightarrow> kstate \<Rightarrow> unit result \<times> kstate" where
  "grant_uart pid s =
     (if uart_owner (mgr s) \<noteq> None then (Err, s)
      else case task_index pid (mgr s) of None \<Rightarrow> (Err, s) | Some i \<Rightarrow>
      case set_flags (t_pagetable (task_at i (mgr s))) UART_PAGE PAGE_SIZE (PTE_R OR PTE_W OR PTE_U) (mem s) of
        (Inl _, k) \<Rightarrow> (Err, s\<lparr>mem := k\<rparr>)
      | (Inr _, k) \<Rightarrow> (Ok (), s\<lparr>mem := k, mgr := (mgr s)\<lparr>uart_owner := Some pid\<rparr>\<rparr>))"

definition translate_user :: "usize \<Rightarrow> kstate \<Rightarrow> usize option" where
  "translate_user va s =
     (case current_index (mgr s) of
        None \<Rightarrow> None
      | Some i \<Rightarrow> virt_to_phys (t_pagetable (task_at i (mgr s))) va (mem s))"

definition get_current_pid :: "TaskManager \<Rightarrow> u32" where
  "get_current_pid m = (case current_index m of None \<Rightarrow> 0 | Some i \<Rightarrow> t_pid (task_at i m))"

definition kernel_stack_top :: "u32 \<Rightarrow> TaskManager \<Rightarrow> usize option" where
  "kernel_stack_top pid m = map_option (\<lambda>i. t_kernel_stack (task_at i m) + PAGE_SIZE) (task_index pid m)"

definition task_satp :: "u32 \<Rightarrow> TaskManager \<Rightarrow> usize option" where
  "task_satp pid m = map_option (\<lambda>i. satp_of (t_pagetable (task_at i m))) (task_index pid m)"

text \<open>The first task: the arguments of \<open>enter_user\<close> and the kernel state it starts in.\<close>

record UserEntry =
  ue_stack_top :: usize
  ue_entry :: usize
  ue_trap_stack :: usize
  ue_kernel_satp :: usize
  ue_user_satp :: usize

definition enter_task :: "u32 \<Rightarrow> kstate \<Rightarrow> (UserEntry \<times> kstate) outcome" where
  "enter_task pid s =
     (case task_index pid (mgr s) of None \<Rightarrow> Panic | Some i \<Rightarrow>
      let t = task_at i (mgr s);
          s1 = update_mgr (\<lambda>m. (update_task i (\<lambda>t. t\<lparr>t_state := Running\<rparr>) m)\<lparr>current_pid := Some pid\<rparr>) s in
      obind (kernel_satp (kernel_pt s1)) (\<lambda>ksatp.
        Done (\<lparr>ue_stack_top = USER_STACK_TOP, ue_entry = t_entry t, ue_trap_stack = t_kernel_stack t + PAGE_SIZE - 16,
               ue_kernel_satp = ksatp, ue_user_satp = satp_of (t_pagetable t)\<rparr>, s1)))"

text \<open>\<open>list_all\<close>: the rows it prints.\<close>

definition task_row :: "Task \<Rightarrow> u32 \<times> string \<times> string \<times> usize \<times> usize" where
  "task_row t =
     (let state = (case t_state t of Unused \<Rightarrow> ''UNUSED'' | Ready \<Rightarrow> ''READY'' | Running \<Rightarrow> ''RUNNING''
                   | Sleeping \<Rightarrow> ''SLEEPING'' | Zombie \<Rightarrow> ''ZOMBIE'');
          (kind, stack_top) = (if t_pid t = IDLE_PID then (''IDLE'', t_kernel_stack t + PAGE_SIZE - 16)
                               else (''USER'', USER_STACK_TOP))
      in (t_pid t, kind, state, t_entry t, stack_top))"

definition list_all_tasks :: "TaskManager \<Rightarrow> (u32 \<times> string \<times> string \<times> usize \<times> usize) list \<times> u32" where
  "list_all_tasks m = (List.map_filter (map_option task_row) (tasks m), runnable_count m)"

end
