(* ===== verification/Byte_Codec.thy ===== *)
theory Byte_Codec
  imports Riscv_Machine
begin

text \<open>
  Bytes, as the kernel and the user programs read and write them: little-endian integers
  (\<open>from_le_bytes\<close>, \<open>to_le_bytes\<close>, \<open>read_unaligned\<close> of packed fields), runs of bytes in memory,
  UTF-8 validation (\<open>core::str::from_utf8\<close>) and ASCII literals. A byte slice is a list.
\<close>

section \<open>Little-endian integers\<close>

fun le_word :: "u8 list \<Rightarrow> 'a::len word" where
  "le_word [] = 0"
| "le_word (b # bs) = ucast b OR push_bit 8 (le_word bs)"

fun le_bytes :: "nat \<Rightarrow> 'a::len word \<Rightarrow> u8 list" where
  "le_bytes 0 w = []"
| "le_bytes (Suc n) w = ucast w # le_bytes n (drop_bit 8 w)"

definition le16 :: "nat \<Rightarrow> u8 list \<Rightarrow> u16" where "le16 o' d = le_word (take 2 (drop o' d))"
definition le32 :: "nat \<Rightarrow> u8 list \<Rightarrow> u32" where "le32 o' d = le_word (take 4 (drop o' d))"
definition le64 :: "nat \<Rightarrow> u8 list \<Rightarrow> u64" where "le64 o' d = le_word (take 8 (drop o' d))"

lemma length_le_bytes [simp]: "length (le_bytes n w) = n"
  by (induction n arbitrary: w) simp_all

lemma bit_le_word:
  fixes w :: "'a::len word"
  shows "bit (le_word bs :: 'a word) n \<longleftrightarrow> n < LENGTH('a) \<and> n div 8 < length bs \<and> bit (bs ! (n div 8)) (n mod 8)"
proof (induction bs arbitrary: n)
  case (Cons b bs)
  show ?case
  proof (cases "n < 8")
    case True
    then show ?thesis by (auto simp: bit_or_iff bit_push_bit_iff bit_unsigned_iff)
  next
    case False
    then obtain j where j: "n = 8 + j" by (auto simp: not_less le_iff_add)
    have nb: "\<not> bit b n" using False bit_imp_le_length [of b n] by auto
    have dm: "(8 + j) div 8 = Suc (j div 8)" "(8 + j) mod 8 = j mod 8" by (simp_all add: div_add1_eq)
    show ?thesis using nb unfolding j dm by (auto simp: bit_or_iff bit_push_bit_iff bit_unsigned_iff Cons.IH)
  qed
qed simp

lemma nth_le_bytes: "i < n \<Longrightarrow> le_bytes n w ! i = ucast (drop_bit (8 * i) w)"
proof (induction n arbitrary: w i)
  case (Suc n)
  then show ?case by (cases i) (simp_all add: drop_bit_drop_bit add.commute)
qed simp

lemma le_word_le_bytes:
  fixes w :: "'a::len word"
  assumes "LENGTH('a) \<le> 8 * n"
  shows "le_word (le_bytes n w) = w"
proof (rule bit_word_eqI)
  fix i assume i: "i < LENGTH('a)"
  then have "i div 8 < n" using assms by auto
  then show "bit (le_word (le_bytes n w) :: 'a word) i = bit w i"
    using i by (simp add: bit_le_word nth_le_bytes bit_unsigned_iff bit_drop_bit_eq)
qed

lemma le_bytes_le_word:
  assumes "8 * length bs \<le> LENGTH('a::len)"
  shows "le_bytes (length bs) (le_word bs :: 'a word) = bs"
proof (rule nth_equalityI)
  fix i assume i: "i < length (le_bytes (length bs) (le_word bs :: 'a word))"
  show "le_bytes (length bs) (le_word bs :: 'a word) ! i = bs ! i"
  proof (rule bit_word_eqI)
    fix n assume n: "n < LENGTH(8)"
    then have "(n + 8 * i) div 8 = i" "(n + 8 * i) mod 8 = n" by auto
    moreover have "n + 8 * i < LENGTH('a)" using assms i n by auto
    ultimately show "bit (le_bytes (length bs) (le_word bs :: 'a word) ! i) n = bit (bs ! i) n"
      using i n by (simp add: nth_le_bytes bit_unsigned_iff bit_drop_bit_eq bit_le_word add.commute)
  qed
qed simp

lemma unat_ucast_wide [simp]: "LENGTH('a::len) \<le> LENGTH('b::len) \<Longrightarrow> unat (ucast (x :: 'a word) :: 'b word) = unat x"
  by (simp add: unsigned_ucast_eq take_bit_nat_eq_self less_le_trans [OF unsigned_less])

section \<open>Runs of bytes in memory\<close>

fun write_bytes_at :: "usize \<Rightarrow> u8 list \<Rightarrow> cells \<Rightarrow> cells" where
  "write_bytes_at a [] m = m"
| "write_bytes_at a (b # bs) m = write_bytes_at (a + 1) bs (write_byte a b m)"

section \<open>Text\<close>

definition ascii :: "string \<Rightarrow> u8 list" where
  "ascii s = map of_char s"

definition utf8_tail :: "u8 \<Rightarrow> bool" where
  "utf8_tail b \<longleftrightarrow> 0x80 \<le> b \<and> b \<le> 0xBF"

text \<open>The range of the second byte of a sequence of three or four bytes.\<close>

definition utf8_second :: "u8 \<Rightarrow> u8 \<Rightarrow> bool" where
  "utf8_second b c \<longleftrightarrow>
     (if b = 0xE0 then 0xA0 \<le> c \<and> c \<le> 0xBF else if b = 0xED then 0x80 \<le> c \<and> c \<le> 0x9F
      else if b = 0xF0 then 0x90 \<le> c \<and> c \<le> 0xBF else if b = 0xF4 then 0x80 \<le> c \<and> c \<le> 0x8F
      else utf8_tail c)"

fun utf8_valid :: "u8 list \<Rightarrow> bool" where
  "utf8_valid [] = True"
| "utf8_valid (b # bs) =
     (if b < 0x80 then utf8_valid bs
      else if 0xC2 \<le> b \<and> b \<le> 0xDF then
        (case bs of c # r \<Rightarrow> utf8_tail c \<and> utf8_valid r | [] \<Rightarrow> False)
      else if 0xE0 \<le> b \<and> b \<le> 0xEF then
        (case bs of c # d # r \<Rightarrow> utf8_second b c \<and> utf8_tail d \<and> utf8_valid r | _ \<Rightarrow> False)
      else if 0xF0 \<le> b \<and> b \<le> 0xF4 then
        (case bs of c # d # e # r \<Rightarrow> utf8_second b c \<and> utf8_tail d \<and> utf8_tail e \<and> utf8_valid r | _ \<Rightarrow> False)
      else False)"

lemma ascii_valid: "\<forall>b \<in> set bs. b < 0x80 \<Longrightarrow> utf8_valid bs"
  by (induction bs) simp_all

end
