(* ===== verification/Initrd.thy ===== *)
theory Initrd
  imports Byte_Codec
begin

text \<open>
  The embedded archive: the reader of \<open>src/kernel/initrd.rs\<close> and the writer
  \<open>append_newc_entry\<close> of \<open>build.rs\<close>, with the round trip between them. The archive is the list of
  bytes between the two linker symbols; a slice has fewer than \<open>2^63\<close> bytes, so positions are
  natural numbers and the checked additions are written out.
\<close>

section \<open>Reading\<close>

definition HEADER_SIZE :: nat where "HEADER_SIZE = 110"
definition MAX_FILES :: nat where "MAX_FILES = 16"

text \<open>\<open>usize::checked_add\<close> and \<open>checked_mul\<close> on natural numbers.\<close>

definition cadd :: "nat \<Rightarrow> nat \<Rightarrow> nat option" where
  "cadd a b = (if a + b < 2 ^ 64 then Some (a + b) else None)"

definition cmul :: "nat \<Rightarrow> nat \<Rightarrow> nat option" where
  "cmul a b = (if a * b < 2 ^ 64 then Some (a * b) else None)"

definition hex_digit :: "u8 \<Rightarrow> nat option" where
  "hex_digit b =
     (if 0x30 \<le> b \<and> b \<le> 0x39 then Some (unat (b - 0x30))
      else if 0x61 \<le> b \<and> b \<le> 0x66 then Some (unat (b - 0x61 + 10))
      else if 0x41 \<le> b \<and> b \<le> 0x46 then Some (unat (b - 0x41 + 10))
      else None)"

fun hex_loop :: "nat \<Rightarrow> u8 list \<Rightarrow> nat option" where
  "hex_loop v [] = Some v"
| "hex_loop v (b # bs) =
     (case cmul v 16 of None \<Rightarrow> None | Some v16 \<Rightarrow>
      case hex_digit b of None \<Rightarrow> None | Some d \<Rightarrow>
      case cadd v16 d of None \<Rightarrow> None | Some v' \<Rightarrow> hex_loop v' bs)"

definition hex :: "u8 list \<Rightarrow> nat option" where
  "hex bs = hex_loop 0 bs"

definition align4 :: "nat \<Rightarrow> nat" where
  "align4 v = (v + 3) div 4 * 4"

type_synonym files = "(u8 list \<times> u8 list) list"

text \<open>\<open>archive[a..b]\<close>.\<close>

definition slice :: "nat \<Rightarrow> nat \<Rightarrow> 'a list \<Rightarrow> 'a list" where
  "slice a b xs = take (b - a) (drop a xs)"

text \<open>One turn of the loop: \<open>None\<close> is a break, otherwise the entry and the next position.\<close>

definition read_entry :: "u8 list \<Rightarrow> nat \<Rightarrow> ((u8 list \<times> u8 list) \<times> nat) option" where
  "read_entry ar pos =
     (let header = slice pos (pos + HEADER_SIZE) ar in
      if take 6 header \<noteq> ascii ''070701'' then None
      else case hex (slice 94 102 header) of None \<Rightarrow> None | Some namesize \<Rightarrow>
      case hex (slice 54 62 header) of None \<Rightarrow> None | Some filesize \<Rightarrow>
      let name_start = pos + HEADER_SIZE in
      case cadd name_start namesize of None \<Rightarrow> None | Some name_end \<Rightarrow>
      if namesize = 0 \<or> length ar < name_end then None
      else let name = slice name_start (name_end - 1) ar in
      if \<not> utf8_valid name then None
      else if name = ascii ''TRAILER!!!'' then None
      else let data_start = align4 name_end in
      case cadd data_start filesize of None \<Rightarrow> None | Some data_end \<Rightarrow>
      if length ar < data_end then None
      else Some ((name, slice data_start data_end ar), align4 data_end))"

definition add_file :: "u8 list \<times> u8 list \<Rightarrow> files \<Rightarrow> files" where
  "add_file f fs = (if length fs < MAX_FILES \<and> fst f \<noteq> ascii ''.'' then fs @ [f] else fs)"

lemma align4_ge: "v \<le> align4 v"
  unfolding align4_def by presburger

lemma read_entry_progress:
  assumes "read_entry ar pos = Some (f, pos')"
  shows "pos + HEADER_SIZE \<le> pos'"
proof -
  have step: "a \<le> b \<Longrightarrow> a \<le> align4 b" for a b using align4_ge order_trans by blast
  show ?thesis
    using assms unfolding read_entry_def Let_def cadd_def
    by (auto split: if_splits option.splits intro!: step trans_le_add1)
qed

text \<open>The loop of \<open>init\<close>.\<close>

function init_loop :: "u8 list \<Rightarrow> nat \<Rightarrow> files \<Rightarrow> files" where
  "init_loop ar pos fs =
     (if pos + HEADER_SIZE \<le> length ar then
        (case read_entry ar pos of
           None \<Rightarrow> fs
         | Some (f, pos') \<Rightarrow> init_loop ar pos' (add_file f fs))
      else fs)"
  by pat_completeness auto
termination
  by (relation "measure (\<lambda>(ar, pos, fs). length ar - pos)")
     (auto dest: read_entry_progress simp: HEADER_SIZE_def)

declare init_loop.simps [simp del]

definition initrd_init :: "u8 list \<Rightarrow> files" where
  "initrd_init ar = init_loop ar 0 []"

definition initrd_find :: "u8 list \<Rightarrow> files \<Rightarrow> u8 list option" where
  "initrd_find name fs = map_option snd (List.find (\<lambda>f. fst f = name) fs)"

section \<open>Writing\<close>

text \<open>\<open>{:08x}\<close>: at least eight hexadecimal digits.\<close>

definition hex_char :: "nat \<Rightarrow> u8" where
  "hex_char d = (if d < 10 then 0x30 + of_nat d else 0x61 + of_nat (d - 10))"

fun hex_digits :: "nat \<Rightarrow> nat \<Rightarrow> u8 list" where
  "hex_digits 0 v = []"
| "hex_digits (Suc n) v = hex_digits n (v div 16) @ [hex_char (v mod 16)]"

definition hex08 :: "nat \<Rightarrow> u8 list" where
  "hex08 v = hex_digits (max 8 (length (takeWhile (\<lambda>i. 16 ^ i \<le> v) [0..<64]))) v"

definition newc_header :: "nat \<Rightarrow> nat \<Rightarrow> nat \<Rightarrow> u8 list" where
  "newc_header ino namesize datasize =
     ascii ''070701'' @ hex08 ino @ hex08 0x81ED @ hex08 0 @ hex08 0 @ hex08 1 @ hex08 0 @ hex08 datasize @
     hex08 0 @ hex08 0 @ hex08 0 @ hex08 0 @ hex08 namesize @ hex08 0"

definition pad4 :: "u8 list \<Rightarrow> u8 list" where
  "pad4 xs = xs @ replicate (align4 (length xs) - length xs) 0"

text \<open>The assertion on the header's length stops the build.\<close>

definition append_newc_entry :: "u8 list \<Rightarrow> u8 list \<Rightarrow> u8 list \<Rightarrow> u32 \<Rightarrow> u8 list option" where
  "append_newc_entry archive name data ino =
     (let namesize = length name + 1;
          header = newc_header (unat ino) namesize (length data) in
      if length header \<noteq> 110 then None
      else Some (pad4 (pad4 (archive @ header @ name @ [0]) @ data)))"

text \<open>The archive \<open>main\<close> builds: the programs, numbered from 1, and the trailer.\<close>

fun append_all :: "nat \<Rightarrow> files \<Rightarrow> u8 list \<Rightarrow> u8 list option" where
  "append_all i [] ar = append_newc_entry ar (ascii ''TRAILER!!!'') [] (of_nat i)"
| "append_all i ((name, data) # fs) ar =
     (case append_newc_entry ar name data (of_nat i) of None \<Rightarrow> None | Some ar' \<Rightarrow> append_all (Suc i) fs ar')"

definition build_archive :: "files \<Rightarrow> u8 list option" where
  "build_archive fs = append_all 1 fs []"

section \<open>Hexadecimal fields\<close>

lemma hex_loop_append:
  "hex_loop v (xs @ ys) = (case hex_loop v xs of None \<Rightarrow> None | Some w \<Rightarrow> hex_loop w ys)"
  by (induction xs arbitrary: v) (simp_all split: option.split)

lemma hex_digit_char: "d < 16 \<Longrightarrow> hex_digit (hex_char d) = Some d"
proof -
  have "\<forall>d \<in> set [0..<16]. hex_digit (hex_char d) = Some d" by code_simp
  then show "d < 16 \<Longrightarrow> hex_digit (hex_char d) = Some d" by simp
qed

lemma hex_loop_digits:
  assumes "v < 16 ^ n" and "a * 16 ^ n + v < 2 ^ 64"
  shows "hex_loop a (hex_digits n v) = Some (a * 16 ^ n + v)"
  using assms
proof (induction n arbitrary: v)
  case (Suc n)
  have q: "v div 16 < 16 ^ n" using Suc.prems(1) by (simp add: less_mult_imp_div_less mult.commute)
  have v: "v = 16 * (v div 16) + v mod 16" by simp
  have eq: "(a * 16 ^ n + v div 16) * 16 + v mod 16 = a * 16 ^ Suc n + v" by (simp add: algebra_simps)
  have "(a * 16 ^ n + v div 16) * 16 + v mod 16 < 2 ^ 64" using Suc.prems(2) by (simp only: eq)
  then have c: "(a * 16 ^ n + v div 16) * 16 < 2 ^ 64" by (rule le_less_trans [OF le_add1])
  have b: "a * 16 ^ n + v div 16 < 2 ^ 64" by (rule le_less_trans [OF _ c]) simp
  show ?case
    using Suc.IH [OF q b] c Suc.prems(2) eq by (simp add: hex_loop_append cmul_def cadd_def hex_digit_char)
qed simp

lemma length_hex_digits [simp]: "length (hex_digits n v) = n"
  by (induction n arbitrary: v) simp_all

lemma length_hex08_ge: "8 \<le> length (hex08 v)"
  by (simp add: hex08_def)

lemma length_hex08_bound:
  assumes "length (hex08 v) = 8" and "v < 2 ^ 64"
  shows "v < 16 ^ 8"
proof (rule ccontr)
  assume "\<not> v < 16 ^ 8"
  then have le: "16 ^ i \<le> v" if "i \<le> 8" for i :: nat
    using power_increasing [OF that, of "16::nat"] by simp
  have "[0..<64] = [0..<9] @ [9..<64::nat]" using upt_add_eq_append [of 0 9 55] by (simp del: upt_rec_numeral upt_Suc)
  moreover have "takeWhile (\<lambda>i. 16 ^ i \<le> v) ([0..<9] @ [9..<64]) = [0..<9] @ takeWhile (\<lambda>i. 16 ^ i \<le> v) [9..<64]"
    by (rule takeWhile_append2) (use le in auto)
  ultimately have "takeWhile (\<lambda>i. 16 ^ i \<le> v) [0..<64] = [0..<9] @ takeWhile (\<lambda>i. 16 ^ i \<le> v) [9..<64]"
    by (simp only:)
  then have "9 \<le> length (takeWhile (\<lambda>i. 16 ^ i \<le> v) [0..<64])" by (simp del: upt_rec_numeral)
  then show False using assms(1) by (simp add: hex08_def)
qed

lemma length_hex08:
  assumes "v < 16 ^ 8"
  shows "length (hex08 v) = 8"
proof -
  have "[0..<64] = [0..<8] @ [8..<64::nat]" using upt_add_eq_append [of 0 8 56] by (simp del: upt_rec_numeral upt_Suc)
  moreover have "[8..<64::nat] = 8 # [9..<64]" by (simp add: upt_conv_Cons del: upt_rec_numeral)
  ultimately have "takeWhile (\<lambda>i. 16 ^ i \<le> v) [0..<64] = takeWhile (\<lambda>i. 16 ^ i \<le> v) [0..<8]"
    using takeWhile_tail [of "\<lambda>i. 16 ^ i \<le> v" 8 "[0..<8]" "[9..<64]"] assms by (simp only: not_le simp_thms)
  then show ?thesis using length_takeWhile_le [of "\<lambda>i. 16 ^ i \<le> v" "[0..<8]"]
    by (simp add: hex08_def del: upt_rec_numeral)
qed

lemma hex_hex08:
  assumes "length (hex08 v) = 8" and "v < 2 ^ 64"
  shows "hex (hex08 v) = Some v"
  using hex_loop_digits [of v 8 0] length_hex08_bound [OF assms] assms
  by (simp add: hex_def hex08_def del: One_nat_def)

lemma newc_header_fields:
  assumes len: "length (newc_header ino namesize datasize) = 110" and b: "namesize < 2 ^ 64" "datasize < 2 ^ 64"
  shows "take 6 (newc_header ino namesize datasize) = ascii ''070701''"
    and "hex (slice 94 102 (newc_header ino namesize datasize)) = Some namesize"
    and "hex (slice 54 62 (newc_header ino namesize datasize)) = Some datasize"
proof -
  have c: "length (hex08 0) = 8" "length (hex08 (Suc 0)) = 8" "length (hex08 0x81ED) = 8" "length (ascii ''070701'') = 6"
    by (rule length_hex08, simp)+ (simp add: ascii_def)
  have d: "length (hex08 ino) = 8" "length (hex08 namesize) = 8" "length (hex08 datasize) = 8"
    using len length_hex08_ge [of ino] length_hex08_ge [of namesize] length_hex08_ge [of datasize]
    by (simp_all add: newc_header_def c)
  show "take 6 (newc_header ino namesize datasize) = ascii ''070701''"
    by (simp add: newc_header_def c)
  have "slice 94 102 (newc_header ino namesize datasize) = hex08 namesize"
    by (simp add: slice_def newc_header_def c d)
  then show "hex (slice 94 102 (newc_header ino namesize datasize)) = Some namesize"
    using hex_hex08 [OF d(2) b(1)] by simp
  have "slice 54 62 (newc_header ino namesize datasize) = hex08 datasize"
    by (simp add: slice_def newc_header_def c d)
  then show "hex (slice 54 62 (newc_header ino namesize datasize)) = Some datasize"
    using hex_hex08 [OF d(3) b(2)] by simp
qed

section \<open>Entries\<close>

lemma align4_dvd [simp]: "4 dvd align4 v"
  by (simp add: align4_def)

lemma align4_eq: "4 dvd v \<Longrightarrow> align4 (v + w) = v + align4 w"
proof -
  assume "4 dvd v"
  then obtain k where k: "v = 4 * k" by (auto simp: dvd_def)
  have "v + w + 3 = (w + 3) + k * 4" using k by simp
  then show "align4 (v + w) = v + align4 w" using k unfolding align4_def by (metis div_mult_self1 distrib_right mult.commute add.commute numeral_neq_zero)
qed

lemma length_pad4 [simp]: "length (pad4 xs) = align4 (length xs)"
  using align4_ge [of "length xs"] by (simp add: pad4_def)

lemma pad4_append: "4 dvd length xs \<Longrightarrow> pad4 (xs @ ys) = xs @ pad4 ys"
  by (simp add: pad4_def align4_eq)

definition newc_entry :: "u8 list \<Rightarrow> u8 list \<Rightarrow> nat \<Rightarrow> u8 list" where
  "newc_entry name data ino =
     pad4 (newc_header ino (length name + 1) (length data) @ name @ [0]) @ pad4 data"

lemma append_newc_entry_Some:
  assumes "append_newc_entry ar name data ino = Some ar'" and "4 dvd length ar"
  shows "ar' = ar @ newc_entry name data (unat ino)" and "4 dvd length ar'"
    and "length (newc_header (unat ino) (length name + 1) (length data)) = 110"
  using assms by (auto simp: append_newc_entry_def Let_def pad4_append newc_entry_def split: if_splits)

lemma append_newc_entry_eq:
  assumes "4 dvd length ar" and "length (newc_header (unat ino) (length name + 1) (length data)) = 110"
  shows "append_newc_entry ar name data ino = Some (ar @ newc_entry name data (unat ino))"
  using assms(2) by (simp add: append_newc_entry_def Let_def pad4_append [OF assms(1)] newc_entry_def)
    (simp add: pad4_append)

lemma slice_append: "slice (length xs) (length xs + length ys) (xs @ ys @ zs) = ys"
  by (simp add: slice_def)

text \<open>What the reader sees at the position of an entry.\<close>

lemma read_entry_newc:
  assumes len: "length (newc_header ino (length name + 1) (length data)) = 110"
    and small: "length (pre @ newc_entry name data ino @ rest) < 2 ^ 63" and pre: "4 dvd length pre"
    and valid: "utf8_valid name"
  shows "read_entry (pre @ newc_entry name data ino @ rest) (length pre) =
    (if name = ascii ''TRAILER!!!'' then None
     else Some ((name, data), length pre + length (newc_entry name data ino)))"
proof -
  let ?h = "newc_header ino (length name + 1) (length data)" and ?ar = "pre @ newc_entry name data ino @ rest"
  define p where "p = replicate (align4 (length (?h @ name @ [0])) - length (?h @ name @ [0])) (0::u8)"
  define q where "q = replicate (align4 (length data) - length data) (0::u8)"
  have ar: "?ar = pre @ ?h @ name @ [0] @ p @ data @ q @ rest"
    by (simp add: newc_entry_def pad4_def p_def q_def)
  have lenS: "length (newc_header ino (Suc (length name)) (length data)) = 110" using len by simp
  have lp: "length name + 111 + length p = align4 (length name + 111)"
    using align4_ge [of "length name + 111"] len by (simp add: p_def add.commute)
  have lq: "length data + length q = align4 (length data)" using align4_ge [of "length data"] by (simp add: q_def)
  have b: "length pre + 111 + length name + length p + length data + length q + length rest < 2 ^ 63"
    using small unfolding ar by (simp add: lenS)
  note f = newc_header_fields [OF len]
  have nd: "length name + 1 < 2 ^ 64" "length data < 2 ^ 64" using b by simp_all
  have s1: "slice (length pre) (length pre + HEADER_SIZE) ?ar = ?h"
    unfolding ar HEADER_SIZE_def len [symmetric] by (rule slice_append)
  have s2: "slice (length pre + HEADER_SIZE) (length pre + HEADER_SIZE + (length name + 1) - 1) ?ar = name"
    using slice_append [of "pre @ ?h" name "[0] @ p @ data @ q @ rest"] unfolding ar
    by (simp add: HEADER_SIZE_def lenS ac_simps)
  have ds: "align4 (length pre + HEADER_SIZE + (length name + 1)) = length pre + 111 + length name + length p"
    using align4_eq [OF pre, of "length name + 111"] lp by (simp add: HEADER_SIZE_def ac_simps)
  have s3: "slice (length pre + 111 + length name + length p) (length pre + 111 + length name + length p + length data) ?ar = data"
    using slice_append [of "pre @ ?h @ name @ [0] @ p" data "q @ rest"] unfolding ar by (simp add: lenS add.assoc)
  have d4: "4 dvd length pre + 111 + length name + length p"
    using align4_dvd [of "length pre + HEADER_SIZE + (length name + 1)"] unfolding ds .
  have de: "align4 (length pre + 111 + length name + length p + length data) = length pre + length (newc_entry name data ino)"
    unfolding align4_eq [OF d4] lq [symmetric] using lp by (simp add: newc_entry_def lenS lq ac_simps)
  have le: "length ?ar = length pre + 111 + length name + length p + length data + length q + length rest"
    unfolding ar by (simp add: lenS)
  have c1: "cadd (length pre + HEADER_SIZE) (length name + 1) = Some (length pre + HEADER_SIZE + (length name + 1))"
    using b by (simp add: cadd_def HEADER_SIZE_def)
  have c2: "cadd (length pre + 111 + length name + length p) (length data) =
      Some (length pre + 111 + length name + length p + length data)"
    using b by (simp add: cadd_def)
  have g1: "\<not> length ?ar < length pre + HEADER_SIZE + (length name + 1)" unfolding le by (simp add: HEADER_SIZE_def)
  have g2: "\<not> length ?ar < length pre + 111 + length name + length p + length data" unfolding le by simp
  show ?thesis
    unfolding read_entry_def Let_def s1 f(1) [OF nd] f(2) [OF nd] f(3) [OF nd] option.case c1 s2 ds c2 s3 de
    using valid g1 g2 by simp
qed

section \<open>Round trip\<close>

text \<open>The names the reader accepts: valid UTF-8 and not the trailer's.\<close>

definition entry_name_ok :: "u8 list \<Rightarrow> bool" where
  "entry_name_ok name \<longleftrightarrow> utf8_valid name \<and> name \<noteq> ascii ''TRAILER!!!''"

lemma init_loop_archive:
  assumes "append_all i fs pre = Some ar" and "4 dvd length pre" and "length ar < 2 ^ 63"
    and "\<forall>f \<in> set fs. entry_name_ok (fst f)"
  shows "init_loop ar (length pre) got = fold add_file fs got \<and> (\<exists>rest. ar = pre @ rest)"
  using assms
proof (induction i fs pre arbitrary: got rule: append_all.induct)
  case (1 i pre)
  note a = append_newc_entry_Some [OF 1(1) [unfolded append_all.simps] 1(2)]
  have v: "utf8_valid (ascii ''TRAILER!!!'')" by code_simp
  have "read_entry ar (length pre) = None"
    using read_entry_newc [OF a(3) _ 1(2) v, where rest = "[]"] 1(3) a(1) by simp
  then show ?case using a(1) by (simp add: init_loop.simps)
next
  case (2 i name data fs pre)
  obtain ar' where ar': "append_newc_entry pre name data (of_nat i) = Some ar'" "append_all (Suc i) fs ar' = Some ar"
    using "2.prems"(1) by (auto split: option.splits)
  note a = append_newc_entry_Some [OF ar'(1) "2.prems"(2)]
  have ok: "utf8_valid name" "name \<noteq> ascii ''TRAILER!!!''" using "2.prems"(4) by (simp_all add: entry_name_ok_def)
  have ih: "init_loop ar (length ar') g = fold add_file fs g \<and> (\<exists>rest. ar = ar' @ rest)" for g
    using "2.IH" [OF ar'(1,2) a(2) "2.prems"(3)] "2.prems"(4) by simp
  then obtain rest where rest: "ar = pre @ newc_entry name data (unat (of_nat i :: u32)) @ rest" using a(1) by auto
  have r: "read_entry ar (length pre) = Some ((name, data), length ar')"
    using read_entry_newc [OF a(3) _ "2.prems"(2) ok(1), where rest = rest] "2.prems"(3) ok(2) unfolding rest by (simp add: a(1))
  have "110 \<le> length (newc_entry name data (unat (of_nat i :: u32)))"
    using a(3) align4_ge [of "111 + length name"] by (simp add: newc_entry_def)
  then have "init_loop ar (length pre) got = init_loop ar (length ar') (add_file (name, data) got)"
    using r by (subst init_loop.simps) (simp add: HEADER_SIZE_def rest)
  then show ?case using ih rest by auto
qed

lemma fold_add_file:
  assumes "length got \<le> MAX_FILES"
  shows "fold add_file fs got = take MAX_FILES (got @ filter (\<lambda>f. fst f \<noteq> ascii ''.'') fs)"
  using assms
proof (induction fs arbitrary: got)
  case (Cons f fs)
  show ?case
  proof (cases "length got < MAX_FILES \<and> fst f \<noteq> ascii ''.''")
    case True
    then show ?thesis using Cons.IH [of "got @ [f]"] by (simp add: add_file_def)
  next
    case False
    then show ?thesis using Cons by (auto simp: add_file_def)
  qed
qed simp

text \<open>C24: Round trip of the embedded archive: whatever \<open>build.rs\<close> packs, \<open>initrd::init\<close> unpacks: the first sixteen
  programs (those named \<open>.\<close> apart) with exactly their bytes and in order.\<close>

theorem initrd_roundtrip:
  assumes "build_archive fs = Some ar" and "length ar < 2 ^ 63" and "\<forall>f \<in> set fs. entry_name_ok (fst f)"
  shows "initrd_init ar = take MAX_FILES (filter (\<lambda>f. fst f \<noteq> ascii ''.'') fs)"
  using init_loop_archive [OF assms(1) [unfolded build_archive_def] _ assms(2,3), of "[]"] fold_add_file [of "[]" fs]
  by (simp add: initrd_init_def)

lemma length_newc_header:
  assumes "ino < 16 ^ 8" and "namesize < 16 ^ 8" and "datasize < 16 ^ 8"
  shows "length (newc_header ino namesize datasize) = 110"
  using assms by (simp add: newc_header_def length_hex08 ascii_def)

theorem initrd_roundtrip_witness:
  "\<exists>ar. build_archive [(ascii ''sh'', [1, 2, 3])] = Some ar \<and> initrd_init ar = [(ascii ''sh'', [1, 2, 3])]"
proof -
  let ?e = "newc_entry (ascii ''sh'') [1, 2, 3] 1" and ?t = "newc_entry (ascii ''TRAILER!!!'') [] 2"
  have len: "length (ascii ''sh'') = 2" "length (ascii ''TRAILER!!!'') = 10" by (simp_all add: ascii_def)
  have u: "unat (of_nat 2 :: u32) = 2" by simp
  have h: "length (newc_header (unat (of_nat 1 :: u32)) (length (ascii ''sh'') + 1) (length [1::u8, 2, 3])) = 110"
    "length (newc_header (unat (of_nat 2 :: u32)) (length (ascii ''TRAILER!!!'') + 1) (length ([] :: u8 list))) = 110"
    by (rule length_newc_header; simp add: len)+
  have a: "append_newc_entry [] (ascii ''sh'') [1, 2, 3] (of_nat 1) = Some ?e"
    using append_newc_entry_eq [OF _ h(1), of "[]"] by simp
  have e4: "length ?e = 120" using h(1) by (simp add: newc_entry_def len align4_def)
  have t: "append_newc_entry ?e (ascii ''TRAILER!!!'') [] (of_nat 2) = Some (?e @ ?t)"
    using append_newc_entry_eq [OF _ h(2), of ?e] e4 u by simp
  have t4: "length ?t = 124" using h(2) by (simp add: newc_entry_def len align4_def)
  have "build_archive [(ascii ''sh'', [1, 2, 3])] = Some (?e @ ?t)"
    using a t by (simp add: build_archive_def numeral_2_eq_2 [symmetric])
  moreover have "entry_name_ok (ascii ''sh'')" "ascii ''sh'' \<noteq> ascii ''.''" by code_simp+
  ultimately show ?thesis
    using initrd_roundtrip [of "[(ascii ''sh'', [1, 2, 3])]"] e4 t4 by (simp add: MAX_FILES_def)
qed

end
