(* ===== verification/Elf_Exec.thy ===== *)
theory Elf_Exec
  imports Task_Memory Initrd
begin

text \<open>
  The ELF loader, \<open>src/kernel/exec.rs\<close>: headers, verification, the loading of segments into a fresh
  address space, \<open>spawn\<close> and \<open>exec\<close>. The files of the initrd are an argument. The additions that the
  code does not check wrap around, as in the release build.
\<close>

section \<open>Headers\<close>

record Elf64Ehdr =
  e_ident :: "u8 list"
  e_type :: u16
  e_machine :: u16
  e_version :: u32
  e_entry :: u64
  e_phoff :: u64
  e_shoff :: u64
  e_flags :: u32
  e_ehsize :: u16
  e_phentsize :: u16
  e_phnum :: u16
  e_shentsize :: u16
  e_shnum :: u16
  e_shstrndx :: u16

record Elf64Phdr =
  p_type :: u32
  p_flags :: u32
  p_offset :: u64
  p_vaddr :: u64
  p_paddr :: u64
  p_filesz :: u64
  p_memsz :: u64
  p_align :: u64

definition EHDR_SIZE :: nat where "EHDR_SIZE = 64"
definition PHDR_SIZE :: nat where "PHDR_SIZE = 56"
definition ET_EXEC :: u16 where "ET_EXEC = 2"
definition EM_RISCV :: u16 where "EM_RISCV = 243"
definition PT_LOAD :: u32 where "PT_LOAD = 1"
definition PF_X :: u32 where "PF_X = 1"
definition PF_W :: u32 where "PF_W = 2"
definition PF_R :: u32 where "PF_R = 4"
definition ELF_MAGIC :: "u8 list" where "ELF_MAGIC = [0x7f, 0x45, 0x4c, 0x46]"

text \<open>\<open>read_unaligned\<close> of a \<open>repr(C)\<close> header at an offset of the file.\<close>

definition read_ehdr :: "u8 list \<Rightarrow> Elf64Ehdr" where
  "read_ehdr d = \<lparr>
     e_ident = take 16 d, e_type = le16 16 d, e_machine = le16 18 d, e_version = le32 20 d,
     e_entry = le64 24 d, e_phoff = le64 32 d, e_shoff = le64 40 d, e_flags = le32 48 d,
     e_ehsize = le16 52 d, e_phentsize = le16 54 d, e_phnum = le16 56 d, e_shentsize = le16 58 d,
     e_shnum = le16 60 d, e_shstrndx = le16 62 d\<rparr>"

definition read_phdr :: "u8 list \<Rightarrow> nat \<Rightarrow> Elf64Phdr" where
  "read_phdr d o' = \<lparr>
     p_type = le32 o' d, p_flags = le32 (o' + 4) d, p_offset = le64 (o' + 8) d, p_vaddr = le64 (o' + 16) d,
     p_paddr = le64 (o' + 24) d, p_filesz = le64 (o' + 32) d, p_memsz = le64 (o' + 40) d, p_align = le64 (o' + 48) d\<rparr>"

definition elf_verify :: "Elf64Ehdr \<Rightarrow> nat \<Rightarrow> bool" where
  "elf_verify eh sz \<longleftrightarrow>
     EHDR_SIZE \<le> sz \<and> take 4 (e_ident eh) = ELF_MAGIC \<and> e_type eh = ET_EXEC \<and> e_machine eh = EM_RISCV \<and>
     unat (e_phentsize eh) = PHDR_SIZE \<and>
     is_some_and (\<lambda>stop. unat stop \<le> sz)
       (checked_add (e_phoff eh) (ucast (e_phnum eh) * ucast (e_phentsize eh)))"

section \<open>Loading\<close>

text \<open>The part of a page that comes from the file: offset in the file, offset in the page, length.\<close>

definition file_part :: "Elf64Phdr \<Rightarrow> usize \<Rightarrow> (usize \<times> usize \<times> usize) option" where
  "file_part ph page_va =
     (let page_end = page_va + PAGE_SIZE;
          file_va_start = p_vaddr ph;
          file_va_end = file_va_start + p_filesz ph;
          copy_va_start = max page_va file_va_start;
          copy_va_end = min page_end file_va_end
      in if copy_va_start < copy_va_end
         then Some (p_offset ph + copy_va_start - file_va_start, copy_va_start - page_va, copy_va_end - copy_va_start)
         else None)"

definition segment_flags :: "Elf64Phdr \<Rightarrow> usize" where
  "segment_flags ph =
     (let f0 = PTE_U;
          f1 = (if p_flags ph AND PF_R \<noteq> 0 then f0 OR PTE_R else f0);
          f2 = (if p_flags ph AND PF_W \<noteq> 0 then f1 OR PTE_W else f1)
      in if p_flags ph AND PF_X \<noteq> 0 then f2 OR PTE_X else f2)"

definition load_page :: "usize \<Rightarrow> u8 list \<Rightarrow> Elf64Phdr \<Rightarrow> usize \<Rightarrow> kmem \<Rightarrow> unit result \<times> kmem" where
  "load_page pt d ph page_va k =
     try_k (ok_or (k_alloc k)) (\<lambda>page k1.
       let m1 = clear_page page (phys k1);
           m2 = (case file_part ph page_va of
                   None \<Rightarrow> m1
                 | Some (src, dst, len) \<Rightarrow> write_bytes_at (page + dst) (take (unat len) (drop (unat src) d)) m1)
       in pt_map pt page_va page PAGE_SIZE (segment_flags ph) (k1\<lparr>phys := m2\<rparr>))"

fun load_pages :: "usize \<Rightarrow> u8 list \<Rightarrow> Elf64Phdr \<Rightarrow> usize \<Rightarrow> nat list \<Rightarrow> kmem \<Rightarrow> unit result \<times> kmem" where
  "load_pages pt d ph va_start [] k = (Ok (), k)"
| "load_pages pt d ph va_start (j # js) k =
     try_k (load_page pt d ph (va_start + of_nat j * PAGE_SIZE) k) (\<lambda>_ k'. load_pages pt d ph va_start js k')"

definition segment_start :: "Elf64Phdr \<Rightarrow> usize" where
  "segment_start ph = p_vaddr ph AND NOT (PAGE_SIZE - 1)"

definition segment_end :: "Elf64Phdr \<Rightarrow> usize" where
  "segment_end ph = (p_vaddr ph + p_memsz ph + PAGE_SIZE - 1) AND NOT (PAGE_SIZE - 1)"

text \<open>The loop over the program headers, with the bounds of the image so far.\<close>

fun load_segments :: "usize \<Rightarrow> u8 list \<Rightarrow> Elf64Ehdr \<Rightarrow> nat list \<Rightarrow> usize \<Rightarrow> usize \<Rightarrow> kmem \<Rightarrow> (usize \<times> usize) result \<times> kmem" where
  "load_segments pt d eh [] lo hi k = (Ok (lo, hi), k)"
| "load_segments pt d eh (i # is) lo hi k =
     (let ph = read_phdr d (unat (e_phoff eh + of_nat i * ucast (e_phentsize eh))) in
      if p_type ph \<noteq> PT_LOAD \<or> p_memsz ph = 0 then load_segments pt d eh is lo hi k
      else case checked_add (p_offset ph) (p_filesz ph) of None \<Rightarrow> (Err, k) | Some segment_file_end \<Rightarrow>
      if p_memsz ph < p_filesz ph \<or> length d < unat segment_file_end then (Err, k)
      else try_k (load_pages pt d ph (segment_start ph)
                    [0..<unat ((segment_end ph - segment_start ph) div PAGE_SIZE)] k) (\<lambda>_ k'.
             load_segments pt d eh is (min lo (segment_start ph)) (max hi (segment_end ph)) k'))"

definition elf_load :: "usize \<Rightarrow> u8 list \<Rightarrow> Elf64Ehdr \<Rightarrow> kmem \<Rightarrow> (usize \<times> usize \<times> usize) result \<times> kmem" where
  "elf_load pt d eh k =
     try_k (load_segments pt d eh [0..<unat (e_phnum eh)] (- 1) 0 k) (\<lambda>(image_start, image_end) k'.
       if image_start = - 1 then (Err, k') else (Ok (e_entry eh, image_start, image_end - image_start), k'))"

record LoadedImage =
  li_pagetable :: usize
  li_user_stack :: usize
  li_entry :: usize
  li_image_base :: usize
  li_image_size :: usize

definition elf_image :: "u8 list \<Rightarrow> kmem \<Rightarrow> LoadedImage result \<times> kmem" where
  "elf_image d k =
     try_k (ok_or (pt_create k)) (\<lambda>pt k1.
     try_k (map_kernel pt k1) (\<lambda>_ k2.
     try_k (elf_load pt d (read_ehdr d) k2) (\<lambda>(entry, image_base, image_size) k3.
     try_k (ok_or (k_alloc k3)) (\<lambda>user_stack k4.
     try_k (pt_map pt (USER_STACK_TOP - PAGE_SIZE) user_stack PAGE_SIZE (PTE_R OR PTE_W OR PTE_U)
              (k4\<lparr>phys := clear_page user_stack (phys k4)\<rparr>)) (\<lambda>_ k5.
       (Ok \<lparr>li_pagetable = pt, li_user_stack = user_stack, li_entry = entry, li_image_base = image_base,
            li_image_size = image_size\<rparr>, k5))))))"

definition load_elf :: "files \<Rightarrow> u8 list \<Rightarrow> kmem \<Rightarrow> LoadedImage result \<times> kmem" where
  "load_elf fs name k =
     (case initrd_find name fs of
        None \<Rightarrow> (Err, k)
      | Some d \<Rightarrow>
          if length d < EHDR_SIZE then (Err, k)
          else if \<not> elf_verify (read_ehdr d) (length d) then (Err, k)
          else elf_image d k)"

definition spawn :: "files \<Rightarrow> u8 list \<Rightarrow> kstate \<Rightarrow> (u32 result \<times> kstate) outcome" where
  "spawn fs name s =
     (case load_elf fs name (mem s) of
        (Inl _, k) \<Rightarrow> Done (Err, s\<lparr>mem := k\<rparr>)
      | (Inr im, k) \<Rightarrow> create_user_image (li_pagetable im) (li_user_stack im) (li_entry im) (li_image_base im)
                        (li_image_size im) (s\<lparr>mem := k\<rparr>))"

definition exec :: "files \<Rightarrow> u8 list \<Rightarrow> usize \<Rightarrow> kstate \<Rightarrow> (unit result \<times> kstate) outcome" where
  "exec fs name tf s =
     (case load_elf fs name (mem s) of
        (Inl _, k) \<Rightarrow> Done (Err, s\<lparr>mem := k\<rparr>)
      | (Inr im, k) \<Rightarrow> replace_current (li_pagetable im) (li_user_stack im) (li_entry im) (li_image_base im)
                        (li_image_size im) tf (s\<lparr>mem := k\<rparr>))"

section \<open>Bounds of the reads and writes\<close>

lemma file_part_bounds:
  assumes "file_part ph page_va = Some (src, dst, len)"
    and "checked_add (p_offset ph) (p_filesz ph) = Some stop"
  shows "unat src + unat len \<le> unat stop" and "unat dst + unat len \<le> unat PAGE_SIZE" and "len \<noteq> 0"
proof -
  let ?fs = "p_vaddr ph" and ?fe = "p_vaddr ph + p_filesz ph" and ?pe = "page_va + PAGE_SIZE"
  let ?cs = "max page_va (p_vaddr ph)" and ?ce = "min (page_va + PAGE_SIZE) (p_vaddr ph + p_filesz ph)"
  have c: "?cs < ?ce" and src: "src = p_offset ph + ?cs - ?fs" and dst: "dst = ?cs - page_va" and len: "len = ?ce - ?cs"
    using assms(1) by (auto simp: file_part_def Let_def split: if_splits)
  have o1: "page_va \<le> ?cs" "?fs \<le> ?cs" "?ce \<le> ?pe" "?ce \<le> ?fe" by simp_all
  have u: "unat page_va \<le> unat ?cs" "unat ?fs \<le> unat ?cs" "unat ?cs < unat ?ce" "unat ?ce \<le> unat ?pe" "unat ?ce \<le> unat ?fe"
    using c o1 unfolding word_le_nat_alt word_less_nat_alt by auto
  have fe: "unat ?fe \<le> unat ?fs + unat (p_filesz ph)" and pe: "unat ?pe \<le> unat page_va + unat PAGE_SIZE"
    by (simp_all add: unat_word_ariths)
  have st: "unat stop = unat (p_offset ph) + unat (p_filesz ph)" by (rule checked_add_Some(1) [OF assms(2)])
  have ul: "unat len = unat ?ce - unat ?cs" unfolding len by (rule unat_sub [OF less_imp_le [OF c]])
  have ud: "unat dst = unat ?cs - unat page_va" unfolding dst using o1(1) by (rule unat_sub)
  have "src = p_offset ph + (?cs - ?fs)" by (simp add: src)
  then have us: "unat src \<le> unat (p_offset ph) + (unat ?cs - unat ?fs)"
    using unat_sub [OF o1(2)] by (metis unat_word_ariths(1) mod_less_eq_dividend)
  show "unat src + unat len \<le> unat stop" using us ul u fe st by linarith
  show "unat dst + unat len \<le> unat PAGE_SIZE" using ud ul u pe by linarith
  show "len \<noteq> 0" using ul u by auto
qed

lemma phdr_in_file:
  assumes "elf_verify eh sz" and "i < unat (e_phnum eh)"
  shows "unat (e_phoff eh + of_nat i * ucast (e_phentsize eh)) + PHDR_SIZE \<le> sz"
proof -
  let ?n = "ucast (e_phnum eh) * ucast (e_phentsize eh) :: u64"
  obtain stop where stop: "checked_add (e_phoff eh) ?n = Some stop" "unat stop \<le> sz" and es: "unat (e_phentsize eh) = PHDR_SIZE"
    using assms(1) by (auto simp: elf_verify_def is_some_and_iff)
  have small: "unat (e_phnum eh) < 2 ^ 16" using unsigned_less [of "e_phnum eh"] by simp
  have un: "unat ?n = unat (e_phnum eh) * PHDR_SIZE"
    using small es by (simp add: unat_word_ariths PHDR_SIZE_def)
  have ui: "unat (of_nat i * ucast (e_phentsize eh) :: u64) = i * PHDR_SIZE"
    using small es assms(2) by (simp add: unat_word_ariths PHDR_SIZE_def unat_of_nat)
  have st: "unat (e_phoff eh) + unat (e_phnum eh) * PHDR_SIZE = unat stop"
    using checked_add_Some(1) [OF stop(1)] un by simp
  have "i * PHDR_SIZE + PHDR_SIZE \<le> unat (e_phnum eh) * PHDR_SIZE"
    using assms(2) mult_le_mono1 [of "Suc i" "unat (e_phnum eh)" PHDR_SIZE] by simp
  moreover have "unat (e_phoff eh + of_nat i * ucast (e_phentsize eh)) \<le> unat (e_phoff eh) + i * PHDR_SIZE"
    unfolding ui [symmetric] unat_word_ariths by simp
  ultimately show ?thesis using st stop(2) by linarith
qed

end
