(* ===== verification/Syscall.thy ===== *)
theory Syscall
  imports Elf_Exec
begin

text \<open>
  Traps and system calls, \<open>src/kernel/trap.rs\<close>, \<open>syscall.rs\<close> and \<open>timer.rs\<close>, the rest of the PLIC
  driver (\<open>src/drivers/plic.rs\<close>), and the boot sequence (\<open>src/main.rs\<close>). A trap starts with the trap
  frame the assembly entry saved, at the address \<open>tf\<close>, and ends with the address of the frame to restore. The contents of the control registers
  and of the PLIC's registers are inputs; console output is not modelled.
\<close>

section \<open>System calls\<close>

definition SYS_EXIT :: usize where "SYS_EXIT = 2"
definition SYS_YIELD :: usize where "SYS_YIELD = 4"
definition SYS_GETPID :: usize where "SYS_GETPID = 5"
definition SYS_FORK :: usize where "SYS_FORK = 6"
definition SYS_PS :: usize where "SYS_PS = 7"
definition SYS_EXEC :: usize where "SYS_EXEC = 8"
definition SYS_WAITPID :: usize where "SYS_WAITPID = 9"
definition SYS_IPC_CALL :: usize where "SYS_IPC_CALL = 10"
definition SYS_IPC_RECV :: usize where "SYS_IPC_RECV = 11"
definition SYS_IPC_REPLY :: usize where "SYS_IPC_REPLY = 12"
definition SYS_IRQ_WAIT :: usize where "SYS_IRQ_WAIT = 13"
definition SYS_SBRK :: usize where "SYS_SBRK = 14"
definition SYS_IPC_CALL_BUF :: usize where "SYS_IPC_CALL_BUF = 15"
definition SYS_IPC_RECV_BUF :: usize where "SYS_IPC_RECV_BUF = 16"
definition SYS_IPC_REPLY_BUF :: usize where "SYS_IPC_REPLY_BUF = 17"
definition SYS_SHUTDOWN :: usize where "SYS_SHUTDOWN = 18"

definition set_a0 :: "usize \<Rightarrow> usize \<Rightarrow> kstate \<Rightarrow> kstate" where
  "set_a0 tf v = update_frame tf (\<lambda>fr. fr\<lparr>tf_a0 := v\<rparr>)"

text \<open>The loop that reads the file name, at most 63 bytes; \<open>None\<close> when an address is not mapped.\<close>

fun read_name :: "nat list \<Rightarrow> usize \<Rightarrow> kstate \<Rightarrow> u8 list option" where
  "read_name [] va s = Some []"
| "read_name (i # is) va s =
     (case translate_user (va + of_nat i) s of
        None \<Rightarrow> None
      | Some pa \<Rightarrow> map_option ((#) (read_byte (phys (mem s)) pa)) (read_name is va s))"

definition sys_exec :: "files \<Rightarrow> usize \<Rightarrow> usize \<Rightarrow> usize \<Rightarrow> kstate \<Rightarrow> (usize \<times> kstate) outcome" where
  "sys_exec fs filename_va requested_len tf s =
     (case read_name [0..<min (unat requested_len) 63] filename_va s of None \<Rightarrow> Done (- 1, s) | Some name \<Rightarrow>
      if \<not> utf8_valid name then Done (- 1, s)
      else obind (exec fs name tf s) (\<lambda>(r, s'). Done (case r of Inr _ \<Rightarrow> 0 | Inl _ \<Rightarrow> - 1, s')))"

text \<open>The result of an IPC operation: the caller goes on in its frame, or another task runs.\<close>

definition ipc_result :: "usize \<Rightarrow> IpcResult \<times> kstate \<Rightarrow> (usize \<times> kstate) outcome" where
  "ipc_result tf r =
     (case r of
        (Continue, s) \<Rightarrow> Done (tf, s)
      | (Blocked next, s) \<Rightarrow> Done (next, s)
      | (IpcError, s) \<Rightarrow> Done (tf, set_a0 tf (- 1) s))"

definition reply_result :: "usize \<Rightarrow> unit result \<times> kstate \<Rightarrow> (usize \<times> kstate) outcome" where
  "reply_result tf r = (case r of (res, s) \<Rightarrow> Done (tf, set_a0 tf (case res of Inr _ \<Rightarrow> 0 | Inl _ \<Rightarrow> - 1) s))"

definition handle :: "files \<Rightarrow> usize \<Rightarrow> kstate \<Rightarrow> (usize \<times> kstate) outcome" where
  "handle fs tf s0 =
     (let n = tf_a7 (load_frame tf s0);
          s = update_frame tf (\<lambda>fr. fr\<lparr>tf_sepc := tf_sepc fr + 4\<rparr>) s0;
          fr = load_frame tf s;
          words = (tf_a1 fr, tf_a2 fr, tf_a3 fr, tf_a4 fr) in
      if n = SYS_EXIT then task_exit (ucast (tf_a0 fr)) s
      else if n = SYS_YIELD then schedule tf (set_a0 tf 0 s)
      else if n = SYS_GETPID then Done (tf, set_a0 tf (ucast (get_current_pid (mgr s))) s)
      else if n = SYS_FORK then
        obind (fork tf s) (\<lambda>(r, s'). Done (tf, set_a0 tf (case r of Inr pid \<Rightarrow> ucast pid | Inl _ \<Rightarrow> - 1) s'))
      else if n = SYS_PS then Done (tf, set_a0 tf 0 s)
      else if n = SYS_EXEC then obind (sys_exec fs (tf_a0 fr) (tf_a1 fr) tf s) (\<lambda>(v, s'). Done (tf, set_a0 tf v s'))
      else if n = SYS_WAITPID then
        obind (waitpid (ucast (tf_a0 fr)) tf s) (\<lambda>(r, s').
          case r of
            Reaped code \<Rightarrow> Done (tf, set_a0 tf (scast code) s')
          | WaitBlocked next \<Rightarrow> Done (next, s')
          | WaitError \<Rightarrow> Done (tf, set_a0 tf (- 1) s'))
      else if n = SYS_IPC_CALL then obind (ipc_call (tf_a0 fr) words tf s) (ipc_result tf)
      else if n = SYS_IPC_RECV then obind (ipc_recv (tf_a0 fr) tf s) (ipc_result tf)
      else if n = SYS_IPC_REPLY then reply_result tf (ipc_reply (ucast (tf_a0 fr)) words s)
      else if n = SYS_IRQ_WAIT then
        (if tf_a0 fr \<noteq> ucast UART0_IRQ then Done (tf, set_a0 tf (- 1) s)
         else obind (wait_uart_irq tf s) (\<lambda>(r, s').
                case r of Inr next \<Rightarrow> Done (next, s') | Inl _ \<Rightarrow> Done (tf, set_a0 tf (- 1) s')))
      else if n = SYS_SBRK then
        (case sbrk (tf_a0 fr) s of (r, s') \<Rightarrow> Done (tf, set_a0 tf (case r of Inr v \<Rightarrow> v | Inl _ \<Rightarrow> - 1) s'))
      else if n = SYS_IPC_CALL_BUF then
        obind (ipc_call_buf (tf_a0 fr) words (tf_a5 fr) (tf_a6 fr) tf s) (ipc_result tf)
      else if n = SYS_IPC_RECV_BUF then
        obind (ipc_recv_buf (tf_a0 fr) (tf_a1 fr) (tf_a2 fr) tf s) (ipc_result tf)
      else if n = SYS_IPC_REPLY_BUF then
        obind (ipc_reply_buf (ucast (tf_a0 fr)) words (tf_a5 fr) (tf_a6 fr) s) (reply_result tf)
      else if n = SYS_SHUTDOWN then Shutdown
      else Panic)"

section \<open>The PLIC and the timer\<close>

definition PLIC_BASE :: usize where "PLIC_BASE = 0x0c000000"
definition SCONTEXT_BASE :: usize where "SCONTEXT_BASE = PLIC_BASE + 0x201000"

definition plic_init :: "kstate \<Rightarrow> kstate" where
  "plic_init s = s\<lparr>plic_regs := (plic_regs s)(PLIC_BASE + ucast UART0_IRQ * 4 := 1, SENABLE_BASE := 0, SCONTEXT_BASE := 0)\<rparr>"

text \<open>The claim register holds the interrupt the PLIC offers; writing it completes the interrupt.\<close>

definition plic_claim :: "kstate \<Rightarrow> u32" where
  "plic_claim s = plic_regs s (SCONTEXT_BASE + 4)"

definition plic_complete :: "u32 \<Rightarrow> kstate \<Rightarrow> kstate" where
  "plic_complete irq s = s\<lparr>plic_regs := (plic_regs s)(SCONTEXT_BASE + 4 := irq)\<rparr>"

definition TIMER_INTERVAL :: u64 where "TIMER_INTERVAL = 1000000"

text \<open>\<open>timer::handle\<close>: the new \<open>NEXT_TIMER\<close>, which is also the argument of \<open>sbi::set_timer\<close>.\<close>

definition timer_handle :: "u64 \<Rightarrow> u64" where
  "timer_handle next_timer = next_timer + TIMER_INTERVAL"

definition timer_init :: "u64 \<Rightarrow> u64" where
  "timer_init time = time + TIMER_INTERVAL"

section \<open>Traps\<close>

datatype TrapCause = UserEcall | Timer | External | InstructionPageFault | LoadPageFault | StorePageFault | Unknown usize

definition parse_cause :: "usize \<Rightarrow> TrapCause" where
  "parse_cause scause =
     (let is_interrupt = (drop_bit 63 scause \<noteq> 0); code = scause AND 0x7FFFFFFF in
      if is_interrupt then
        (if code = 5 then Timer else if code = 9 then External else Unknown scause)
      else
        (if code = 8 then UserEcall else if code = 12 then InstructionPageFault
         else if code = 13 then LoadPageFault else if code = 15 then StorePageFault else Unknown scause))"

definition external_interrupt :: "kstate \<Rightarrow> kstate" where
  "external_interrupt s =
     (let irq = plic_claim s;
          s1 = (if irq = UART0_IRQ then snd (wake_uart (plic_disable irq s)) else s)
      in if irq \<noteq> 0 then plic_complete irq s1 else s1)"

definition trap_handler :: "files \<Rightarrow> usize \<Rightarrow> usize \<Rightarrow> u64 \<times> kstate \<Rightarrow> (usize \<times> u64 \<times> kstate) outcome" where
  "trap_handler fs scause tf st =
     (case st of (timer, s) \<Rightarrow>
      case parse_cause scause of
        UserEcall \<Rightarrow> obind (handle fs tf s) (\<lambda>(f, s'). Done (f, timer, s'))
      | Timer \<Rightarrow> obind (schedule tf s) (\<lambda>(f, s'). Done (f, timer_handle timer, s'))
      | External \<Rightarrow> obind (schedule tf (external_interrupt s)) (\<lambda>(f, s'). Done (f, timer, s'))
      | InstructionPageFault \<Rightarrow> Panic
      | LoadPageFault \<Rightarrow> Panic
      | StorePageFault \<Rightarrow> Panic
      | Unknown _ \<Rightarrow> Panic)"

section \<open>Boot\<close>

definition FS_ENDPOINT :: usize where "FS_ENDPOINT = 2"

text \<open>\<open>Result::expect\<close>.\<close>

definition expect :: "'a result \<times> kstate \<Rightarrow> ('a \<Rightarrow> kstate \<Rightarrow> 'b outcome) \<Rightarrow> 'b outcome" where
  "expect r f = (case r of (Inl _, _) \<Rightarrow> Panic | (Inr x, s) \<Rightarrow> f x s)"

definition on_mgr :: "(TaskManager \<Rightarrow> unit result \<times> TaskManager) \<Rightarrow> kstate \<Rightarrow> unit result \<times> kstate" where
  "on_mgr f s = (case f (mgr s) of (r, m) \<Rightarrow> (r, s\<lparr>mgr := m\<rparr>))"

text \<open>The end of the kernel image, the memory at reset, the archive, the address of \<open>idle_main\<close> and the
  PLIC's registers are inputs; the result is the entry of the first task.\<close>

definition kernel_main :: "usize \<Rightarrow> cells \<Rightarrow> u8 list \<Rightarrow> usize \<Rightarrow> (usize \<Rightarrow> u32) \<Rightarrow> (UserEntry \<times> kstate) outcome" where
  "kernel_main kernel_end memory archive idle_main regs =
     (let fs = initrd_init archive in
      obind (vm_init \<lparr>phys = memory, pages = page_init kernel_end\<rparr>) (\<lambda>((pt, satp), k).
      let s0 = plic_init \<lparr>mem = k, mgr = task_manager_new, kernel_pt = Some pt, plic_regs = regs\<rparr> in
      obind (create_idle idle_main s0) (\<lambda>r. expect r (\<lambda>idle_pid s1.
      obind (spawn fs (ascii ''console'') s1) (\<lambda>r. expect r (\<lambda>console_pid s2.
      expect (grant_uart console_pid s2) (\<lambda>_ s3.
      expect (on_mgr (register_endpoint CONSOLE_ENDPOINT console_pid) s3) (\<lambda>_ s4.
      obind (spawn fs (ascii ''fs-server'') s4) (\<lambda>r. expect r (\<lambda>fs_pid s5.
      expect (on_mgr (register_endpoint FS_ENDPOINT fs_pid) s5) (\<lambda>_ s6.
      obind (spawn fs (ascii ''shell'') s6) (\<lambda>r. expect r (\<lambda>shell_pid s7.
      enter_task shell_pid s7)))))))))))))"

end
