(* ===== verification/Kernel_Inv.thy ===== *)
theory Kernel_Inv
  imports Ipc_Spec Syscall
begin

text \<open>
  The invariant of the task manager under every system call and every trap: each operation of
  \<open>src/kernel/task.rs\<close>, \<open>exec.rs\<close>, \<open>syscall.rs\<close> and \<open>trap.rs\<close> keeps it and does not panic, and it
  holds in every state that traps can reach.
\<close>

section \<open>What the invariant reads of a task\<close>

definition view :: "TaskManager \<Rightarrow> (u32 \<times> WaitChannel option) option list" where
  "view m = map (map_option (\<lambda>t. (t_pid t, t_waiting_for t))) (tasks m)"

lemma in_view: "Some (p, w) \<in> set (view m) \<longleftrightarrow> (\<exists>t. Some t \<in> set (tasks m) \<and> t_pid t = p \<and> t_waiting_for t = w)"
proof
  assume "Some (p, w) \<in> set (view m)"
  then obtain x where x: "x \<in> set (tasks m)" "Some (p, w) = map_option (\<lambda>t. (t_pid t, t_waiting_for t)) x"
    by (auto simp: view_def)
  show "\<exists>t. Some t \<in> set (tasks m) \<and> t_pid t = p \<and> t_waiting_for t = w"
    by (cases x) (use x in auto)
next
  assume "\<exists>t. Some t \<in> set (tasks m) \<and> t_pid t = p \<and> t_waiting_for t = w"
  then show "Some (p, w) \<in> set (view m)" by (force simp: view_def)
qed

lemma waits_on_view: "waits_on m p ch \<longleftrightarrow> Some (p, Some ch) \<in> set (view m)"
  by (simp add: waits_on_def in_view)

lemma pids_fresh_view: "pids_fresh m \<longleftrightarrow> (\<forall>p w. Some (p, w) \<in> set (view m) \<longrightarrow> p < next_pid m)"
  by (auto simp: pids_fresh_def in_view)

lemma viewI:
  assumes "length (tasks m') = length (tasks m)"
    and "\<And>j. j < length (tasks m) \<Longrightarrow>
       map_option (\<lambda>t. (t_pid t, t_waiting_for t)) (tasks m' ! j) = map_option (\<lambda>t. (t_pid t, t_waiting_for t)) (tasks m ! j)"
  shows "view m' = view m"
  unfolding view_def by (rule nth_equalityI) (use assms in auto)

lemma mgr_ok_view:
  assumes ok: "mgr_ok m" and v: "view m' = view m" and e: "endpoints m' = endpoints m" "next_pid m' = next_pid m"
    and wf: "sched_wf m'"
  shows "mgr_ok m'"
proof (rule mgr_okI [OF wf])
  have "waits_on m' = waits_on m" using v by (simp add: waits_on_view fun_eq_iff)
  then show "ipc_wf m'" using ipc_wf_cong [OF e(1)] mgr_okD(3) [OF ok] by simp
  show "pids_fresh m'" using mgr_okD(4) [OF ok] v e(2) by (simp add: pids_fresh_view)
  have idle: "has_idle x \<longleftrightarrow> (\<exists>w. Some (IDLE_PID, w) \<in> set (view x))" for x
    by (auto simp: has_idle_iff in_view)
  show "has_idle m'" using mgr_okD(2) [OF ok] v by (simp add: idle)
qed

lemma view_update:
  assumes "tasks m ! i = Some t" and "t_pid (f t) = t_pid t" and "t_waiting_for (f t) = t_waiting_for t"
  shows "view (update_task i f m) = view m"
  by (rule viewI) (use assms in \<open>auto simp: nth_update_task\<close>)

text \<open>Changes of the fields that no invariant reads.\<close>

lemma update_task_ok:
  assumes ok: "mgr_ok m" and i: "i < MAX_TASKS" "tasks m ! i = Some t"
    and f: "\<And>t. t_pid (f t) = t_pid t \<and> t_state (f t) = t_state t \<and> t_waiting_for (f t) = t_waiting_for t"
  shows "mgr_ok (update_task i f m)"
proof (rule mgr_ok_view [OF ok])
  show "view (update_task i f m) = view m" by (rule view_update [OF i(2)]) (use f in auto)
  show "sched_wf (update_task i f m)"
    by (rule sched_wf_update [OF mgr_okD(1) [OF ok] i(2,1), where f = f])
       (use f sched_wf_task_ok [OF mgr_okD(1) [OF ok] i] in \<open>auto simp: runnable_def task_ok_def\<close>)
qed simp_all

lemma running_update_task:
  assumes "running m" and f: "\<And>t. t_pid (f t) = t_pid t \<and> t_state (f t) = t_state t"
  shows "running (update_task i f m)"
proof -
  obtain k where k: "current_index m = Some k" "t_state (task_at k m) = Running" using assms(1) by (auto simp: running_def)
  note ci = current_index_Some [OF k(1)]
  have "task_index p (update_task i f m) = task_index p m" for p
    using task_index_update [of f p i m] f by simp
  then have "current_index (update_task i f m) = Some k"
    using k(1) by (simp add: current_index_def split: option.splits)
  moreover have "tasks (update_task i f m) ! k = Some (if i = k then f (task_at k m) else task_at k m)"
    using ci(1,2) by (simp add: nth_update_task)
  then have "t_state (task_at k (update_task i f m)) = Running"
    using k(2) f by (simp add: task_at_def split: if_splits)
  ultimately show ?thesis by (simp add: running_def)
qed

section \<open>Exit and waitpid\<close>

lemma zombie_mgr_ok:
  assumes ok: "kernel_ok m" and ci: "current_index m = Some i" and nid: "current_pid m \<noteq> Some IDLE_PID"
  shows "mgr_ok (zombie_mgr i code m)"
proof (rule mgr_ok_view [OF kernel_okD(1) [OF ok]])
  show "view (zombie_mgr i code m) = view m"
  proof (rule viewI)
    fix j assume j: "j < length (tasks m)"
    show "map_option (\<lambda>t. (t_pid t, t_waiting_for t)) (tasks (zombie_mgr i code m) ! j) =
          map_option (\<lambda>t. (t_pid t, t_waiting_for t)) (tasks m ! j)"
      by (cases "tasks m ! j") (simp_all add: nth_zombie_mgr j)
  qed simp
  show "sched_wf (zombie_mgr i code m)"
    by (rule zombie_mgr_wf(1) [OF mgr_okD(1) [OF kernel_okD(1) [OF ok]] kernel_okD(2) [OF ok] ci nid])
qed simp_all

lemma detach_ok: "mgr_ok m \<Longrightarrow> mgr_ok (detach c m)"
proof -
  assume ok: "mgr_ok m"
  note wf = mgr_okD(1) [OF ok]
  have np: "next_pid (detach c m) = next_pid m" by (simp add: detach_def split: option.split)
  show ?thesis
  proof (rule mgr_ok_view [OF ok])
    show "view (detach c m) = view m"
    proof (rule viewI)
      fix j assume "j < length (tasks m)"
      then have "tasks (detach c m) ! j = map_option (\<lambda>t. if t_pid t = c then t\<lparr>t_parent_pid := None\<rparr> else t) (tasks m ! j)"
        using nth_detach [OF wf] mgr_okD(6) [OF ok] by simp
      then show "map_option (\<lambda>t. (t_pid t, t_waiting_for t)) (tasks (detach c m) ! j) =
            map_option (\<lambda>t. (t_pid t, t_waiting_for t)) (tasks m ! j)"
        by (cases "tasks m ! j") simp_all
    qed simp
  qed (use detach_wf [OF wf] np in simp_all)
qed

lemma exit_notify_ok:
  assumes ok: "kernel_ok (mgr s)" and ci: "current_index (mgr s) = Some i" and nid: "current_pid (mgr s) \<noteq> Some IDLE_PID"
  shows "mgr_ok (mgr (exit_notify i code s))" and "next_pid (mgr (exit_notify i code s)) = next_pid (mgr s)"
    and "kernel_pt (exit_notify i code s) = kernel_pt s"
proof -
  let ?s2 = "s\<lparr>mgr := zombie_mgr i code (mgr s)\<rparr>" and ?pid = "t_pid (task_at i (mgr s))"
  have z: "mgr_ok (zombie_mgr i code (mgr s))" by (rule zombie_mgr_ok [OF ok ci nid])
  have "mgr_ok (mgr (exit_notify i code s)) \<and> next_pid (mgr (exit_notify i code s)) = next_pid (mgr s) \<and>
    kernel_pt (exit_notify i code s) = kernel_pt s"
  proof (cases "t_parent_pid (task_at i (mgr s))")
    case None
    then show ?thesis using z by (simp add: exit_notify_def)
  next
    case (Some p)
    then have en: "exit_notify i code s = notify_parent ?pid p code ?s2" by (simp add: exit_notify_def)
    show ?thesis
    proof (cases rule: notify_parent_cases [of ?pid p code ?s2])
      case nobody
      then show ?thesis using z en by simp
    next
      case (woken j)
      then have pw: "task_index p (zombie_mgr i code (mgr s)) = Some j"
        "t_waiting_for (task_at j (zombie_mgr i code (mgr s))) = Some (Child ?pid)" by (auto simp: parent_waits_def)
      note tj = task_index_Some [OF pw(1)]
      have "mgr_ok (wake_task j (zombie_mgr i code (mgr s)))"
        using wake_task_ok [OF z _ tj(2) pw(2)] tj(1) mgr_okD(6) [OF z] by simp
      then show ?thesis
        using detach_ok [of "wake_task j (zombie_mgr i code (mgr s))" ?pid] woken en
        by (simp add: detach_def split: option.split)
    qed
  qed
  then show "mgr_ok (mgr (exit_notify i code s))" "next_pid (mgr (exit_notify i code s)) = next_pid (mgr s)"
    "kernel_pt (exit_notify i code s) = kernel_pt s" by auto
qed

lemma run_task_ok:
  assumes ok: "mgr_ok m" and i: "i < MAX_TASKS" "tasks m ! i = Some t" "t_state t = Ready"
    and none: "\<And>u. Some u \<in> set (tasks m) \<Longrightarrow> t_state u \<noteq> Running"
  shows "kernel_ok (run_task i m)"
proof -
  note r = run_task_wf [OF mgr_okD(1) [OF ok] i none]
  have "view (run_task i m) = view (update_task i (\<lambda>t. t\<lparr>t_state := Running\<rparr>) m)" by (simp add: view_def)
  also have "\<dots> = view m" by (rule view_update [OF i(2)]) simp_all
  finally have "mgr_ok (run_task i m)" by (rule mgr_ok_view [OF ok]) (use r in simp_all)
  then show ?thesis using r by (simp add: kernel_ok_def)
qed

lemma task_exit_returns:
  assumes ok: "kernel_ok (mgr s)" and nid: "current_pid (mgr s) \<noteq> Some IDLE_PID"
  shows "\<exists>f s'. task_exit code s = Done (f, s') \<and> keeps s s'"
proof -
  obtain i where ci: "current_index (mgr s) = Some i" using kernel_okD(2) [OF ok] by (auto simp: running_def)
  note ok' = kernel_okD(1) [OF ok]
  note en = exit_notify_ok [OF ok ci nid, where code = code]
  note sp = exit_notify_spec [OF mgr_okD(1) [OF ok'] kernel_okD(2) [OF ok] mgr_okD(2) [OF ok'] ci nid, where code = code]
  let ?m4 = "(mgr (exit_notify i code s))\<lparr>current_pid := None\<rparr>"
  have none: "\<And>u. Some u \<in> set (tasks ?m4) \<Longrightarrow> t_state u \<noteq> Running" using sp(3) by simp
  have wf4: "sched_wf ?m4" by (rule drop_current_wf [OF sp(1,3)])
  have ok4: "mgr_ok ?m4" by (rule mgr_ok_view [OF en(1)]) (use wf4 in \<open>simp_all add: view_def\<close>)
  obtain k t where k: "exit_pick ?m4 = Some k" "k < MAX_TASKS" "tasks ?m4 ! k = Some t" "t_state t = Ready"
    using exit_pick_Some [OF wf4 mgr_okD(2) [OF ok4] none] by blast
  have "kernel_ok (run_task k ?m4)" by (rule run_task_ok [OF ok4 k(2-4) none])
  then show ?thesis
    using en k(1) by (simp add: task_exit_def exit_current_eq [OF nid ci] Let_def keeps_def)
qed

lemma task_exit_safe:
  assumes "kernel_ok (mgr s)" and "current_pid (mgr s) \<noteq> Some IDLE_PID"
  shows "safe (\<lambda>(f, s'). keeps s s') (task_exit code s)"
  using task_exit_returns [OF assms, of code] by auto

lemma take_slot_ok:
  assumes ok: "mgr_ok m" and i: "i < MAX_TASKS" "tasks m ! i = Some t" and z: "t_state t = Zombie"
  shows "mgr_ok (take_slot i m)"
proof (rule mgr_okI)
  note wf = mgr_okD(1) [OF ok]
  have tk: "task_ok (current_pid m) t" by (rule sched_wf_task_ok [OF wf i])
  show "sched_wf (take_slot i m)" by (rule take_slot_wf [OF wf i]) (use z in \<open>simp add: runnable_def\<close>)
  have len: "length (tasks m) = MAX_TASKS" by (rule mgr_okD(6) [OF ok])
  have sub: "Some u \<in> set (tasks (take_slot i m)) \<longleftrightarrow> Some u \<in> set (tasks m) \<and> u \<noteq> t" for u
  proof
    assume "Some u \<in> set (tasks (take_slot i m))"
    then obtain j where j: "j < MAX_TASKS" "tasks (take_slot i m) ! j = Some u" using len by (auto simp: in_set_conv_nth)
    then have u: "tasks m ! j = Some u" "j \<noteq> i" using len by (auto simp: nth_take_slot split: if_splits)
    moreover from this have "u \<noteq> t" using i j(1) wf len unfolding sched_wf_def pids_unique_def by metis
    ultimately show "Some u \<in> set (tasks m) \<and> u \<noteq> t" using j(1) len nth_mem by metis
  next
    assume a: "Some u \<in> set (tasks m) \<and> u \<noteq> t"
    then obtain j where j: "j < MAX_TASKS" "tasks m ! j = Some u" using len by (auto simp: in_set_conv_nth)
    then have "tasks (take_slot i m) ! j = Some u" using a i len by (auto simp: nth_take_slot)
    then show "Some u \<in> set (tasks (take_slot i m))" using j(1) len nth_mem by (metis take_slot_simps(6))
  qed
  have wt: "t_waiting_for t = None" "t_pid t \<noteq> IDLE_PID" using tk z unfolding task_ok_def by auto
  have "waits_on (take_slot i m) p ch \<longleftrightarrow> waits_on m p ch" for p ch
    using wt(1) unfolding waits_on_def sub by (metis option.distinct(1))
  then have "waits_on (take_slot i m) = waits_on m" by (simp add: fun_eq_iff)
  then show "ipc_wf (take_slot i m)" using ipc_wf_cong [of "take_slot i m" m] mgr_okD(3) [OF ok] by simp
  show "has_idle (take_slot i m)" using mgr_okD(2) [OF ok] wt(2) unfolding has_idle_iff sub by metis
  show "pids_fresh (take_slot i m)" by (rule pids_fresh_sub [OF mgr_okD(4) [OF ok]]) (use sub in auto)
qed

lemma running_take_slot:
  assumes r: "running m" and c: "tasks m ! c = Some t" "t_state t \<noteq> Running" and wf: "sched_wf m" "sched_wf (take_slot c m)"
  shows "running (take_slot c m)"
proof -
  obtain k where k: "current_index m = Some k" "t_state (task_at k m) = Running" using r by (auto simp: running_def)
  note ck = current_task [OF wf(1) k(1)]
  have "k \<noteq> c" using k(2) c by (auto simp: task_at_def)
  then have nk: "tasks (take_slot c m) ! k = Some (task_at k m)" using ck sched_wf_length [OF wf(1)] by (simp add: nth_take_slot)
  then have "current_index (take_slot c m) = Some k"
    using task_index_eq [of "take_slot c m" k] wf(2) ck by (simp add: current_index_def sched_wf_def)
  then show ?thesis using nk k(2) by (simp add: running_def task_at_def)
qed

lemma child_slot_Some:
  assumes "child_slot pid parent m = Some c"
  shows "c < length (tasks m)" and "tasks m ! c = Some (task_at c m)" and "t_pid (task_at c m) = pid"
    and "t_parent_pid (task_at c m) = Some parent"
  using position_Some [OF assms [unfolded child_slot_def]] by (auto simp: task_at_def is_some_and_iff)

lemma waitpid_safe:
  assumes ok: "kernel_ok (mgr s)"
  shows "safe (\<lambda>(r, s'). keeps s s') (waitpid pid tf s)"
proof (cases "current_pid (mgr s) = Some IDLE_PID")
  case True
  then show ?thesis using ok by (simp add: waitpid_def)
next
  case nid: False
  obtain i and t :: Task where ci: "current_index (mgr s) = Some i" and i: "i < MAX_TASKS" "tasks (mgr s) ! i = Some t" "runnable t"
    and cp: "current_pid (mgr s) = Some (t_pid t)"
    using current_slot [OF ok nid] by metis
  note ok' = kernel_okD(1) [OF ok]
  show ?thesis
  proof (cases "child_slot pid (t_pid t) (mgr s)")
    case None
    then show ?thesis using ok cp nid by (simp add: waitpid_def)
  next
    case (Some c)
    note cs = child_slot_Some [OF Some]
    show ?thesis
    proof (cases "t_state (task_at c (mgr s)) = Zombie")
      case True
      have c: "c < MAX_TASKS" using cs(1) mgr_okD(6) [OF ok'] by simp
      have t: "mgr_ok (take_slot c (mgr s))" by (rule take_slot_ok [OF ok' c cs(2) True])
      have "running (take_slot c (mgr s))"
        by (rule running_take_slot [OF kernel_okD(2) [OF ok] cs(2)]) (use True mgr_okD(1) ok' t in auto)
      then have "kernel_ok (take_slot c (mgr s))" using t by (simp add: kernel_ok_def)
      then show ?thesis
        using cp nid Some True free_task_no_panic [of "task_at c (mgr s)" "mem s"]
        by (cases "free_task (task_at c (mgr s)) (mem s)") (simp_all add: waitpid_def keeps_def)
    next
      case False
      have "mgr_ok (sleep_mgr i (Child pid) (mgr s))" by (rule sleep_mgr_ok [OF ok' i]) simp_all
      then show ?thesis
        using cp nid Some False ci by (simp add: waitpid_def) (rule safe_schedule [where ?s0.0 = s], simp_all)
    qed
  qed
qed

section \<open>The UART\<close>

lemma plic_simps [simp]:
  "mgr (plic_enable irq s) = mgr s" "kernel_pt (plic_enable irq s) = kernel_pt s" "mem (plic_enable irq s) = mem s"
  "mgr (plic_disable irq s) = mgr s" "kernel_pt (plic_disable irq s) = kernel_pt s" "mem (plic_disable irq s) = mem s"
  "mgr (plic_complete irq s) = mgr s" "kernel_pt (plic_complete irq s) = kernel_pt s" "mem (plic_complete irq s) = mem s"
  by (simp_all add: plic_enable_def plic_disable_def plic_complete_def)

lemma wait_uart_irq_safe:
  assumes ok: "kernel_ok (mgr s)"
  shows "safe (\<lambda>(r, s'). keeps s s') (wait_uart_irq tf s)"
proof (cases "current_pid (mgr s) = Some 0 \<or> current_pid (mgr s) \<noteq> uart_owner (mgr s)")
  case True
  then show ?thesis using ok by (simp add: wait_uart_irq_def)
next
  case False
  then have nid: "current_pid (mgr s) \<noteq> Some IDLE_PID" by (auto simp: layout)
  obtain i and t :: Task where ci: "current_index (mgr s) = Some i" and i: "i < MAX_TASKS" "tasks (mgr s) ! i = Some t" "runnable t"
    using current_slot [OF ok nid] by metis
  have "mgr_ok (sleep_mgr i UartRx (mgr s))" by (rule sleep_mgr_ok [OF kernel_okD(1) [OF ok] i]) simp_all
  then have "safe (\<lambda>(f, s'). keeps s s') (schedule tf (plic_enable UART0_IRQ (sleep_task i UartRx tf s)))"
    by (intro safe_schedule [where ?s0.0 = s]) simp_all
  then show ?thesis using ok ci by (auto simp: wait_uart_irq_def case_prod_unfold)
qed

lemma wake_uart_loop_ok:
  assumes "kernel_ok (mgr s)" and "set is \<subseteq> {..<MAX_TASKS}" and "wake_uart_loop is w s = (b, s')"
  shows "keeps s s'"
  using assms
proof (induction "is" arbitrary: w s)
  case (Cons i "is")
  show ?case
  proof (cases "is_some_and waits_uart (tasks (mgr s) ! i)")
    case False
    then show ?thesis using Cons by simp
  next
    case True
    then obtain t where t: "tasks (mgr s) ! i = Some t" "t_waiting_for t = Some UartRx" "t_state t = Sleeping"
      by (auto simp: is_some_and_iff waits_uart_def)
    note ok' = kernel_okD(1) [OF Cons.prems(1)]
    have "mgr_ok (wake_task i (mgr s))" by (rule wake_task_ok [OF ok' _ t(1,2)]) (use Cons.prems(2) in auto)
    moreover have "running (wake_task i (mgr s))"
      by (rule running_wake(1) [OF kernel_okD(2) [OF Cons.prems(1)] t(1)]) (use t(3) Cons.prems(2) mgr_okD(6) [OF ok'] in auto)
    ultimately have w: "kernel_ok (wake_task i (mgr s))" by (simp add: kernel_ok_def)
    let ?s1 = "update_mgr (wake_task i) (store_frame (t_trap_frame (task_at i (mgr s)))
                 ((load_frame (t_trap_frame (task_at i (mgr s))) s)\<lparr>tf_a0 := 0\<rparr>) s)"
    have "wake_uart_loop is True ?s1 = (b, s')" using Cons.prems(3) True by (simp add: Let_def)
    then have "keeps ?s1 s'" using Cons.IH [of ?s1 True] w Cons.prems(2) by simp
    then show ?thesis by (simp add: keeps_def)
  qed
qed simp

lemma wake_uart_keeps:
  assumes "kernel_ok (mgr s)" and "wake_uart s = (b, s')"
  shows "keeps s s'"
  using wake_uart_loop_ok [OF assms(1) _ assms(2) [unfolded wake_uart_def]] by (simp add: atLeast0LessThan)

lemma external_interrupt_keeps: "kernel_ok (mgr s) \<Longrightarrow> keeps s (external_interrupt s)"
  using wake_uart_keeps [of "plic_disable UART0_IRQ s"]
  by (cases "wake_uart (plic_disable UART0_IRQ s)") (auto simp: external_interrupt_def Let_def keeps_def)

section \<open>Creating tasks\<close>

lemma free_slot_Some:
  assumes "free_slot m = Some i"
  shows "i < length (tasks m)" and "tasks m ! i = None"
  using position_Some [OF assms [unfolded free_slot_def]] by auto

lemma put_task_wf:
  assumes wf: "sched_wf m" and i: "i < MAX_TASKS" "tasks m ! i = None"
    and new: "\<And>u. Some u \<in> set (tasks m) \<Longrightarrow> t_pid u \<noteq> t_pid t" and ok: "task_ok (current_pid m) t"
    and m': "tasks m' = (tasks m)[i := Some t]" "current_pid m' = current_pid m"
      "runnable_count m' = runnable_count m + of_bool (runnable t)"
  shows "sched_wf m'"
  unfolding sched_wf_def
proof (intro conjI allI impI)
  have len: "length (tasks m) = MAX_TASKS" by (rule sched_wf_length [OF wf])
  show "length (tasks m') = MAX_TASKS" by (simp add: m' len)
  show "pids_unique m'"
    unfolding pids_unique_def
  proof (intro allI impI)
    fix a b x y
    assume h: "a < length (tasks m')" "b < length (tasks m')" "tasks m' ! a = Some x" "tasks m' ! b = Some y" "t_pid x = t_pid y"
    have n: "t_pid v \<noteq> t_pid t" if "c < MAX_TASKS" "tasks m ! c = Some v" for c v
      using new [of v] that len nth_mem by metis
    show "a = b"
    proof (cases "a = i")
      case True
      then have "x = t" using h i len by (simp add: m')
      then show ?thesis using h n [of b y] True by (cases "b = i") (simp_all add: m' len)
    next
      case False
      then have xa: "tasks m ! a = Some x" "a < MAX_TASKS" using h len by (simp_all add: m')
      have "b \<noteq> i" using h i len n [OF xa(2,1)] by (auto simp: m')
      then have "tasks m ! b = Some y" using h by (simp add: m')
      then show ?thesis using wf xa h len unfolding sched_wf_def pids_unique_def m' by (metis length_list_update)
    qed
  qed
  have "length (filter (is_some_and runnable) ((tasks m)[i := Some t])) =
        length (filter (is_some_and runnable) (tasks m)) + of_bool (runnable t)"
    using length_filter_update [of i "tasks m" "is_some_and runnable" "Some t"] i len by simp
  then have "count_tasks runnable m' = count_tasks runnable m + of_bool (runnable t)"
    by (simp add: count_tasks_def m')
  then show "runnable_count m' = of_nat (count_tasks runnable m')" using wf by (simp add: m' sched_wf_def)
  fix u assume "Some u \<in> set (tasks m')"
  then have "u = t \<or> Some u \<in> set (tasks m)" using set_update_subset_insert m'(1) by fastforce
  then show "task_ok (current_pid m') u" using ok wf by (auto simp: m' sched_wf_def)
qed

lemma set_put: "i < length xs \<Longrightarrow> xs ! i = None \<Longrightarrow> Some u \<in> set (xs[i := Some t]) \<longleftrightarrow> u = t \<or> Some u \<in> set xs"
proof (induction xs arbitrary: i)
  case (Cons x xs)
  then show ?case by (cases i) auto
qed simp

lemma word_less_succ:
  assumes "x \<noteq> - 1"
  shows "x < x + (1 :: 'a::len word)"
proof -
  have "1 + x \<noteq> 0" using assms by (simp add: eq_neg_iff_add_eq_0 add.commute)
  from unatSuc [OF this] show ?thesis by (simp add: word_less_nat_alt add.commute)
qed

text \<open>A new task with the next pid.\<close>

lemma put_task_ok:
  assumes ok: "mgr_ok m" and i: "free_slot m = Some i" and p: "next_pid m \<noteq> - 1"
    and t: "t_pid t = next_pid m" "t_state t = Ready" "t_waiting_for t = None"
    and m': "tasks m' = (tasks m)[i := Some t]" "current_pid m' = current_pid m" "endpoints m' = endpoints m"
      "runnable_count m' = runnable_count m + 1" "next_pid m' = next_pid m + 1"
  shows "mgr_ok m'"
proof (rule mgr_okI)
  have len: "length (tasks m) = MAX_TASKS" by (rule mgr_okD(6) [OF ok])
  note fs = free_slot_Some [OF i]
  have fresh: "Some u \<in> set (tasks m) \<Longrightarrow> t_pid u < next_pid m" for u
    using mgr_okD(4) [OF ok] by (simp add: pids_fresh_def)
  have nid: "t_pid t \<noteq> IDLE_PID" using mgr_okD(2) [OF ok] fresh t(1) unfolding has_idle_iff by (metis order_less_irrefl)
  have mem: "Some u \<in> set (tasks m') \<longleftrightarrow> u = t \<or> Some u \<in> set (tasks m)" for u
    unfolding m' by (rule set_put [OF fs])
  have new: "t_pid u \<noteq> t_pid t" if "Some u \<in> set (tasks m)" for u using fresh [OF that] t(1) by auto
  show "sched_wf m'"
    by (rule put_task_wf [OF mgr_okD(1) [OF ok], of i t])
       (use fs len new t nid m' in \<open>auto simp: task_ok_def runnable_def\<close>)
  show "has_idle m'" using mgr_okD(2) [OF ok] mem by (auto simp: has_idle_iff)
  have "waits_on m' p ch = waits_on m p ch" for p ch using t(3) by (auto simp: waits_on_def mem)
  then have "waits_on m' = waits_on m" by (simp add: fun_eq_iff)
  then show "ipc_wf m'" using ipc_wf_cong [OF m'(3)] mgr_okD(3) [OF ok] by simp
  have "next_pid m < next_pid m + 1" by (rule word_less_succ [OF p])
  then show "pids_fresh m'" using fresh t(1) m'(5) by (force simp: pids_fresh_def mem)
qed

text \<open>What a system call keeps: at most one pid is used.\<close>

definition advances :: "kstate \<Rightarrow> kstate \<Rightarrow> bool" where
  "advances s s' \<longleftrightarrow> kernel_ok (mgr s') \<and> kernel_pt s' = kernel_pt s \<and>
     (next_pid (mgr s') = next_pid (mgr s) \<or> next_pid (mgr s') = next_pid (mgr s) + 1)"

lemma keeps_advances: "keeps s s' \<Longrightarrow> advances s s'"
  by (simp add: keeps_def advances_def)

lemma kernel_satp_safe: "kpt \<noteq> None \<Longrightarrow> \<exists>v. kernel_satp kpt = Done v"
  by (auto simp: kernel_satp_def)

lemma init_context_safe: "kpt \<noteq> None \<Longrightarrow> \<exists>a k'. init_context kpt ks pt fr k = Done (a, k')"
  using kernel_satp_safe [of kpt] by (auto simp: init_context_def Let_def)

lemma running_put_task:
  assumes "running m" and "sched_wf m" and "sched_wf m'" and i: "i < MAX_TASKS" "tasks m ! i = None"
    and m': "tasks m' = (tasks m)[i := Some t]" "current_pid m' = current_pid m"
  shows "running m'"
proof -
  obtain k where k: "current_index m = Some k" "t_state (task_at k m) = Running" using assms(1) by (auto simp: running_def)
  note ck = current_task [OF assms(2) k(1)]
  have "k \<noteq> i" using ck(2) i(2) by auto
  then have nk: "tasks m' ! k = Some (task_at k m)" using ck by (simp add: m')
  then have "current_index m' = Some k"
    using task_index_eq [of m' k] assms(3) ck m'(2) by (simp add: current_index_def sched_wf_def)
  then show ?thesis using nk k(2) by (simp add: running_def task_at_def)
qed

lemma mgr_ok_next_pid:
  assumes ok: "mgr_ok m" and p: "next_pid m \<noteq> - 1"
  shows "mgr_ok (m\<lparr>next_pid := next_pid m + 1\<rparr>)"
proof (rule mgr_okI)
  have "next_pid m < next_pid m + 1" by (rule word_less_succ [OF p])
  then show "pids_fresh (m\<lparr>next_pid := next_pid m + 1\<rparr>)"
    using mgr_okD(4) [OF ok] by (force simp: pids_fresh_def)
  have "waits_on (m\<lparr>next_pid := next_pid m + 1\<rparr>) = waits_on m" by (rule waits_on_cong) simp
  then show "ipc_wf (m\<lparr>next_pid := next_pid m + 1\<rparr>)"
    using ipc_wf_cong [of "m\<lparr>next_pid := next_pid m + 1\<rparr>" m] mgr_okD(3) [OF ok] by simp
  have "has_idle (m\<lparr>next_pid := next_pid m + 1\<rparr>) = has_idle m" by (rule has_idle_cong) simp
  then show "has_idle (m\<lparr>next_pid := next_pid m + 1\<rparr>)" using mgr_okD(2) [OF ok] by blast
qed (use mgr_okD(1) [OF ok] in simp)

lemma put_task_simps [simp]:
  "current_pid (put_task i t m) = current_pid m" "next_pid (put_task i t m) = next_pid m"
  "endpoints (put_task i t m) = endpoints m" "runnable_count (put_task i t m) = runnable_count m"
  "tasks (put_task i t m) = (tasks m)[i := Some t]" "uart_owner (put_task i t m) = uart_owner m"
  by (simp_all add: put_task_def)

lemma fork_safe:
  assumes ok: "kernel_ok (mgr s)" and pt: "kernel_pt s \<noteq> None" and np: "next_pid (mgr s) \<noteq> - 1"
  shows "safe (\<lambda>(r, s'). advances s s') (fork tf s)"
proof (cases "current_pid (mgr s) = Some IDLE_PID")
  case True
  then show ?thesis using ok by (simp add: fork_def keeps_advances)
next
  case nid: False
  obtain i and t :: Task where ci: "current_index (mgr s) = Some i" and cp: "current_pid (mgr s) = Some (t_pid t)"
    by (rule current_slot [OF ok nid])
  note ok' = kernel_okD(1) [OF ok]
  obtain r k where fm: "fork_memory (task_at i (mgr s)) (mem s) = (r, k)" by (cases "fork_memory (task_at i (mgr s)) (mem s)")
  show ?thesis
  proof (cases r)
    case (Inl u)
    then show ?thesis using ok nid ci fm by (simp add: fork_def advances_def)
  next
    case (Inr x)
    obtain ks us cpt where x: "x = (ks, us, cpt)" by (cases x)
    obtain a k' where ic: "init_context (kernel_pt s) ks cpt ((read_tf (phys k) tf)\<lparr>tf_a0 := 0\<rparr>) k = Done (a, k')"
      using init_context_safe [OF pt] by blast
    let ?m1 = "(mgr s)\<lparr>next_pid := next_pid (mgr s) + 1\<rparr>"
    have ok1: "kernel_ok ?m1"
      using mgr_ok_next_pid [OF ok' np] running_cong [of ?m1 "mgr s"] kernel_okD(2) [OF ok] by (simp add: kernel_ok_def)
    show ?thesis
    proof (cases "free_slot ?m1")
      case None
      then show ?thesis using ok1 nid ci fm Inr x ic by (simp add: fork_def Let_def advances_def)
    next
      case (Some slot)
      have fs: "free_slot (mgr s) = Some slot" using Some by (simp add: free_slot_def)
      note fl = free_slot_Some [OF fs]
      let ?t = "\<lparr>t_pid = next_pid (mgr s), t_state = Ready, t_trap_frame = a,
                            t_kernel_stack = ks, t_user_stack = us, t_entry = t_entry (task_at i (mgr s)),
                            t_pagetable = cpt, t_exit_code = 0, t_image_base = t_image_base (task_at i (mgr s)),
                            t_image_size = t_image_size (task_at i (mgr s)), t_heap_base = t_heap_base (task_at i (mgr s)),
                            t_heap_end = t_heap_end (task_at i (mgr s)),
                            t_parent_pid = current_pid (mgr s), t_waiting_for = None\<rparr>"
      let ?m = "(put_task slot ?t ?m1)\<lparr>runnable_count := runnable_count (mgr s) + 1\<rparr>"
      have m: "mgr_ok ?m" by (rule put_task_ok [OF ok' fs np, of ?t]) (simp_all add: put_task_def)
      have "running ?m"
        by (rule running_put_task [OF kernel_okD(2) [OF ok] mgr_okD(1) [OF ok'] mgr_okD(1) [OF m], of slot ?t])
           (use fl mgr_okD(6) [OF ok'] in \<open>simp_all add: put_task_def\<close>)
      then show ?thesis
        using m nid ci fm Inr x ic Some by (simp add: fork_def Let_def advances_def kernel_ok_def)
    qed
  qed
qed

lemma update_current_ok:
  assumes ok: "kernel_ok m" and i: "i < MAX_TASKS" "tasks m ! i = Some t"
    and f: "\<And>t. t_pid (f t) = t_pid t \<and> t_state (f t) = t_state t \<and> t_waiting_for (f t) = t_waiting_for t"
  shows "kernel_ok (update_task i f m)"
  using update_task_ok [OF kernel_okD(1) [OF ok] i f] running_update_task [OF kernel_okD(2) [OF ok], of f i] f
  by (simp add: kernel_ok_def)

lemma sbrk_keeps:
  assumes ok: "kernel_ok (mgr s)" and r: "sbrk inc s = (res, s')"
  shows "keeps s s'"
proof (cases "current_index (mgr s)")
  case None
  then show ?thesis using r ok by (auto simp: sbrk_def split: if_splits)
next
  case (Some i)
  note ct = current_task [OF mgr_okD(1) [OF kernel_okD(1) [OF ok]] Some]
  have u: "kernel_ok (update_task i (\<lambda>t. t\<lparr>t_heap_end := e\<rparr>) (mgr s))" for e
    by (rule update_current_ok [OF ok ct(1,2)]) simp
  show ?thesis
    using r ok u Some
    by (auto simp: sbrk_def Let_def keeps_def split: if_splits option.splits sum.splits prod.splits)
qed

lemma free_user_space_no_panic: "free_user_space pt us ib is hb he k \<noteq> Panic"
  by (simp add: free_user_space_def Let_def split: option.split)

lemma replace_current_safe:
  assumes ok: "kernel_ok (mgr s)"
  shows "safe (\<lambda>(r, s'). keeps s s') (replace_current pt us en ib is tf s)"
proof (cases "current_index (mgr s)")
  case None
  then show ?thesis using ok by (auto simp: replace_current_def split: option.split)
next
  case (Some i)
  note ct = current_task [OF mgr_okD(1) [OF kernel_okD(1) [OF ok]] Some]
  have u: "kernel_ok (update_task i (\<lambda>t. t\<lparr>t_pagetable := pt, t_user_stack := us, t_entry := en,
                          t_image_base := ib, t_image_size := is, t_heap_base := hb, t_heap_end := hb\<rparr>) (mgr s))" for hb
    by (rule update_current_ok [OF ok ct(1,2)]) simp
  let ?old = "task_at i (mgr s)"
  have f: "safe (\<lambda>x. True) (free_user_space (t_pagetable ?old) (t_user_stack ?old) (t_image_base ?old) (t_image_size ?old)
                  (t_heap_base ?old) (t_heap_end ?old) k)" for k
    using free_user_space_no_panic by (simp add: safe_iff)
  show ?thesis
    using ok u Some f by (auto simp: replace_current_def Let_def keeps_def split: option.split)
qed

lemma exec_safe:
  assumes ok: "kernel_ok (mgr s)"
  shows "safe (\<lambda>(r, s'). keeps s s') (exec fs name tf s)"
proof -
  obtain r k where l: "load_elf fs name (mem s) = (r, k)" by (cases "load_elf fs name (mem s)")
  have "safe (\<lambda>(r, s'). keeps (s\<lparr>mem := k\<rparr>) s') (replace_current pt us en ib is tf (s\<lparr>mem := k\<rparr>))" for pt us en ib "is"
    by (rule replace_current_safe) (simp add: ok)
  moreover have "keeps (s\<lparr>mem := k\<rparr>) s' = keeps s s'" for s' by (simp add: keeps_def)
  ultimately show ?thesis using ok by (cases r) (simp_all add: exec_def l keeps_def)
qed

lemma sys_exec_safe:
  assumes ok: "kernel_ok (mgr s)"
  shows "safe (\<lambda>(v, s'). keeps s s') (sys_exec fs va n tf s)"
proof -
  have "safe (\<lambda>x. safe (\<lambda>(v, s'). keeps s s') (case x of (r, s') \<Rightarrow> Done (case r of Inr _ \<Rightarrow> 0 | Inl _ \<Rightarrow> (- 1 :: usize), s')))
          (exec fs name tf s)" for name
    by (rule safe_mono [OF exec_safe [OF ok]]) auto
  then show ?thesis using ok by (simp add: sys_exec_def split: option.split)
qed

section \<open>System calls and traps\<close>

lemma set_a0_simps [simp]: "mgr (set_a0 tf v s) = mgr s" "kernel_pt (set_a0 tf v s) = kernel_pt s"
  by (simp_all add: set_a0_def)

definition known_syscall :: "usize \<Rightarrow> bool" where
  "known_syscall n \<longleftrightarrow> n \<in> {SYS_EXIT, SYS_YIELD, SYS_GETPID, SYS_FORK, SYS_PS, SYS_EXEC, SYS_WAITPID, SYS_IPC_CALL,
     SYS_IPC_RECV, SYS_IPC_REPLY, SYS_IRQ_WAIT, SYS_SBRK, SYS_IPC_CALL_BUF, SYS_IPC_RECV_BUF, SYS_IPC_REPLY_BUF, SYS_SHUTDOWN}"

lemma advances_cong:
  assumes "mgr s = mgr s0" and "kernel_pt s = kernel_pt s0"
  shows "advances s = advances s0" and "keeps s = keeps s0"
  using assms by (simp_all add: advances_def keeps_def fun_eq_iff)

lemma keeps_set_a0 [simp]: "keeps s0 (set_a0 tf v s) = keeps s0 s" "advances s0 (set_a0 tf v s) = advances s0 s"
  by (simp_all add: keeps_def advances_def)

lemma ipc_result_safe: "safe (\<lambda>(r, s'). keeps s s') m \<Longrightarrow> safe (\<lambda>(f, s'). advances s s') (obind m (ipc_result tf))"
  by (simp, erule safe_mono) (auto simp: ipc_result_def keeps_advances split: IpcResult.split)

lemma reply_result_safe: "keeps s s' \<Longrightarrow> safe (\<lambda>(f, s'). advances s s') (reply_result tf (r, s'))"
  by (simp add: reply_result_def keeps_advances)

lemma safe_ifI: "(c \<Longrightarrow> safe P a) \<Longrightarrow> (\<not> c \<Longrightarrow> safe P b) \<Longrightarrow> safe P (if c then a else b)"
  by simp

lemma handle_safe:
  assumes ok: "kernel_ok (mgr s0)" and nid: "current_pid (mgr s0) \<noteq> Some IDLE_PID"
    and pt: "kernel_pt s0 \<noteq> None" and np: "next_pid (mgr s0) \<noteq> - 1" and n: "known_syscall (tf_a7 (load_frame tf s0))"
  shows "safe (\<lambda>(f, s'). advances s0 s') (handle fs tf s0)"
proof -
  define s where "s = update_frame tf (\<lambda>fr. fr\<lparr>tf_sepc := tf_sepc fr + 4\<rparr>) s0"
  define fr where "fr = load_frame tf s"
  have ms [simp]: "mgr s = mgr s0" "kernel_pt s = kernel_pt s0" by (simp_all add: s_def)
  note ac = advances_cong [of s s0, OF ms]
  have oks: "kernel_ok (mgr s)" "current_pid (mgr s) \<noteq> Some IDLE_PID" "kernel_pt s \<noteq> None" "next_pid (mgr s) \<noteq> - 1"
    using assms by simp_all
  let ?P = "\<lambda>(f :: usize, s'). advances s0 s'" and ?ws = "(tf_a1 fr, tf_a2 fr, tf_a3 fr, tf_a4 fr)"
  have 1: "safe ?P (task_exit c s)" for c
    using task_exit_safe [OF oks(1,2)] by (rule safe_mono) (auto simp: ac intro: keeps_advances)
  have 2: "safe ?P (schedule tf (set_a0 tf 0 s))"
    by (rule safe_schedule [where ?s0.0 = s]) (use kernel_okD(1) [OF ok] in \<open>auto simp: ac intro: keeps_advances\<close>)
  have 3: "safe ?P (Done (tf, set_a0 tf v s))" for v
    using ok by (simp add: advances_def)
  have 4: "safe ?P (obind (fork tf s) (\<lambda>(r, s'). Done (tf, set_a0 tf (case r of Inr pid \<Rightarrow> ucast pid | Inl _ \<Rightarrow> - 1) s')))"
    by (simp, rule safe_mono [OF fork_safe [OF oks(1,3,4)]]) (auto simp: ac)
  have 5: "safe ?P (obind (sys_exec fs va len tf s) (\<lambda>(v, s'). Done (tf, set_a0 tf v s')))" for va len
    by (simp, rule safe_mono [OF sys_exec_safe [OF oks(1)]]) (auto simp: ac intro: keeps_advances)
  have 6: "safe ?P (obind (waitpid p tf s) (\<lambda>(r, s'). case r of Reaped code \<Rightarrow> Done (tf, set_a0 tf (scast code) s')
          | WaitBlocked next \<Rightarrow> Done (next, s') | WaitError \<Rightarrow> Done (tf, set_a0 tf (- 1) s')))" for p
    by (simp, rule safe_mono [OF waitpid_safe [OF oks(1)]]) (auto simp: ac intro: keeps_advances split: WaitResult.split)
  have 7: "safe ?P (obind (ipc_call e ws tf s) (ipc_result tf))" "safe ?P (obind (ipc_recv e tf s) (ipc_result tf))"
    "safe ?P (obind (ipc_call_buf e ws ub bl tf s) (ipc_result tf))"
    "safe ?P (obind (ipc_recv_buf e ub bl tf s) (ipc_result tf))" for e ws ub bl
    using ipc_call_safe [OF oks(1,2), THEN ipc_result_safe] ipc_recv_safe [OF oks(1,2), THEN ipc_result_safe]
      ipc_call_buf_safe [OF oks(1,2), THEN ipc_result_safe] ipc_recv_buf_safe [OF oks(1,2), THEN ipc_result_safe]
    by (simp_all only: ac)
  have 8: "safe ?P (reply_result tf (ipc_reply c ws s))" for c ws
    using ipc_reply_keeps [OF oks(1), of c ws] reply_result_safe [of s _ tf] by (cases "ipc_reply c ws s") (auto simp only: ac)
  have 9: "safe ?P (obind (ipc_reply_buf c ws ub bl s) (reply_result tf))" for c ws ub bl
    by (simp, rule safe_mono [OF ipc_reply_buf_safe [OF oks(1,2)]])
       (auto simp: reply_result_def ac intro: keeps_advances)
  have 10: "safe ?P (obind (wait_uart_irq tf s) (\<lambda>(r, s').
                case r of Inr next \<Rightarrow> Done (next, s') | Inl _ \<Rightarrow> Done (tf, set_a0 tf (- 1) s')))"
    by (simp, rule safe_mono [OF wait_uart_irq_safe [OF oks(1)]]) (auto simp: ac intro: keeps_advances split: sum.split)
  have 11: "safe ?P (case sbrk inc s of (r, s') \<Rightarrow> Done (tf, set_a0 tf (case r of Inr v \<Rightarrow> v | Inl _ \<Rightarrow> - 1) s'))" for inc
    using sbrk_keeps [OF oks(1), of inc] by (cases "sbrk inc s") (auto simp: ac intro: keeps_advances)
  show ?thesis
    using n unfolding handle_def Let_def s_def [symmetric] fr_def [symmetric] known_syscall_def
    by (intro safe_ifI 1 2 3 4 5 6 7 8 9 10 11) simp_all
qed

end
