(* ===== verification/Authority.thy ===== *)
theory Authority
  imports Kernel_Inv
begin

text \<open>
  Who owns what: the owners of the endpoints and of the UART (\<open>src/kernel/task.rs\<close>). Only the boot sets
  them (\<open>register_endpoint\<close>, \<open>grant_uart\<close>); no system call and no trap changes them, from any state.
\<close>

definition rights :: "TaskManager \<Rightarrow> u32 option list \<times> u32 option" where
  "rights m = (map (map_option ep_owner) (endpoints m), uart_owner m)"

named_theorems rights_kept \<open>operations that change no rights\<close>

lemma rights_fields [simp]: "rights (m\<lparr>tasks := x\<rparr>) = rights m" "rights (m\<lparr>current_pid := p\<rparr>) = rights m"
  "rights (m\<lparr>next_pid := n\<rparr>) = rights m" "rights (m\<lparr>runnable_count := n\<rparr>) = rights m"
  by (simp_all add: rights_def)

lemma rights_tasks [simp]: "rights (update_task i f m) = rights m" "rights (run_task i m) = rights m"
  "rights (wake_task i m) = rights m" "rights (put_task i t m) = rights m" "rights (take_slot i m) = rights m"
  "rights (orphan_children p m) = rights m"
  by (simp_all add: update_task_def run_task_def wake_task_def put_task_def take_slot_def orphan_children_def)

lemma rights_update_endpoint [simp]:
  assumes "\<And>ep. ep_owner (f ep) = ep_owner ep"
  shows "rights (update_endpoint e f m) = rights m"
proof -
  have "map_option ep_owner (map_option f x) = map_option ep_owner x" for x using assms by (cases x) simp_all
  then show ?thesis by (simp add: rights_def update_endpoint_def map_update)
    (cases "unat e < length (endpoints m)", simp_all add: list_update_beyond list_update_same_conv)
qed

lemma rights_sleep [simp]: "rights (sleep_mgr i ch m) = rights m"
  by (simp add: sleep_mgr_def)

lemma push_message_owner [simp]: "ep_owner (push_message msg ep) = ep_owner ep"
  by (simp add: push_message_def)

text \<open>What an operation that returns leaves: a predicate on its result.\<close>

fun returns :: "('a \<Rightarrow> bool) \<Rightarrow> 'a outcome \<Rightarrow> bool" where
  "returns P (Done x) = P x"
| "returns P _ = True"

lemma returns_obind [simp]: "returns P (obind m f) = returns (\<lambda>x. returns P (f x)) m"
  by (cases m) simp_all

lemma returns_any: "(\<And>x. P x) \<Longrightarrow> returns P r"
  by (cases r) simp_all

text \<open>Operations on memory alone.\<close>

lemmas returns_memory [rights_kept] = returns_any [of _ "free_task t k" for t k] returns_any [of _ "slice_to b n" for b n]
  returns_any [of _ "mem_copy_to_user pt dst src len k" for pt dst src len k]
  returns_any [of _ "copy_across spt dpt is src dst k" for spt dpt "is" src dst k]
  returns_any [of _ "free_user_space pt us ib sz hb he k" for pt us ib sz hb he k] returns_any [of _ "init_context kp ks pt fr k" for kp ks pt fr k]

section \<open>Scheduling, exit and waiting\<close>

lemma reap_rights: "reap_loop is s = Done s' \<Longrightarrow> rights (mgr s') = rights (mgr s)"
proof (induction "is" arbitrary: s)
  case (Cons i "is")
  then show ?case by (fastforce split: if_splits)
qed simp

lemma save_current_rights [simp]: "rights (mgr (save_current tf s)) = rights (mgr s)"
  unfolding save_current_def by (simp split: option.split)

lemma schedule_rights [rights_kept]:
  assumes "\<And>f s'. rights (mgr s') = rights (mgr s) \<Longrightarrow> P (f, s')"
  shows "returns P (schedule tf s)"
proof (cases "reap_detached_zombies s")
  case (Done s1)
  then have "rights (mgr s1) = rights (mgr s)" unfolding reap_detached_zombies_def by (rule reap_rights)
  then show ?thesis
    using Done by (auto simp: schedule_def Let_def simp del: save_current_mgr intro!: assms rights_kept split: option.split)
qed (simp_all add: schedule_def)

lemma waitpid_rights [rights_kept]:
  assumes "\<And>r s'. rights (mgr s') = rights (mgr s) \<Longrightarrow> P (r, s')"
  shows "returns P (waitpid pid tf s)"
  by (auto simp: waitpid_def intro!: assms rights_kept split: option.split)

lemma wait_uart_irq_rights [rights_kept]:
  assumes "\<And>r s'. rights (mgr s') = rights (mgr s) \<Longrightarrow> P (r, s')"
  shows "returns P (wait_uart_irq tf s)"
  by (auto simp: wait_uart_irq_def plic_enable_def intro!: assms rights_kept split: option.split)

lemma notify_parent_rights [simp]: "rights (mgr (notify_parent c p code s)) = rights (mgr s)"
  by (simp add: notify_parent_def Let_def split: option.split)

lemma exit_rights [rights_kept]:
  assumes "\<And>r s'. rights (mgr s') = rights (mgr s) \<Longrightarrow> P (r, s')"
  shows "returns P (task_exit code s)"
  by (auto simp: task_exit_def exit_current_def exit_task_def Let_def intro!: assms rights_kept split: option.split)

lemma wake_uart_rights: "rights (mgr (snd (wake_uart_loop is w s))) = rights (mgr s)"
  by (induction "is" arbitrary: w s) (auto simp: Let_def)

lemma external_interrupt_rights [simp]: "rights (mgr (external_interrupt s)) = rights (mgr s)"
  by (simp add: external_interrupt_def wake_uart_def Let_def wake_uart_rights plic_disable_def plic_complete_def)

section \<open>Messages\<close>

lemma ipc_call_rights [rights_kept]:
  assumes "\<And>r s'. rights (mgr s') = rights (mgr s) \<Longrightarrow> P (r, s')"
  shows "returns P (ipc_call e ws tf s)"
  by (auto simp: ipc_call_def Let_def intro!: assms rights_kept split: option.split)

lemma ipc_recv_rights [rights_kept]:
  assumes "\<And>r s'. rights (mgr s') = rights (mgr s) \<Longrightarrow> P (r, s')"
  shows "returns P (ipc_recv e tf s)"
  by (auto simp: ipc_recv_def Let_def intro!: assms rights_kept split: option.split prod.split)

lemma ipc_reply_rights: "rights (mgr (snd (ipc_reply c ws s))) = rights (mgr s)"
  by (auto simp: ipc_reply_def Let_def split: option.split WaitChannel.split)

lemma fill_copy_buf_rights [rights_kept]:
  assumes "\<And>r s'. rights (mgr s') = rights (mgr s) \<Longrightarrow> P (r, s')"
  shows "returns P (fill_copy_buf e ub len s)"
  by (auto simp: fill_copy_buf_def Let_def intro!: assms rights_kept split: option.split prod.split sum.split)

lemma deliver_buffered_rights [rights_kept]:
  assumes "\<And>s'. rights (mgr s') = rights (mgr s) \<Longrightarrow> P s'"
  shows "returns P (deliver_buffered e p ws len r s)"
  by (auto simp: deliver_buffered_def Let_def intro!: assms rights_kept split: option.split prod.split)

lemma ipc_call_buf_rights [rights_kept]:
  assumes "\<And>r s'. rights (mgr s') = rights (mgr s) \<Longrightarrow> P (r, s')"
  shows "returns P (ipc_call_buf e ws ub len tf s)"
  by (auto simp: ipc_call_buf_def Let_def intro!: assms rights_kept split: option.split sum.split)

lemma ipc_recv_buf_rights [rights_kept]:
  assumes "\<And>r s'. rights (mgr s') = rights (mgr s) \<Longrightarrow> P (r, s')"
  shows "returns P (ipc_recv_buf e ub len tf s)"
  by (auto simp: ipc_recv_buf_def Let_def intro!: assms rights_kept split: option.split prod.split sum.split)

lemma ipc_reply_buf_rights [rights_kept]:
  assumes "\<And>r s'. rights (mgr s') = rights (mgr s) \<Longrightarrow> P (r, s')"
  shows "returns P (ipc_reply_buf c ws ub len s)"
  by (auto simp: ipc_reply_buf_def Let_def intro!: assms rights_kept split: option.split prod.split sum.split WaitChannel.split)

section \<open>Memory\<close>

lemma fork_rights [rights_kept]:
  assumes "\<And>r s'. rights (mgr s') = rights (mgr s) \<Longrightarrow> P (r, s')"
  shows "returns P (fork tf s)"
  by (auto simp: fork_def Let_def intro!: assms rights_kept split: option.split prod.split sum.split)

lemma sys_exec_rights [rights_kept]:
  assumes "\<And>v s'. rights (mgr s') = rights (mgr s) \<Longrightarrow> P (v, s')"
  shows "returns P (sys_exec fs va len tf s)"
  by (auto simp: sys_exec_def exec_def replace_current_def Let_def intro!: assms rights_kept split: option.split prod.split sum.split)

lemma sbrk_rights: "rights (mgr (snd (sbrk inc s))) = rights (mgr s)"
  by (auto simp: sbrk_def Let_def split: option.split prod.split sum.split)

section \<open>System calls and traps\<close>

lemma set_a0_rights [simp]: "rights (mgr (set_a0 tf v s)) = rights (mgr s)"
  by (simp add: set_a0_def)

lemma ipc_result_rights [rights_kept]:
  assumes "\<And>f s'. rights (mgr s') = rights (mgr s) \<Longrightarrow> P (f, s')"
  shows "returns P (ipc_result tf (r, s))"
  by (auto simp: ipc_result_def intro!: assms split: IpcResult.split)

lemma returns_if: "(c \<Longrightarrow> returns P a) \<Longrightarrow> (\<not> c \<Longrightarrow> returns P b) \<Longrightarrow> returns P (if c then a else b)"
  by simp

lemma handle_rights [rights_kept]:
  assumes "\<And>f s'. rights (mgr s') = rights (mgr s) \<Longrightarrow> P (f, s')"
  shows "returns P (handle fs tf s)"
  unfolding handle_def Let_def
  using sbrk_rights [of _ "update_frame tf _ s"] ipc_reply_rights [of _ _ "update_frame tf _ s"]
  by (intro returns_if)
    (auto simp: reply_result_def case_prod_unfold intro!: assms rights_kept split: WaitResult.split sum.split)

text \<open>No trap changes who owns an endpoint or the UART.\<close>

lemma trap_rights:
  assumes "trap_handler fs scause tf (timer, s) = Done (f, timer', s')"
  shows "rights (mgr s') = rights (mgr s)"
proof -
  have "returns (\<lambda>(f, t, s'). rights (mgr s') = rights (mgr s)) (trap_handler fs scause tf (timer, s))"
    by (auto simp: trap_handler_def intro!: rights_kept split: TrapCause.split)
  then show ?thesis using assms by simp
qed

lemma owns_rights: "rights m = rights m' \<Longrightarrow> owns_endpoint p e m = owns_endpoint p e m'"
proof -
  have "owns_endpoint p e m = (unat e < length (fst (rights m)) \<and> fst (rights m) ! unat e = Some p)" for m
    by (cases "endpoints m ! unat e") (auto simp: owns_endpoint_def get_endpoint_def rights_def)
  then show "rights m = rights m' \<Longrightarrow> owns_endpoint p e m = owns_endpoint p e m'" by simp
qed

end
