(* ===== verification/Syscall_Stops.thy ===== *)
theory Syscall_Stops
  imports Kernel_Inv
begin

text \<open>
  How a system call can end without returning (\<open>src/kernel/syscall.rs\<close>): the release of a page table can run
  away, a buffered copy can write to a page that is not the user's, and \<open>SYS_SHUTDOWN\<close> switches the machine
  off. Every operation is followed to the places where this can happen; all others return.
\<close>

section \<open>Nothing to reap\<close>

definition quiet :: "TaskManager \<Rightarrow> bool" where
  "quiet m \<longleftrightarrow> no_orphan_zombie m \<and> length (tasks m) = MAX_TASKS"

lemma quiet_update:
  assumes "quiet m" and "tasks m' = tasks (update_task i f m)" and "\<And>t. t_state (f t) \<noteq> Zombie"
  shows "quiet m'"
  using assms no_orphan_update [of m m' i f] by (simp add: quiet_def)

lemma quiet_steps [simp]:
  "quiet m \<Longrightarrow> quiet (sleep_mgr i ch m)" "quiet m \<Longrightarrow> quiet (wake_task i m)" "quiet (update_endpoint e f m) = quiet m"
proof -
  show "quiet (sleep_mgr i ch m)" if "quiet m"
    by (rule quiet_update [OF that sleep_mgr_simps(5)]) simp
  show "quiet (wake_task i m)" if "quiet m"
    by (rule quiet_update [OF that wake_task_simps(5)]) simp
qed (simp add: quiet_def no_orphan_zombie_def)

named_theorems stops \<open>how an operation can end without returning\<close>

lemma free_task_stops [stops]: "stops_only True w (free_user_space pt us ib sz hb he k)" "stops_only True w (free_task t k)"
  by (simp_all add: free_user_space_def free_task_def Let_def stops_only_obind split: option.split)

lemma reap_stops: "stops_only True w (reap_loop is s)"
  by (induction "is" s rule: reap_loop.induct) (auto simp: stops_only_obind free_task_stops)

lemma schedule_stops [stops]:
  assumes "quiet (mgr s) \<or> r"
  shows "stops_only r w (schedule tf s)"
proof (cases r)
  case True
  then show ?thesis
    using reap_stops [of w] by (auto simp: schedule_def stops_only_obind reap_detached_zombies_def Let_def split: option.split)
next
  case False
  then have "reap_detached_zombies s = Done s" using assms reap_none(1) by (simp add: quiet_def)
  then obtain x where "schedule tf s = Done x" by (rule schedule_total)
  then show ?thesis by simp
qed

section \<open>The operations\<close>

lemma slice_to_stops [stops]: "stops_only r w (slice_to b n)"
  by (simp add: slice_to_def)

lemma copies_stop [stops]:
  "stops_only r True (copy_out pt is dst src k)" "stops_only r True (copy_across spt dpt is from_va to_va k)"
  "stops_only r True (mem_copy_to_user pt dst src len k)"
proof -
  show c: "stops_only r True (copy_out pt is dst src k)" for pt "is" dst src k
    by (induction pt "is" dst src k rule: copy_out.induct) (auto split: option.split)
  show "stops_only r True (copy_across spt dpt is from_va to_va k)"
    by (induction spt dpt "is" from_va to_va k rule: copy_across.induct) (auto split: option.split)
  show "stops_only r True (mem_copy_to_user pt dst src len k)" by (simp add: mem_copy_to_user_def c)
qed

lemma waitpid_stops: "stops_only True w (waitpid pid tf s)"
  by (auto simp: waitpid_def stops_only_obind intro!: stops split: option.split)

lemma wait_uart_irq_stops [stops]: "quiet (mgr s) \<or> r \<Longrightarrow> stops_only r w (wait_uart_irq tf s)"
  by (auto simp: wait_uart_irq_def stops_only_obind intro!: stops split: option.split)

lemma ipc_call_stops [stops]: "quiet (mgr s) \<or> r \<Longrightarrow> stops_only r w (ipc_call e ws tf s)"
  by (auto simp: ipc_call_def stops_only_obind Let_def intro!: stops split: option.split)

lemma ipc_recv_stops [stops]: "quiet (mgr s) \<or> r \<Longrightarrow> stops_only r w (ipc_recv e tf s)"
  by (auto simp: ipc_recv_def stops_only_obind Let_def intro!: stops split: option.split prod.split)

lemma ipc_reply_buf_stops [stops]: "stops_only r True (ipc_reply_buf c ws ub len s)"
  by (auto simp: ipc_reply_buf_def stops_only_obind Let_def intro!: stops split: option.split sum.split WaitChannel.split)

lemma ipc_recv_buf_stops [stops]: "quiet (mgr s) \<or> r \<Longrightarrow> stops_only r True (ipc_recv_buf e ub len tf s)"
  by (auto simp: ipc_recv_buf_def stops_only_obind Let_def intro!: stops split: option.split prod.split sum.split)

lemma fill_copy_buf_stops [stops]: "stops_only r w (fill_copy_buf e ub len s)"
  by (auto simp: fill_copy_buf_def stops_only_obind Let_def intro!: stops split: option.split prod.split sum.split)

lemma not_Err: "(x :: unit result) \<noteq> Err \<longleftrightarrow> x = Ok ()"
  by (cases x) auto

lemma fill_copy_buf_quiet: "fill_copy_buf e ub len s = Done (x, s') \<Longrightarrow> quiet (mgr s') = quiet (mgr s)"
  by (auto simp: fill_copy_buf_def Let_def case_prod_unfold not_Err split: if_splits option.splits sum.splits)

lemma deliver_buffered_stops [stops]: "stops_only r True (deliver_buffered e p ws len i s)"
  by (auto simp: deliver_buffered_def stops_only_obind Let_def intro!: stops split: option.split)

lemma deliver_buffered_quiet: "deliver_buffered e p ws len i s = Done s' \<Longrightarrow> quiet (mgr s) \<Longrightarrow> quiet (mgr s')"
  by (auto simp: deliver_buffered_def Let_def split: if_splits option.splits)

lemma ipc_call_buf_stops [stops]:
  assumes "quiet (mgr s) \<or> r"
  shows "stops_only r True (ipc_call_buf e ws ub len tf s)"
  using assms
  by (auto simp: ipc_call_buf_def stops_only_obind Let_def fill_copy_buf_quiet intro!: stops
      dest: deliver_buffered_quiet split: option.split sum.split)

lemma kernel_pt_satp: "kp \<noteq> None \<Longrightarrow> stops_only r w (init_context kp ks pt fr k)"
  by (auto simp: init_context_def kernel_satp_def Let_def)

lemma fork_stops: "kernel_pt s \<noteq> None \<Longrightarrow> stops_only r w (fork tf s)"
  using kernel_pt_satp by (auto simp: fork_def stops_only_obind Let_def split: option.split prod.split sum.split)

text \<open>The calls with a buffer, and the calls that release a page table themselves.\<close>

definition buffered_call :: "usize \<Rightarrow> bool" where
  "buffered_call n \<longleftrightarrow> n \<in> {SYS_IPC_CALL_BUF, SYS_IPC_RECV_BUF, SYS_IPC_REPLY_BUF}"

definition releasing_call :: "usize \<Rightarrow> bool" where
  "releasing_call n \<longleftrightarrow> n \<in> {SYS_EXEC, SYS_WAITPID}"

lemmas syscall_numbers = SYS_EXIT_def SYS_YIELD_def SYS_GETPID_def SYS_FORK_def SYS_PS_def SYS_EXEC_def SYS_WAITPID_def
  SYS_IPC_CALL_def SYS_IPC_RECV_def SYS_IPC_REPLY_def SYS_IRQ_WAIT_def SYS_SBRK_def SYS_IPC_CALL_BUF_def
  SYS_IPC_RECV_BUF_def SYS_IPC_REPLY_BUF_def SYS_SHUTDOWN_def

lemma sys_exec_stops: "stops_only True w (sys_exec fs va len tf s)"
  by (auto simp: sys_exec_def exec_def replace_current_def stops_only_obind Let_def intro!: stops
      split: option.split prod.split sum.split)

lemma results_stop:
  "stops_only r w m \<Longrightarrow> stops_only r w (obind m (ipc_result tf))"
  "stops_only r w m' \<Longrightarrow> stops_only r w (obind m' (reply_result tf))"
  "stops_only r w (reply_result tf x)"
  by (auto simp: stops_only_obind ipc_result_def reply_result_def split: IpcResult.split prod.split)

lemma stops_ifI: "(c \<Longrightarrow> stops_only r w a) \<Longrightarrow> (\<not> c \<Longrightarrow> stops_only r w b) \<Longrightarrow> stops_only r w (if c then a else b)"
  by simp

lemma handle_stops:
  assumes ok: "kernel_ok (mgr s0)" and nid: "current_pid (mgr s0) \<noteq> Some IDLE_PID" and pt: "kernel_pt s0 \<noteq> None"
    and n: "tf_a7 (load_frame tf s0) \<noteq> SYS_SHUTDOWN"
  shows "stops_only (releasing_call (tf_a7 (load_frame tf s0)) \<or> \<not> no_orphan_zombie (mgr s0))
           (buffered_call (tf_a7 (load_frame tf s0))) (handle fs tf s0)"
proof -
  define s where "s = update_frame tf (\<lambda>fr. fr\<lparr>tf_sepc := tf_sepc fr + 4\<rparr>) s0"
  define r where "r \<longleftrightarrow> releasing_call (tf_a7 (load_frame tf s0)) \<or> \<not> no_orphan_zombie (mgr s0)"
  have ms [simp]: "mgr s = mgr s0" "kernel_pt s = kernel_pt s0" by (simp_all add: s_def)
  have q: "quiet (mgr s0) \<or> r" using mgr_okD(6) [OF kernel_okD(1) [OF ok]] by (auto simp: quiet_def r_def)
  have ex: "stops_only r w (task_exit c s)" for w c using task_exit_returns [of s c] ok nid by auto
  show ?thesis
    using n unfolding handle_def Let_def s_def [symmetric] r_def [symmetric]
    by (intro stops_ifI results_stop)
       (use q ex pt in \<open>auto simp: stops_only_obind buffered_call_def r_def releasing_call_def
          intro!: stops fork_stops sys_exec_stops waitpid_stops split: prod.split sum.split WaitResult.split\<close>)
qed

end
