(* ===== verification/Kernel_Reach.thy ===== *)
theory Kernel_Reach
  imports Authority Syscall_Stops
begin

text \<open>
  System calls and traps (\<open>src/kernel/syscall.rs\<close>, \<open>trap.rs\<close>) as one step each, the states that
  traps reach, and the invariant in all of them; the boot sequence (\<open>src/main.rs\<close>) starts in it.
\<close>

section \<open>A state to start from\<close>

lemma no_endpoints:
  assumes "endpoints m = replicate MAX_ENDPOINTS None"
  shows "get_endpoint e m = None"
  using assms by (simp add: get_endpoint_def)

lemma ipc_wf_empty:
  assumes "endpoints m = replicate MAX_ENDPOINTS None"
    and "\<And>p e. \<not> waits_on m p (IpcRecv e) \<and> \<not> waits_on m p (IpcCall e)"
  shows "ipc_wf m"
  using assms by (simp add: ipc_wf_def no_endpoints)

lemma mgr_ok_code:
  assumes "sched_wf m" and "has_idle m" and "endpoints m = replicate MAX_ENDPOINTS None"
    and "list_all (\<lambda>x. case x of None \<Rightarrow> True | Some t \<Rightarrow> t_waiting_for t = None \<and> t_pid t < next_pid m) (tasks m)"
  shows "mgr_ok m"
proof (rule mgr_okI [OF assms(1,2)])
  have t: "t_waiting_for t = None \<and> t_pid t < next_pid m" if "Some t \<in> set (tasks m)" for t
    using assms(4) that by (fastforce simp: list_all_iff split: option.splits)
  then show "ipc_wf m" by (intro ipc_wf_empty [OF assms(3)]) (auto simp: waits_on_def)
  show "pids_fresh m" using t by (simp add: pids_fresh_def)
qed

lemma kernel3_ok: "kernel_ok (mgr kernel3)"
proof -
  have "sched_wf manager3" "has_idle manager3" "endpoints manager3 = replicate MAX_ENDPOINTS None"
    "list_all (\<lambda>x. case x of None \<Rightarrow> True | Some t \<Rightarrow> t_waiting_for t = None \<and> t_pid t < next_pid manager3) (tasks manager3)"
    "current_index manager3 = Some 1" "t_state (task_at 1 manager3) = Running"
    by code_simp+
  then show ?thesis using mgr_ok_code by (simp add: kernel_ok_def kernel3_mgr running_def)
qed

lemma kernel3_facts: "current_pid (mgr kernel3) \<noteq> Some IDLE_PID" "kernel_pt kernel3 \<noteq> None"
  "next_pid (mgr kernel3) = 3"
  unfolding kernel3_mgr by (code_simp, simp add: kernel3_def, code_simp)

section \<open>System calls\<close>



section \<open>Traps\<close>

lemma trap_handler_safe:
  assumes ok: "kernel_ok (mgr s)" and pt: "kernel_pt s \<noteq> None" and np: "next_pid (mgr s) \<noteq> - 1"
    and c: "parse_cause scause \<in> {UserEcall, Timer, External}"
    and u: "parse_cause scause = UserEcall \<Longrightarrow> current_pid (mgr s) \<noteq> Some IDLE_PID \<and> known_syscall (tf_a7 (load_frame tf s))"
  shows "safe (\<lambda>(f, n', s'). advances s s') (trap_handler fs scause tf (n, s))"
proof -
  have 1: "safe (\<lambda>x. safe (\<lambda>(f, n', s'). advances s s') (case x of (f, s') \<Rightarrow> Done (f, g, s'))) (schedule tf s1)"
    if "keeps s s1" for s1 and g :: u64
    by (rule safe_schedule [where ?s0.0 = s]) (use that in \<open>auto simp: keeps_def advances_def kernel_ok_def\<close>)
  have 2: "safe (\<lambda>x. safe (\<lambda>(f, n', s'). advances s s') (case x of (f, s') \<Rightarrow> Done (f, n, s'))) (handle fs tf s)"
    if "parse_cause scause = UserEcall"
    by (rule safe_mono [OF handle_safe [OF ok _ pt np]]) (use u that in auto)
  show ?thesis
    using c 1 [OF keeps_refl [OF ok]] 1 [OF external_interrupt_keeps [OF ok]] 2 by (auto simp: trap_handler_def)
qed

lemma trap_handler_overwrites:
  assumes ok: "kernel_ok (mgr s)" and pt: "kernel_pt s \<noteq> None"
    and u: "parse_cause scause = UserEcall \<Longrightarrow> current_pid (mgr s) \<noteq> Some IDLE_PID"
    and o: "trap_handler fs scause tf (timer, s) = Overwrite"
  shows "parse_cause scause = UserEcall \<and> buffered_call (tf_a7 (load_frame tf s))"
proof -
  have 1: "obind (schedule tf s1) g \<noteq> Overwrite" if "\<And>x. g x \<noteq> Overwrite" for s1 and g :: "usize \<times> kstate \<Rightarrow> (usize \<times> u64 \<times> kstate) outcome"
    using schedule_stops [of s1 True False tf] that by (cases "schedule tf s1") auto
  have 2: "buffered_call (tf_a7 (load_frame tf s))"
    if h: "handle fs tf s = Overwrite" and c: "parse_cause scause = UserEcall"
  proof -
    have "tf_a7 (load_frame tf s) \<noteq> SYS_SHUTDOWN" using h by (auto simp: handle_def Let_def syscall_numbers)
    then show ?thesis using handle_stops [OF ok u [OF c] pt, of tf fs] h by simp
  qed
  show ?thesis
    using o 1 2 by (cases "handle fs tf s") (auto simp: trap_handler_def case_prod_unfold split: TrapCause.splits)
qed

text \<open>Between traps user code and the devices run: they may change memory and the PLIC's registers, not the
  task manager, which is mapped without \<open>PTE_U\<close>. Only user tasks make system calls (the idle task runs in
  supervisor mode). The kernel itself does not change the task manager through a user's pointer in a trap that
  returns: a buffered copy to a page without \<open>PTE_U\<close> is the outcome \<open>Overwrite\<close>, after which no state is
  reached. The index counts the traps.\<close>

inductive reach :: "files \<Rightarrow> kstate \<Rightarrow> nat \<Rightarrow> kstate \<Rightarrow> bool" for fs s0 where
  start: "reach fs s0 0 s0"
| run: "reach fs s0 n s \<Longrightarrow> reach fs s0 n (s\<lparr>mem := k, plic_regs := r\<rparr>)"
| trap: "reach fs s0 n s \<Longrightarrow> (parse_cause scause = UserEcall \<Longrightarrow> current_pid (mgr s) \<noteq> Some IDLE_PID) \<Longrightarrow>
    trap_handler fs scause tf (timer, s) = Done (f, timer', s') \<Longrightarrow> reach fs s0 (Suc n) s'"

lemma trap_handler_Done_cause:
  assumes "trap_handler fs scause tf (timer, s) = Done x"
  shows "parse_cause scause \<in> {UserEcall, Timer, External}"
    and "parse_cause scause = UserEcall \<Longrightarrow> known_syscall (tf_a7 (load_frame tf s))"
proof -
  show "parse_cause scause \<in> {UserEcall, Timer, External}"
    using assms by (auto simp: trap_handler_def split: TrapCause.splits)
  assume "parse_cause scause = UserEcall"
  then obtain y where "handle fs tf s = Done y" using assms by (auto simp: trap_handler_def)
  then show "known_syscall (tf_a7 (load_frame tf s))"
    by (auto simp: handle_def known_syscall_def Let_def split: if_splits)
qed

lemma reach_invariant:
  assumes "reach fs s0 n s" and "kernel_ok (mgr s0)" and "kernel_pt s0 \<noteq> None"
    and "unat (next_pid (mgr s0)) + n < 2 ^ 32"
  shows "kernel_ok (mgr s) \<and> kernel_pt s = kernel_pt s0 \<and> unat (next_pid (mgr s)) \<le> unat (next_pid (mgr s0)) + n"
  using assms
proof (induction rule: reach.induct)
  case (trap n s scause tf timer f timer' s')
  have IH: "kernel_ok (mgr s)" "kernel_pt s = kernel_pt s0" "unat (next_pid (mgr s)) \<le> unat (next_pid (mgr s0)) + n"
    using trap by auto
  have np: "unat (next_pid (mgr s)) < 2 ^ 32 - 1" using IH(3) trap.prems(3) by simp
  then have np': "next_pid (mgr s) \<noteq> - 1" by (auto simp: unsigned_minus_1_eq_mask mask_eq_exp_minus_1)
  have "safe (\<lambda>(f, n', s'). advances s s') (trap_handler fs scause tf (timer, s))"
    by (rule trap_handler_safe [OF IH(1) _ np']) (use IH(2) trap trap_handler_Done_cause [OF trap.hyps(3)] in auto)
  then have a: "advances s s'" using trap.hyps(3) by simp
  have "unat (next_pid (mgr s) + 1) = unat (next_pid (mgr s)) + 1"
    using np by (simp add: unat_word_ariths)
  then show ?case using a IH by (auto simp: advances_def)
qed simp_all

lemma reach_rights: "reach fs s0 n s \<Longrightarrow> rights (mgr s) = rights (mgr s0)"
  by (induction rule: reach.induct) (auto dest: trap_rights)


text \<open>The timer interrupt.\<close>

lemma timer_cause: "parse_cause 0x8000000000000005 = Timer"
  by (simp add: parse_cause_def)


section \<open>Boot\<close>

text \<open>Before the first task runs no task is current and the scheduler has not run: the same invariant
  without a running task.\<close>

lemma task_manager_new_simps:
  "current_pid task_manager_new = None" "next_pid task_manager_new = 1" "uart_owner task_manager_new = None"
  "endpoints task_manager_new = replicate MAX_ENDPOINTS None"
  by (simp_all add: task_manager_new_def)

lemma create_idle_ok:
  assumes m: "mgr s = task_manager_new" and d: "create_idle entry s = Done (r, s')"
  shows "kernel_pt s' = kernel_pt s"
    and "r \<noteq> Err \<Longrightarrow> mgr_ok (mgr s') \<and> next_pid (mgr s') = 1 \<and> current_pid (mgr s') = None \<and>
           endpoints (mgr s') = replicate MAX_ENDPOINTS None \<and> uart_owner (mgr s') = None"
proof -
  have fs: "free_slot task_manager_new = Some 0" "task_index IDLE_PID task_manager_new = None" by code_simp+
  have ok: "mgr_ok (put_task 0 t task_manager_new)" if t: "t_pid t = IDLE_PID" "t_state t = Ready" "t_waiting_for t = None" for t
  proof -
    have tk: "(tasks task_manager_new)[0 := Some t] = Some t # replicate 15 None"
      by (simp add: task_manager_new_def layout numeral_eq_Suc)
    show ?thesis
    proof (rule mgr_ok_code)
      show "sched_wf (put_task 0 t task_manager_new)"
        by (rule put_task_wf [of task_manager_new 0 t])
           (use t in \<open>auto simp: sched_wf_code pids_unique_code task_manager_new_def layout count_tasks_def task_ok_def
             runnable_def map_filter_def list_all_iff\<close>)
      show "has_idle (put_task 0 t task_manager_new)" using t by (auto simp: has_idle_iff tk)
      show "list_all (\<lambda>x. case x of None \<Rightarrow> True | Some ta \<Rightarrow> t_waiting_for ta = None \<and> t_pid ta < next_pid (put_task 0 t task_manager_new))
         (tasks (put_task 0 t task_manager_new))"
        unfolding put_task_simps tk using t by (simp add: task_manager_new_def layout list_all_iff)
    qed (simp add: task_manager_new_def)
  qed
  obtain x k where ik: "idle_memory (mem s) = Done (x, k)"
    using d by (auto simp: create_idle_def m fs)
  show "kernel_pt s' = kernel_pt s"
    using d by (cases x) (auto simp: create_idle_def m fs ik split: prod.splits)
  show "mgr_ok (mgr s') \<and> next_pid (mgr s') = 1 \<and> current_pid (mgr s') = None \<and>
           endpoints (mgr s') = replicate MAX_ENDPOINTS None \<and> uart_owner (mgr s') = None" if "r \<noteq> Err"
    using d that ok by (cases x) (auto simp: create_idle_def m fs ik task_manager_new_simps split: prod.splits)
qed

lemma create_user_image_ok:
  assumes ok: "mgr_ok (mgr s)" and np: "next_pid (mgr s) \<noteq> - 1"
    and d: "create_user_image pt us en ib is s = Done (r, s')"
  shows "kernel_pt s' = kernel_pt s"
    and "r = Ok p \<Longrightarrow> mgr_ok (mgr s') \<and> p = next_pid (mgr s) \<and> next_pid (mgr s') = next_pid (mgr s) + 1 \<and>
           current_pid (mgr s') = current_pid (mgr s) \<and> endpoints (mgr s') = endpoints (mgr s) \<and>
           uart_owner (mgr s') = uart_owner (mgr s) \<and> (\<forall>t. Some t \<in> set (tasks (mgr s')) \<longrightarrow> t_pid t = p \<longrightarrow> t_state t = Ready)"
proof -
  show "kernel_pt s' = kernel_pt s"
    using d by (auto simp: create_user_image_def Let_def split: option.splits if_splits prod.splits)
  assume "r = Ok p"
  then obtain hb slot ks k tf k' where h: "checked_add ib is = Some hb" "free_slot (mgr s) = Some slot"
    "s' = s\<lparr>mem := k', mgr := (put_task slot \<lparr>t_pid = next_pid (mgr s), t_state = Ready, t_trap_frame = tf, t_kernel_stack = ks,
                    t_user_stack = us, t_entry = en, t_pagetable = pt, t_exit_code = 0,
                    t_image_base = ib, t_image_size = is, t_heap_base = hb,
                    t_heap_end = hb, t_parent_pid = current_pid (mgr s), t_waiting_for = None\<rparr>
                  (mgr s))\<lparr>next_pid := next_pid (mgr s) + 1, runnable_count := runnable_count (mgr s) + 1\<rparr>\<rparr>"
    "p = next_pid (mgr s)"
    using d by (auto simp: create_user_image_def Let_def split: option.splits if_splits prod.splits)
  have "mgr_ok (mgr s')"
    by (rule put_task_ok [OF ok h(2) np]) (simp_all add: h(3))
  then show "mgr_ok (mgr s') \<and> p = next_pid (mgr s) \<and> next_pid (mgr s') = next_pid (mgr s) + 1 \<and>
           current_pid (mgr s') = current_pid (mgr s) \<and> endpoints (mgr s') = endpoints (mgr s) \<and>
           uart_owner (mgr s') = uart_owner (mgr s) \<and> (\<forall>t. Some t \<in> set (tasks (mgr s')) \<longrightarrow> t_pid t = p \<longrightarrow> t_state t = Ready)"
    using mgr_okD(4) [OF ok] set_put [OF free_slot_Some [OF h(2)]] by (auto simp: h(3,4) pids_fresh_def)
qed

lemma spawn_ok:
  assumes ok: "mgr_ok (mgr s)" and np: "next_pid (mgr s) \<noteq> - 1" and d: "spawn fs name s = Done (Ok p, s')"
  shows "kernel_pt s' = kernel_pt s" and "mgr_ok (mgr s')" and "p = next_pid (mgr s)"
    and "next_pid (mgr s') = next_pid (mgr s) + 1" and "current_pid (mgr s') = current_pid (mgr s)"
    and "endpoints (mgr s') = endpoints (mgr s)" and "uart_owner (mgr s') = uart_owner (mgr s)"
    and "\<And>t. Some t \<in> set (tasks (mgr s')) \<Longrightarrow> t_pid t = p \<Longrightarrow> t_state t = Ready"
proof -
  obtain im k where l: "load_elf fs name (mem s) = (Ok im, k)"
    and c: "create_user_image (li_pagetable im) (li_user_stack im) (li_entry im) (li_image_base im)
              (li_image_size im) (s\<lparr>mem := k\<rparr>) = Done (Ok p, s')"
    using d by (auto simp: spawn_def split: prod.splits sum.splits)
  note r = create_user_image_ok [OF _ _ c]
  show "kernel_pt s' = kernel_pt s" "mgr_ok (mgr s')" "p = next_pid (mgr s)"
    "next_pid (mgr s') = next_pid (mgr s) + 1" "current_pid (mgr s') = current_pid (mgr s)"
    "endpoints (mgr s') = endpoints (mgr s)" "uart_owner (mgr s') = uart_owner (mgr s)"
    "\<And>t. Some t \<in> set (tasks (mgr s')) \<Longrightarrow> t_pid t = p \<Longrightarrow> t_state t = Ready"
    using r ok np by simp_all
qed

lemma enter_task_ok:
  assumes ok: "mgr_ok (mgr s)" and c: "current_pid (mgr s) = None" and d: "enter_task p s = Done (ue, s')"
    and t: "\<And>t. Some t \<in> set (tasks (mgr s)) \<Longrightarrow> t_pid t = p \<Longrightarrow> t_state t = Ready"
  shows "kernel_ok (mgr s')" and "kernel_pt s' = kernel_pt s" and "next_pid (mgr s') = next_pid (mgr s)"
    and "current_pid (mgr s') = Some p" and "endpoints (mgr s') = endpoints (mgr s)" and "uart_owner (mgr s') = uart_owner (mgr s)"
proof -
  obtain i where i: "task_index p (mgr s) = Some i" using d by (auto simp: enter_task_def split: option.splits)
  note ti = task_index_Some [OF i]
  have rd: "t_state (task_at i (mgr s)) = Ready" by (rule t) (use ti nth_mem in metis)+
  have none: "t_state u \<noteq> Running" if "Some u \<in> set (tasks (mgr s))" for u
    using mgr_okD(1) [OF ok] that c by (auto simp: sched_wf_def task_ok_def)
  have s': "mgr s' = run_task i (mgr s)" "kernel_pt s' = kernel_pt s"
    using d i ti(3) by (auto simp: enter_task_def Let_def run_task_def split: option.splits)
  show "kernel_ok (mgr s')"
    unfolding s'(1) by (rule run_task_ok [OF ok _ ti(2) rd none]) (use ti(1) mgr_okD(6) [OF ok] in simp)
  show "kernel_pt s' = kernel_pt s" "next_pid (mgr s') = next_pid (mgr s)" "current_pid (mgr s') = Some p"
    "endpoints (mgr s') = endpoints (mgr s)" "uart_owner (mgr s') = uart_owner (mgr s)"
    using s' ti(3) by simp_all
qed

lemma expect_Done: "expect r f = Done y \<longleftrightarrow> (\<exists>x s. r = (Ok x, s) \<and> f x s = Done y)"
  by (cases r) (auto simp: expect_def split: sum.split)

lemma grant_uart_ok:
  assumes "mgr_ok (mgr s)" and "grant_uart p s = (Ok (), s')"
  shows "mgr_ok (mgr s')" and "mgr s' = (mgr s)\<lparr>uart_owner := Some p\<rparr>" and "kernel_pt s' = kernel_pt s"
proof -
  show m: "mgr s' = (mgr s)\<lparr>uart_owner := Some p\<rparr>" and "kernel_pt s' = kernel_pt s"
    using assms(2) by (auto simp: grant_uart_def split: if_splits option.splits prod.splits sum.splits)
  show "mgr_ok (mgr s')"
    by (rule mgr_ok_view [OF assms(1)]) (use mgr_okD(1) [OF assms(1)] in \<open>simp_all add: m view_def\<close>)
qed

lemma register_endpoint_Ok:
  assumes "register_endpoint e p m = (Ok (), m')"
  shows "m' = m\<lparr>endpoints := (endpoints m)[unat e := Some (endpoint_new p)]\<rparr>"
  using assms by (auto simp: register_endpoint_def split: if_splits)

text \<open>After boot the shell runs, the console owns the UART and endpoint 1, the file server endpoint 2, and
  the invariant holds.\<close>

lemma boot_ok:
  assumes "kernel_main kernel_end memory archive idle_main regs = Done (ue, s)"
  shows "kernel_ok (mgr s)" and "kernel_pt s \<noteq> None" and "next_pid (mgr s) = 4" and "current_pid (mgr s) = Some 3"
    and "uart_owner (mgr s) = Some 1" and "owns_endpoint 1 CONSOLE_ENDPOINT (mgr s)" and "owns_endpoint 2 FS_ENDPOINT (mgr s)"
proof -
  let ?fs = "initrd_init archive"
  obtain pt satp k s1 i1 s2 p2 s3 s4 s5 p5 s6 s7 p7 where
    b: "create_idle idle_main (plic_init \<lparr>mem = k, mgr = task_manager_new, kernel_pt = Some pt, plic_regs = regs\<rparr>) = Done (Ok i1, s1)"
       "spawn ?fs (ascii ''console'') s1 = Done (Ok p2, s2)" "grant_uart p2 s2 = (Ok (), s3)"
       "on_mgr (register_endpoint CONSOLE_ENDPOINT p2) s3 = (Ok (), s4)"
       "spawn ?fs (ascii ''fs-server'') s4 = Done (Ok p5, s5)"
       "on_mgr (register_endpoint FS_ENDPOINT p5) s5 = (Ok (), s6)"
       "spawn ?fs (ascii ''shell'') s6 = Done (Ok p7, s7)" "enter_task p7 s7 = Done (ue, s)"
    using assms by (auto simp: kernel_main_def expect_Done Let_def)
  note i = create_idle_ok [OF _ b(1)]
  have i: "kernel_pt s1 = Some pt" "mgr_ok (mgr s1)" "next_pid (mgr s1) = 1" "current_pid (mgr s1) = None"
    "endpoints (mgr s1) = replicate MAX_ENDPOINTS None"
    using i by (simp_all add: plic_init_def)
  note c = spawn_ok [OF i(2) _ b(2)]
  have c: "kernel_pt s2 = Some pt" "mgr_ok (mgr s2)" "p2 = 1" "next_pid (mgr s2) = 2" "current_pid (mgr s2) = None"
    "endpoints (mgr s2) = replicate MAX_ENDPOINTS None"
    using c i by simp_all
  note g = grant_uart_ok [OF c(2) b(3)]
  obtain m4 where r4: "register_endpoint CONSOLE_ENDPOINT p2 (mgr s3) = (Ok (), m4)" "s4 = s3\<lparr>mgr := m4\<rparr>"
    using b(4) by (auto simp: on_mgr_def split: prod.splits)
  note k4 = register_endpoint_keeps [OF g(1) r4(1)] and e4 = register_endpoint_Ok [OF r4(1)]
  have s4: "mgr_ok (mgr s4)" "next_pid (mgr s4) = 2" "current_pid (mgr s4) = None" "kernel_pt s4 = Some pt"
    "uart_owner (mgr s4) = Some 1"
    using k4 c g e4 by (simp_all add: r4(2))
  note f = spawn_ok [OF s4(1) _ b(5)]
  have f: "mgr_ok (mgr s5)" "p5 = 2" "next_pid (mgr s5) = 3" "current_pid (mgr s5) = None" "kernel_pt s5 = Some pt"
    "uart_owner (mgr s5) = Some 1" "endpoints (mgr s5) = endpoints (mgr s4)"
    using f s4 by simp_all
  obtain m6 where r6: "register_endpoint FS_ENDPOINT p5 (mgr s5) = (Ok (), m6)" "s6 = s5\<lparr>mgr := m6\<rparr>"
    using b(6) by (auto simp: on_mgr_def split: prod.splits)
  note k6 = register_endpoint_keeps [OF f(1) r6(1)] and e6 = register_endpoint_Ok [OF r6(1)]
  have s6: "mgr_ok (mgr s6)" "next_pid (mgr s6) = 3" "current_pid (mgr s6) = None" "kernel_pt s6 = Some pt"
    "uart_owner (mgr s6) = Some 1"
    using k6 f e6 by (simp_all add: r6(2))
  note sh = spawn_ok [OF s6(1) _ b(7)]
  have sh': "mgr_ok (mgr s7)" "p7 = 3" "next_pid (mgr s7) = 4" "current_pid (mgr s7) = None" "kernel_pt s7 = Some pt"
    "uart_owner (mgr s7) = Some 1" "endpoints (mgr s7) = endpoints (mgr s6)"
    using sh s6 by simp_all
  have np: "next_pid (mgr s6) \<noteq> - 1" using s6 by simp
  note en = enter_task_ok [OF sh'(1,4) b(8) sh(8) [OF np]]
  show "kernel_ok (mgr s)" "kernel_pt s \<noteq> None" "next_pid (mgr s) = 4" "current_pid (mgr s) = Some 3" "uart_owner (mgr s) = Some 1"
    using en sh' by simp_all
  have es: "endpoints (mgr s) = (endpoints (mgr s3))[unat CONSOLE_ENDPOINT := Some (endpoint_new 1), unat FS_ENDPOINT := Some (endpoint_new 2)]"
    using en sh' e6 f e4 c(3) by (simp add: r6(2) r4(2))
  have "length (endpoints (mgr s3)) = MAX_ENDPOINTS" using g c by simp
  then show "owns_endpoint 1 CONSOLE_ENDPOINT (mgr s)" "owns_endpoint 2 FS_ENDPOINT (mgr s)"
    by (simp_all add: owns_endpoint_def get_endpoint_def es layout FS_ENDPOINT_def endpoint_new_def)
qed

end
