(* ===== verification/Ipc_Claims.thy ===== *)
theory Ipc_Claims
  imports Ipc_Spec
begin

text \<open>
  What a client and a server can rely on (\<open>src/kernel/task.rs\<close>): a call reaches a waiting
  receiver at once or is queued, messages are received in the order of the calls, and only
  the owner of the endpoint a client calls can answer it.
\<close>

section \<open>The switch after a block\<close>

text \<open>With no zombie to reap, \<open>schedule\<close> returns, and the only frame it writes is that of the task that
  traps.\<close>

lemma schedule_returns:
  assumes ok: "mgr_ok (mgr s)" and z: "no_orphan_zombie (mgr s)" and ci: "current_index (mgr s) = Some i"
  obtains f s' where "schedule tf s = Done (f, s')" and "kernel_ok (mgr s')" and "mgr s' = schedule_mgr (mgr s)"
    and "mem s' = mem (store_frame (t_trap_frame (task_at i (mgr s))) (load_frame tf s) s)"
proof -
  note wf = mgr_okD(1) [OF ok]
  note rn = reap_none [OF z sched_wf_length [OF wf]]
  obtain f s' where sch: "schedule tf s = Done (f, s')" using schedule_total [OF rn(1)] .
  have sc: "save_current tf s = update_mgr (update_task i (\<lambda>t. if t_state t = Running then t\<lparr>t_state := Ready\<rparr> else t))
            (store_frame (t_trap_frame (task_at i (mgr s))) (load_frame tf s) s)" by (simp add: save_current_def ci)
  have "mem s' = mem (save_current tf s)"
    using sch unfolding schedule_next rn(1) by (auto simp: Let_def split: option.splits)
  then have "mem s' = mem (store_frame (t_trap_frame (task_at i (mgr s))) (load_frame tf s) s)" by (simp add: sc)
  then show ?thesis using that [OF sch schedule_ok(1) [OF ok sch] schedule_Done(1) [OF wf sch]] by blast
qed

lemma load_store_other [simp]: "disjoint_tf a b \<Longrightarrow> load_frame b (store_frame a f s) = load_frame b s"
  by (simp add: load_frame_def store_frame_def read_tf_write_other)

lemma load_frame_cong: "mem s = mem s' \<Longrightarrow> load_frame a s = load_frame a s'"
  by (simp add: load_frame_def)

lemma disjoint_tf_sym: "disjoint_tf a b \<Longrightarrow> disjoint_tf b a"
  by (auto simp: disjoint_tf_def)

lemma sleep_task_mem: "mem (sleep_task i ch tf s) = mem (store_frame (t_trap_frame (task_at i (mgr s))) (load_frame tf s) s)"
  by (simp add: sleep_task_def)

text \<open>A runnable task stays runnable when \<open>schedule\<close> runs, and keeps its other fields.\<close>

lemma schedule_mgr_task:
  assumes wf: "sched_wf m" "has_idle m" and j: "j < MAX_TASKS" "tasks m ! j = Some t" and st: "t_state t = Ready"
  shows "\<exists>u. tasks (schedule_mgr m) ! j = Some u \<and> u\<lparr>t_state := Ready\<rparr> = t \<and> t_state u \<in> {Ready, Running}"
proof -
  obtain i u where i: "next_slot (scan_start m) (put_back (reap_mgr m)) = Some i" "i < MAX_TASKS"
    "tasks (put_back (reap_mgr m)) ! i = Some u" "t_state u = Ready"
    using schedule_mgr_runs [OF wf] by metis
  have b: "tasks (put_back (reap_mgr m)) ! j = Some t"
    using nth_put_back [OF reap_mgr_wf [OF wf(1)] j(1)] nth_reap_mgr [of j m] j st sched_wf_length [OF wf(1)]
    by (simp add: detached_def)
  have e: "tasks (schedule_mgr m) ! j = (if i = j then Some (t\<lparr>t_state := Running\<rparr>) else Some t)"
    using i b j(1) sched_wf_length [OF wf(1)] by (simp add: schedule_mgr_def nth_update_task Let_def)
  have same: "t\<lparr>t_state := Ready\<rparr> = t" by (simp add: st [symmetric])
  show ?thesis
  proof (cases "i = j")
    case True
    then show ?thesis using e same by (intro exI [of _ "t\<lparr>t_state := Running\<rparr>"]) (simp del: Task.surjective)
  next
    case False
    then show ?thesis using e same st by (intro exI [of _ t]) simp
  qed
qed

text \<open>The last step of every operation that blocks: from a state in which the current task already sleeps.\<close>

lemma block_returns:
  assumes ok: "mgr_ok (mgr s)" and z: "no_orphan_zombie (mgr s)" and ci: "current_index (mgr s) = Some i"
    and t: "tasks (mgr s) ! i = Some (t\<lparr>t_state := Sleeping, t_waiting_for := ch\<rparr>)"
  obtains f s' where "schedule tf s = Done (f, s')" and "kernel_ok (mgr s')"
    and "tasks (mgr s') ! i = Some (t\<lparr>t_state := Sleeping, t_waiting_for := ch\<rparr>)"
    and "endpoints (mgr s') = endpoints (mgr s)"
    and "load_frame (t_trap_frame t) s' = load_frame tf s"
    and "\<And>a. disjoint_tf a (t_trap_frame t) \<Longrightarrow> load_frame a s' = load_frame a s"
    and "\<And>j u. j < MAX_TASKS \<Longrightarrow> tasks (mgr s) ! j = Some u \<Longrightarrow> t_state u = Ready \<Longrightarrow>
           \<exists>v. tasks (mgr s') ! j = Some v \<and> v\<lparr>t_state := Ready\<rparr> = u \<and> t_state v \<in> {Ready, Running}"
proof -
  note wf = mgr_okD(1) [OF ok] and idle = mgr_okD(2) [OF ok]
  note ct = current_task [OF wf ci]
  have at: "t_trap_frame (task_at i (mgr s)) = t_trap_frame t" using t by (simp add: task_at_def)
  obtain f s' where s': "schedule tf s = Done (f, s')" "kernel_ok (mgr s')" "mgr s' = schedule_mgr (mgr s)"
    "mem s' = mem (store_frame (t_trap_frame t) (load_frame tf s) s)"
    using schedule_returns [OF ok z ci, of tf] unfolding at by blast
  note m = load_frame_cong [OF s'(4)]
  show thesis
  proof (rule that [OF s'(1,2)])
    show "tasks (mgr s') ! i = Some (t\<lparr>t_state := Sleeping, t_waiting_for := ch\<rparr>)"
      unfolding s'(3) by (rule schedule_mgr_keeps [OF wf idle ct(1) t]) simp
    show "endpoints (mgr s') = endpoints (mgr s)" by (simp add: s'(3))
    show "load_frame (t_trap_frame t) s' = load_frame tf s" by (simp add: m)
    show "load_frame a s' = load_frame a s" if "disjoint_tf a (t_trap_frame t)" for a
      using disjoint_tf_sym [OF that] by (simp add: m)
    show "\<exists>v. tasks (mgr s') ! j = Some v \<and> v\<lparr>t_state := Ready\<rparr> = u \<and> t_state v \<in> {Ready, Running}"
      if "j < MAX_TASKS" "tasks (mgr s) ! j = Some u" "t_state u = Ready" for j u
      unfolding s'(3) by (rule schedule_mgr_task [OF wf idle that])
  qed
qed

lemma current_facts:
  assumes ok: "kernel_ok (mgr s)" and ci: "current_index (mgr s) = Some i" and t: "tasks (mgr s) ! i = Some t" "t_pid t \<noteq> IDLE_PID"
  shows "i < MAX_TASKS" and "current_pid (mgr s) = Some (t_pid t)" and "runnable t" and "task_at i (mgr s) = t"
    and "task_index (t_pid t) (mgr s) = Some i" and "length (tasks (mgr s)) = MAX_TASKS"
proof -
  note ct = current_task [OF mgr_okD(1) [OF kernel_okD(1) [OF ok]] ci]
  show at: "task_at i (mgr s) = t" using t(1) by (simp add: task_at_def)
  show "i < MAX_TASKS" "current_pid (mgr s) = Some (t_pid t)" using ct at by simp_all
  then show "runnable t" using current_runnable [OF kernel_okD(2) [OF ok] ci] t(2) at by simp
  show "task_index (t_pid t) (mgr s) = Some i" using ci ct(3) at by (simp add: current_index_def)
  show "length (tasks (mgr s)) = MAX_TASKS" by (rule mgr_okD(6) [OF kernel_okD(1) [OF ok]])
qed

section \<open>Calls\<close>

text \<open>The state in which a call has put its caller to sleep.\<close>

lemma call_sleeps:
  fixes tf :: usize
  assumes ok: "kernel_ok (mgr s)" and z: "no_orphan_zombie (mgr s)" and ci: "current_index (mgr s) = Some i"
    and t: "tasks (mgr s) ! i = Some t" "t_pid t \<noteq> IDLE_PID" and ep: "get_endpoint e (mgr s) = Some ep" "ep_owner ep \<noteq> t_pid t"
  defines "s1 \<equiv> sleep_task i (IpcCall e) tf s"
  shows "mgr_ok (mgr s1)" and "no_orphan_zombie (mgr s1)" and "current_index (mgr s1) = Some i"
    and "tasks (mgr s1) ! i = Some (t\<lparr>t_state := Sleeping, t_waiting_for := Some (IpcCall e)\<rparr>)"
    and "get_endpoint e (mgr s1) = Some ep" and "\<And>j. j < MAX_TASKS \<Longrightarrow> j \<noteq> i \<Longrightarrow> tasks (mgr s1) ! j = tasks (mgr s) ! j"
    and "length (tasks (mgr s1)) = MAX_TASKS"
proof -
  note cf = current_facts [OF ok ci t]
  show "mgr_ok (mgr s1)"
    using sleep_mgr_ok [OF kernel_okD(1) [OF ok] cf(1) t(1) cf(3), of "IpcCall e"] ep by (auto simp: s1_def)
  show "no_orphan_zombie (mgr s1)"
    unfolding s1_def sleep_task_mgr by (rule no_orphan_update [OF z sleep_mgr_simps(5)]) simp
  show "current_index (mgr s1) = Some i" using ci by (simp add: s1_def current_index_def split: option.splits)
  show "tasks (mgr s1) ! i = Some (t\<lparr>t_state := Sleeping, t_waiting_for := Some (IpcCall e)\<rparr>)"
    using cf t by (simp add: s1_def nth_update_task)
  show "get_endpoint e (mgr s1) = Some ep" using ep by (simp add: s1_def)
  show "tasks (mgr s1) ! j = tasks (mgr s) ! j" if "j < MAX_TASKS" "j \<noteq> i" for j
    using that cf by (simp add: s1_def nth_update_task)
  show "length (tasks (mgr s1)) = MAX_TASKS" using cf by (simp add: s1_def)
qed

text \<open>C7: Rendezvous: when the owner of an endpoint waits in a receive, a call delivers the message at once: the
  owner is runnable again, its saved frame holds the caller's pid in \<open>a0\<close> and the four words in \<open>a1\<close> to
  \<open>a4\<close> and is otherwise unchanged, the queue stays empty, and the caller sleeps on the call with its own frame saved.\<close>

theorem ipc_call_rendezvous:
  assumes ok: "kernel_ok (mgr s)" and z: "no_orphan_zombie (mgr s)" and ci: "current_index (mgr s) = Some i"
    and t: "tasks (mgr s) ! i = Some t" "t_pid t \<noteq> IDLE_PID"
    and ep: "get_endpoint e (mgr s) = Some ep" "ep_waiting_receiver ep = Some p"
    and r: "tasks (mgr s) ! r = Some u" "r < MAX_TASKS" "t_pid u = p"
    and apart: "disjoint_tf (t_trap_frame u) (t_trap_frame t)" "disjoint_tf (t_trap_frame u) tf"
      "tf = t_trap_frame t \<or> disjoint_tf (t_trap_frame t) tf"
  shows "\<exists>f s'. ipc_call e ws tf s = Done (Blocked f, s') \<and> kernel_ok (mgr s') \<and>
    (\<exists>v. tasks (mgr s') ! r = Some v \<and> v\<lparr>t_state := Ready\<rparr> = u\<lparr>t_state := Ready, t_waiting_for := None\<rparr> \<and>
       t_state v \<in> {Ready, Running}) \<and>
    load_frame (t_trap_frame u) s' = set_message (t_pid t) ws (load_frame (t_trap_frame u) s) \<and>
    get_endpoint e (mgr s') = Some (ep\<lparr>ep_waiting_receiver := None\<rparr>) \<and> q_list (ep_pending ep) = [] \<and>
    tasks (mgr s') ! i = Some (t\<lparr>t_state := Sleeping, t_waiting_for := Some (IpcCall e)\<rparr>) \<and>
    load_frame (t_trap_frame t) s' = load_frame tf s"
proof -
  note ok' = kernel_okD(1) [OF ok]
  note cf = current_facts [OF ok ci t]
  have po: "p = ep_owner ep" "q_list (ep_pending ep) = []" "\<not> q_is_full (ep_pending ep)"
    using get_endpoint_ok [OF ok' ep(1)] ep(2) by (auto simp: endpoint_ok_def q_is_full_def layout)
  have ri: "task_index p (mgr s) = Some r" using task_index_eq [OF mgr_okD(5) [OF ok'] _ r(1,3)] r(2) cf(6) by simp
  have atu: "task_at r (mgr s) = u" using r by (simp add: task_at_def)
  have "t_state u = Sleeping"
    using waiting_receiver_slot [OF ok' ep] ri atu by (metis option.inject)
  then have ir: "r \<noteq> i" using cf(3) t(1) r(1) by (auto simp: runnable_def)
  have ne: "ep_owner ep \<noteq> t_pid t" using ir ri cf(5) po(1) by auto
  note c = call_sleeps [OF ok z ci t ep(1) ne, where tf = tf]
  let ?s1 = "sleep_task i (IpcCall e) tf s"
  let ?s2 = "update_mgr (update_endpoint e (\<lambda>ep. ep\<lparr>ep_waiting_receiver := None\<rparr>))
      (update_mgr (wake_task r) (update_frame (t_trap_frame u) (set_message (t_pid t) ws) ?s1))"
  have ok2: "mgr_ok (mgr ?s2)"
    using deliver_ok [OF c(1,5) ep(2), of r "\<lambda>ep. ep\<lparr>ep_waiting_receiver := None\<rparr>"] ri by simp
  have u2: "tasks (mgr ?s2) ! r = Some (u\<lparr>t_state := Ready, t_waiting_for := None\<rparr>)"
    using c(6) [OF r(2) ir] r c(7) by (simp add: nth_update_task)
  have t2: "tasks (mgr ?s2) ! i = Some (t\<lparr>t_state := Sleeping, t_waiting_for := Some (IpcCall e)\<rparr>)"
    using c(4,7) ir cf(1) by (simp add: nth_update_task)
  have "no_orphan_zombie (wake_task r (mgr ?s1))" by (rule no_orphan_update [OF c(2) wake_task_simps(5)]) simp
  then have z2: "no_orphan_zombie (mgr ?s2)" by (simp add: no_orphan_zombie_def)
  have ci2: "current_index (mgr ?s2) = Some i" using c(3) by (simp add: current_index_def split: option.splits)
  obtain f s' where s': "schedule tf ?s2 = Done (f, s')" "kernel_ok (mgr s')"
    "tasks (mgr s') ! i = Some (t\<lparr>t_state := Sleeping, t_waiting_for := Some (IpcCall e)\<rparr>)"
    "endpoints (mgr s') = endpoints (mgr ?s2)" "load_frame (t_trap_frame t) s' = load_frame tf ?s2"
    and fr: "\<And>a. disjoint_tf a (t_trap_frame t) \<Longrightarrow> load_frame a s' = load_frame a ?s2"
    and rd: "\<And>j u. j < MAX_TASKS \<Longrightarrow> tasks (mgr ?s2) ! j = Some u \<Longrightarrow> t_state u = Ready \<Longrightarrow>
           \<exists>v. tasks (mgr s') ! j = Some v \<and> v\<lparr>t_state := Ready\<rparr> = u \<and> t_state v \<in> {Ready, Running}"
    by (rule block_returns [OF ok2 z2 ci2 t2, where tf = tf]) (rule that)
  have at1: "task_at r (mgr ?s1) = u" using c(6) [OF r(2) ir] r(1) by (simp add: task_at_def)
  have call: "ipc_call e ws tf s = Done (Blocked f, s')"
    using cf(2,5) ep po ne ri s'(1) at1 by (simp add: ipc_call_def Let_def)
  have s1: "load_frame a ?s1 = load_frame a (store_frame (t_trap_frame t) (load_frame tf s) s)" for a
    using load_frame_cong [OF sleep_task_mem] cf(4) by simp
  have "load_frame (t_trap_frame u) s' = set_message (t_pid t) ws (load_frame (t_trap_frame u) s)"
    using fr [OF apart(1)] s1 disjoint_tf_sym [OF apart(1)] by simp
  moreover have "load_frame (t_trap_frame t) s' = load_frame tf s"
  proof -
    have "load_frame tf ?s2 = load_frame tf ?s1" using apart(2) by (simp add: update_frame_def)
    also have "\<dots> = load_frame tf s" using s1 apart(3) by auto
    finally show ?thesis using s'(5) by simp
  qed
  moreover have "get_endpoint e (mgr s') = Some (ep\<lparr>ep_waiting_receiver := None\<rparr>)"
    using get_endpoint_cong [OF s'(4)] c(5) by simp
  moreover note rd [OF r(2) u2]
  ultimately show ?thesis using call s'(2,3) po(2) by fastforce
qed

text \<open>C10: Queueing: when the owner does not wait, the message is appended to the endpoint's queue and the
  caller sleeps on the call. A call is refused, and then nothing changes, exactly when there is no
  such endpoint, the caller owns it, or eight messages are queued.\<close>

theorem ipc_call_queues:
  assumes ok: "kernel_ok (mgr s)" and z: "no_orphan_zombie (mgr s)" and ci: "current_index (mgr s) = Some i"
    and t: "tasks (mgr s) ! i = Some t" "t_pid t \<noteq> IDLE_PID"
  shows "case get_endpoint e (mgr s) of
      None \<Rightarrow> ipc_call e ws tf s = Done (IpcError, s)
    | Some ep \<Rightarrow>
        if ep_owner ep = t_pid t \<or> length (q_list (ep_pending ep)) = MSG_QUEUE_SIZE then ipc_call e ws tf s = Done (IpcError, s)
        else ep_waiting_receiver ep = None \<longrightarrow>
          (\<exists>f s' ep'. ipc_call e ws tf s = Done (Blocked f, s') \<and> kernel_ok (mgr s') \<and>
             get_endpoint e (mgr s') = Some ep' \<and> ep_waiting_receiver ep' = None \<and>
             q_list (ep_pending ep') = q_list (ep_pending ep) @ [\<lparr>msg_sender = t_pid t, msg_words = ws, msg_buf_len = 0\<rparr>] \<and>
             tasks (mgr s') ! i = Some (t\<lparr>t_state := Sleeping, t_waiting_for := Some (IpcCall e)\<rparr>))"
proof (cases "get_endpoint e (mgr s)")
  case None
  then show ?thesis using current_facts [OF ok ci t] by (simp add: ipc_call_def)
next
  case (Some ep)
  note cf = current_facts [OF ok ci t]
  show ?thesis
  proof (cases "ep_owner ep = t_pid t \<or> q_is_full (ep_pending ep)")
    case True
    then show ?thesis using cf Some by (auto simp: ipc_call_def q_is_full_def)
  next
    case False
    let ?msg = "\<lparr>msg_sender = t_pid t, msg_words = ws, msg_buf_len = 0\<rparr>"
    have "\<exists>f s' ep'. ipc_call e ws tf s = Done (Blocked f, s') \<and> kernel_ok (mgr s') \<and>
             get_endpoint e (mgr s') = Some ep' \<and> ep_waiting_receiver ep' = None \<and>
             q_list (ep_pending ep') = q_list (ep_pending ep) @ [?msg] \<and>
             tasks (mgr s') ! i = Some (t\<lparr>t_state := Sleeping, t_waiting_for := Some (IpcCall e)\<rparr>)"
      if nw: "ep_waiting_receiver ep = None"
    proof -
      have ne: "ep_owner ep \<noteq> t_pid t" using False by simp
      note c = call_sleeps [OF ok z ci t Some ne, where tf = tf]
      note pm = push_message_ok [OF get_endpoint_ok [OF c(1,5)], of ?msg]
      let ?s2 = "update_mgr (update_endpoint e (push_message ?msg)) (sleep_task i (IpcCall e) tf s)"
      have ok2: "mgr_ok (mgr ?s2)"
        unfolding update_mgr_simps
        by (rule update_endpoint_ok [OF c(1)]) (use pm(1) False nw c(5) in \<open>auto simp: push_message_def\<close>)
      have z2: "no_orphan_zombie (mgr ?s2)" using c(2) by (simp add: no_orphan_zombie_def)
      have ci2: "current_index (mgr ?s2) = Some i" and t2: "tasks (mgr ?s2) ! i = Some (t\<lparr>t_state := Sleeping, t_waiting_for := Some (IpcCall e)\<rparr>)"
        using c(3,4) by simp_all
      obtain f s' where s': "schedule tf ?s2 = Done (f, s')" "kernel_ok (mgr s')"
        "tasks (mgr s') ! i = Some (t\<lparr>t_state := Sleeping, t_waiting_for := Some (IpcCall e)\<rparr>)"
        "endpoints (mgr s') = endpoints (mgr ?s2)"
        using block_returns [OF ok2 z2 ci2 t2, where tf = tf] by metis
      have "ipc_call e ws tf s = Done (Blocked f, s')"
        using cf(2,5) Some False ne [symmetric] nw s'(1) by (simp add: ipc_call_def Let_def)
      moreover have "get_endpoint e (mgr s') = Some (push_message ?msg ep)"
        using get_endpoint_cong [OF s'(4)] c(5) by simp
      ultimately show ?thesis
        using s'(2,3) pm(2) False nw by (intro exI [of _ f] exI [of _ s'] exI [of _ "push_message ?msg ep"]) (simp add: push_message_def)
    qed
    then show ?thesis using Some False by (simp add: q_is_full_def)
  qed
qed

section \<open>Receives\<close>

text \<open>C9: Receives: the owner of an endpoint gets the oldest queued message in its frame, which leaves the rest of the
  queue, and goes on; with an empty queue it sleeps and the endpoint records it as waiting. Nobody
  else can receive from the endpoint, and then nothing changes.\<close>

theorem ipc_recv_oldest:
  assumes ok: "kernel_ok (mgr s)" and z: "no_orphan_zombie (mgr s)" and ci: "current_index (mgr s) = Some i"
    and t: "tasks (mgr s) ! i = Some t" "t_pid t \<noteq> IDLE_PID" and ep: "get_endpoint e (mgr s) = Some ep"
  shows "if ep_owner ep \<noteq> t_pid t then ipc_recv e tf s = Done (IpcError, s)
    else (case q_list (ep_pending ep) of
        msg # rest \<Rightarrow>
          (\<exists>s' ep'. ipc_recv e tf s = Done (Continue, s') \<and> kernel_ok (mgr s') \<and> current_index (mgr s') = Some i \<and>
             load_frame tf s' = set_message (msg_sender msg) (msg_words msg) (load_frame tf s) \<and>
             get_endpoint e (mgr s') = Some ep' \<and> q_list (ep_pending ep') = rest)
      | [] \<Rightarrow>
          (\<exists>f s'. ipc_recv e tf s = Done (Blocked f, s') \<and> kernel_ok (mgr s') \<and>
             get_endpoint e (mgr s') = Some (ep\<lparr>ep_waiting_receiver := Some (t_pid t)\<rparr>) \<and>
             tasks (mgr s') ! i = Some (t\<lparr>t_state := Sleeping, t_waiting_for := Some (IpcRecv e)\<rparr>)))"
proof (cases "ep_owner ep = t_pid t")
  case False
  then show ?thesis using current_facts [OF ok ci t] ep by (simp add: ipc_recv_def)
next
  case own: True
  note cf = current_facts [OF ok ci t] and ok' = kernel_okD(1) [OF ok]
  note epok = get_endpoint_ok [OF ok' ep]
  have qwf: "q_wf (ep_pending ep)" using epok by (simp add: endpoint_ok_def)
  obtain m q where pop: "q_pop (ep_pending ep) = (m, q)" by (cases "q_pop (ep_pending ep)")
  show ?thesis
  proof (cases m)
    case (Some msg)
    note pm = pop_message_ok [OF epok pop [unfolded Some]]
    let ?s' = "update_frame tf (set_message (msg_sender msg) (msg_words msg)) (update_mgr (update_endpoint e (\<lambda>ep. ep\<lparr>ep_pending := q\<rparr>)) s)"
    have r: "ipc_recv e tf s = Done (Continue, ?s')" using cf ep own pop Some by (simp add: ipc_recv_def)
    have "mgr_ok (mgr ?s')"
      unfolding update_frame_simps update_mgr_simps by (rule update_endpoint_ok [OF ok']) (use pm(1) ep in auto)
    then have "kernel_ok (mgr ?s')" using kernel_okD(2) [OF ok] by (simp add: kernel_ok_def)
    then have "\<exists>s' ep'. ipc_recv e tf s = Done (Continue, s') \<and> kernel_ok (mgr s') \<and> current_index (mgr s') = Some i \<and>
             load_frame tf s' = set_message (msg_sender msg) (msg_words msg) (load_frame tf s) \<and>
             get_endpoint e (mgr s') = Some ep' \<and> q_list (ep_pending ep') = q_list q"
      using r ci ep by (intro exI [of _ ?s'] exI [of _ "ep\<lparr>ep_pending := q\<rparr>"]) simp
    then show ?thesis using own pm(2) by simp
  next
    case None
    have empty: "q_list (ep_pending ep) = []" using q_pop_None [OF qwf] pop None by auto
    let ?s1 = "sleep_task i (IpcRecv e) tf (update_mgr (update_endpoint e (\<lambda>ep. ep\<lparr>ep_waiting_receiver := Some (t_pid t)\<rparr>)) s)"
    have ok1: "mgr_ok (mgr ?s1)"
      using recv_block_ok [OF ok' cf(1) t(1) cf(3) ep own empty, of "\<lambda>ep. ep\<lparr>ep_waiting_receiver := Some (t_pid t)\<rparr>"] by simp
    have z1: "no_orphan_zombie (mgr ?s1)"
      unfolding sleep_task_mgr by (rule no_orphan_update [OF _ sleep_mgr_simps(5)]) (use z in \<open>simp_all add: no_orphan_zombie_def\<close>)
    have ci1: "current_index (mgr ?s1) = Some i"
      and t1: "tasks (mgr ?s1) ! i = Some (t\<lparr>t_state := Sleeping, t_waiting_for := Some (IpcRecv e)\<rparr>)"
      using ci cf t by (simp_all add: current_index_def nth_update_task split: option.splits)
    obtain f s' where s': "schedule tf ?s1 = Done (f, s')" "kernel_ok (mgr s')"
      "tasks (mgr s') ! i = Some (t\<lparr>t_state := Sleeping, t_waiting_for := Some (IpcRecv e)\<rparr>)" "endpoints (mgr s') = endpoints (mgr ?s1)"
      using block_returns [OF ok1 z1 ci1 t1, where tf = tf] by metis
    have "ipc_recv e tf s = Done (Blocked f, s')"
      using cf ci ep own pop None s'(1) by (simp add: ipc_recv_def Let_def)
    moreover have "get_endpoint e (mgr s') = Some (ep\<lparr>ep_waiting_receiver := Some (t_pid t)\<rparr>)"
      using get_endpoint_cong [OF s'(4)] ep by simp
    ultimately show ?thesis using own s'(2,3) by (simp add: empty del: q_list_Nil_iff)
  qed
qed

section \<open>Replies\<close>

text \<open>C8: Who may reply: a reply succeeds exactly when the client sleeps in a call on an endpoint that the
  replying task owns. Then the client is runnable, its saved \<open>a0\<close> to \<open>a3\<close> hold the four words and
  its other registers are unchanged. Otherwise nothing changes, so no task can answer for another.\<close>

theorem ipc_reply_authority:
  assumes ok: "kernel_ok (mgr s)" and c: "tasks (mgr s) ! j = Some u" "j < MAX_TASKS" and cp: "current_pid (mgr s) = Some p"
  shows "if \<exists>e ep. t_waiting_for u = Some (IpcCall e) \<and> get_endpoint e (mgr s) = Some ep \<and> ep_owner ep = p
    then (\<exists>s'. ipc_reply (t_pid u) ws s = (Ok (), s') \<and> kernel_ok (mgr s') \<and>
           tasks (mgr s') = (tasks (mgr s))[j := Some (u\<lparr>t_state := Ready, t_waiting_for := None\<rparr>)] \<and>
           endpoints (mgr s') = endpoints (mgr s) \<and>
           load_frame (t_trap_frame u) s' = set_reply ws (load_frame (t_trap_frame u) s))
    else ipc_reply (t_pid u) ws s = (Err, s)"
proof -
  note ok' = kernel_okD(1) [OF ok]
  have len: "length (tasks (mgr s)) = MAX_TASKS" by (rule mgr_okD(6) [OF ok'])
  have ti: "task_index (t_pid u) (mgr s) = Some j" using task_index_eq [OF mgr_okD(5) [OF ok'] _ c(1) refl] c(2) len by simp
  have at: "task_at j (mgr s) = u" using c by (simp add: task_at_def)
  have um: "Some u \<in> set (tasks (mgr s))" using c len nth_mem by metis
  show ?thesis
  proof (cases "\<exists>e ep. t_waiting_for u = Some (IpcCall e) \<and> get_endpoint e (mgr s) = Some ep \<and> ep_owner ep = p")
    case True
    then obtain e ep where e: "t_waiting_for u = Some (IpcCall e)" "get_endpoint e (mgr s) = Some ep" "ep_owner ep = p" by blast
    have st: "t_state u = Sleeping" by (rule waiting_sleeps [OF mgr_okD(1) [OF ok'] um]) (simp add: e)
    let ?s' = "update_mgr (wake_task j) (update_frame (t_trap_frame u) (set_reply ws) s)"
    have r: "ipc_reply (t_pid u) ws s = (Ok (), ?s')"
      using cp ti at e st by (simp add: ipc_reply_def owns_endpoint_def)
    have "kernel_ok (mgr ?s')" using ipc_reply_keeps [OF ok r] by (simp add: keeps_def)
    moreover have "tasks (mgr ?s') = (tasks (mgr s))[j := Some (u\<lparr>t_state := Ready, t_waiting_for := None\<rparr>)]"
      using c by (simp add: update_task_def)
    ultimately have "\<exists>s'. ipc_reply (t_pid u) ws s = (Ok (), s') \<and> kernel_ok (mgr s') \<and>
           tasks (mgr s') = (tasks (mgr s))[j := Some (u\<lparr>t_state := Ready, t_waiting_for := None\<rparr>)] \<and>
           endpoints (mgr s') = endpoints (mgr s) \<and>
           load_frame (t_trap_frame u) s' = set_reply ws (load_frame (t_trap_frame u) s)"
      by (intro exI [of _ ?s'] conjI r) simp_all
    then show ?thesis unfolding if_P [OF True] .
  next
    case False
    have "ipc_reply (t_pid u) ws s = (Err, s)"
      using False cp ti at
      by (auto simp: ipc_reply_def owns_endpoint_def is_some_and_iff split: option.split WaitChannel.split)
    then show ?thesis unfolding if_not_P [OF False] .
  qed
qed

section \<open>Sample states\<close>

text \<open>The server is task 1, the client task 2, and endpoint 1 belongs to the server.\<close>

definition ipc_manager :: "u32 \<Rightarrow> Task \<Rightarrow> Task \<Rightarrow> Endpoint \<Rightarrow> TaskManager" where
  "ipc_manager cur server client ep = task_manager_new\<lparr>current_pid := Some cur,
     tasks := [Some (mk_task 0 Ready 0x1000 None None), Some server, Some client] @ replicate 13 None,
     next_pid := 3, runnable_count := of_bool (runnable server) + of_bool (runnable client),
     endpoints := (replicate MAX_ENDPOINTS None)[1 := Some ep]\<rparr>"

definition ipc_kernel :: "TaskManager \<Rightarrow> kstate" where
  "ipc_kernel m = \<lparr>mem = machine1, mgr = m, kernel_pt = Some 0x80400000, plic_regs = \<lambda>_. 0\<rparr>"

lemma mgr_ipc_kernel [simp]: "mgr (ipc_kernel m) = m"
  by (simp add: ipc_kernel_def)

lemma ipc_manager_endpoint: "get_endpoint e (ipc_manager c t u ep) = (if e = 1 then Some ep else None)"
proof (cases "unat e < 8")
  case True
  have "unat e = 1 \<longleftrightarrow> e = 1" using word_unat_eq_iff [of e 1] by simp
  then show ?thesis using True by (auto simp: get_endpoint_def ipc_manager_def layout nth_list_update)
next
  case False
  then have "e \<noteq> 1" by auto
  then show ?thesis using False by (simp add: get_endpoint_def ipc_manager_def layout)
qed

lemma mk_task_simps [simp]:
  "t_pid (mk_task p st f par w) = p" "t_state (mk_task p st f par w) = st" "t_trap_frame (mk_task p st f par w) = f"
  "t_parent_pid (mk_task p st f par w) = par" "t_waiting_for (mk_task p st f par w) = w"
  by (simp_all add: mk_task_def)

lemma ipc_manager_ok:
  assumes t: "t_pid t = 1" "t_pid u = 2"
    and wf: "sched_wf (ipc_manager c t u ep)" and ep: "q_wf (ep_pending ep)" "length (ep_copy_buf ep) = 4096" "ep_owner ep = 1"
    and w: "t_waiting_for t \<in> {None, Some (IpcRecv 1)}" "t_waiting_for u \<in> {None, Some (IpcCall 1)}"
    and r: "ep_waiting_receiver ep = (if t_waiting_for t = None then None else Some 1)" "t_waiting_for t \<noteq> None \<Longrightarrow> q_list (ep_pending ep) = []"
    and msgs: "\<forall>msg \<in> set (q_list (ep_pending ep)). msg_buf_len msg = 0"
  shows "mgr_ok (ipc_manager c t u ep)"
proof (rule mgr_okI [OF wf])
  have tk: "Some x \<in> set (tasks (ipc_manager c t u ep)) \<longleftrightarrow> x = mk_task 0 Ready 0x1000 None None \<or> x = t \<or> x = u" for x
    by (auto simp: ipc_manager_def)
  show "has_idle (ipc_manager c t u ep)"
    unfolding has_idle_iff tk by (rule exI [of _ "mk_task 0 Ready 0x1000 None None"]) (simp add: layout)
  show "pids_fresh (ipc_manager c t u ep)"
    using t unfolding pids_fresh_def tk by (auto simp: ipc_manager_def)
  have wo: "waits_on (ipc_manager c t u ep) p ch \<longleftrightarrow> p = 1 \<and> t_waiting_for t = Some ch \<or> p = 2 \<and> t_waiting_for u = Some ch" for p ch
    using t unfolding waits_on_def tk by auto
  have none: "filter (\<lambda>msg. msg_buf_len msg \<noteq> 0) (q_list (ep_pending ep)) = []"
    using msgs by (auto simp: filter_empty_conv)
  show "ipc_wf (ipc_manager c t u ep)"
    unfolding ipc_wf_def ipc_manager_endpoint
  proof (intro conjI allI impI)
    show "length (endpoints (ipc_manager c t u ep)) = MAX_ENDPOINTS" by (simp add: ipc_manager_def)
    show "endpoint_ok (waits_on (ipc_manager c t u ep)) e ep'" if "(if e = 1 then Some ep else None) = Some ep'" for e ep'
      using that ep w r msgs none by (auto simp: endpoint_ok_def wo split: if_splits simp del: q_list_Nil_iff)
    show "(if e = 1 then Some ep else None) \<noteq> None" if "waits_on (ipc_manager c t u ep) p (IpcRecv e)" for p e
      using that w by (auto simp: wo)
    show "is_some_and (\<lambda>ep. ep_owner ep \<noteq> p) (if e = 1 then Some ep else None)"
      if "waits_on (ipc_manager c t u ep) p (IpcCall e)" for p e
      using that w ep(3) by (auto simp: wo)
  qed
qed

definition server_waits :: TaskManager where
  "server_waits = ipc_manager 2 (mk_task 1 Sleeping 0x2000 None (Some (IpcRecv 1))) (mk_task 2 Running 0x3000 None None)
     ((endpoint_new 1)\<lparr>ep_waiting_receiver := Some 1\<rparr>)"

definition server_busy :: TaskManager where
  "server_busy = ipc_manager 2 (mk_task 1 Ready 0x2000 None None) (mk_task 2 Running 0x3000 None None) (endpoint_new 1)"

definition client_queued :: TaskManager where
  "client_queued = ipc_manager 1 (mk_task 1 Running 0x2000 None None) (mk_task 2 Sleeping 0x3000 None (Some (IpcCall 1)))
     (push_message (sample_message 2) (endpoint_new 1))"

lemma endpoint_new_simps: "q_wf (ep_pending (endpoint_new p))" "length (ep_copy_buf (endpoint_new p)) = 4096"
  "ep_owner (endpoint_new p) = p" "ep_waiting_receiver (endpoint_new p) = None" "q_list (ep_pending (endpoint_new p)) = []"
  by (simp_all add: endpoint_new_def layout del: q_list_Nil_iff)

lemma sample_states_sched:
  "sched_wf server_waits" "sched_wf server_busy" "sched_wf client_queued"
  "no_orphan_zombie server_waits" "no_orphan_zombie server_busy" "no_orphan_zombie client_queued"
  "current_index server_waits = Some 2" "current_index server_busy = Some 2" "current_index client_queued = Some 1"
  "t_state (task_at 2 server_waits) = Running" "t_state (task_at 2 server_busy) = Running" "t_state (task_at 1 client_queued) = Running"
  by code_simp+

lemma sample_pending:
  "q_wf (ep_pending (push_message (sample_message 2) (endpoint_new 1)))"
  "q_list (ep_pending (push_message (sample_message 2) (endpoint_new 1))) = [sample_message 2]"
proof -
  obtain q where q: "q_push (sample_message 2) msg_queue_new = (Ok (), q)" by (simp add: q_push_def msg_queue_new_def q_is_full_def layout)
  show "q_wf (ep_pending (push_message (sample_message 2) (endpoint_new 1)))"
    "q_list (ep_pending (push_message (sample_message 2) (endpoint_new 1))) = [sample_message 2]"
    using q_push_Ok [OF msg_queue_new_wf q] q by (simp_all add: push_message_def endpoint_new_def del: q_list_Nil_iff)
qed

lemma sample_states_ok: "kernel_ok server_waits" "kernel_ok server_busy" "kernel_ok client_queued"
proof -
  have pm: "ep_waiting_receiver (push_message x ep) = ep_waiting_receiver ep" "ep_owner (push_message x ep) = ep_owner ep"
    "ep_copy_buf (push_message x ep) = ep_copy_buf ep" "msg_buf_len (sample_message p) = 0" for x ep p
    by (simp_all add: push_message_def sample_message_def)
  have "mgr_ok server_waits"
    unfolding server_waits_def
    by (rule ipc_manager_ok) (use sample_states_sched(1) in \<open>simp_all add: server_waits_def endpoint_new_simps del: q_list_Nil_iff\<close>)
  moreover have "mgr_ok server_busy"
    unfolding server_busy_def
    by (rule ipc_manager_ok) (use sample_states_sched(2) in \<open>simp_all add: server_busy_def endpoint_new_simps del: q_list_Nil_iff\<close>)
  moreover have "mgr_ok client_queued"
    unfolding client_queued_def
    by (rule ipc_manager_ok)
       (use sample_states_sched(3) in \<open>simp_all add: client_queued_def endpoint_new_simps sample_pending pm del: q_list_Nil_iff\<close>)
  ultimately have "mgr_ok server_waits" "mgr_ok server_busy" "mgr_ok client_queued" by blast+
  then show "kernel_ok server_waits" "kernel_ok server_busy" "kernel_ok client_queued"
    using sample_states_sched(7-12) by (simp_all add: kernel_ok_def running_def)
qed

lemma sample_frames: "disjoint_tf 0x2000 0x3000"
  unfolding disjoint_tf_def in_tf_def layout
proof (intro allI notI, elim conjE)
  fix x :: usize
  assume a: "x - 0x2000 < 264" "x - 0x3000 < 264"
  have "x - 0x2000 = (x - 0x3000) + 0x1000" by simp
  also have "unat \<dots> = unat (x - 0x3000) + 0x1000"
    using a(2) by (subst unat_add_lem [THEN iffD1]) (simp_all add: word_less_nat_alt)
  finally show False using a(1) by (simp add: word_less_nat_alt)
qed

lemma sample_tasks:
  "tasks server_waits ! 2 = Some (mk_task 2 Running 0x3000 None None)"
  "tasks server_waits ! 1 = Some (mk_task 1 Sleeping 0x2000 None (Some (IpcRecv 1)))"
  "tasks server_busy ! 2 = Some (mk_task 2 Running 0x3000 None None)"
  "tasks client_queued ! 1 = Some (mk_task 1 Running 0x2000 None None)"
  "tasks client_queued ! 2 = Some (mk_task 2 Sleeping 0x3000 None (Some (IpcCall 1)))"
  "current_pid client_queued = Some 1"
  by (simp_all add: server_waits_def server_busy_def client_queued_def ipc_manager_def)

lemma sample_endpoints:
  "get_endpoint 1 server_waits = Some ((endpoint_new 1)\<lparr>ep_waiting_receiver := Some 1\<rparr>)"
  "get_endpoint 1 server_busy = Some (endpoint_new 1)"
  "get_endpoint 1 client_queued = Some (push_message (sample_message 2) (endpoint_new 1))"
  by (simp_all add: server_waits_def server_busy_def client_queued_def ipc_manager_endpoint)

theorem ipc_call_rendezvous_witness:
  "\<exists>f s'. ipc_call 1 (5, 6, 7, 8) 0x3000 (ipc_kernel server_waits) = Done (Blocked f, s') \<and>
     tf_a0 (load_frame 0x2000 s') = 2 \<and> tf_a1 (load_frame 0x2000 s') = 5"
proof -
  have d: "disjoint_tf (t_trap_frame (mk_task 1 Sleeping 0x2000 None (Some (IpcRecv 1)))) (t_trap_frame (mk_task 2 Running 0x3000 None None))"
    "disjoint_tf (t_trap_frame (mk_task 1 Sleeping 0x2000 None (Some (IpcRecv 1)))) 0x3000"
    using sample_frames by simp_all
  show ?thesis
    using ipc_call_rendezvous [of "ipc_kernel server_waits" 2 "mk_task 2 Running 0x3000 None None" 1
        "(endpoint_new 1)\<lparr>ep_waiting_receiver := Some 1\<rparr>" 1 1 "mk_task 1 Sleeping 0x2000 None (Some (IpcRecv 1))" "0x3000" "(5, 6, 7, 8)",
        OF _ _ _ _ _ _ _ _ _ _ d]
      sample_states_ok(1) sample_states_sched(4,7) sample_tasks(1,2) sample_endpoints(1)
    by (fastforce simp: layout set_message_def)
qed

theorem ipc_call_queues_witness:
  "\<exists>f s' ep'. ipc_call 1 (5, 6, 7, 8) 0x3000 (ipc_kernel server_busy) = Done (Blocked f, s') \<and>
     get_endpoint 1 (mgr s') = Some ep' \<and> length (q_list (ep_pending ep')) = 1"
proof -
  have e: "q_list (ep_pending (endpoint_new 1)) = []" "ep_owner (endpoint_new 1) = 1" "ep_waiting_receiver (endpoint_new 1) = None"
    by (rule endpoint_new_simps)+
  have "\<exists>f s' ep'. ipc_call 1 (5, 6, 7, 8) 0x3000 (ipc_kernel server_busy) = Done (Blocked f, s') \<and> kernel_ok (mgr s') \<and>
      get_endpoint 1 (mgr s') = Some ep' \<and> ep_waiting_receiver ep' = None \<and>
      q_list (ep_pending ep') = [] @ [\<lparr>msg_sender = 2, msg_words = (5, 6, 7, 8), msg_buf_len = 0\<rparr>] \<and>
      tasks (mgr s') ! 2 = Some ((mk_task 2 Running 0x3000 None None)\<lparr>t_state := Sleeping, t_waiting_for := Some (IpcCall 1)\<rparr>)"
    using ipc_call_queues [of "ipc_kernel server_busy" 2 "mk_task 2 Running 0x3000 None None" 1 "(5, 6, 7, 8)" "0x3000"]
      sample_states_ok(2) sample_states_sched(5,8) sample_tasks(3) sample_endpoints(2) e
    by (simp add: layout del: q_list_Nil_iff)
  then show ?thesis by (metis append_Nil length_0_conv length_Cons One_nat_def)
qed

theorem ipc_recv_oldest_witness:
  "\<exists>s'. ipc_recv 1 0x2000 (ipc_kernel client_queued) = Done (Continue, s') \<and> tf_a0 (load_frame 0x2000 s') = 2"
proof -
  have e: "q_list (ep_pending (push_message (sample_message 2) (endpoint_new 1))) = [sample_message 2]"
    "ep_owner (push_message (sample_message 2) (endpoint_new 1)) = 1"
    using sample_pending by (simp_all add: push_message_def endpoint_new_def)
  have m: "msg_sender (sample_message 2) = 2" "msg_words (sample_message 2) = (1, 2, 3, 4)" by (simp_all add: sample_message_def)
  show ?thesis
    using ipc_recv_oldest [of "ipc_kernel client_queued" 1 "mk_task 1 Running 0x2000 None None" 1
        "push_message (sample_message 2) (endpoint_new 1)" "0x2000"]
      sample_states_ok(3) sample_states_sched(6,9) sample_tasks(4) sample_endpoints(3) e m
    by (fastforce simp: layout set_message_def)
qed

theorem ipc_reply_authority_witness:
  "\<exists>s'. ipc_reply 2 (9, 0, 0, 0) (ipc_kernel client_queued) = (Ok (), s') \<and> tf_a0 (load_frame 0x3000 s') = 9"
proof -
  have "ep_owner (push_message (sample_message 2) (endpoint_new 1)) = 1" by (simp add: push_message_def endpoint_new_def)
  then show ?thesis
    using ipc_reply_authority [of "ipc_kernel client_queued" 2 "mk_task 2 Sleeping 0x3000 None (Some (IpcCall 1))" 1 "(9, 0, 0, 0)"]
      sample_states_ok(3) sample_tasks(5,6) sample_endpoints(3)
    by (fastforce simp: layout set_reply_def)
qed

end
