(* ===== verification/Page_Contents.thy ===== *)
theory Page_Contents
  imports Vm
begin

text \<open>
  What a page of an address space holds. A page of a new frame is filled and then mapped
  (\<open>elf_load\<close> of \<open>src/kernel/exec.rs\<close>, \<open>fork\<close> and \<open>sbrk\<close> of \<open>src/kernel/task.rs\<close>); pages mapped before keep their
  frame, their flags and their bytes.
\<close>

section \<open>The translation depends on the table pages only\<close>

lemma node_cong:
  assumes wf: "pt_wf k root" and same: "\<forall>x. page_base x \<in> tables (phys k) root \<longrightarrow> m x = phys k x"
    and q: "valid_path q"
  shows "node m root q = node (phys k) root q"
  using q
proof (induction q rule: rev_induct)
  case (snoc i p)
  have p: "valid_path p" and i: "i < 512" using snoc.prems by (auto simp: valid_path_def)
  show ?case
  proof (cases "node (phys k) root p")
    case (Some t)
    note t = pt_wf_node [OF wf p Some]
    have "t \<in> tables (phys k) root" using Some p by (auto simp: tables_def)
    then have "m (pte_addr t i) = phys k (pte_addr t i)" using same page_base_pte_addr [OF t(2) i] by simp
    then show ?thesis using snoc.IH [OF p] Some by (simp add: node_snoc next_tab_def)
  qed (use snoc.IH [OF p] in \<open>simp add: node_snoc\<close>)
qed simp

lemma leaf_cong:
  assumes wf: "pt_wf k root" and same: "\<forall>x. page_base x \<in> tables (phys k) root \<longrightarrow> m x = phys k x"
  shows "leaf m root = leaf (phys k) root"
proof
  fix va
  note nodes = node_cong [OF wf same valid_path_simps(3) [of 2 va 1]]
  show "leaf m root va = leaf (phys k) root va"
  proof (cases "node (phys k) root [vpn 2 va, vpn 1 va]")
    case (Some t)
    note t = pt_wf_node [OF wf valid_path_simps(3) Some]
    have "t \<in> tables (phys k) root" using Some valid_path_simps(3) unfolding tables_def by blast
    then have "m (pte_addr t (vpn 0 va)) = phys k (pte_addr t (vpn 0 va))"
      using same page_base_pte_addr [OF t(2) vpn_less] by simp
    then show ?thesis using nodes Some by (simp add: leaf_def del: node.simps)
  qed (use nodes in \<open>simp add: leaf_def del: node.simps\<close>)
qed

lemma tables_used: "pt_wf k root \<Longrightarrow> tables (phys k) root \<subseteq> used_frames (pages k)"
  using pt_wf_node(1) by (auto simp: tables_def)

text \<open>A write outside the tables, in a memory with at least the same frames in use.\<close>

lemma pt_wf_cong:
  assumes wf: "pt_wf k root" and same: "\<forall>x. page_base x \<in> tables (phys k) root \<longrightarrow> m x = phys k x"
    and fr: "frames_wf (pages k')" "used_frames (pages k) \<subseteq> used_frames (pages k')"
  shows "pt_wf (k'\<lparr>phys := m\<rparr>) root"
  unfolding pt_wf_def
proof (intro conjI allI impI)
  note nodes = node_cong [OF wf same]
  fix p i t
  assume p: "valid_path (p @ [i])" "node (phys (k'\<lparr>phys := m\<rparr>)) root p = Some t"
    "phys (k'\<lparr>phys := m\<rparr>) (pte_addr t i) AND PTE_V \<noteq> 0"
  have v: "valid_path p" "i < 512" using p(1) by (auto simp: valid_path_def)
  have t: "node (phys k) root p = Some t" using p(2) nodes [OF v(1)] by simp
  note tt = pt_wf_node [OF wf v(1) t]
  have "t \<in> tables (phys k) root" using t v(1) by (auto simp: tables_def)
  then have "m (pte_addr t i) = phys k (pte_addr t i)" using same page_base_pte_addr [OF tt(2) v(2)] by simp
  then show "phys (k'\<lparr>phys := m\<rparr>) (pte_addr t i) AND (PTE_R OR PTE_W OR PTE_X) = 0"
    using pt_wf_no_huge [OF wf p(1) t] p(3) by simp
next
  note nodes = node_cong [OF wf same]
  show "p = q" if "valid_path p" "valid_path q" "node (phys (k'\<lparr>phys := m\<rparr>)) root p = Some t"
    "node (phys (k'\<lparr>phys := m\<rparr>)) root q = Some t" for p q t
    using that nodes [of p] nodes [of q] pt_wf_inj [OF wf] by simp
  show "t \<in> used_frames (pages (k'\<lparr>phys := m\<rparr>))" if "valid_path p" "node (phys (k'\<lparr>phys := m\<rparr>)) root p = Some t" for p t
    using that nodes [of p] pt_wf_node(1) [OF wf, of p t] fr(2) by auto
qed (use fr(1) in simp)

text \<open>Allocating a frame and filling it.\<close>

lemma fresh_frame:
  assumes wf: "pt_wf k root" and al: "k_alloc k = (Some n, k1)" and m: "\<forall>x. page_base x \<noteq> n \<longrightarrow> m x = phys k x"
  shows "pt_keep root k (k1\<lparr>phys := m\<rparr>)" and "leaf m root = leaf (phys k) root"
    and "n \<notin> used_frames (pages k)" and "used_frames (pages k1) = insert n (used_frames (pages k))"
    and "page_aligned n" and "n < 2 ^ 56" and "valid_path q \<Longrightarrow> node m root q \<noteq> Some n"
proof -
  obtain s where s: "page_alloc (pages k) = (Some n, s)" and k1: "k1 = k\<lparr>pages := s\<rparr>"
    using al by (auto simp: k_alloc_def split: prod.splits)
  note fresh = frames.alloc_fresh [OF pt_wf_frames [OF wf] s]
  show n: "n \<notin> used_frames (pages k)" "used_frames (pages k1) = insert n (used_frames (pages k))" "page_aligned n" "n < 2 ^ 56"
    using fresh used_frame_bound [OF pt_wf_frames [OF wf]] by (auto simp: k1)
  have same: "\<forall>x. page_base x \<in> used_frames (pages k) \<longrightarrow> m x = phys k x" using n(1) m by metis
  then have tabs: "\<forall>x. page_base x \<in> tables (phys k) root \<longrightarrow> m x = phys k x" using tables_used [OF wf] by blast
  note nodes = node_cong [OF wf tabs]
  show "leaf m root = leaf (phys k) root" by (rule leaf_cong [OF wf tabs])
  show "node m root q \<noteq> Some n" if "valid_path q"
    using nodes [OF that] pt_wf_node(1) [OF wf that] n(1) by auto
  have "pt_wf (k1\<lparr>phys := m\<rparr>) root"
    by (rule pt_wf_cong [OF wf tabs]) (use fresh n(2) in \<open>auto simp: k1\<close>)
  then show "pt_keep root k (k1\<lparr>phys := m\<rparr>)"
    using nodes n(2) same unfolding pt_keep_def by auto
qed

section \<open>Filling and mapping a page\<close>

lemma page_base_add: "page_aligned n \<Longrightarrow> off < PAGE_SIZE \<Longrightarrow> page_base (n + off) = n"
  using in_page_iff [of n "n + off"] by (simp add: in_page_def)

lemma unat_PAGE_SIZE: "unat PAGE_SIZE = 4096"
  by (simp add: layout)

text \<open>\<open>k'\<close> grew out of \<open>k\<close> by mapping pages that were not mapped.\<close>

definition pt_grown :: "usize \<Rightarrow> kmem \<Rightarrow> kmem \<Rightarrow> bool" where
  "pt_grown root k k' \<longleftrightarrow> pt_keep root k k' \<and> (\<forall>vb e. leaf (phys k) root vb = Some e \<longrightarrow> leaf (phys k') root vb = Some e)"

lemma pt_grown_refl: "pt_wf k root \<Longrightarrow> pt_grown root k k"
  by (simp add: pt_grown_def pt_keep_refl)

lemma pt_grown_trans: "pt_grown root k k' \<Longrightarrow> pt_grown root k' k'' \<Longrightarrow> pt_grown root k k''"
  unfolding pt_grown_def using pt_keep_trans by blast

lemma pt_grown_wf: "pt_grown root k k' \<Longrightarrow> pt_wf k' root"
  by (simp add: pt_grown_def pt_keep_def)

lemma pt_map_grown:
  assumes wf: "pt_wf k root" and fl: "flags < 2 ^ 10" and b: "unat pa + unat sz \<le> 2 ^ 56"
    and mp: "pt_map root va pa sz flags k = (Ok (), k')"
  shows "pt_grown root k k'"
proof -
  note ok = pt_map_Ok [OF wf fl b mp]
  have "leaf (phys k') root vb = Some e" if "leaf (phys k) root vb = Some e" for vb e
    using that ok(4,5) [of vb] by (cases "vpage vb \<in> run_pages va sz") auto
  then show ?thesis using ok(1) by (simp add: pt_grown_def)
qed

lemma map_kernel_grown:
  assumes wf: "pt_wf k root" and mp: "map_kernel root k = (Ok (), k')"
  shows "pt_grown root k k'"
proof -
  have fl: "PTE_R OR PTE_W < 2 ^ 10" "PTE_R OR PTE_W OR PTE_X < 2 ^ 10"
    and b: "unat KERNEL_START + unat KERNEL_SIZE \<le> 2 ^ 56" "unat UART_PAGE + unat PAGE_SIZE \<le> 2 ^ 56"
    by (simp_all add: layout)
  have each: "pt_wf k root \<Longrightarrow> map_each root as k = (Ok (), k') \<Longrightarrow> \<forall>a \<in> set as. unat a + unat PAGE_SIZE \<le> 2 ^ 56 \<Longrightarrow> pt_grown root k k'"
    for as k
  proof (induction "as" arbitrary: k)
    case (Cons a as)
    obtain k1 where k1: "pt_map root a a PAGE_SIZE (PTE_R OR PTE_W) k = (Ok (), k1)" "map_each root as k1 = (Ok (), k')"
      using Cons.prems(2) map_each_Ok by blast
    have g: "pt_grown root k k1" by (rule pt_map_grown [OF Cons.prems(1) fl(1) _ k1(1)]) (use Cons.prems(3) in simp)
    show ?case using pt_grown_trans [OF g Cons.IH [OF pt_grown_wf [OF g] k1(2)]] Cons.prems(3) by simp
  qed (simp add: pt_grown_refl)
  obtain k1 k2 where m: "pt_map root KERNEL_START KERNEL_START KERNEL_SIZE (PTE_R OR PTE_W OR PTE_X) k = (Ok (), k1)"
    "pt_map root UART_PAGE UART_PAGE PAGE_SIZE (PTE_R OR PTE_W) k1 = (Ok (), k2)" "map_plic root k2 = (Ok (), k')"
    using mp unfolding map_kernel_Ok by blast
  note g1 = pt_map_grown [OF wf fl(2) b(1) m(1)]
  note g2 = pt_map_grown [OF pt_grown_wf [OF g1] fl(1) b(2) m(2)]
  have "pt_grown root k2 k'" by (rule each [OF pt_grown_wf [OF g2] m(3) [unfolded map_plic_def]]) (simp add: layout)
  then show ?thesis using pt_grown_trans g1 g2 by blast
qed

text \<open>The page at \<open>va\<close> is mapped with \<open>flags\<close> to the frame \<open>n\<close>, which is in use and not a table, and the cells
  of the frame are those of \<open>c\<close>.\<close>

definition page_is :: "usize \<Rightarrow> kmem \<Rightarrow> usize \<Rightarrow> usize \<Rightarrow> usize \<Rightarrow> (usize \<Rightarrow> u64) \<Rightarrow> bool" where
  "page_is root k va n flags c \<longleftrightarrow>
     (\<exists>e. leaf (phys k) root va = Some e \<and> pte_to_pa e = n \<and> e AND 0x3FF = flags OR PTE_V) \<and> page_aligned n \<and>
     n \<in> used_frames (pages k) \<and> (\<forall>q. valid_path q \<longrightarrow> node (phys k) root q \<noteq> Some n) \<and>
     (\<forall>x. page_base x = n \<longrightarrow> phys k x = c x)"

lemma page_is_grown:
  assumes p: "page_is root k va n flags c" and g: "pt_grown root k k'"
  shows "page_is root k' va n flags c"
proof -
  have keep: "pt_keep root k k'" using g by (simp add: pt_grown_def)
  obtain e where e: "leaf (phys k) root va = Some e" "pte_to_pa e = n" "e AND 0x3FF = flags OR PTE_V"
    and n: "page_aligned n" "n \<in> used_frames (pages k)" "\<And>q. valid_path q \<Longrightarrow> node (phys k) root q \<noteq> Some n"
    and c: "\<And>x. page_base x = n \<Longrightarrow> phys k x = c x"
    using p unfolding page_is_def by metis
  have "node (phys k') root q \<noteq> Some n" if "valid_path q" for q
    using keep that n(2,3) unfolding pt_keep_def by metis
  moreover have "phys k' x = c x" if x: "page_base x = n" for x
    using keep n(2,3) c [OF x] x unfolding pt_keep_def by metis
  ultimately show ?thesis
    using g e n keep unfolding page_is_def pt_keep_def pt_grown_def by blast
qed

lemma map_frame:
  assumes wf: "pt_wf k root" and n: "n \<in> used_frames (pages k)" "n \<notin> tables (phys k) root"
    and fl: "flags < 2 ^ 10" and mp: "pt_map root va n PAGE_SIZE flags k = (Ok (), k')"
  shows "pt_grown root k k'" and "page_is root k' va n flags (phys k)" and "page_aligned va"
proof -
  have al: "page_aligned n" and lt: "n < 2 ^ 56"
    using all_frames_aligned used_frame_bound pt_wf_frames [OF wf] n(1) by blast+
  have b: "unat n + unat PAGE_SIZE \<le> 2 ^ 56"
  proof -
    obtain c where c: "unat n = 4096 * c" using al by (auto simp: page_aligned_unat dvd_def)
    have "unat n < 2 ^ 56" using lt by (simp add: word_less_nat_alt)
    then show ?thesis using c by (simp add: layout)
  qed
  note ok = pt_map_Ok [OF wf fl b mp]
  show "pt_grown root k k'" by (rule pt_map_grown [OF wf fl b mp])
  show "page_aligned va" by (rule ok(2))
  have nn: "node (phys k) root q \<noteq> Some n" if "valid_path q" for q
    using n(2) that by (auto simp: tables_def)
  obtain pa where pa: "leaf (phys k') root va = Some (pa_to_pte pa (flags OR PTE_V))"
    using ok(7) [of 0] by (auto simp: unat_PAGE_SIZE)
  have "virt_to_phys root (va + 0) k' = Some (n + 0)" by (rule ok(6)) (simp add: unat_PAGE_SIZE)
  moreover have "va AND (PAGE_SIZE - 1) = 0" using offset_in_page(1) [OF ok(2), of 0] by (simp add: layout)
  ultimately have pn: "pte_to_pa (pa_to_pte pa (flags OR PTE_V)) = n"
    using pa by (simp add: virt_to_phys_leaf)
  have "flags OR PTE_V < 2 ^ 10" by (rule flags_or_V [OF fl])
  then have "(flags OR PTE_V) AND mask 10 = flags OR PTE_V" by (subst (asm) less_exp_iff_mask) simp_all
  then have "(flags OR PTE_V) AND 0x3FF = flags OR PTE_V" by (simp add: mask_numeral)
  then have "pa_to_pte pa (flags OR PTE_V) AND 0x3FF = flags OR PTE_V" using pa_to_pte_flags [of "0x3FF" pa] by simp
  moreover have "n \<in> used_frames (pages k')" using ok(1) n(1) by (auto simp: pt_keep_def)
  moreover have "node (phys k') root q \<noteq> Some n" if "valid_path q" for q
    using ok(1) that nn n(1) unfolding pt_keep_def by metis
  moreover have "phys k' x = phys k x" if x: "page_base x = n" for x
    using ok(1) nn n(1) x unfolding pt_keep_def by metis
  ultimately show "page_is root k' va n flags (phys k)" using pa pn al unfolding page_is_def by blast
qed

lemma map_fresh_frame:
  assumes wf: "pt_wf k root" and al: "k_alloc k = (Some n, k1)" and m: "\<forall>x. page_base x \<noteq> n \<longrightarrow> m x = phys k x"
    and fl: "flags < 2 ^ 10" and mp: "pt_map root va n PAGE_SIZE flags (k1\<lparr>phys := m\<rparr>) = (Ok (), k')"
  shows "pt_grown root k k'" and "page_is root k' va n flags m" and "n \<notin> used_frames (pages k)" and "page_aligned va"
proof -
  let ?k2 = "k1\<lparr>phys := m\<rparr>"
  note f = fresh_frame [OF wf al m]
  have wf2: "pt_wf ?k2 root" using f(1) by (simp add: pt_keep_def)
  have "n \<notin> tables (phys ?k2) root" using f(7) by (auto simp: tables_def)
  note mf = map_frame [OF wf2 _ this fl mp]
  have "pt_grown root k ?k2" using f(1,2) by (simp add: pt_grown_def)
  then show "pt_grown root k k'" using mf(1) f(4) pt_grown_trans by auto
  show "page_is root k' va n flags m" "page_aligned va" using mf(2,3) f(4) by auto
  show "n \<notin> used_frames (pages k)" by (rule f(3))
qed

text \<open>A write outside the tables and the frame of the page.\<close>

lemma page_is_write:
  assumes wf: "pt_wf k root" and p: "page_is root k va n flags c"
    and m: "\<forall>x. page_base x \<in> insert n (tables (phys k) root) \<longrightarrow> m x = phys k x"
  shows "page_is root (k\<lparr>phys := m\<rparr>) va n flags c"
proof -
  have tabs: "\<forall>x. page_base x \<in> tables (phys k) root \<longrightarrow> m x = phys k x" using m by blast
  show ?thesis
    using p m node_cong [OF wf tabs] leaf_cong [OF wf tabs] unfolding page_is_def by simp
qed

end
