(* ===== verification/Fork_Spec.thy ===== *)
theory Fork_Spec
  imports Task_Memory Page_Contents
begin

text \<open>
  What \<open>fork\<close> (\<open>src/kernel/task.rs\<close>) gives the child: copies of the parent's image, heap and stack in
  frames that nobody used, mapped at the same addresses with the same permissions, and the registers
  of the parent with \<open>a0\<close> cleared. Nothing that was in use before is written, the frame of
  the parent's trap apart.
\<close>

section \<open>An address space built in new frames\<close>

definition built_on :: "kmem \<Rightarrow> usize \<Rightarrow> kmem \<Rightarrow> bool" where
  "built_on k0 root k \<longleftrightarrow> pt_wf k root \<and> used_frames (pages k0) \<subseteq> used_frames (pages k) \<and>
     tables (phys k) root \<inter> used_frames (pages k0) = {} \<and>
     (\<forall>x. page_base x \<in> used_frames (pages k0) \<longrightarrow> phys k x = phys k0 x)"

lemma built_onD:
  assumes "built_on k0 root k"
  shows "pt_wf k root" and "used_frames (pages k0) \<subseteq> used_frames (pages k)"
    and "page_base x \<in> used_frames (pages k0) \<Longrightarrow> phys k x = phys k0 x"
  using assms by (auto simp: built_on_def)

lemma built_on_grown:
  assumes b: "built_on k0 root k" and g: "pt_grown root k k'"
  shows "built_on k0 root k'"
  unfolding built_on_def
proof (intro conjI allI impI)
  have keep: "pt_keep root k k'" using g by (simp add: pt_grown_def)
  show "pt_wf k' root" by (rule pt_grown_wf [OF g])
  show "used_frames (pages k0) \<subseteq> used_frames (pages k')" using b keep unfolding built_on_def pt_keep_def by blast
  have none: "t \<notin> used_frames (pages k0)" if "valid_path q" "node (phys k) root q = Some t" for q t
    using b that by (auto simp: built_on_def tables_def)
  show "tables (phys k') root \<inter> used_frames (pages k0) = {}"
    using keep none built_onD(2) [OF b] unfolding pt_keep_def tables_def by blast
  fix x assume x: "page_base x \<in> used_frames (pages k0)"
  then have "phys k' x = phys k x"
    using keep none built_onD(2) [OF b] unfolding pt_keep_def by blast
  then show "phys k' x = phys k0 x" using built_onD(3) [OF b x] by simp
qed

text \<open>Another address space, all of whose tables were in use before, translates as before.\<close>

lemma built_on_leaf:
  assumes b: "built_on k0 root k" and wf: "pt_wf k0 parent"
  shows "leaf (phys k) parent = leaf (phys k0) parent"
  by (rule leaf_cong [OF wf]) (use tables_used [OF wf] built_onD(3) [OF b] in blast)

section \<open>Copies of pages\<close>

lemma source_pte_leaf: "source_pte pt va k = leaf (phys k) pt va"
  by (simp add: source_pte_def walk_False leaf_def load64_def Let_def del: node.simps split: option.split)

text \<open>The page at \<open>va\<close> is mapped with the flags \<open>fl\<close> to a frame that was free, and holds what the frame \<open>src\<close> held.\<close>

definition copy_of :: "kmem \<Rightarrow> usize \<Rightarrow> usize \<Rightarrow> usize \<Rightarrow> usize \<Rightarrow> kmem \<Rightarrow> bool" where
  "copy_of k0 root va src fl k \<longleftrightarrow>
     (\<exists>n c. n \<notin> used_frames (pages k0) \<and> page_is root k va n fl c \<and>
        (\<forall>off < PAGE_SIZE. c (n + off) = phys k0 (src + off)))"

lemma copy_of_grown: "copy_of k0 root va src fl k \<Longrightarrow> pt_grown root k k' \<Longrightarrow> copy_of k0 root va src fl k'"
  unfolding copy_of_def using page_is_grown by blast

lemma copy_page_cells:
  assumes "page_aligned n"
  shows "\<forall>x. page_base x \<noteq> n \<longrightarrow> copy_page src n m x = m x" and "off < PAGE_SIZE \<Longrightarrow> copy_page src n m (n + off) = m (src + off)"
  using in_page_iff [OF assms] page_base_add [OF assms] by (simp_all add: copy_page_def)

lemma flags_of_pte: "pte AND 0x3fe < (2 :: usize) ^ 10"
  using word_and_le2 [of "0x3fe" pte] by (simp add: and.commute word_le_nat_alt word_less_nat_alt)

lemma clone_page_Ok:
  assumes b: "built_on k0 root k" and src: "pte_to_pa pte \<in> used_frames (pages k0)"
    and c: "clone_page root va pte k = (Ok (), k')"
  shows "pt_grown root k k'" and "copy_of k0 root va (pte_to_pa pte) (pte AND 0x3fe) k'"
proof -
  let ?src = "pte_to_pa pte"
  obtain n k1 where al: "k_alloc k = (Some n, k1)"
    and mp: "pt_map root va n PAGE_SIZE (pte AND 0x3fe) (k1\<lparr>phys := copy_page ?src n (phys k1)\<rparr>) = (Ok (), k')"
    using c by (auto simp: clone_page_def try_k_Ok_iff ok_or_Ok_iff)
  have p1: "phys k1 = phys k" using al by (auto simp: k_alloc_def split: prod.splits)
  note wf = built_onD(1) [OF b]
  have n: "page_aligned n" using fresh_frame(5) [OF wf al, of "phys k"] by simp
  have m: "\<forall>x. page_base x \<noteq> n \<longrightarrow> copy_page ?src n (phys k1) x = phys k x"
    using copy_page_cells(1) [OF n] by (simp add: p1)
  note g = map_fresh_frame [OF wf al m flags_of_pte mp]
  show "pt_grown root k k'" by (rule g(1))
  have "copy_page ?src n (phys k1) (n + off) = phys k0 (?src + off)" if "off < PAGE_SIZE" for off
    using copy_page_cells(2) [OF n that] built_onD(3) [OF b, of "?src + off"] page_base_add [OF pte_to_pa_aligned that] src
    by (simp add: p1)
  moreover have "n \<notin> used_frames (pages k0)" using g(3) built_onD(2) [OF b] by blast
  ultimately show "copy_of k0 root va ?src (pte AND 0x3fe) k'" unfolding copy_of_def using g(2) by blast
qed

text \<open>The parent's frames: every page mapped in \<open>vas\<close> lies in a frame in use.\<close>

definition backed :: "kmem \<Rightarrow> usize \<Rightarrow> usize list \<Rightarrow> bool" where
  "backed k pt vas \<longleftrightarrow> (\<forall>va \<in> set vas. \<forall>e. leaf (phys k) pt va = Some e \<longrightarrow> pte_to_pa e \<in> used_frames (pages k))"

lemma fork_image_Ok:
  assumes "built_on k0 root k" and "pt_wf k0 parent" and "backed k0 parent vas" and "fork_image parent root vas k = (Ok (), k')"
  shows "pt_grown root k k' \<and> (\<forall>va \<in> set vas. \<forall>e. leaf (phys k0) parent va = Some e \<longrightarrow>
           copy_of k0 root va (pte_to_pa e) (e AND 0x3fe) k')"
  using assms
proof (induction vas arbitrary: k)
  case (Cons va vas)
  have sp: "source_pte parent va k = leaf (phys k0) parent va"
    by (simp add: source_pte_leaf built_on_leaf [OF Cons.prems(1,2)])
  have bk: "backed k0 parent vas" using Cons.prems(3) by (simp add: backed_def)
  show ?case
  proof (cases "leaf (phys k0) parent va")
    case None
    then show ?thesis using Cons.IH [OF Cons.prems(1,2) bk] Cons.prems(4) sp by auto
  next
    case (Some e)
    obtain k1 where k1: "clone_page root va e k = (Ok (), k1)" "fork_image parent root vas k1 = (Ok (), k')"
      using Cons.prems(4) sp Some by (auto simp: try_k_Ok_iff)
    have "pte_to_pa e \<in> used_frames (pages k0)" using Cons.prems(3) Some by (simp add: backed_def)
    note c = clone_page_Ok [OF Cons.prems(1) this k1(1)]
    note r = Cons.IH [OF built_on_grown [OF Cons.prems(1) c(1)] Cons.prems(2) bk k1(2)]
    then show ?thesis using Some pt_grown_trans [OF c(1)] copy_of_grown [OF c(2)] by auto
  qed
qed (simp add: pt_grown_refl built_onD(1))

lemma fork_heap_Ok:
  assumes "built_on k0 root k" and "pt_wf k0 parent" and "backed k0 parent vas" and "fork_heap parent root vas k = (Ok (), k')"
  shows "fork_image parent root vas k = (Ok (), k') \<and> (\<forall>va \<in> set vas. leaf (phys k0) parent va \<noteq> None)"
  using assms
proof (induction vas arbitrary: k)
  case (Cons va vas)
  have sp: "source_pte parent va k = leaf (phys k0) parent va"
    by (simp add: source_pte_leaf built_on_leaf [OF Cons.prems(1,2)])
  have bk: "backed k0 parent vas" using Cons.prems(3) by (simp add: backed_def)
  obtain e k1 where e: "leaf (phys k0) parent va = Some e"
    and k1: "clone_page root va e k = (Ok (), k1)" "fork_heap parent root vas k1 = (Ok (), k')"
    using Cons.prems(4) sp by (auto simp: try_k_Ok_iff split: option.splits)
  have "pte_to_pa e \<in> used_frames (pages k0)" using Cons.prems(3) e by (simp add: backed_def)
  note c = clone_page_Ok [OF Cons.prems(1) this k1(1)]
  show ?case
    using Cons.IH [OF built_on_grown [OF Cons.prems(1) c(1)] Cons.prems(2) bk k1(2)] e k1(1) sp by (simp add: try_k_def)
qed simp

section \<open>The memory of the child\<close>

lemma built_on_create:
  assumes fw: "frames_wf (pages k)" and c: "pt_create k = (Some root, k')"
  shows "built_on k root k'"
proof -
  note new = pt_create_Some [OF fw c]
  have "node (phys k') root q = (if q = [] then Some root else None)" if "valid_path q" for q
    using that page_base_pte_addr [OF new(6)] by (cases q) (simp_all add: next_tab_def new(8) valid_path_def)
  then have "tables (phys k') root \<subseteq> {root}" by (auto simp: tables_def split: if_splits)
  then show ?thesis using pt_create_wf(1) [OF fw c] new unfolding built_on_def by auto
qed

lemma built_on_mono:
  assumes "built_on k2 root k" and "used_frames (pages k1) \<subseteq> used_frames (pages k2)" and "phys k1 = phys k2"
  shows "built_on k1 root k"
  using assms unfolding built_on_def by auto

lemma copy_of_mono:
  assumes "copy_of k2 root va src fl k" and "used_frames (pages k1) \<subseteq> used_frames (pages k2)" and "phys k1 = phys k2"
  shows "copy_of k1 root va src fl k"
  using assms unfolding copy_of_def by auto

text \<open>Writes to memory that was in use before the address space was built do not reach it.\<close>

lemma built_on_write:
  assumes b: "built_on k0 root k" and m: "\<forall>x. page_base x \<notin> used_frames (pages k0) \<longrightarrow> m x = phys k x"
  shows "pt_wf (k\<lparr>phys := m\<rparr>) root" and "copy_of k0 root va src fl k \<Longrightarrow> copy_of k0 root va src fl (k\<lparr>phys := m\<rparr>)"
    and "tables m root = tables (phys k) root"
proof -
  note wf = built_onD(1) [OF b]
  have tabs: "\<forall>x. page_base x \<in> tables (phys k) root \<longrightarrow> m x = phys k x"
    using b m unfolding built_on_def by blast
  show "pt_wf (k\<lparr>phys := m\<rparr>) root" by (rule pt_wf_cong [OF wf tabs pt_wf_frames [OF wf] subset_refl])
  show "tables m root = tables (phys k) root"
    unfolding tables_def by (rule Collect_cong) (metis node_cong [OF wf tabs])
  assume "copy_of k0 root va src fl k"
  then obtain n c where n: "n \<notin> used_frames (pages k0)" "page_is root k va n fl c"
    "\<forall>off < PAGE_SIZE. c (n + off) = phys k0 (src + off)" unfolding copy_of_def by blast
  have "page_is root (k\<lparr>phys := m\<rparr>) va n fl c" by (rule page_is_write [OF wf n(2)]) (use tabs m n(1) in auto)
  then show "copy_of k0 root va src fl (k\<lparr>phys := m\<rparr>)" using n unfolding copy_of_def by blast
qed

lemma k_alloc_Some:
  assumes "frames_wf (pages k)" and "k_alloc k = (Some n, k1)"
  shows "frames_wf (pages k1)" and "used_frames (pages k1) = insert n (used_frames (pages k))"
    and "n \<notin> used_frames (pages k)" and "phys k1 = phys k" and "page_aligned n"
  using frames.alloc_fresh [OF assms(1)] assms(2) by (auto simp: k_alloc_def split: prod.splits)

definition heap_run :: "Task \<Rightarrow> usize list" where
  "heap_run p = (case align_up (t_heap_end p) of Inl _ \<Rightarrow> [] | Inr stop \<Rightarrow> page_range (t_heap_base p) stop)"

text \<open>\<open>ka\<close> is the memory after the kernel stack of the child was allocated.\<close>

lemma fork_memory_Ok:
  assumes wf: "pt_wf k (t_pagetable p)" and bi: "backed k (t_pagetable p) (image_pages (t_image_base p) (t_image_size p))"
    and bh: "backed k (t_pagetable p) (heap_run p)" and us: "t_user_stack p \<in> used_frames (pages k)"
    and fm: "fork_memory p k = (Ok (ks, cs, root), k')"
  obtains ka where "k_alloc k = (Some ks, ka)" and "built_on ka root k'" and "cs \<notin> used_frames (pages ka)"
    and "\<And>va e. va \<in> set (image_pages (t_image_base p) (t_image_size p) @ heap_run p) \<Longrightarrow> leaf (phys k) (t_pagetable p) va = Some e \<Longrightarrow>
           copy_of ka root va (pte_to_pa e) (e AND 0x3fe) k'"
    and "copy_of ka root (USER_STACK_TOP - PAGE_SIZE) (t_user_stack p) (PTE_R OR PTE_W OR PTE_U) k'"
    and "\<And>va. va \<in> set (heap_run p) \<Longrightarrow> leaf (phys k) (t_pagetable p) va \<noteq> None"
proof -
  let ?parent = "t_pagetable p" and ?im = "image_pages (t_image_base p) (t_image_size p)" and ?fl = "PTE_R OR PTE_W OR PTE_U"
  obtain ka kb kc kd ke kg where a: "k_alloc k = (Some ks, ka)" "k_alloc ka = (Some cs, kb)" "pt_create kb = (Some root, kc)"
    "map_kernel root kc = (Ok (), kd)" "fork_image ?parent root ?im kd = (Ok (), ke)"
    "fork_heap ?parent root (heap_run p) ke = (Ok (), kg)"
    "pt_map root (USER_STACK_TOP - PAGE_SIZE) cs PAGE_SIZE ?fl (kg\<lparr>phys := copy_page (t_user_stack p) cs (phys kg)\<rparr>) = (Ok (), k')"
    using fm by (auto simp: fork_memory_def try_k_Ok_iff ok_or_Ok_iff Let_def image_pages_def heap_run_def)
  note al = k_alloc_Some [OF pt_wf_frames [OF wf] a(1)] and bl = k_alloc_Some [OF k_alloc_Some(1) [OF pt_wf_frames [OF wf] a(1)] a(2)]
  have ab: "used_frames (pages ka) \<subseteq> used_frames (pages kb)" "phys ka = phys kb" "phys kb = phys k" using al bl by auto
  have ub: "used_frames (pages k) \<subseteq> used_frames (pages kb)" using al(2) bl(2) by blast
  have "pt_wf (kb\<lparr>phys := phys kb\<rparr>) ?parent" by (rule pt_wf_cong [OF wf _ bl(1) ub]) (simp add: ab(3))
  then have wfb: "pt_wf kb ?parent" by simp
  have bib: "backed kb ?parent ?im" "backed kb ?parent (heap_run p)" using bi bh ub ab(3) by (auto simp: backed_def)
  have c: "built_on kb root kc" by (rule built_on_create [OF bl(1) a(3)])
  have d: "built_on kb root kd" by (rule built_on_grown [OF c map_kernel_grown [OF built_onD(1) [OF c] a(4)]])
  note e = fork_image_Ok [OF d wfb bib(1) a(5)]
  then have be: "built_on kb root ke" using built_on_grown [OF d] by blast
  note h = fork_heap_Ok [OF be wfb bib(2) a(6)]
  note hi = fork_image_Ok [OF be wfb bib(2) conjunct1 [OF h]]
  then have g: "built_on kb root kg" using built_on_grown [OF be] by blast
  have copies: "copy_of kb root va (pte_to_pa e) (e AND 0x3fe) kg"
    if "va \<in> set (?im @ heap_run p)" "leaf (phys k) ?parent va = Some e" for va e
    using that e hi copy_of_grown ab(3) by auto
  let ?m = "copy_page (t_user_stack p) cs (phys kg)"
  note cp = copy_page_cells [OF bl(5), where src = "t_user_stack p" and m = "phys kg"]
  have m: "\<forall>x. page_base x \<notin> used_frames (pages kb) \<longrightarrow> ?m x = phys kg x" using cp(1) bl(2) by auto
  note w = built_on_write [OF g m]
  note ts = w(3)
  have g': "built_on ka root (kg\<lparr>phys := ?m\<rparr>)"
  proof -
    have "?m x = phys ka x" if "page_base x \<in> used_frames (pages ka)" for x
      using that cp(1) bl(3) built_onD(3) [OF g, of x] ab by (metis subsetD)
    then show ?thesis using g w(1) ab ts unfolding built_on_def by auto
  qed
  have csu: "cs \<in> used_frames (pages (kg\<lparr>phys := ?m\<rparr>))" "cs \<notin> tables (phys (kg\<lparr>phys := ?m\<rparr>)) root"
    using bl(2) g ts unfolding built_on_def by auto
  note mf = map_frame [OF w(1) csu _ a(7)]
  have fl: "?fl < 2 ^ 10" by (simp add: layout)
  show thesis
  proof (rule that [OF a(1) built_on_grown [OF g' mf(1) [OF fl]] bl(3)])
    show "copy_of ka root va (pte_to_pa e) (e AND 0x3fe) k'"
      if "va \<in> set (?im @ heap_run p)" "leaf (phys k) ?parent va = Some e" for va e
      using copy_of_grown [OF w(2) [OF copies [OF that]] mf(1) [OF fl]] copy_of_mono [OF _ ab(1,2)] by blast
    have al': "page_aligned (t_user_stack p)" using us all_frames_aligned pt_wf_frames [OF wf] by blast
    have "?m (cs + off) = phys ka (t_user_stack p + off)" if "off < PAGE_SIZE" for off
      using cp(2) [OF that] built_onD(3) [OF g, of "t_user_stack p + off"] page_base_add [OF al' that] us ub ab by auto
    then show "copy_of ka root (USER_STACK_TOP - PAGE_SIZE) (t_user_stack p) ?fl k'"
      unfolding copy_of_def using mf(2) [OF fl] bl(3) by auto
    show "leaf (phys k) ?parent va \<noteq> None" if "va \<in> set (heap_run p)" for va using h that ab(3) by auto
  qed
qed

section \<open>Fork\<close>

text \<open>The context of the child lies in its kernel stack.\<close>

lemma init_context_Done:
  assumes ks: "page_aligned ks" and i: "init_context kpt ks pt fr k = Done (a, k')"
  shows "a = frame_addr ks" and "pages k' = pages k" and "read_tf (phys k') a = fr"
    and "\<And>x. page_base x \<noteq> ks \<Longrightarrow> phys k' x = phys k x" and "\<And>x. in_tf a x \<Longrightarrow> page_base x = ks"
proof -
  obtain ksatp where d: "a = frame_addr ks" "k' = k\<lparr>phys := (write_tf a fr (phys k))(a + TRAP_FRAME_SIZE := ksatp,
      a + TRAP_FRAME_SIZE + 8 := satp_of pt)\<rparr>"
    using i by (auto simp: init_context_def Let_def)
  show "a = frame_addr ks" "pages k' = pages k" using d by simp_all
  have out: "\<not> in_tf a (a + TRAP_FRAME_SIZE)" "\<not> in_tf a (a + TRAP_FRAME_SIZE + 8)" by (simp_all add: in_tf_def layout add.assoc)
  have "read_tf (phys k') a = read_tf (write_tf a fr (phys k)) a"
    by (rule read_tf_cong) (use out in \<open>auto simp: d(2)\<close>)
  then show "read_tf (phys k') a = fr" by simp
  have fa: "a = ks + 3816" by (simp add: d(1) frame_addr_def layout)
  show tf: "page_base x = ks" if "in_tf a x" for x
  proof -
    have "unat (x - a) < 264" using that by (simp add: in_tf_def layout word_less_nat_alt)
    then have "unat ((x - a) + 3816) < 4096" by (simp add: unat_word_ariths)
    moreover have "x - ks = (x - a) + 3816" by (simp add: fa)
    ultimately have "unat (x - ks) < 4096" by (simp only:)
    then have "in_page ks x" by (simp add: in_page_def layout word_less_nat_alt)
    then show ?thesis using in_page_iff [OF ks] by simp
  qed
  fix x assume x: "page_base x \<noteq> ks"
  then have np: "\<not> in_page ks x" using in_page_iff [OF ks] by simp
  have "\<not> in_tf a x" using tf x by blast
  moreover have "x \<noteq> a + TRAP_FRAME_SIZE" "x \<noteq> a + TRAP_FRAME_SIZE + 8"
    using np by (auto simp: in_page_def fa layout)
  ultimately show "phys k' x = phys k x" by (simp add: d(2) write_tf_other)
qed

lemma fork_Done:
  assumes ci: "current_index (mgr s) = Some i" and f: "fork tf s = Done (Ok pid, s')"
  obtains ks cs root k ct k' slot where "fork_memory (task_at i (mgr s)) (mem s) = (Ok (ks, cs, root), k)"
    and "init_context (kernel_pt s) ks root ((read_tf (phys k) tf)\<lparr>tf_a0 := 0\<rparr>) k = Done (ct, k')"
    and "free_slot (mgr s) = Some slot" and "pid = next_pid (mgr s)"
    and "phys (mem s') = write_tf tf ((read_tf (phys k') tf)\<lparr>tf_a0 := ucast pid\<rparr>) (phys k')" and "pages (mem s') = pages k'"
    and "tasks (mgr s') = (tasks (mgr s))[slot := Some ((task_at i (mgr s))\<lparr>t_pid := pid, t_state := Ready, t_trap_frame := ct,
           t_kernel_stack := ks, t_user_stack := cs, t_pagetable := root, t_exit_code := 0,
           t_parent_pid := current_pid (mgr s), t_waiting_for := None\<rparr>)]"
proof -
  obtain ks cs root k where m: "fork_memory (task_at i (mgr s)) (mem s) = (Ok (ks, cs, root), k)"
    using f ci by (auto simp: fork_def Let_def split: if_splits prod.splits sum.splits)
  obtain ct k' where c: "init_context (kernel_pt s) ks root ((read_tf (phys k) tf)\<lparr>tf_a0 := 0\<rparr>) k = Done (ct, k')"
    using f ci m by (auto simp: fork_def Let_def split: if_splits)
  have fs: "free_slot (mgr s\<lparr>next_pid := x\<rparr>) = free_slot (mgr s)" for x by (simp add: free_slot_def)
  obtain slot where sl: "free_slot (mgr s) = Some slot"
    using f ci m c fs by (auto simp: fork_def Let_def split: if_splits option.splits)
  have child: "t\<lparr>t_pid := a, t_state := Ready, t_trap_frame := ct, t_kernel_stack := ks, t_user_stack := cs,
      t_pagetable := root, t_exit_code := 0, t_parent_pid := b, t_waiting_for := None\<rparr> =
    \<lparr>t_pid = a, t_state = Ready, t_trap_frame = ct, t_kernel_stack = ks, t_user_stack = cs, t_entry = t_entry t,
     t_pagetable = root, t_exit_code = 0, t_image_base = t_image_base t, t_image_size = t_image_size t,
     t_heap_base = t_heap_base t, t_heap_end = t_heap_end t, t_parent_pid = b, t_waiting_for = None\<rparr>" for t a b
    by (cases t) simp
  show thesis
    by (rule that [OF m c sl]; (unfold child)?)
       (use f ci m c sl fs in \<open>auto simp: fork_def Let_def update_frame_def store_frame_def load_frame_def put_task_def
          split: if_splits\<close>)
qed

text \<open>The registers and the memory after a fork.\<close>

lemma fork_frames:
  assumes b: "built_on ka root k" and ka: "used_frames (pages ka) = insert ks (used_frames (pages k0))" "ks \<notin> used_frames (pages k0)"
      "phys ka = phys k0" and ks: "page_aligned ks"
    and tf: "\<forall>x. in_tf tf x \<longrightarrow> page_base x \<in> used_frames (pages k0)"
    and i: "init_context kp ks root ((read_tf (phys k) tf)\<lparr>tf_a0 := 0\<rparr>) k = Done (ct, k')"
    and m: "m = write_tf tf ((read_tf (phys k') tf)\<lparr>tf_a0 := v\<rparr>) (phys k')"
  shows "\<forall>x. page_base x \<notin> used_frames (pages ka) \<longrightarrow> m x = phys k x"
    and "read_tf m ct = (read_tf (phys k0) tf)\<lparr>tf_a0 := 0\<rparr>" and "read_tf m tf = (read_tf (phys k0) tf)\<lparr>tf_a0 := v\<rparr>"
    and "page_base x \<in> used_frames (pages k0) \<Longrightarrow> \<not> in_tf tf x \<Longrightarrow> m x = phys k0 x"
proof -
  note ic = init_context_Done [OF ks i]
  have old: "phys k' x = phys k0 x" if "page_base x \<in> used_frames (pages k0)" for x
    using that ic(4) [of x] built_onD(3) [OF b, of x] ka by auto
  have m': "m x = phys k' x" if "\<not> in_tf tf x" for x using that by (simp add: m write_tf_other)
  show "\<forall>x. page_base x \<notin> used_frames (pages ka) \<longrightarrow> m x = phys k x"
    using m' ic(4) tf ka(1) by (metis insert_iff)
  show "m x = phys k0 x" if "page_base x \<in> used_frames (pages k0)" "\<not> in_tf tf x"
    using m' [OF that(2)] old [OF that(1)] by simp
  have r': "read_tf (phys k') tf = read_tf (phys k0) tf" by (rule read_tf_cong) (use tf old in blast)
  have r: "read_tf (phys k) tf = read_tf (phys k0) tf"
    by (rule read_tf_cong) (use tf built_onD(3) [OF b] ka in auto)
  show "read_tf m tf = (read_tf (phys k0) tf)\<lparr>tf_a0 := v\<rparr>" by (simp add: m r')
  have "read_tf m ct = read_tf (phys k') ct"
    by (rule read_tf_cong) (use ic(5) m' tf ka(2) in metis)
  then show "read_tf m ct = (read_tf (phys k0) tf)\<lparr>tf_a0 := 0\<rparr>" using ic(3) by (simp add: r)
qed

text \<open>C35: A successful \<open>fork\<close> makes a ready task with the next pid, whose parent is the caller. Its address space is
  new, its tables in frames that were free: every page mapped in the image and heap ranges of the parent, and the stack page, is mapped at the same
  address with the same permission bits to a frame that was free, and holds a copy of the parent's page. The
  child starts with the registers of the parent and 0 in \<open>a0\<close>, the parent gets the pid there, and no
  other memory that was in use is changed. (The parent's table is well formed and its pages, its stack and
  its trap frame lie in frames in use.)\<close>

theorem fork_copies_memory:
  assumes "current_index (mgr s) = Some i" and "p = task_at i (mgr s)" and "pt_wf (mem s) (t_pagetable p)"
    and "backed (mem s) (t_pagetable p) (image_pages (t_image_base p) (t_image_size p) @ heap_run p)"
    and "t_user_stack p \<in> used_frames (pages (mem s))" and "\<forall>x. in_tf tf x \<longrightarrow> page_base x \<in> used_frames (pages (mem s))"
    and "fork tf s = Done (Ok pid, s')"
  shows "\<exists>slot child. slot < length (tasks (mgr s)) \<and> tasks (mgr s) ! slot = None \<and>
    tasks (mgr s') = (tasks (mgr s))[slot := Some child] \<and> t_pid child = pid \<and> pid = next_pid (mgr s) \<and>
    t_state child = Ready \<and> t_parent_pid child = current_pid (mgr s) \<and> pt_wf (mem s') (t_pagetable child) \<and>
    tables (phys (mem s')) (t_pagetable child) \<inter> used_frames (pages (mem s)) = {} \<and>
    (\<forall>va \<in> set (image_pages (t_image_base p) (t_image_size p) @ heap_run p). \<forall>e.
       leaf (phys (mem s)) (t_pagetable p) va = Some e \<longrightarrow>
       copy_of (mem s) (t_pagetable child) va (pte_to_pa e) (e AND 0x3fe) (mem s')) \<and>
    copy_of (mem s) (t_pagetable child) (USER_STACK_TOP - PAGE_SIZE) (t_user_stack p) (PTE_R OR PTE_W OR PTE_U) (mem s') \<and>
    load_frame (t_trap_frame child) s' = (load_frame tf s)\<lparr>tf_a0 := 0\<rparr> \<and>
    load_frame tf s' = (load_frame tf s)\<lparr>tf_a0 := ucast pid\<rparr> \<and>
    (\<forall>x. page_base x \<in> used_frames (pages (mem s)) \<and> \<not> in_tf tf x \<longrightarrow> phys (mem s') x = phys (mem s) x)"
proof -
  obtain ks cs root k ct k' slot where f: "fork_memory p (mem s) = (Ok (ks, cs, root), k)"
    "init_context (kernel_pt s) ks root ((read_tf (phys k) tf)\<lparr>tf_a0 := 0\<rparr>) k = Done (ct, k')"
    "free_slot (mgr s) = Some slot" "pid = next_pid (mgr s)"
    "phys (mem s') = write_tf tf ((read_tf (phys k') tf)\<lparr>tf_a0 := ucast pid\<rparr>) (phys k')" "pages (mem s') = pages k'"
    "tasks (mgr s') = (tasks (mgr s))[slot := Some (p\<lparr>t_pid := pid, t_state := Ready, t_trap_frame := ct,
           t_kernel_stack := ks, t_user_stack := cs, t_pagetable := root, t_exit_code := 0,
           t_parent_pid := current_pid (mgr s), t_waiting_for := None\<rparr>)]"
    unfolding assms(2) by (rule fork_Done [OF assms(1,7)])
  have bk: "backed (mem s) (t_pagetable p) (image_pages (t_image_base p) (t_image_size p))" "backed (mem s) (t_pagetable p) (heap_run p)"
    using assms(4) by (auto simp: backed_def)
  obtain ka where ka: "k_alloc (mem s) = (Some ks, ka)" "built_on ka root k"
    "\<And>va e. va \<in> set (image_pages (t_image_base p) (t_image_size p) @ heap_run p) \<Longrightarrow> leaf (phys (mem s)) (t_pagetable p) va = Some e \<Longrightarrow>
       copy_of ka root va (pte_to_pa e) (e AND 0x3fe) k"
    "copy_of ka root (USER_STACK_TOP - PAGE_SIZE) (t_user_stack p) (PTE_R OR PTE_W OR PTE_U) k"
    using fork_memory_Ok [OF assms(3) bk assms(5) f(1)] by metis
  note al = k_alloc_Some [OF pt_wf_frames [OF assms(3)] ka(1)]
  note fr = fork_frames [OF ka(2) al(2-5) assms(6) f(2,5)]
  note w = built_on_write [OF ka(2) fr(1)]
  have ms: "mem s' = k\<lparr>phys := phys (mem s')\<rparr>"
    using init_context_Done(2) [OF al(5) f(2)] f(6) by (intro kmem.equality) simp_all
  have mono: "copy_of (mem s) root va src fl (mem s')" if "copy_of ka root va src fl k" for va src fl
    using copy_of_mono [OF w(2) [OF that], of "mem s"] al(2,4) ms by auto
  have sl: "slot < length (tasks (mgr s))" "tasks (mgr s) ! slot = None"
    using position_Some [OF f(3) [unfolded free_slot_def]] by simp_all
  have wf': "pt_wf (mem s') root" using w(1) ms by simp
  have tb: "tables (phys (mem s')) root \<inter> used_frames (pages (mem s)) = {}"
    using w(3) ka(2) al(2) unfolding built_on_def by blast
  show ?thesis
    by (rule exI [of _ slot], rule exI, intro conjI, rule sl(1), rule sl(2), rule f(7))
       (use f(4) wf' tb mono ka(3,4) fr(2-4) in \<open>auto simp: load_frame_def\<close>)
qed

text \<open>With enough free frames the memory of a child without image and heap is made.\<close>

lemma map_kernel_card:
  assumes wf: "pt_wf k root" and mp: "map_kernel root k = (Ok (), k')"
  shows "card (avail_frames (pages k)) \<le> card (avail_frames (pages k')) + 17"
proof -
  have step: "pt_wf k1 root \<and> card (avail_frames (pages k)) \<le> card (avail_frames (pages k1)) + 2"
    if "pt_wf k root" "pt_map root a a PAGE_SIZE (PTE_R OR PTE_W) k = (Ok (), k1)" "unat a + unat PAGE_SIZE \<le> 2 ^ 56" for a k k1
    using pt_map_grow [OF that(1,2)] card_page_paths [of a] pt_grown_wf [OF pt_map_grown [OF that(1) _ that(3,2)]]
    by (simp add: layout)
  obtain k1 k2 k3 k4 where m: "pt_map root KERNEL_START KERNEL_START KERNEL_SIZE (PTE_R OR PTE_W OR PTE_X) k = (Ok (), k1)"
    "pt_map root UART_PAGE UART_PAGE PAGE_SIZE (PTE_R OR PTE_W) k1 = (Ok (), k2)"
    "pt_map root 0x0c000000 0x0c000000 PAGE_SIZE (PTE_R OR PTE_W) k2 = (Ok (), k3)"
    "pt_map root 0x0c002000 0x0c002000 PAGE_SIZE (PTE_R OR PTE_W) k3 = (Ok (), k4)"
    "pt_map root 0x0c201000 0x0c201000 PAGE_SIZE (PTE_R OR PTE_W) k4 = (Ok (), k')"
    using mp unfolding map_kernel_Ok map_plic_def map_each_Ok by auto
  have w1: "pt_wf k1 root" by (rule pt_grown_wf [OF pt_map_grown [OF wf _ _ m(1)]]) (simp_all add: layout)
  have c1: "card (avail_frames (pages k)) \<le> card (avail_frames (pages k1)) + 9"
    using pt_map_grow [OF wf m(1)] card_kernel_paths by linarith
  have b: "unat UART_PAGE + unat PAGE_SIZE \<le> 2 ^ 56" "unat (0x0c000000 :: usize) + unat PAGE_SIZE \<le> 2 ^ 56"
    "unat (0x0c002000 :: usize) + unat PAGE_SIZE \<le> 2 ^ 56" "unat (0x0c201000 :: usize) + unat PAGE_SIZE \<le> 2 ^ 56"
    by (simp_all add: layout)
  note s2 = step [OF w1 m(2) b(1)]
  note s3 = step [OF conjunct1 [OF s2] m(3) b(2)]
  note s4 = step [OF conjunct1 [OF s3] m(4) b(3)]
  note s5 = step [OF conjunct1 [OF s4] m(5) b(4)]
  show ?thesis using c1 s2 s3 s4 s5 by linarith
qed

lemma k_alloc_ready:
  assumes fw: "frames_wf (pages k)" and c: "Suc n \<le> card (avail_frames (pages k))"
  obtains f k1 where "k_alloc k = (Some f, k1)" and "frames_wf (pages k1)" and "n \<le> card (avail_frames (pages k1))"
proof -
  obtain r s where a: "page_alloc (pages k) = (r, s)" by (cases "page_alloc (pages k)")
  have "r \<noteq> None"
  proof
    assume "r = None"
    then have "avail_frames (pages k) = {}" using frames.alloc_None [OF fw] a by simp
    then show False using c by simp
  qed
  then obtain f where r: "r = Some f" by blast
  note fr = frames.alloc_fresh [OF fw a [unfolded r]]
  have "n \<le> card (avail_frames s)" using fr(2,4) c by simp
  then show thesis using that [of f "k\<lparr>pages := s\<rparr>"] a r fr by (simp add: k_alloc_def)
qed

lemma fork_memory_ready:
  assumes fw: "frames_wf (pages k)" and c: "25 \<le> card (avail_frames (pages k))"
    and p: "t_image_base p = 0" "t_image_size p = 0" "t_heap_base p = 0" "t_heap_end p = 0"
  shows "\<exists>r k'. fork_memory p k = (Ok r, k')"
proof -
  obtain ks k1 where a1: "k_alloc k = (Some ks, k1)" "frames_wf (pages k1)" "24 \<le> card (avail_frames (pages k1))"
    by (rule k_alloc_ready [OF fw, of 24]) (use c in auto)
  obtain cs k2 where a2: "k_alloc k1 = (Some cs, k2)" "frames_wf (pages k2)" "23 \<le> card (avail_frames (pages k2))"
    by (rule k_alloc_ready [OF a1(2), of 23]) (use a1(3) in auto)
  obtain root k2' where a3: "k_alloc k2 = (Some root, k2')" "22 \<le> card (avail_frames (pages k2'))"
    by (rule k_alloc_ready [OF a2(2), of 22]) (use a2(3) in auto)
  define k3 where "k3 = k2'\<lparr>phys := clear_page root (phys k2')\<rparr>"
  have cr: "pt_create k2 = (Some root, k3)" using a3(1) by (simp add: pt_create_def k3_def)
  note new = pt_create_wf [OF a2(2) cr]
  have c3: "22 \<le> card (avail_frames (pages k3))" using a3(2) by (simp add: k3_def)
  obtain k4 where m: "map_kernel root k3 = (Ok (), k4)"
    using map_kernel_succeeds [OF new(1)] new(2) c3 by fastforce
  note ms = map_kernel_spec [OF new(1) m]
  have c4: "5 \<le> card (avail_frames (pages k4))" using map_kernel_card [OF new(1) m] c3 by linarith
  let ?m = "copy_page (t_user_stack p) cs (phys k4)" and ?va = "USER_STACK_TOP - PAGE_SIZE"
  have al: "page_aligned cs" by (rule k_alloc_Some(5) [OF a1(2) a2(1)])
  have bo: "built_on k2 root k4" by (rule built_on_grown [OF built_on_create [OF a2(2) cr] map_kernel_grown [OF new(1) m]])
  have cu: "cs \<in> used_frames (pages k2)" using k_alloc_Some(2) [OF a1(2) a2(1)] by simp
  have tabs: "\<forall>x. page_base x \<in> tables (phys k4) root \<longrightarrow> ?m x = phys k4 x"
    using copy_page_cells(1) [OF al] bo cu unfolding built_on_def disjoint_iff by metis
  have w: "pt_wf (k4\<lparr>phys := ?m\<rparr>) root" by (rule pt_wf_cong [OF ms(1) tabs pt_wf_frames [OF ms(1)] subset_refl])
  have nv: "vpage ?va \<notin> kernel_vpages"
  proof -
    have "vpage ?va \<notin> run_pages KERNEL_START KERNEL_SIZE"
    proof
      assume "vpage ?va \<in> run_pages KERNEL_START KERNEL_SIZE"
      then obtain j where j: "j < 4096" "vpage ?va = vpage (page_at KERNEL_START j)" by (auto simp: run_pages_def run_length_def layout)
      then have "unat (vpage ?va) \<ge> 0x80200" using vpage_page_at [of KERNEL_START j] by (simp add: page_aligned_def layout)
      then show False by (simp add: unat_vpage layout)
    qed
    moreover have "vpage ?va \<notin> {vpage UART_PAGE, vpage 0x0c000000, vpage 0x0c002000, vpage 0x0c201000}"
      by (simp add: word_unat_eq_iff unat_vpage layout)
    ultimately show ?thesis by (auto simp: kernel_vpages_def)
  qed
  have "leaf (phys (k4\<lparr>phys := ?m\<rparr>)) root vb = None" if "vpage vb \<in> run_pages ?va PAGE_SIZE" for vb
    using that nv ms(3) [of vb] new(2) leaf_cong [OF ms(1) tabs] by simp
  moreover have "card (run_paths ?va PAGE_SIZE) < card (avail_frames (pages (k4\<lparr>phys := ?m\<rparr>)))"
    using card_page_paths [of ?va] c4 by simp
  moreover have "PAGE_SIZE \<noteq> 0" "page_aligned ?va" "run_length PAGE_SIZE \<le> 2 ^ 27"
    by (simp add: layout, simp add: layout page_aligned_def, simp)
  ultimately obtain k5 where "pt_map root ?va cs PAGE_SIZE (PTE_R OR PTE_W OR PTE_U) (k4\<lparr>phys := ?m\<rparr>) = (Ok (), k5)"
    using map_ready [OF w, of PAGE_SIZE ?va cs] al by metis
  moreover have e: "page_range 0 0 = []" "align_up 0 = Ok 0"
    by (simp_all add: page_range_def align_up_def checked_add_def layout)
  have "(4095 :: usize) AND NOT 4095 = 0" by simp
  then have i: "(0 + 0 + PAGE_SIZE - 1) AND NOT (PAGE_SIZE - 1) = 0" by (simp add: layout)
  ultimately show ?thesis
    using a1(1) a2(1) cr m by (simp add: fork_memory_def try_k_def ok_or_def p e i Let_def)
qed

section \<open>A task that forks\<close>

text \<open>Sixty-four frames from \<open>0x80400000\<close>: the first is the page table of task 1, the next its user stack, the third
  its kernel stack.\<close>

definition fork_frames0 :: kmem where
  "fork_frames0 = \<lparr>phys = \<lambda>x. if x = 0x80401FF8 then 42 else 0, pages = Some (allocator_new 0x80400000 64)\<rparr>"

definition fork_frames1 :: kmem where
  "fork_frames1 = snd (pt_create fork_frames0)"

definition fork_frames3 :: kmem where
  "fork_frames3 = snd (k_alloc (snd (k_alloc fork_frames1)))"

definition fork_parent :: Task where
  "fork_parent = \<lparr>t_pid = 1, t_state = Running, t_trap_frame = 0x80402000, t_kernel_stack = 0x80402000,
     t_user_stack = 0x80401000, t_entry = 0, t_pagetable = 0x80400000, t_exit_code = 0, t_image_base = 0,
     t_image_size = 0, t_heap_base = 0, t_heap_end = 0, t_parent_pid = None, t_waiting_for = None\<rparr>"

definition fork_kernel :: kstate where
  "fork_kernel = \<lparr>mem = fork_frames3,
     mgr = task_manager_new\<lparr>current_pid := Some 1, tasks := Some fork_parent # replicate 15 None, next_pid := 2,
       runnable_count := 1\<rparr>,
     kernel_pt = Some 0x80400000, plic_regs = \<lambda>_. 0\<rparr>"

lemma fork_machine:
  "pt_wf fork_frames3 0x80400000" "{0x80401000, 0x80402000} \<subseteq> used_frames (pages fork_frames3)"
  "25 \<le> card (avail_frames (pages fork_frames3))" "phys fork_frames3 0x80401FF8 = 42"
proof -
  have fw: "frames_wf (pages fork_frames0)"
    using allocator_new_wf [of "0x80400000" 64] by (simp add: fork_frames0_def frames_wf_def page_aligned_def layout)
  have "fst (pt_create fork_frames0) = Some 0x80400000" by code_simp
  then have c: "pt_create fork_frames0 = (Some 0x80400000, fork_frames1)" by (simp add: fork_frames1_def prod_eq_iff)
  note w1 = pt_create_wf(1) [OF fw c]
  obtain k2 where k2: "k2 = snd (k_alloc fork_frames1)" by simp
  have "fst (k_alloc fork_frames1) = Some 0x80401000" "fst (k_alloc (snd (k_alloc fork_frames1))) = Some 0x80402000"
    by code_simp+
  then have a: "k_alloc fork_frames1 = (Some 0x80401000, k2)" "k_alloc k2 = (Some 0x80402000, fork_frames3)"
    by (simp_all add: k2 fork_frames3_def prod_eq_iff)
  note s2 = k_alloc_Some [OF pt_wf_frames [OF w1] a(1)]
  note s3 = k_alloc_Some [OF s2(1) a(2)]
  have "pt_wf (fork_frames3\<lparr>phys := phys fork_frames3\<rparr>) 0x80400000"
    by (rule pt_wf_cong [OF w1]) (use s2 s3 in auto)
  then show "pt_wf fork_frames3 0x80400000" by simp
  show "{0x80401000, 0x80402000} \<subseteq> used_frames (pages fork_frames3)" using s2(2) s3(2) by simp
  show "25 \<le> card (avail_frames (pages fork_frames3))" by code_simp
  show "phys fork_frames3 0x80401FF8 = 42" by code_simp
qed

lemma fork_parent_empty:
  "t_image_base fork_parent = 0" "t_image_size fork_parent = 0" "t_heap_base fork_parent = 0" "t_heap_end fork_parent = 0"
  "set (image_pages (t_image_base fork_parent) (t_image_size fork_parent) @ heap_run fork_parent) = {}"
  by code_simp+

lemma fork_kernel_task: "current_index (mgr fork_kernel) = Some 0" "task_at 0 (mgr fork_kernel) = fork_parent"
  "free_slot ((mgr fork_kernel)\<lparr>next_pid := n\<rparr>) = Some 1" "current_pid (mgr fork_kernel) \<noteq> Some IDLE_PID" "next_pid (mgr fork_kernel) = 2"
  by (simp_all add: fork_kernel_def current_index_def task_index_def task_at_def free_slot_def fork_parent_def
      IDLE_PID_def eval_nat_numeral)

lemma fork_kernel_forks: "\<exists>s'. fork 0x80402000 fork_kernel = Done (Ok 2, s')"
proof -
  obtain r k where r: "fork_memory fork_parent fork_frames3 = (Ok r, k)"
    using fork_memory_ready [OF pt_wf_frames [OF fork_machine(1)] fork_machine(3) fork_parent_empty(1-4)] by blast
  obtain ks cs root where t: "r = (ks, cs, root)" by (cases r)
  have m: "mem fork_kernel = fork_frames3" "kernel_pt fork_kernel = Some 0x80400000" by (simp_all add: fork_kernel_def)
  show ?thesis
    by (simp add: fork_def fork_kernel_task m r t Let_def init_context_def kernel_satp_def)
qed

theorem fork_copies_memory_witness:
  "\<exists>s' child n. fork 0x80402000 fork_kernel = Done (Ok 2, s') \<and> Some child \<in> set (tasks (mgr s')) \<and> t_pid child = 2 \<and>
     n \<noteq> t_user_stack fork_parent \<and> virt_to_phys (t_pagetable child) (USER_STACK_TOP - PAGE_SIZE) (mem s') = Some n \<and>
     phys (mem s') (n + 0xFF8) = 42 \<and> tf_a0 (load_frame (t_trap_frame child) s') = 0 \<and> tf_a0 (load_frame 0x80402000 s') = 2"
proof -
  obtain s' where f: "fork 0x80402000 fork_kernel = Done (Ok 2, s')" using fork_kernel_forks by blast
  have m: "mem fork_kernel = fork_frames3" and p: "t_pagetable fork_parent = 0x80400000" "t_user_stack fork_parent = 0x80401000"
    by (simp_all add: fork_kernel_def fork_parent_def)
  have tf: "page_base x = 0x80402000" if "in_tf 0x80402000 x" for x
  proof -
    have "x - 0x80402000 < PAGE_SIZE" using that by (simp add: in_tf_def layout TRAP_FRAME_SIZE_def word_less_nat_alt)
    from page_base_add [OF _ this, of "0x80402000"] show ?thesis by (simp add: page_aligned_def layout)
  qed
  have bk: "backed fork_frames3 0x80400000 (image_pages (t_image_base fork_parent) (t_image_size fork_parent) @ heap_run fork_parent)"
    unfolding backed_def fork_parent_empty(5) by simp
  have tfu: "\<forall>x. in_tf 0x80402000 x \<longrightarrow> page_base x \<in> used_frames (pages fork_frames3)" using tf fork_machine(2) by auto
  have us: "0x80401000 \<in> used_frames (pages fork_frames3)" using fork_machine(2) by simp
  obtain slot child where c: "slot < length (tasks (mgr fork_kernel))" "tasks (mgr s') = (tasks (mgr fork_kernel))[slot := Some child]"
    "t_pid child = 2" "copy_of fork_frames3 (t_pagetable child) (USER_STACK_TOP - PAGE_SIZE) 0x80401000 (PTE_R OR PTE_W OR PTE_U) (mem s')"
    "load_frame (t_trap_frame child) s' = (load_frame 0x80402000 fork_kernel)\<lparr>tf_a0 := 0\<rparr>"
    "load_frame 0x80402000 s' = (load_frame 0x80402000 fork_kernel)\<lparr>tf_a0 := ucast (2 :: u32)\<rparr>"
    using fork_copies_memory [of fork_kernel 0 fork_parent "0x80402000" 2 s', OF fork_kernel_task(1) fork_kernel_task(2) [symmetric],
        unfolded m p, OF fork_machine(1) bk us tfu f] by blast
  obtain n e where n: "n \<notin> used_frames (pages fork_frames3)" "leaf (phys (mem s')) (t_pagetable child) (USER_STACK_TOP - PAGE_SIZE) = Some e"
    "pte_to_pa e = n" "phys (mem s') (n + 0xFF8) = phys fork_frames3 (0x80401000 + 0xFF8)"
    using c(4) page_base_add [of _ "0xFF8"] unfolding copy_of_def page_is_def by (auto simp: layout)
  have "Some child \<in> set (tasks (mgr s'))" using c(1,2) set_update_memI by metis
  moreover have "phys (mem s') (n + 0xFF8) = 42" "n \<noteq> 0x80401000" using n(1,4) fork_machine(4) us by auto
  moreover have "virt_to_phys (t_pagetable child) (USER_STACK_TOP - PAGE_SIZE) (mem s') = Some n"
    using n(2,3) by (simp add: virt_to_phys_leaf layout)
  ultimately show ?thesis using f c(3,5,6) p by (intro exI [of _ s'] exI [of _ child] exI [of _ n]) simp
qed

end
