(* ===== verification/Elf_Image.thy ===== *)
theory Elf_Image
  imports Elf_Exec Page_Contents
begin

text \<open>
  What \<open>elf_load\<close> (\<open>src/kernel/exec.rs\<close>) puts into memory: every page of every loadable segment is
  mapped to a frame of its own with the permissions of the segment, and holds the bytes of the file
  at their addresses and zeros around them. No byte is read outside the file.
\<close>

section \<open>Bytes of a page\<close>

lemma unat_less_64: "unat (x :: usize) < 2 ^ 64"
  using unsigned_less [of x, where 'a = nat] by simp

lemma unat_diff_less:
  fixes x y :: usize
  assumes "n + unat y \<le> 4096"
  shows "unat (x - y) < n \<longleftrightarrow> unat y \<le> unat x \<and> unat x < unat y + n"
proof (cases "y \<le> x")
  case True
  then have "unat (x - y) = unat x - unat y" "unat y \<le> unat x" by (simp_all add: unat_sub word_le_nat_alt)
  then show ?thesis by linarith
next
  case False
  then have lt: "unat x < unat y" by (simp add: word_le_nat_alt)
  have "unat (x - y) = 2 ^ 64 + unat x - unat y" using lt unat_less_64 [of y] by (subst unat_sub_if_size) (simp add: word_size)
  then have "n \<le> unat (x - y)" using lt assms by simp
  then show ?thesis using lt by linarith
qed

lemma page_base_cell [simp]: "page_base (cell_of a) = page_base a"
proof -
  have cell: "cell_of a = a AND NOT (mask 3)" by (simp add: cell_of_def mask_numeral)
  show ?thesis
    unfolding page_base_def cell page_mask
    by (intro bit_word_eqI) (auto simp: bit_and_iff bit_not_iff bit_mask_iff)
qed

lemma read_byte_page:
  assumes "\<forall>x. page_base x = n \<longrightarrow> m x = c x" and "page_base a = n"
  shows "read_byte m a = read_byte c a"
  using assms page_base_cell [of a] by (simp add: read_byte_def)

lemma read_byte_clear: "page_aligned n \<Longrightarrow> page_base a = n \<Longrightarrow> read_byte (clear_page n m) a = 0"
  using in_page_iff [of n "cell_of a"] by (simp add: read_byte_def clear_page_def)

lemma write_bytes_other:
  assumes "\<And>i. i < length bs \<Longrightarrow> page_base (a + of_nat i) = n" and "page_base x \<noteq> n"
  shows "write_bytes_at a bs m x = m x"
  using assms(1)
proof (induction bs arbitrary: a m)
  case (Cons b bs)
  have "write_bytes_at (a + 1) bs (write_byte a b m) x = write_byte a b m x"
    by (rule Cons.IH) (use Cons.prems [of "Suc _"] in \<open>simp add: add.assoc\<close>)
  moreover have "x \<noteq> cell_of a" using Cons.prems [of 0] assms(2) by auto
  ultimately show ?case by (simp add: write_byte_other_cell)
qed simp

lemma read_write_bytes:
  assumes "length bs < 2 ^ 64"
  shows "read_byte (write_bytes_at a bs m) b = (if unat (b - a) < length bs then bs ! unat (b - a) else read_byte m b)"
  using assms
proof (induction bs arbitrary: a m)
  case (Cons x bs)
  have IH: "read_byte (write_bytes_at (a + 1) bs (write_byte a x m)) b =
      (if unat (b - (a + 1)) < length bs then bs ! unat (b - (a + 1)) else if a = b then x else read_byte m b)"
    using Cons.IH [of "a + 1" "write_byte a x m"] Cons.prems by simp
  show ?case
  proof (cases "b = a")
    case True
    have "unat (b - (a + 1)) = 2 ^ 64 - 1" by (simp add: True unsigned_minus_1_eq_mask mask_eq_exp_minus_1)
    then show ?thesis using IH True Cons.prems by simp
  next
    case False
    then have "b - a \<noteq> 0" by simp
    then have "unat (b - a) \<noteq> 0" "unat (b - a - 1) = unat (b - a) - 1" using unat_eq_0 unat_minus_one by blast+
    moreover have s: "b - (a + 1) = b - a - 1" by simp
    ultimately have "unat (b - a) = Suc (unat (b - (a + 1)))" unfolding s by simp
    then show ?thesis using IH False by simp
  qed
qed simp

section \<open>One page\<close>

text \<open>The byte at an address of a segment: from the file in the first \<open>p_filesz\<close> bytes, zero elsewhere.\<close>

definition segment_byte :: "u8 list \<Rightarrow> Elf64Phdr \<Rightarrow> usize \<Rightarrow> u8" where
  "segment_byte d ph va =
     (if p_vaddr ph \<le> va \<and> va < p_vaddr ph + p_filesz ph then d ! unat (p_offset ph + (va - p_vaddr ph)) else 0)"

definition in_file :: "u8 list \<Rightarrow> Elf64Phdr \<Rightarrow> bool" where
  "in_file d ph \<longleftrightarrow> unat (p_offset ph) + unat (p_filesz ph) \<le> length d \<and> unat (p_offset ph) + unat (p_filesz ph) < 2 ^ 64"

text \<open>The contents that \<open>load_page\<close> gives to the new frame.\<close>

definition page_fill :: "u8 list \<Rightarrow> Elf64Phdr \<Rightarrow> usize \<Rightarrow> usize \<Rightarrow> cells \<Rightarrow> cells" where
  "page_fill d ph va n m =
     (case file_part ph va of
        None \<Rightarrow> clear_page n m
      | Some (src, dst, len) \<Rightarrow> write_bytes_at (n + dst) (take (unat len) (drop (unat src) d)) (clear_page n m))"

lemma in_file_checked: "in_file d ph \<Longrightarrow> checked_add (p_offset ph) (p_filesz ph) = Some (p_offset ph + p_filesz ph)"
  by (simp add: in_file_def checked_add_def)

lemma file_part_Some:
  assumes "file_part ph va = Some (src, dst, len)"
  shows "dst = max va (p_vaddr ph) - va" and "len = min (va + PAGE_SIZE) (p_vaddr ph + p_filesz ph) - max va (p_vaddr ph)"
    and "src = p_offset ph + (max va (p_vaddr ph) - p_vaddr ph)"
    and "max va (p_vaddr ph) < min (va + PAGE_SIZE) (p_vaddr ph + p_filesz ph)"
  using assms by (auto simp: file_part_def Let_def split: if_splits)

lemma page_fill_other:
  assumes f: "in_file d ph" and n: "page_aligned n" and x: "page_base x \<noteq> n"
  shows "page_fill d ph va n m x = m x"
proof (cases "file_part ph va")
  case None
  then show ?thesis using x in_page_iff [OF n] by (simp add: page_fill_def clear_page_def)
next
  case (Some p)
  obtain src dst len where p: "p = (src, dst, len)" by (cases p)
  note b = file_part_bounds [OF Some [unfolded p] in_file_checked [OF f]]
  have "page_base (n + dst + of_nat i) = n" if "i < length (take (unat len) (drop (unat src) d))" for i
  proof -
    have i: "i < unat len" using that by simp
    then have "unat (dst + of_nat i) = unat dst + i"
      using b(2) by (subst unat_add_lem [THEN iffD1]) (simp_all add: unat_PAGE_SIZE unat_of_nat)
    then have "dst + of_nat i < PAGE_SIZE" using b(2) i by (simp add: word_less_nat_alt unat_PAGE_SIZE)
    then show ?thesis using page_base_add [OF n] by (simp add: add.assoc)
  qed
  then have "write_bytes_at (n + dst) (take (unat len) (drop (unat src) d)) (clear_page n m) x = clear_page n m x"
    by (rule write_bytes_other [OF _ x])
  then have "page_fill d ph va n m x = clear_page n m x" by (simp add: page_fill_def Some p)
  then show ?thesis using x in_page_iff [OF n] by (simp add: clear_page_def)
qed

lemma page_fill_byte:
  assumes f: "in_file d ph" and n: "page_aligned n" and va: "page_aligned va" "va + PAGE_SIZE \<noteq> 0" and off: "off < PAGE_SIZE"
  shows "read_byte (page_fill d ph va n m) (n + off) = segment_byte d ph (va + off)"
proof -
  let ?fs = "p_vaddr ph" and ?fe = "p_vaddr ph + p_filesz ph"
  have nb: "page_base (n + off) = n" by (rule page_base_add [OF n off])
  have uoff: "unat off < 4096" using off by (simp add: word_less_nat_alt unat_PAGE_SIZE)
  have ve: "unat (va + PAGE_SIZE) = unat va + 4096"
  proof -
    have "unat va + 4096 \<noteq> 2 ^ 64"
    proof
      assume "unat va + 4096 = 2 ^ 64"
      then have "unat (va + PAGE_SIZE) = 0" by (simp add: unat_word_ariths unat_PAGE_SIZE)
      then show False using va(2) by (simp add: unat_eq_0)
    qed
    then show ?thesis using page_aligned_le [OF va(1)] by (simp add: unat_word_ariths unat_PAGE_SIZE)
  qed
  have "unat (va + PAGE_SIZE) < 2 ^ 64" by (rule unat_less_64)
  then have vo: "unat (va + off) = unat va + unat off"
    using ve uoff by (subst unat_add_lem [THEN iffD1]) simp_all
  have pg: "va \<le> va + off" "va + off < va + PAGE_SIZE" using vo ve uoff by (simp_all add: word_le_nat_alt word_less_nat_alt)
  show ?thesis
  proof (cases "file_part ph va")
    case None
    then have "\<not> (max va ?fs < min (va + PAGE_SIZE) ?fe)" by (auto simp: file_part_def Let_def split: if_splits)
    then have "\<not> (?fs \<le> va + off \<and> va + off < ?fe)" using pg by (auto simp: max_def min_def split: if_splits)
    then show ?thesis using None read_byte_clear [OF n nb] by (auto simp: page_fill_def segment_byte_def)
  next
    case (Some p)
    obtain src dst len where p: "p = (src, dst, len)" by (cases p)
    note part = Some [unfolded p]
    note b = file_part_bounds [OF part in_file_checked [OF f]] and e = file_part_Some [OF part]
    let ?cs = "max va ?fs" and ?ce = "min (va + PAGE_SIZE) ?fe"
    have le: "va \<le> ?cs" "?fs \<le> ?cs" "?cs \<le> ?ce" using less_imp_le [OF e(4)] by simp_all
    have ud: "unat dst = unat ?cs - unat va" "unat len = unat ?ce - unat ?cs"
      using le by (simp_all add: e(1,2) unat_sub)
    have nat: "unat va \<le> unat ?cs" "unat ?fs \<le> unat ?cs" "unat ?cs < unat ?ce" using le(1,2) e(4) unfolding word_le_nat_alt word_less_nat_alt by auto
    have st: "unat (p_offset ph + p_filesz ph) \<le> length d" using f by (simp add: in_file_def unat_word_ariths)
    let ?bs = "take (unat len) (drop (unat src) d)"
    have lb: "length ?bs = unat len" using b(1) st by simp
    have "unat len < 2 ^ 64" by (rule unat_less_64)
    then have "read_byte (page_fill d ph va n m) (n + off) =
        (if unat (off - dst) < unat len then ?bs ! unat (off - dst) else 0)"
      using read_write_bytes [of ?bs "n + dst" "clear_page n m" "n + off", unfolded lb] read_byte_clear [OF n nb]
      by (simp add: page_fill_def part)
    moreover have iff: "unat (off - dst) < unat len \<longleftrightarrow> unat dst \<le> unat off \<and> unat off < unat dst + unat len"
      by (rule unat_diff_less) (use b(2) in \<open>simp add: unat_PAGE_SIZE add.commute\<close>)
    moreover have "unat dst \<le> unat off \<and> unat off < unat dst + unat len \<longleftrightarrow> ?fs \<le> va + off \<and> va + off < ?fe"
    proof -
      have "unat dst \<le> unat off \<and> unat off < unat dst + unat len \<longleftrightarrow> unat ?cs \<le> unat (va + off) \<and> unat (va + off) < unat ?ce"
        using ud nat vo by linarith
      also have "\<dots> \<longleftrightarrow> ?cs \<le> va + off \<and> va + off < ?ce" by (simp add: word_le_nat_alt word_less_nat_alt)
      also have "\<dots> \<longleftrightarrow> ?fs \<le> va + off \<and> va + off < ?fe" using pg by auto
      finally show ?thesis .
    qed
    moreover have "?bs ! unat (off - dst) = d ! unat (p_offset ph + (va + off - ?fs))" if i: "unat (off - dst) < unat len"
    proof -
      have eq: "src + (off - dst) = p_offset ph + (va + off - ?fs)" by (simp add: e(1,3))
      have "unat (src + (off - dst)) = unat src + unat (off - dst)"
        using i b(1) unat_less_64 [of "p_offset ph + p_filesz ph"] by (subst unat_add_lem [THEN iffD1]) simp_all
      then show ?thesis using i b(1) st by (simp flip: eq)
    qed
    ultimately show ?thesis unfolding segment_byte_def by presburger
  qed
qed

section \<open>The segments\<close>

text \<open>The page at \<open>va\<close> is loaded in \<open>k\<close>: a frame that was free in \<open>k0\<close> holds its bytes.\<close>

definition loaded :: "kmem \<Rightarrow> usize \<Rightarrow> u8 list \<Rightarrow> Elf64Phdr \<Rightarrow> usize \<Rightarrow> kmem \<Rightarrow> bool" where
  "loaded k0 root d ph va k \<longleftrightarrow> page_aligned va \<and>
     (\<exists>n c. n \<notin> used_frames (pages k0) \<and> page_is root k va n (segment_flags ph) c \<and>
        (va + PAGE_SIZE \<noteq> 0 \<longrightarrow> (\<forall>off < PAGE_SIZE. read_byte c (n + off) = segment_byte d ph (va + off))))"

lemma loaded_grown: "loaded k0 root d ph va k \<Longrightarrow> pt_grown root k k' \<Longrightarrow> loaded k0 root d ph va k'"
  unfolding loaded_def using page_is_grown by blast

lemma loaded_before: "loaded k1 root d ph va k \<Longrightarrow> pt_grown root k0 k1 \<Longrightarrow> loaded k0 root d ph va k"
  unfolding loaded_def pt_grown_def pt_keep_def by blast

lemma segment_flags_bound: "segment_flags ph < 2 ^ 10"
  by (simp add: segment_flags_def Let_def layout)

lemma load_page_Ok:
  assumes wf: "pt_wf k root" and f: "in_file d ph" and ld: "load_page root d ph va k = (Ok (), k')"
  shows "pt_grown root k k'" and "loaded k root d ph va k'"
proof -
  obtain n k1 where al: "k_alloc k = (Some n, k1)"
    and mp: "pt_map root va n PAGE_SIZE (segment_flags ph) (k1\<lparr>phys := page_fill d ph va n (phys k1)\<rparr>) = (Ok (), k')"
    using ld by (auto simp: load_page_def try_k_Ok_iff ok_or_Ok_iff page_fill_def Let_def)
  have p1: "phys k1 = phys k" using al by (auto simp: k_alloc_def split: prod.splits)
  have n: "page_aligned n" using fresh_frame(5) [OF wf al, of "phys k"] by simp
  have m: "\<forall>x. page_base x \<noteq> n \<longrightarrow> page_fill d ph va n (phys k1) x = phys k x"
    using page_fill_other [OF f n] by (simp add: p1)
  note g = map_fresh_frame [OF wf al m segment_flags_bound mp]
  show "pt_grown root k k'" by (rule g(1))
  show "loaded k root d ph va k'"
    unfolding loaded_def using g(2,3,4) page_fill_byte [OF f n g(4)] by blast
qed

lemma load_pages_Ok:
  assumes "pt_wf k root" and "in_file d ph" and "load_pages root d ph start js k = (Ok (), k')"
  shows "pt_grown root k k' \<and> (\<forall>j \<in> set js. loaded k root d ph (start + of_nat j * PAGE_SIZE) k')"
  using assms
proof (induction js arbitrary: k)
  case (Cons j js)
  obtain k1 where l: "load_page root d ph (start + of_nat j * PAGE_SIZE) k = (Ok (), k1)" "load_pages root d ph start js k1 = (Ok (), k')"
    using Cons.prems(3) by (auto simp: try_k_Ok_iff)
  note p = load_page_Ok [OF Cons.prems(1,2) l(1)]
  note r = Cons.IH [OF pt_grown_wf [OF p(1)] Cons.prems(2) l(2)]
  then show ?case
    using p loaded_grown [OF p(2)] loaded_before [OF _ p(1)] pt_grown_trans [OF p(1)] by auto
qed (simp add: pt_grown_refl)

definition segment :: "u8 list \<Rightarrow> Elf64Ehdr \<Rightarrow> nat \<Rightarrow> Elf64Phdr" where
  "segment d eh i = read_phdr d (unat (e_phoff eh + of_nat i * ucast (e_phentsize eh)))"

definition loadable :: "Elf64Phdr \<Rightarrow> bool" where
  "loadable ph \<longleftrightarrow> p_type ph = PT_LOAD \<and> p_memsz ph \<noteq> 0"

definition segment_pages :: "Elf64Phdr \<Rightarrow> nat" where
  "segment_pages ph = unat ((segment_end ph - segment_start ph) div PAGE_SIZE)"

lemma load_segments_Ok:
  assumes "pt_wf k root" and "load_segments root d eh is lo hi k = (Ok r, k')"
  shows "pt_grown root k k' \<and> (\<forall>i \<in> set is. loadable (segment d eh i) \<longrightarrow> in_file d (segment d eh i) \<and>
     p_filesz (segment d eh i) \<le> p_memsz (segment d eh i) \<and>
     (\<forall>j < segment_pages (segment d eh i).
        loaded k root d (segment d eh i) (segment_start (segment d eh i) + of_nat j * PAGE_SIZE) k'))"
  using assms
proof (induction "is" arbitrary: k lo hi)
  case (Cons i "is")
  show ?case
  proof (cases "loadable (segment d eh i)")
    case False
    then have "load_segments root d eh is lo hi k = (Ok r, k')"
      using Cons.prems(2) by (auto simp: segment_def loadable_def Let_def)
    then show ?thesis using Cons.IH [OF Cons.prems(1)] False by auto
  next
    case True
    let ?ph = "segment d eh i"
    obtain e k1 where c: "checked_add (p_offset ?ph) (p_filesz ?ph) = Some e" "\<not> p_memsz ?ph < p_filesz ?ph" "unat e \<le> length d"
      and l: "load_pages root d ?ph (segment_start ?ph) [0..<segment_pages ?ph] k = (Ok (), k1)"
      and r: "load_segments root d eh is (min lo (segment_start ?ph)) (max hi (segment_end ?ph)) k1 = (Ok r, k')"
      using Cons.prems(2) True
      by (auto simp: segment_def loadable_def segment_pages_def Let_def try_k_Ok_iff split: option.splits if_splits)
    have f: "in_file d ?ph" using checked_add_Some(1) [OF c(1)] c(3) unat_less_64 [of e] by (simp add: in_file_def)
    note p = load_pages_Ok [OF Cons.prems(1) f l]
    then have g: "pt_grown root k k1" by blast
    note q = Cons.IH [OF pt_grown_wf [OF g] r]
    then have g': "pt_grown root k1 k'" by blast
    have "loaded k root d ?ph (segment_start ?ph + of_nat j * PAGE_SIZE) k'" if "j < segment_pages ?ph" for j
      using p that loaded_grown [OF _ g'] by simp
    then show ?thesis
      using q f c(2) pt_grown_trans [OF g g'] loaded_before [OF _ g] by (auto simp: not_less)
  qed
qed (simp add: pt_grown_refl)

text \<open>C25: \<open>elf_load\<close> on a verified header builds the image the file describes and stays inside its buffers.
  When it succeeds, every program header lies inside the file; for every loadable segment the part taken from
  the file lies inside the file, and every page of the segment is mapped, with the permissions of the segment,
  to a frame that was free, which holds the bytes of the file at their addresses and zeros around them (the
  last page of the 64-bit address space apart, which the code never fills). Memory in use that is not a table of
  the new address space is not written.\<close>

theorem elf_load_image:
  assumes "pt_wf k root" and "elf_verify eh (length d)" and "elf_load root d eh k = (Ok (entry, base, sz), k')"
    and "i < unat (e_phnum eh)" and "ph = segment d eh i" and "loadable ph" and "j < segment_pages ph"
    and "va = segment_start ph + of_nat j * PAGE_SIZE" and "va + PAGE_SIZE \<noteq> 0"
  shows "unat (e_phoff eh + of_nat i * ucast (e_phentsize eh)) + PHDR_SIZE \<le> length d \<and>
    unat (p_offset ph) + unat (p_filesz ph) \<le> length d \<and> p_filesz ph \<le> p_memsz ph \<and> entry = e_entry eh \<and>
    (\<exists>n pte. n \<notin> used_frames (pages k) \<and> n \<in> used_frames (pages k') \<and>
       leaf (phys k') root va = Some pte \<and> pte AND 0x3FF = segment_flags ph OR PTE_V \<and>
       (\<forall>off < PAGE_SIZE. virt_to_phys root (va + off) k' = Some (n + off) \<and>
          read_byte (phys k') (n + off) = segment_byte d ph (va + off))) \<and>
    (\<forall>x. page_base x \<in> used_frames (pages k) \<and> page_base x \<notin> tables (phys k) root \<longrightarrow> phys k' x = phys k x)"
proof -
  obtain lo hi where l: "load_segments root d eh [0..<unat (e_phnum eh)] (- 1) 0 k = (Ok (lo, hi), k')" and en: "entry = e_entry eh"
    using assms(3) by (auto simp: elf_load_def try_k_Ok_iff split: if_splits)
  note s = load_segments_Ok [OF assms(1) l]
  then have f: "in_file d ph" "p_filesz ph \<le> p_memsz ph" and ld: "loaded k root d ph va k'" and g: "pt_grown root k k'"
    using assms(4-8) by auto
  obtain n c e where n: "n \<notin> used_frames (pages k)" "n \<in> used_frames (pages k')" "page_aligned n"
    and e: "leaf (phys k') root va = Some e" "pte_to_pa e = n" "e AND 0x3FF = segment_flags ph OR PTE_V"
    and c: "\<forall>x. page_base x = n \<longrightarrow> phys k' x = c x"
    and b: "\<forall>off < PAGE_SIZE. read_byte c (n + off) = segment_byte d ph (va + off)" and al: "page_aligned va"
    using ld assms(9) unfolding loaded_def page_is_def by blast
  have "virt_to_phys root (va + off) k' = Some (n + off) \<and> read_byte (phys k') (n + off) = segment_byte d ph (va + off)"
    if off: "off < PAGE_SIZE" for off
    using offset_in_page [OF al off] leaf_page [of "va + off" va] e b off
      read_byte_page [OF c page_base_add [OF n(3) off]] by (simp add: virt_to_phys_leaf)
  moreover have "phys k' x = phys k x" if "page_base x \<in> used_frames (pages k)" "page_base x \<notin> tables (phys k) root" for x
    using g that unfolding pt_grown_def pt_keep_def tables_def by blast
  ultimately show ?thesis
    using phdr_in_file [OF assms(2,4)] f n e en by (auto simp: in_file_def)
qed

text \<open>A file of one segment: 4 bytes at offset 120, loaded at \<open>0x10000\<close>.\<close>

definition tiny_elf :: "u8 list" where
  "tiny_elf = ELF_MAGIC @ replicate 12 0 @ le_bytes 2 ET_EXEC @ le_bytes 2 EM_RISCV @ le_bytes 4 (1 :: u32) @
     le_bytes 8 (0x10000 :: u64) @ le_bytes 8 (64 :: u64) @ le_bytes 8 (0 :: u64) @ le_bytes 4 (0 :: u32) @
     le_bytes 2 (64 :: u16) @ le_bytes 2 (56 :: u16) @ le_bytes 2 (1 :: u16) @ replicate 6 0 @
     le_bytes 4 PT_LOAD @ le_bytes 4 (5 :: u32) @ le_bytes 8 (120 :: u64) @ le_bytes 8 (0x10000 :: u64) @
     le_bytes 8 (0x10000 :: u64) @ le_bytes 8 (4 :: u64) @ le_bytes 8 (4 :: u64) @ le_bytes 8 (4096 :: u64) @
     [1, 2, 3, 4]"

theorem elf_load_image_witness:
  "\<exists>k' n. elf_load 0x80400000 tiny_elf (read_ehdr tiny_elf) machine1 = (Ok (0x10000, 0x10000, 0x1000), k') \<and>
     virt_to_phys 0x80400000 0x10001 k' = Some (n + 1) \<and> read_byte (phys k') (n + 1) = 2 \<and>
     virt_to_phys 0x80400000 0x10FFF k' = Some (n + 0xFFF) \<and> read_byte (phys k') (n + 0xFFF) = 0"
proof -
  let ?eh = "read_ehdr tiny_elf" and ?ph = "segment tiny_elf (read_ehdr tiny_elf) 0"
  have v: "elf_verify ?eh (length tiny_elf)" by code_simp
  have "fst (elf_load 0x80400000 tiny_elf ?eh machine1) = Ok (0x10000, 0x10000, 0x1000)" by code_simp
  then obtain k' where l: "elf_load 0x80400000 tiny_elf ?eh machine1 = (Ok (0x10000, 0x10000, 0x1000), k')"
    by (cases "elf_load 0x80400000 tiny_elf ?eh machine1") simp
  have n: "0 < unat (e_phnum ?eh)" "loadable ?ph" "0 < segment_pages ?ph" by code_simp+
  have va: "0x10000 = segment_start ?ph + of_nat 0 * PAGE_SIZE" "(0x10000 :: usize) + PAGE_SIZE \<noteq> 0" by code_simp+
  have b: "segment_byte tiny_elf ?ph 0x10001 = 2" "segment_byte tiny_elf ?ph 0x10FFF = 0" by code_simp+
  have off: "(1 :: usize) < PAGE_SIZE" "(0xFFF :: usize) < PAGE_SIZE" by (simp_all add: layout)
  obtain m where "\<forall>off < PAGE_SIZE. virt_to_phys 0x80400000 (0x10000 + off) k' = Some (m + off) \<and>
      read_byte (phys k') (m + off) = segment_byte tiny_elf ?ph (0x10000 + off)"
    using elf_load_image [OF machine1_wf(1) v l n(1) refl n(2,3) va] by blast
  from this [rule_format, OF off(1)] this [rule_format, OF off(2)] show ?thesis
    using l b by auto
qed

end
