(* ===== verification/Fat_Core.thy ===== *)
theory Fat_Core
  imports Byte_Codec
begin

text \<open>
  The RAM disk and the allocation table of the file server,
  \<open>src/user/programs/fs-server/src/main.rs\<close>. The disk is a function from byte offsets; only the
  offsets below \<open>RAMDISK_SIZE\<close> are read or written. Every buffer of the code that is read from or
  written to the disk is one block. Loops over cluster chains take a fuel, the number of clusters
  they may visit: a chain with a cycle makes the code loop for ever, which is \<open>Runaway\<close>.
\<close>

section \<open>The RAM disk\<close>

definition BLOCK_SIZE :: nat where [layout]: "BLOCK_SIZE = 512"
definition RAMDISK_SIZE :: nat where [layout]: "RAMDISK_SIZE = 4194304"
definition RAMDISK_SECTORS :: nat where [layout]: "RAMDISK_SECTORS = 8192"

type_synonym disk = "nat \<Rightarrow> u8"
type_synonym block = "u8 list"

definition zero_block :: block where
  "zero_block = replicate BLOCK_SIZE 0"

text \<open>\<open>sector as usize * BLOCK_SIZE\<close> and the bounds check, in 64-bit arithmetic.\<close>

definition disk_offset :: "u64 \<Rightarrow> usize" where
  "disk_offset sector = sector * of_nat BLOCK_SIZE"

definition in_disk :: "u64 \<Rightarrow> bool" where
  "in_disk sector \<longleftrightarrow> disk_offset sector + of_nat BLOCK_SIZE \<le> of_nat RAMDISK_SIZE"

definition disk_read :: "u64 \<Rightarrow> disk \<Rightarrow> block option" where
  "disk_read sector d =
     (if in_disk sector
      then Some (map (\<lambda>i. d (unat (disk_offset sector) + i)) [0..<BLOCK_SIZE])
      else None)"

definition disk_write :: "u64 \<Rightarrow> block \<Rightarrow> disk \<Rightarrow> bool \<times> disk" where
  "disk_write sector buf d =
     (if in_disk sector
      then (True, \<lambda>x. let o' = unat (disk_offset sector) in
                      if o' \<le> x \<and> x < o' + length buf then buf ! (x - o') else d x)
      else (False, d))"

section \<open>The parameter block\<close>

record Fat32Bpb =
  jmp_boot :: "u8 list"
  oem_name :: "u8 list"
  bytes_per_sector :: u16
  sectors_per_cluster :: u8
  reserved_sector_count :: u16
  num_fats :: u8
  root_entry_count :: u16
  total_sectors_16 :: u16
  media :: u8
  fat_size_16 :: u16
  sectors_per_track :: u16
  num_heads :: u16
  hidden_sectors :: u32
  total_sectors_32 :: u32
  fat_size_32 :: u32
  ext_flags :: u16
  fs_version :: u16
  bpb_root_cluster :: u32
  fs_info :: u16
  backup_boot_sector :: u16
  bpb_reserved :: "u8 list"
  drive_number :: u8
  reserved1 :: u8
  boot_signature :: u8
  volume_serial :: u32
  volume_label :: "u8 list"
  fs_type :: "u8 list"

definition read_bpb :: "block \<Rightarrow> Fat32Bpb" where
  "read_bpb b = \<lparr>
     jmp_boot = take 3 b, oem_name = take 8 (drop 3 b), bytes_per_sector = le16 11 b,
     sectors_per_cluster = b ! 13, reserved_sector_count = le16 14 b, num_fats = b ! 16,
     root_entry_count = le16 17 b, total_sectors_16 = le16 19 b, media = b ! 21, fat_size_16 = le16 22 b,
     sectors_per_track = le16 24 b, num_heads = le16 26 b, hidden_sectors = le32 28 b,
     total_sectors_32 = le32 32 b, fat_size_32 = le32 36 b, ext_flags = le16 40 b, fs_version = le16 42 b,
     bpb_root_cluster = le32 44 b, fs_info = le16 48 b, backup_boot_sector = le16 50 b,
     bpb_reserved = take 12 (drop 52 b), drive_number = b ! 64, reserved1 = b ! 65, boot_signature = b ! 66,
     volume_serial = le32 67 b, volume_label = take 11 (drop 71 b), fs_type = take 8 (drop 82 b)\<rparr>"

definition FAT32_EOC :: u32 where "FAT32_EOC = 0x0FFFFFF8"
definition FAT32_FREE :: u32 where "FAT32_FREE = 0"

record Fat32Fs =
  fs_bpb :: Fat32Bpb
  fat_start :: u64
  data_start :: u64
  total_clusters :: u32
  root_cluster :: u32

text \<open>\<open>Fat32Fs::open\<close>. The division panics when a cluster has no sectors.\<close>

definition fs_open :: "block \<Rightarrow> Fat32Fs option outcome" where
  "fs_open b =
     (let bpb = read_bpb b in
      if unat (bytes_per_sector bpb) \<noteq> BLOCK_SIZE then Done None
      else if root_entry_count bpb \<noteq> 0 \<or> fat_size_16 bpb \<noteq> 0 then Done None
      else if num_fats bpb = 0 \<or> fat_size_32 bpb = 0 then Done None
      else let fs = ucast (reserved_sector_count bpb);
               ds = fs + ucast (num_fats bpb) * ucast (fat_size_32 bpb) in
      if sectors_per_cluster bpb = 0 then Panic
      else Done (Some \<lparr>fs_bpb = bpb, fat_start = fs, data_start = ds,
             total_clusters = ucast ((ucast (total_sectors_32 bpb) - ds) div (ucast (sectors_per_cluster bpb) :: u64)),
             root_cluster = bpb_root_cluster bpb\<rparr>))"

text \<open>Sectors per cluster as a count.\<close>

definition spc :: "Fat32Fs \<Rightarrow> nat" where
  "spc fs = unat (sectors_per_cluster (fs_bpb fs))"

definition cluster_to_sector :: "Fat32Fs \<Rightarrow> u32 \<Rightarrow> u64" where
  "cluster_to_sector fs cluster = data_start fs + (ucast cluster - 2) * ucast (sectors_per_cluster (fs_bpb fs))"

section \<open>The allocation table\<close>

definition fat_sector :: "Fat32Fs \<Rightarrow> u32 \<Rightarrow> u64" where
  "fat_sector fs cluster = fat_start fs + (ucast cluster * 4) div of_nat BLOCK_SIZE"

definition fat_index :: "u32 \<Rightarrow> nat" where
  "fat_index cluster = unat ((ucast cluster * 4 :: u64) mod of_nat BLOCK_SIZE)"

definition fat_next :: "Fat32Fs \<Rightarrow> u32 \<Rightarrow> disk \<Rightarrow> u32 option" where
  "fat_next fs cluster d =
     (case disk_read (fat_sector fs cluster) d of
        None \<Rightarrow> None
      | Some buf \<Rightarrow> Some (le32 (fat_index cluster) buf AND 0x0FFFFFFF))"

text \<open>\<open>buf[off..off + len].copy_from_slice(src)\<close>.\<close>

definition splice :: "nat \<Rightarrow> u8 list \<Rightarrow> u8 list \<Rightarrow> u8 list" where
  "splice off src buf = take off buf @ src @ drop (off + length src) buf"

definition fat_set :: "Fat32Fs \<Rightarrow> u32 \<Rightarrow> u32 \<Rightarrow> disk \<Rightarrow> bool \<times> disk" where
  "fat_set fs cluster value d =
     (case disk_read (fat_sector fs cluster) d of
        None \<Rightarrow> (False, d)
      | Some buf \<Rightarrow> disk_write (fat_sector fs cluster) (splice (fat_index cluster) (le_bytes 4 value) buf) d)"

definition find_free_cluster :: "Fat32Fs \<Rightarrow> disk \<Rightarrow> u32 option" where
  "find_free_cluster fs d =
     map_option of_nat
       (List.find (\<lambda>c. fat_next fs (of_nat c) d = Some FAT32_FREE) [2..<unat (total_clusters fs)])"

text \<open>The loop that clears the sectors of a cluster; failed writes are ignored.\<close>

definition clear_cluster :: "Fat32Fs \<Rightarrow> u32 \<Rightarrow> disk \<Rightarrow> disk" where
  "clear_cluster fs cluster d =
     fold (\<lambda>i d. snd (disk_write (cluster_to_sector fs cluster + of_nat i) zero_block d)) [0..<spc fs] d"

definition alloc_cluster :: "Fat32Fs \<Rightarrow> disk \<Rightarrow> u32 option \<times> disk" where
  "alloc_cluster fs d =
     (case find_free_cluster fs d of
        None \<Rightarrow> (None, d)
      | Some cluster \<Rightarrow>
          (case fat_set fs cluster FAT32_EOC d of
             (False, d1) \<Rightarrow> (None, d1)
           | (True, d1) \<Rightarrow> (Some cluster, clear_cluster fs cluster d1)))"

text \<open>\<open>Some(next) if next >= 2 && next < FAT32_EOC\<close>: the chain goes on.\<close>

definition chain_next :: "Fat32Fs \<Rightarrow> u32 \<Rightarrow> disk \<Rightarrow> u32 option" where
  "chain_next fs cluster d =
     (case fat_next fs cluster d of
        Some next \<Rightarrow> if 2 \<le> next \<and> next < FAT32_EOC then Some next else None
      | None \<Rightarrow> None)"

text \<open>\<open>free_chain\<close>: the number of clusters freed.\<close>

fun free_chain_loop :: "nat \<Rightarrow> Fat32Fs \<Rightarrow> u32 \<Rightarrow> u32 \<Rightarrow> disk \<Rightarrow> (u32 \<times> disk) outcome" where
  "free_chain_loop 0 fs cur count d = Runaway"
| "free_chain_loop (Suc n) fs cur count d =
     (case fat_next fs cur d of
        None \<Rightarrow> Done (count, d)
      | Some next \<Rightarrow>
          let d' = snd (fat_set fs cur FAT32_FREE d) in
          if 2 \<le> next \<and> next < FAT32_EOC then free_chain_loop n fs next (count + 1) d'
          else Done (count + 1, d'))"

definition free_chain :: "nat \<Rightarrow> Fat32Fs \<Rightarrow> u32 \<Rightarrow> disk \<Rightarrow> (u32 \<times> disk) outcome" where
  "free_chain n fs cluster d = (if cluster < 2 then Done (0, d) else free_chain_loop n fs cluster 0 d)"

end
