(* ===== verification/Fat_Table.thy ===== *)
theory Fat_Table
  imports Fat_Core
begin

text \<open>
  The allocation table and the clusters of a volume as the file server formats it
  (\<open>src/user/programs/fs-server/src/main.rs\<close>): the laws of reading and writing both, as the locale
  \<open>fat_volume\<close>, the cluster chains, and what \<open>alloc_cluster\<close> and \<open>free_chain\<close> do to them.
\<close>

section \<open>Sectors\<close>

definition sector_data :: "disk \<Rightarrow> nat \<Rightarrow> block" where
  "sector_data d s = map (\<lambda>i. d (s * BLOCK_SIZE + i)) [0..<BLOCK_SIZE]"

definition put_sector :: "nat \<Rightarrow> block \<Rightarrow> disk \<Rightarrow> disk" where
  "put_sector s b d = (\<lambda>x. if s * BLOCK_SIZE \<le> x \<and> x < s * BLOCK_SIZE + BLOCK_SIZE then b ! (x - s * BLOCK_SIZE) else d x)"

lemma length_sector_data [simp]: "length (sector_data d s) = BLOCK_SIZE"
  by (simp add: sector_data_def)

lemma sector_data_put:
  assumes "length b = BLOCK_SIZE"
  shows "sector_data (put_sector s b d) s' = (if s' = s then b else sector_data d s')"
proof (cases "s' = s")
  case True
  then show ?thesis using assms by (auto simp: sector_data_def put_sector_def intro: nth_equalityI)
next
  case False
  have "put_sector s b d (s' * BLOCK_SIZE + i) = d (s' * BLOCK_SIZE + i)" if "i < BLOCK_SIZE" for i
  proof -
    have "(s' * BLOCK_SIZE + i) div BLOCK_SIZE = s'" using that by (simp add: layout)
    moreover have "(s * BLOCK_SIZE + j) div BLOCK_SIZE = s" if "j < BLOCK_SIZE" for j using that by (simp add: layout)
    ultimately have "\<not> (s * BLOCK_SIZE \<le> s' * BLOCK_SIZE + i \<and> s' * BLOCK_SIZE + i < s * BLOCK_SIZE + BLOCK_SIZE)"
      using False by (metis add_less_cancel_left le_Suc_ex)
    then show ?thesis unfolding put_sector_def by (rule if_not_P)
  qed
  then show ?thesis using False by (auto simp: sector_data_def)
qed

lemma disk_offset_good:
  assumes "unat s < RAMDISK_SECTORS"
  shows "in_disk s" and "unat (disk_offset s) = unat s * BLOCK_SIZE"
proof -
  have lt: "unat s * 512 < 4194304" using assms by (simp add: layout)
  have eq: "unat (disk_offset s) = unat s * 512"
    using lt by (simp add: disk_offset_def layout unat_word_ariths)
  then show "unat (disk_offset s) = unat s * BLOCK_SIZE" by (simp add: layout)
  have "unat (disk_offset s + 512) = unat s * 512 + 512" using lt by (simp add: unat_word_ariths eq)
  then show "in_disk s" using assms by (simp add: in_disk_def word_le_nat_alt layout)
qed

lemma disk_read_good: "unat s < RAMDISK_SECTORS \<Longrightarrow> disk_read s d = Some (sector_data d (unat s))"
  by (simp add: disk_read_def disk_offset_good sector_data_def)

lemma disk_write_good:
  "unat s < RAMDISK_SECTORS \<Longrightarrow> length b = BLOCK_SIZE \<Longrightarrow> disk_write s b d = (True, put_sector (unat s) b d)"
  by (auto simp: disk_write_def disk_offset_good put_sector_def Let_def)

section \<open>Entries of the table\<close>

lemma length_splice: "off + length src \<le> length buf \<Longrightarrow> length (splice off src buf) = length buf"
  by (simp add: splice_def)

text \<open>A slice of a block after a copy into it.\<close>

lemma slice_splice_same: "off + length src \<le> length buf \<Longrightarrow> take (length src) (drop off (splice off src buf)) = src"
  by (simp add: splice_def)

lemma slice_splice_other:
  assumes "off + length src \<le> length buf" and "i + w \<le> off \<or> off + length src \<le> i"
  shows "take w (drop i (splice off src buf)) = take w (drop i buf)"
proof (cases "i + w \<le> off")
  case True
  have "take w (drop i (take off buf @ x)) = take w (drop i buf)" for x
  proof -
    have "take w (drop i (take off buf @ x)) = take w (drop i (take off buf))" using True assms(1) by simp
    also have "\<dots> = take w (drop i buf)" using True by (simp add: drop_take min_def)
    finally show ?thesis .
  qed
  then show ?thesis unfolding splice_def .
next
  case False
  then have "off + length src \<le> i" using assms(2) by simp
  then obtain k where "i = off + length src + k" by (auto simp: le_iff_add)
  then show ?thesis using assms(1) by (simp add: splice_def add.commute add.left_commute)
qed

lemma le32_splice_same: "off + 4 \<le> length buf \<Longrightarrow> le32 off (splice off (le_bytes 4 v) buf) = v"
  using slice_splice_same [of off "le_bytes 4 v" buf] by (simp add: le32_def le_word_le_bytes)

lemma le32_splice_other:
  "off + length src \<le> length buf \<Longrightarrow> i + 4 \<le> off \<or> off + length src \<le> i \<Longrightarrow> le32 i (splice off src buf) = le32 i buf"
  by (simp add: le32_def slice_splice_other)

text \<open>The volumes the server makes: one sector per cluster, the table before the data, all of it on the disk.\<close>

definition fs_ok :: "Fat32Fs \<Rightarrow> bool" where
  "fs_ok fs \<longleftrightarrow> sectors_per_cluster (fs_bpb fs) = 1 \<and>
     unat (fat_start fs) * BLOCK_SIZE + 4 * (unat (total_clusters fs) + 2) \<le> unat (data_start fs) * BLOCK_SIZE \<and>
     unat (data_start fs) + unat (total_clusters fs) \<le> RAMDISK_SECTORS"

definition valid_cluster :: "Fat32Fs \<Rightarrow> u32 \<Rightarrow> bool" where
  "valid_cluster fs c \<longleftrightarrow> 2 \<le> unat c \<and> unat c < unat (total_clusters fs) + 2"

definition fat_get :: "Fat32Fs \<Rightarrow> u32 \<Rightarrow> disk \<Rightarrow> u32" where
  "fat_get fs c d = the (fat_next fs c d)"

definition fat_put :: "Fat32Fs \<Rightarrow> u32 \<Rightarrow> u32 \<Rightarrow> disk \<Rightarrow> disk" where
  "fat_put fs c v d = snd (fat_set fs c v d)"

definition cluster_data :: "Fat32Fs \<Rightarrow> u32 \<Rightarrow> disk \<Rightarrow> block" where
  "cluster_data fs c d = sector_data d (unat (cluster_to_sector fs c))"

definition put_cluster :: "Fat32Fs \<Rightarrow> u32 \<Rightarrow> block \<Rightarrow> disk \<Rightarrow> disk" where
  "put_cluster fs c b d = snd (disk_write (cluster_to_sector fs c) b d)"

lemma cluster_sector:
  assumes "fs_ok fs" and "valid_cluster fs c"
  shows "unat (cluster_to_sector fs c) = unat (data_start fs) + (unat c - 2)"
    and "unat (cluster_to_sector fs c) < RAMDISK_SECTORS"
proof -
  have c: "2 \<le> unat c" "unat c < unat (total_clusters fs) + 2" using assms(2) by (simp_all add: valid_cluster_def)
  have le: "(2 :: u64) \<le> ucast c" using c(1) by (simp add: word_le_nat_alt)
  have sub: "unat (ucast c - 2 :: u64) = unat c - 2" using unat_sub [OF le] by simp
  have "unat c - 2 < unat (total_clusters fs)" using c by linarith
  then have "unat (data_start fs) + (unat c - 2) < RAMDISK_SECTORS" using assms(1) unfolding fs_ok_def by linarith
  moreover have "RAMDISK_SECTORS < 2 ^ 64" by (simp add: layout)
  ultimately show "unat (cluster_to_sector fs c) = unat (data_start fs) + (unat c - 2)"
    using assms(1) sub by (simp add: cluster_to_sector_def fs_ok_def unat_word_ariths)
  then show "unat (cluster_to_sector fs c) < RAMDISK_SECTORS"
    using \<open>unat (data_start fs) + (unat c - 2) < RAMDISK_SECTORS\<close> by simp
qed

lemma fat_sector_index:
  assumes "fs_ok fs" and "valid_cluster fs c"
  shows "unat (fat_sector fs c) = unat (fat_start fs) + unat c div 128" and "fat_index c = 4 * (unat c mod 128)"
    and "unat (fat_sector fs c) < unat (data_start fs)" and "unat (fat_sector fs c) < RAMDISK_SECTORS"
proof -
  have c: "unat c < unat (total_clusters fs) + 2" using assms(2) by (simp add: valid_cluster_def)
  have t: "unat (total_clusters fs) \<le> 8192" using assms(1) by (simp add: fs_ok_def layout)
  have m4: "unat (ucast c * 4 :: u64) = unat c * 4" using c t by (simp add: unat_word_ariths)
  show "fat_index c = 4 * (unat c mod 128)"
    using mult_mod_right [of 4 "unat c" 128] by (simp add: fat_index_def layout unat_mod m4 mult.commute)
  have d: "unat ((ucast c * 4 :: u64) div of_nat BLOCK_SIZE) = unat c div 128"
    by (simp add: layout unat_div m4 div_mult2_eq [of _ 4 128, simplified])
  have "512 * (unat (fat_start fs) + unat c div 128) \<le> unat (fat_start fs) * 512 + 4 * unat c" by simp
  also have "\<dots> < unat (data_start fs) * 512" using c assms(1) by (simp add: fs_ok_def layout)
  finally have lt: "unat (fat_start fs) + unat c div 128 < unat (data_start fs)" by simp
  moreover have "unat (data_start fs) < 2 ^ 64" using unsigned_less [of "data_start fs"] by simp
  ultimately have "unat (fat_start fs) + unat ((ucast c * 4 :: u64) div of_nat BLOCK_SIZE) < 2 ^ 64" unfolding d by linarith
  then have "unat (fat_sector fs c) = unat (fat_start fs) + unat ((ucast c * 4 :: u64) div of_nat BLOCK_SIZE)"
    unfolding fat_sector_def by (subst unat_add_lem [THEN iffD1]) simp_all
  then show eq: "unat (fat_sector fs c) = unat (fat_start fs) + unat c div 128" unfolding d .
  then show "unat (fat_sector fs c) < unat (data_start fs)" using lt by simp
  then show "unat (fat_sector fs c) < RAMDISK_SECTORS" using assms(1) by (simp add: fs_ok_def)
qed

lemma fat_next_ok:
  assumes "fs_ok fs" and "valid_cluster fs c"
  shows "fat_next fs c d = Some (fat_get fs c d)"
    and "fat_get fs c d = le32 (4 * (unat c mod 128)) (sector_data d (unat (fat_start fs) + unat c div 128)) AND 0x0FFFFFFF"
  using fat_sector_index [OF assms] by (simp_all add: fat_get_def fat_next_def disk_read_good)

lemma fat_set_ok:
  assumes "fs_ok fs" and "valid_cluster fs c"
  shows "fat_set fs c v d = (True, fat_put fs c v d)"
    and "fat_put fs c v d = put_sector (unat (fat_start fs) + unat c div 128)
           (splice (4 * (unat c mod 128)) (le_bytes 4 v) (sector_data d (unat (fat_start fs) + unat c div 128))) d"
proof -
  have i: "4 * (unat c mod 128) + length (le_bytes 4 v :: u8 list) \<le> length (sector_data d s)" for s
    using mod_less_divisor [of 128 "unat c"] by (simp add: layout)
  show "fat_set fs c v d = (True, fat_put fs c v d)"
    "fat_put fs c v d = put_sector (unat (fat_start fs) + unat c div 128)
           (splice (4 * (unat c mod 128)) (le_bytes 4 v) (sector_data d (unat (fat_start fs) + unat c div 128))) d"
    using fat_sector_index [OF assms] by (simp_all add: fat_put_def fat_set_def disk_read_good disk_write_good length_splice [OF i])
qed

lemma put_cluster_ok:
  assumes "fs_ok fs" and "valid_cluster fs c" and "length b = BLOCK_SIZE"
  shows "disk_write (cluster_to_sector fs c) b d = (True, put_cluster fs c b d)"
    and "put_cluster fs c b d = put_sector (unat (cluster_to_sector fs c)) b d"
    and "disk_read (cluster_to_sector fs c) d = Some (cluster_data fs c d)"
  using cluster_sector [OF assms(1,2)] assms(3) by (simp_all add: put_cluster_def cluster_data_def disk_read_good disk_write_good)

section \<open>The laws of a volume\<close>

text \<open>A table of 28-bit entries and a block per cluster, which do not disturb each other. The first
  argument of every operation is the description of the volume.\<close>

locale fat_volume =
  fixes ok :: "'f \<Rightarrow> bool" and valid :: "'f \<Rightarrow> u32 \<Rightarrow> bool"
    and get :: "'f \<Rightarrow> u32 \<Rightarrow> 'd \<Rightarrow> u32" and set_next :: "'f \<Rightarrow> u32 \<Rightarrow> u32 \<Rightarrow> 'd \<Rightarrow> 'd"
    and block :: "'f \<Rightarrow> u32 \<Rightarrow> 'd \<Rightarrow> u8 list" and put :: "'f \<Rightarrow> u32 \<Rightarrow> u8 list \<Rightarrow> 'd \<Rightarrow> 'd"
  assumes get_set: "ok f \<Longrightarrow> valid f c \<Longrightarrow> valid f c' \<Longrightarrow>
      get f c' (set_next f c v d) = (if c' = c then v AND 0x0FFFFFFF else get f c' d)"
    and block_set: "ok f \<Longrightarrow> valid f c \<Longrightarrow> valid f c' \<Longrightarrow> block f c' (set_next f c v d) = block f c' d"
    and get_put: "ok f \<Longrightarrow> valid f c \<Longrightarrow> valid f c' \<Longrightarrow> length b = BLOCK_SIZE \<Longrightarrow> get f c' (put f c b d) = get f c' d"
    and block_put: "ok f \<Longrightarrow> valid f c \<Longrightarrow> valid f c' \<Longrightarrow> length b = BLOCK_SIZE \<Longrightarrow>
      block f c' (put f c b d) = (if c' = c then b else block f c' d)"

text \<open>A chain in a table: each entry names the next cluster and the last one holds an end mark.\<close>

fun chain_of :: "(u32 \<Rightarrow> u32) \<Rightarrow> u32 list \<Rightarrow> bool" where
  "chain_of g [] = False"
| "chain_of g [c] = (FAT32_EOC \<le> g c)"
| "chain_of g (c # c' # cs) = (g c = c' \<and> 2 \<le> c' \<and> c' < FAT32_EOC \<and> chain_of g (c' # cs))"

lemma chain_of_cong: "(\<And>c. c \<in> set cs \<Longrightarrow> g c = g' c) \<Longrightarrow> chain_of g cs = chain_of g' cs"
  by (induction g cs rule: chain_of.induct) auto

lemma chain_of_ne: "chain_of g cs \<Longrightarrow> cs \<noteq> []"
  by (cases cs) auto

lemma chain_of_unique: "chain_of g (c # xs) \<Longrightarrow> chain_of g (c # ys) \<Longrightarrow> xs = ys"
proof (induction xs arbitrary: c ys)
  case Nil
  then show ?case by (cases ys) auto
next
  case (Cons x xs)
  then show ?case by (cases ys) auto
qed

lemma chain_of_tl: "chain_of g (c # c' # cs) \<Longrightarrow> chain_of g (c' # cs)"
  by simp

lemma chain_of_drop: "chain_of g cs \<Longrightarrow> k < length cs \<Longrightarrow> chain_of g (drop k cs)"
proof (induction k arbitrary: cs)
  case (Suc k)
  then obtain c c' ds where "cs = c # c' # ds" by (metis Suc_less_eq2 length_Suc_conv neq_Nil_conv list.size(3) not_less_zero)
  then show ?case using Suc by simp
qed simp

lemma chain_of_distinct: "chain_of g cs \<Longrightarrow> distinct cs"
proof (induction cs)
  case (Cons c cs)
  show ?case
  proof (cases cs)
    case Nil
    then show ?thesis by simp
  next
    case (Cons c' ds)
    have "c \<notin> set cs"
    proof
      assume "c \<in> set cs"
      then obtain k where k: "k < length cs" "cs ! k = c" by (auto simp: in_set_conv_nth)
      have "chain_of g (drop k cs)" using chain_of_drop [of g cs k] Cons.prems \<open>cs = c' # ds\<close> k(1) by simp
      then have "chain_of g (c # drop (Suc k) cs)" using k by (simp add: Cons_nth_drop_Suc [symmetric])
      then have "drop (Suc k) cs = cs" using chain_of_unique Cons.prems by metis
      then have "length (drop (Suc k) cs) = length cs" by simp
      then show False using k(1) by simp
    qed
    then show ?thesis using Cons.IH Cons.prems \<open>cs = c' # ds\<close> by simp
  qed
qed simp

lemma chain_of_snoc:
  assumes "chain_of g cs" and "c \<notin> set cs" and "2 \<le> c" and "c < FAT32_EOC" and "FAT32_EOC \<le> e"
  shows "chain_of (g(last cs := c, c := e)) (cs @ [c])"
  using assms
proof (induction g cs rule: chain_of.induct)
  case (3 g a b cs)
  have d: "distinct (a # b # cs)" using chain_of_distinct [OF 3(2)] .
  then have "a \<noteq> last (b # cs)" by auto
  moreover have "a \<noteq> c" using 3(3) by auto
  ultimately show ?case using 3 by simp
qed auto

text \<open>The links of a chain hold values a table of 28-bit entries can hold.\<close>

lemma eoc_mask: "FAT32_EOC AND 0x0FFFFFFF = FAT32_EOC"
  by (simp add: FAT32_EOC_def)

lemma small_mask:
  assumes "(c :: u32) < FAT32_EOC"
  shows "c AND 0x0FFFFFFF = c"
proof -
  have m: "(0x0FFFFFFF :: u32) = mask 28" by (simp add: mask_numeral)
  have "unat c < 2 ^ 28" using assms by (simp add: FAT32_EOC_def word_less_nat_alt)
  then have "take_bit 28 c = c" by (simp add: word_unat_eq_iff unsigned_take_bit_eq take_bit_nat_eq_self)
  then show ?thesis unfolding m by (simp add: take_bit_eq_mask)
qed

context fat_volume
begin

text \<open>A free cluster becomes the end of a chain.\<close>

lemma extend_chain:
  assumes f: "ok f" "\<And>c. c \<in> set cs \<Longrightarrow> valid f c" "valid f new"
    and ch: "chain_of (\<lambda>c. get f c d) cs" and new: "get f new d = 0" "2 \<le> new" "new < FAT32_EOC"
    and b: "length b = BLOCK_SIZE"
  defines "d' \<equiv> set_next f (last cs) new (put f new b (set_next f new FAT32_EOC d))"
  shows "chain_of (\<lambda>c. get f c d') (cs @ [new])" and "block f new d' = b" and "new \<notin> set cs"
    and "\<And>c. valid f c \<Longrightarrow> c \<noteq> new \<Longrightarrow> block f c d' = block f c d"
    and "\<And>c. valid f c \<Longrightarrow> c \<noteq> new \<Longrightarrow> c \<noteq> last cs \<Longrightarrow> get f c d' = get f c d"
    and "get f new d' = FAT32_EOC"
proof -
  have ne: "cs \<noteq> []" using ch by (rule chain_of_ne)
  have lst: "valid f (last cs)" using f(2) ne by simp
  have nz: "get f c d \<noteq> 0" if "c \<in> set cs" for c
    using ch that
  proof (induction "\<lambda>c. get f c d" cs rule: chain_of.induct)
    case (2 x)
    then show ?case by (auto simp: FAT32_EOC_def)
  next
    case (3 a b cs)
    then show ?case by auto
  qed simp
  show nin: "new \<notin> set cs" using nz new(1) by auto
  then have nl: "new \<noteq> last cs" using ne by auto
  have g: "get f c d' = ((\<lambda>c. get f c d)(last cs := new, new := FAT32_EOC)) c" if "valid f c" for c
    using that f(1,3) lst nl b by (simp add: d'_def get_set get_put small_mask [OF new(3)] eoc_mask)
  have "chain_of ((\<lambda>c. get f c d)(last cs := new, new := FAT32_EOC)) (cs @ [new])"
    by (rule chain_of_snoc [OF ch nin new(2,3)]) simp
  then show "chain_of (\<lambda>c. get f c d') (cs @ [new])"
    by (subst chain_of_cong) (use g f in auto)
  show "block f new d' = b" using f(1,3) lst nl b by (simp add: d'_def block_set block_put)
  show "block f c d' = block f c d" if "valid f c" "c \<noteq> new" for c
    using that f(1,3) lst b by (simp add: d'_def block_set block_put)
  show "get f c d' = get f c d" if "valid f c" "c \<noteq> new" "c \<noteq> last cs" for c using g that by simp
  show "get f new d' = FAT32_EOC" using g [OF f(3)] nl by simp
qed

end

lemma fat_volume_laws:
  assumes ok: "fs_ok fs" and c: "valid_cluster fs c" "valid_cluster fs c'"
  shows "fat_get fs c' (fat_put fs c v d) = (if c' = c then v AND 0x0FFFFFFF else fat_get fs c' d)"
    and "cluster_data fs c' (fat_put fs c v d) = cluster_data fs c' d"
    and "length b = BLOCK_SIZE \<Longrightarrow> fat_get fs c' (put_cluster fs c b d) = fat_get fs c' d"
    and "length b = BLOCK_SIZE \<Longrightarrow> cluster_data fs c' (put_cluster fs c b d) = (if c' = c then b else cluster_data fs c' d)"
proof -
  let ?s = "unat (fat_start fs) + unat c div 128" and ?s' = "unat (fat_start fs) + unat c' div 128"
  let ?i = "4 * (unat c mod 128)" and ?i' = "4 * (unat c' mod 128)"
  note put = fat_set_ok(2) [OF ok c(1)] and get = fat_next_ok(2) [OF ok c(2)]
  have il: "?i + length (le_bytes 4 v :: u8 list) \<le> length (sector_data d x)" for x
    using mod_less_divisor [of 128 "unat c"] by (simp add: layout)
  have len: "length (splice ?i (le_bytes 4 v) (sector_data d ?s)) = BLOCK_SIZE" by (simp add: length_splice [OF il])
  have same: "c' = c \<longleftrightarrow> ?s' = ?s \<and> ?i' = ?i"
  proof
    assume "?s' = ?s \<and> ?i' = ?i"
    then have "unat c' div 128 = unat c div 128" "unat c' mod 128 = unat c mod 128" by auto
    then have "unat c' = unat c" by (metis div_mod_decomp)
    then show "c' = c" by (simp add: word_unat_eq_iff)
  qed simp
  show "fat_get fs c' (fat_put fs c v d) = (if c' = c then v AND 0x0FFFFFFF else fat_get fs c' d)"
  proof (cases "?s' = ?s")
    case False
    then show ?thesis using same by (auto simp: get put sector_data_put [OF len])
  next
    case True
    show ?thesis
    proof (cases "c' = c")
      case True
      have "?i + 4 \<le> length (sector_data d ?s)" using il [of ?s] by simp
      then show ?thesis using True by (simp add: fat_next_ok(2) [OF ok c(1)] put sector_data_put [OF len] le32_splice_same)
    next
      case False
      then have "?i' \<noteq> ?i" using same True by simp
      then have "?i' + 4 \<le> ?i \<or> ?i + length (le_bytes 4 v :: u8 list) \<le> ?i'" by auto
      then show ?thesis
        using False True il [of ?s] by (simp add: get put sector_data_put [OF len] le32_splice_other)
    qed
  qed
  have lt: "?s < unat (data_start fs)" "?s' < unat (data_start fs)" using fat_sector_index [OF ok] c by metis+
  note cs = cluster_sector(1) [OF ok]
  show "cluster_data fs c' (fat_put fs c v d) = cluster_data fs c' d"
    using lt(1) by (simp add: cluster_data_def put sector_data_put [OF len] cs [OF c(2)])
  assume b: "length b = BLOCK_SIZE"
  show "fat_get fs c' (put_cluster fs c b d) = fat_get fs c' d"
    using lt(2) by (simp add: get put_cluster_ok(2) [OF ok c(1) b] sector_data_put [OF b] cs [OF c(1)])
  have "unat c' - 2 = unat c - 2 \<longleftrightarrow> c' = c"
    using c unfolding valid_cluster_def by (metis add_diff_inverse_nat not_le word_unat_eq_iff)
  then show "cluster_data fs c' (put_cluster fs c b d) = (if c' = c then b else cluster_data fs c' d)"
    by (simp add: cluster_data_def put_cluster_ok(2) [OF ok c(1) b] sector_data_put [OF b] cs [OF c(1)] cs [OF c(2)])
qed

interpretation volume: fat_volume fs_ok valid_cluster fat_get fat_put cluster_data put_cluster
  by unfold_locales (use fat_volume_laws in auto)

end
