(* ===== verification/Fat_Chain.thy ===== *)
theory Fat_Chain
  imports Fat_Table "HOL-Library.Sublist"
begin

text \<open>
  What the chain operations of the file server do (\<open>alloc_cluster\<close> and \<open>free_chain\<close> of
  \<open>src/user/programs/fs-server/src/main.rs\<close>): a file is a chain of valid clusters, its content the
  blocks of the clusters one after the other, and a file grows by free clusters only.
\<close>

section \<open>Files as chains\<close>

definition file_chain :: "Fat32Fs \<Rightarrow> u32 list \<Rightarrow> disk \<Rightarrow> bool" where
  "file_chain fs cs d \<longleftrightarrow> chain_of (\<lambda>c. fat_get fs c d) cs \<and> (\<forall>c \<in> set cs. valid_cluster fs c)"

definition file_content :: "Fat32Fs \<Rightarrow> u32 list \<Rightarrow> disk \<Rightarrow> u8 list" where
  "file_content fs cs d = concat (map (\<lambda>c. cluster_data fs c d) cs)"

lemma length_cluster_data [simp]: "length (cluster_data fs c d) = BLOCK_SIZE"
  by (simp add: cluster_data_def)

lemma length_file_content: "length (file_content fs cs d) = BLOCK_SIZE * length cs"
  by (induction cs) (simp_all add: file_content_def)

lemma file_content_simps [simp]:
  "file_content fs [] d = []"
  "file_content fs (c # cs) d = cluster_data fs c d @ file_content fs cs d"
  "file_content fs (xs @ ys) d = file_content fs xs d @ file_content fs ys d"
  by (simp_all add: file_content_def)

lemma file_content_drop: "file_content fs (drop k cs) d = drop (BLOCK_SIZE * k) (file_content fs cs d)"
proof (induction k arbitrary: cs)
  case (Suc k)
  then show ?case by (cases cs) simp_all
qed simp

lemma file_content_cong: "(\<And>c. c \<in> set cs \<Longrightarrow> cluster_data fs c d = cluster_data fs c d') \<Longrightarrow> file_content fs cs d = file_content fs cs d'"
  by (simp add: file_content_def cong: map_cong)

lemma file_chain_drop: "file_chain fs cs d \<Longrightarrow> k < length cs \<Longrightarrow> file_chain fs (drop k cs) d"
  using set_drop_subset [of k cs] by (auto simp: file_chain_def chain_of_drop)

lemma file_chain_tl: "file_chain fs (c # c' # cs) d \<Longrightarrow> file_chain fs (c' # cs) d"
  by (simp add: file_chain_def)

lemma file_chain_distinct: "file_chain fs cs d \<Longrightarrow> distinct cs"
  by (auto simp: file_chain_def intro: chain_of_distinct)

lemma file_chain_ne: "file_chain fs cs d \<Longrightarrow> cs \<noteq> []"
  by (auto simp: file_chain_def)

text \<open>A chain has no more clusters than the volume.\<close>

lemma file_chain_length:
  assumes "file_chain fs cs d"
  shows "length cs \<le> unat (total_clusters fs)"
proof -
  have "unat ` set cs \<subseteq> {2..<unat (total_clusters fs) + 2}"
    using assms by (auto simp: file_chain_def valid_cluster_def)
  then have "card (unat ` set cs) \<le> unat (total_clusters fs)"
    using card_mono [of "{2..<unat (total_clusters fs) + 2}" "unat ` set cs"] by simp
  moreover have "card (unat ` set cs) = length cs"
    using file_chain_distinct [OF assms] by (simp add: card_image distinct_card inj_on_def word_unat_eq_iff)
  ultimately show ?thesis by simp
qed

lemma valid_bound:
  assumes "fs_ok fs" and "valid_cluster fs c"
  shows "2 \<le> c" and "c < FAT32_EOC" and "\<not> c < 2"
proof -
  have "unat c < 8194" using assms by (simp add: fs_ok_def valid_cluster_def layout)
  then show "c < FAT32_EOC" by (simp add: FAT32_EOC_def word_less_nat_alt)
  show "2 \<le> c" using assms(2) by (simp add: valid_cluster_def word_le_nat_alt)
  then show "\<not> c < 2" by simp
qed

lemma chain_next_ok:
  assumes "fs_ok fs" and "file_chain fs (c # cs) d"
  shows "chain_next fs c d = (case cs of [] \<Rightarrow> None | c' # _ \<Rightarrow> Some c')"
  using assms fat_next_ok(1) [of fs c d] by (cases cs) (auto simp: chain_next_def file_chain_def not_less)

lemma chain_nonzero: "file_chain fs cs d \<Longrightarrow> c \<in> set cs \<Longrightarrow> fat_get fs c d \<noteq> 0"
  unfolding file_chain_def
proof (induction "\<lambda>c. fat_get fs c d" cs rule: chain_of.induct)
  case (2 x)
  then show ?case by (auto simp: FAT32_EOC_def)
next
  case (3 a b cs)
  then show ?case by auto
qed simp

section \<open>Allocation\<close>

text \<open>The search goes over the clusters below the number of clusters.\<close>

definition searched :: "Fat32Fs \<Rightarrow> u32 \<Rightarrow> bool" where
  "searched fs c \<longleftrightarrow> 2 \<le> unat c \<and> unat c < unat (total_clusters fs)"

lemma searched_valid: "searched fs c \<Longrightarrow> valid_cluster fs c"
  by (simp add: searched_def valid_cluster_def)

lemma find_free_cluster_ok:
  assumes ok: "fs_ok fs"
  shows "find_free_cluster fs d = None \<Longrightarrow> searched fs c \<Longrightarrow> fat_get fs c d \<noteq> 0"
    and "find_free_cluster fs d = Some c \<Longrightarrow> searched fs c \<and> fat_get fs c d = 0"
    and "find_free_cluster fs d = Some c \<Longrightarrow> searched fs c' \<Longrightarrow> c' < c \<Longrightarrow> fat_get fs c' d \<noteq> 0"
proof -
  let ?t = "unat (total_clusters fs)"
  have t: "?t \<le> 8192" using ok by (simp add: fs_ok_def layout)
  have u: "unat (of_nat x :: u32) = x" if "x < ?t" for x
    using that t by (simp add: unat_of_nat)
  have eq: "(fat_next fs (of_nat x) d = Some FAT32_FREE) = (fat_get fs (of_nat x) d = 0)" if "2 \<le> x" "x < ?t" for x
    using that u fat_next_ok(1) [OF ok, of "of_nat x" d] by (simp add: valid_cluster_def FAT32_FREE_def)
  show "fat_get fs c d \<noteq> 0" if "find_free_cluster fs d = None" "searched fs c"
  proof -
    have "unat c \<in> set [2..<?t]" using that(2) by (simp add: searched_def)
    then have "fat_next fs (of_nat (unat c)) d \<noteq> Some FAT32_FREE"
      using that(1) by (auto simp: find_free_cluster_def find_None_iff)
    then show ?thesis using eq [of "unat c"] that(2) by (simp add: searched_def)
  qed
  assume "find_free_cluster fs d = Some c"
  then obtain i where i: "i < length [2..<?t]" "fat_next fs (of_nat ([2..<?t] ! i)) d = Some FAT32_FREE"
      "\<forall>j<i. fat_next fs (of_nat ([2..<?t] ! j)) d \<noteq> Some FAT32_FREE" and c: "c = of_nat ([2..<?t] ! i)"
    unfolding find_free_cluster_def by (auto simp: find_Some_iff)
  have ci: "unat c = 2 + i" using i(1) c u [of "2 + i"] by (simp del: of_nat_add)
  show "searched fs c \<and> fat_get fs c d = 0"
    using i(1,2) ci eq [of "2 + i"] c by (simp add: searched_def)
  show "fat_get fs c' d \<noteq> 0" if "searched fs c'" "c' < c"
  proof -
    have r: "2 \<le> unat c'" "unat c' < ?t" using that by (simp_all add: searched_def)
    moreover have "unat c' < 2 + i" using that(2) ci by (simp add: word_less_nat_alt)
    ultimately have "unat c' - 2 < i" by linarith
    then have "fat_next fs (of_nat ([2..<?t] ! (unat c' - 2))) d \<noteq> Some FAT32_FREE" using i(3) by blast
    moreover have "[2..<?t] ! (unat c' - 2) = unat c'" using r by simp
    ultimately show ?thesis using eq [of "unat c'"] r by simp
  qed
qed

lemma clear_cluster_ok: "fs_ok fs \<Longrightarrow> clear_cluster fs c d = put_cluster fs c zero_block d"
  by (simp add: clear_cluster_def spc_def fs_ok_def put_cluster_def)

lemma length_zero_block [simp]: "length zero_block = BLOCK_SIZE"
  by (simp add: zero_block_def)

lemma alloc_cluster_ok:
  assumes ok: "fs_ok fs"
  shows "alloc_cluster fs d = (None, d') \<Longrightarrow> d' = d \<and> find_free_cluster fs d = None"
    and "alloc_cluster fs d = (Some c, d') \<Longrightarrow>
      find_free_cluster fs d = Some c \<and> d' = put_cluster fs c zero_block (fat_put fs c FAT32_EOC d)"
  using find_free_cluster_ok(2) [OF ok, of d] searched_valid fat_set_ok(1) [OF ok]
  by (auto simp: alloc_cluster_def clear_cluster_ok [OF ok] split: option.splits prod.splits)

text \<open>A small volume for the examples: two sectors before the table, three clusters of data.\<close>

definition sample_fs :: Fat32Fs where
  "sample_fs = \<lparr>fs_bpb = (read_bpb zero_block)\<lparr>sectors_per_cluster := 1\<rparr>, fat_start = 2, data_start = 4,
     total_clusters = 5, root_cluster = 2\<rparr>"

lemma sample_fs_ok: "fs_ok sample_fs"
  by (simp add: sample_fs_def fs_ok_def layout)

lemma sample_valid: "valid_cluster sample_fs 2" "valid_cluster sample_fs 3" "valid_cluster sample_fs 4"
  by (simp_all add: sample_fs_def valid_cluster_def)

definition sample_disk :: disk where
  "sample_disk = fat_put sample_fs 3 FAT32_EOC (fat_put sample_fs 2 3 (\<lambda>_. 0))"

lemma sample_zero: "valid_cluster sample_fs c \<Longrightarrow> fat_get sample_fs c (\<lambda>_. 0) = 0"
proof -
  assume c: "valid_cluster sample_fs c"
  have "take 4 (drop i (sector_data (\<lambda>_. 0) s)) = replicate (min 4 (512 - i)) 0" for i s
    by (rule nth_equalityI) (auto simp: sector_data_def layout)
  moreover have "le_word (replicate n 0) = (0 :: u32)" for n by (induction n) simp_all
  ultimately show ?thesis by (simp add: fat_next_ok(2) [OF sample_fs_ok c] le32_def)
qed

lemma sample_links: "fat_get sample_fs 2 sample_disk = 3" "fat_get sample_fs 3 sample_disk = FAT32_EOC"
  "fat_get sample_fs 4 sample_disk = 0"
  using sample_valid by (simp_all add: sample_disk_def fat_volume_laws(1) [OF sample_fs_ok] sample_zero eoc_mask)

lemma sample_chain: "file_chain sample_fs [2, 3] sample_disk"
  using sample_valid sample_links by (simp add: file_chain_def FAT32_EOC_def)

text \<open>\<open>alloc_cluster\<close> takes the lowest free cluster among those it searches, marks it as the end of a
  chain and clears it, and changes nothing else; it fails, without touching the disk, only when every
  searched cluster is in use.\<close>

lemma alloc_cluster_lowest:
  assumes "fs_ok fs"
  shows "case alloc_cluster fs d of
      (None, d') \<Rightarrow> d' = d \<and> (\<forall>c. searched fs c \<longrightarrow> fat_get fs c d \<noteq> 0)
    | (Some c, d') \<Rightarrow> searched fs c \<and> fat_get fs c d = 0 \<and> (\<forall>c' < c. searched fs c' \<longrightarrow> fat_get fs c' d \<noteq> 0) \<and>
        fat_get fs c d' = FAT32_EOC \<and> cluster_data fs c d' = replicate BLOCK_SIZE 0 \<and>
        (\<forall>c'. valid_cluster fs c' \<and> c' \<noteq> c \<longrightarrow>
           fat_get fs c' d' = fat_get fs c' d \<and> cluster_data fs c' d' = cluster_data fs c' d)"
proof (cases "alloc_cluster fs d")
  case (Pair r d')
  note free = find_free_cluster_ok [OF assms, of d] and alloc = alloc_cluster_ok [OF assms, of d]
  show ?thesis
  proof (cases r)
    case None
    then show ?thesis using alloc(1) free(1) Pair by auto
  next
    case (Some c)
    then have f: "find_free_cluster fs d = Some c" and d': "d' = put_cluster fs c zero_block (fat_put fs c FAT32_EOC d)"
      using alloc(2) Pair by auto
    have v: "valid_cluster fs c" using free(2) [OF f] searched_valid by blast
    show ?thesis
      using free(2,3) [OF f] Pair Some v
      by (simp add: d' fat_volume_laws [OF assms v] eoc_mask zero_block_def)
  qed
qed

section \<open>Freeing a chain\<close>

lemma free_chain_loop_ok:
  assumes ok: "fs_ok fs"
  shows "file_chain fs cs d \<Longrightarrow> length cs \<le> n \<Longrightarrow>
    \<exists>d'. free_chain_loop n fs (hd cs) k d = Done (k + of_nat (length cs), d') \<and>
      (\<forall>c. valid_cluster fs c \<longrightarrow> fat_get fs c d' = (if c \<in> set cs then 0 else fat_get fs c d) \<and>
         cluster_data fs c d' = cluster_data fs c d)"
proof (induction cs arbitrary: n k d)
  case Nil
  then show ?case using file_chain_ne by blast
next
  case (Cons c cs)
  obtain m where n: "n = Suc m" using Cons.prems(2) by (cases n) simp_all
  have v: "valid_cluster fs c" using Cons.prems(1) by (simp add: file_chain_def)
  let ?d = "fat_put fs c FAT32_FREE d"
  have laws: "fat_get fs c' ?d = (if c' = c then 0 else fat_get fs c' d)" "cluster_data fs c' ?d = cluster_data fs c' d"
    if "valid_cluster fs c'" for c'
    using fat_volume_laws(1,2) [OF ok v that] by (simp_all add: FAT32_FREE_def)
  show ?case
  proof (cases cs)
    case Nil
    then have "FAT32_EOC \<le> fat_get fs c d" using Cons.prems(1) by (simp add: file_chain_def)
    then show ?thesis
      using n Nil laws fat_next_ok(1) [OF ok v, of d] fat_set_ok(1) [OF ok v, of FAT32_FREE d] by (auto simp: Let_def not_less)
  next
    case (Cons c' ds)
    then have nx: "fat_get fs c d = c'" "2 \<le> c'" "c' < FAT32_EOC" using Cons.prems(1) by (auto simp: file_chain_def)
    have notin: "c \<notin> set cs" using file_chain_distinct [OF Cons.prems(1)] by simp
    have tl: "file_chain fs cs d" using Cons.prems(1) Cons file_chain_tl by blast
    then have "\<forall>x \<in> set cs. valid_cluster fs x" by (simp add: file_chain_def)
    then have "fat_get fs x ?d = fat_get fs x d" if "x \<in> set cs" for x using that laws notin by auto
    then have "file_chain fs cs ?d" using tl chain_of_cong [of cs "\<lambda>c. fat_get fs c ?d" "\<lambda>c. fat_get fs c d"]
      by (auto simp: file_chain_def)
    moreover have "length cs \<le> m" using Cons.prems(2) n by simp
    ultimately obtain d' where d': "free_chain_loop m fs (hd cs) (k + 1) ?d = Done (k + 1 + of_nat (length cs), d')"
      "\<forall>x. valid_cluster fs x \<longrightarrow> fat_get fs x d' = (if x \<in> set cs then 0 else fat_get fs x ?d) \<and>
         cluster_data fs x d' = cluster_data fs x ?d"
      using Cons.IH [of ?d m "k + 1"] by blast
    have "free_chain_loop n fs (hd (c # cs)) k d = Done (k + of_nat (length (c # cs)), d')"
      using n nx d'(1) Cons fat_next_ok(1) [OF ok v, of d] fat_set_ok(1) [OF ok v, of FAT32_FREE d]
      by (simp add: add.commute add.left_commute)
    then show ?thesis using d'(2) laws by auto
  qed
qed

text \<open>C20: \<open>free_chain\<close> on the chain of a file returns after visiting each cluster once, with their number;
  the clusters of the chain are free afterwards, no other entry of the table changes and no data does.\<close>

theorem free_chain_frees:
  assumes "fs_ok fs" and "file_chain fs cs d" and "length cs \<le> n"
  shows "\<exists>d'. free_chain n fs (hd cs) d = Done (of_nat (length cs), d') \<and>
      (\<forall>c. valid_cluster fs c \<longrightarrow> fat_get fs c d' = (if c \<in> set cs then 0 else fat_get fs c d) \<and>
         cluster_data fs c d' = cluster_data fs c d)"
proof -
  have "valid_cluster fs (hd cs)" using assms(2) file_chain_ne [OF assms(2)] by (auto simp: file_chain_def)
  then have "\<not> hd cs < 2" using valid_bound [OF assms(1)] by blast
  then show ?thesis using free_chain_loop_ok [OF assms, of 0] by (simp add: free_chain_def)
qed

theorem free_chain_frees_witness: "file_chain sample_fs [2, 3] sample_disk \<and>
    (\<exists>d'. free_chain 2 sample_fs 2 sample_disk = Done (2, d') \<and> fat_get sample_fs 3 d' = 0)"
  using free_chain_frees [OF sample_fs_ok sample_chain, of 2] sample_valid sample_chain by fastforce

end
