(* ===== verification/Fat_Dir.thy ===== *)
theory Fat_Dir
  imports Fat_Core
begin

text \<open>
  Directories of the file server, \<open>src/user/programs/fs-server/src/main.rs\<close>: the walk over the
  entries of a directory with long and short names, lookup, path resolution, short names, and the
  creation, update and removal of entries. Names and paths are byte lists.
\<close>

section \<open>Entries\<close>

definition ATTR_DIRECTORY :: u8 where "ATTR_DIRECTORY = 0x10"
definition ATTR_ARCHIVE :: u8 where "ATTR_ARCHIVE = 0x20"
definition ENTRIES_PER_SECTOR :: nat where "ENTRIES_PER_SECTOR = 16"

record DirEntry =
  de_name :: "u8 list"
  de_ext :: "u8 list"
  de_attr :: u8
  de_nt_res :: u8
  de_create_time_tenth :: u8
  de_create_time :: u16
  de_create_date :: u16
  de_access_date :: u16
  de_first_cluster_hi :: u16
  de_modify_time :: u16
  de_modify_date :: u16
  de_first_cluster_lo :: u16
  de_file_size :: u32

definition read_dir_entry :: "u8 list \<Rightarrow> DirEntry" where
  "read_dir_entry e = \<lparr>
     de_name = take 8 e, de_ext = take 3 (drop 8 e), de_attr = e ! 11, de_nt_res = e ! 12,
     de_create_time_tenth = e ! 13, de_create_time = le16 14 e, de_create_date = le16 16 e, de_access_date = le16 18 e,
     de_first_cluster_hi = le16 20 e, de_modify_time = le16 22 e, de_modify_date = le16 24 e,
     de_first_cluster_lo = le16 26 e, de_file_size = le32 28 e\<rparr>"

definition entry_cluster :: "DirEntry \<Rightarrow> u32" where
  "entry_cluster e = push_bit 16 (ucast (de_first_cluster_hi e)) OR ucast (de_first_cluster_lo e)"

text \<open>The \<open>i\<close>-th entry of a sector.\<close>

definition entry_bytes :: "nat \<Rightarrow> block \<Rightarrow> u8 list" where
  "entry_bytes i buf = take 32 (drop (i * 32) buf)"

section \<open>Names of entries\<close>

text \<open>The collected long name: 256 UTF-16 units and the length so far.\<close>

type_synonym lfn = "u16 list \<times> nat"

definition lfn_empty :: lfn where
  "lfn_empty = (replicate 256 0, 0)"

text \<open>The 13 units of a long-name entry.\<close>

definition lfn_units :: "u8 list \<Rightarrow> u16 list" where
  "lfn_units e = map (\<lambda>o'. le16 o' e) [1, 3, 5, 7, 9, 14, 16, 18, 20, 22, 24, 28, 30]"

definition lfn_index :: "u8 list \<Rightarrow> nat" where
  "lfn_index e = unat (e ! 0 AND 0x3F) - 1"

definition lfn_add :: "u8 list \<Rightarrow> lfn \<Rightarrow> lfn" where
  "lfn_add e l =
     (case l of (buf, len) \<Rightarrow>
      let idx = lfn_index e; base = idx * 13 in
      if idx < 20 then
        (if base + 13 \<le> length buf then take base buf @ lfn_units e @ drop (base + 13) buf else buf,
         max len (base + 13))
      else (buf, len))"

text \<open>The long name as ASCII; indexing past the 256 units panics.\<close>

definition lfn_text :: "lfn \<Rightarrow> u8 list outcome" where
  "lfn_text l =
     (case l of (buf, len) \<Rightarrow>
      let run = takeWhile (\<lambda>c. c \<noteq> 0 \<and> c \<noteq> 0xFFFF) (take len buf) in
      if length buf < len \<and> length run = length buf then Panic
      else Done (map ucast (filter (\<lambda>c. c < 0x80) run)))"

definition short_text :: "u8 list \<Rightarrow> u8 list" where
  "short_text e =
     (let ext = take 3 (drop 8 e) in
      takeWhile (\<lambda>c. c \<noteq> 0x20) (take 8 e) @
      (if ext ! 0 \<noteq> 0x20 then 0x2E # takeWhile (\<lambda>c. c \<noteq> 0x20) ext else []))"

definition entry_name :: "lfn \<Rightarrow> u8 list \<Rightarrow> u8 list outcome" where
  "entry_name l e = (if 0 < snd l then lfn_text l else Done (short_text e))"

text \<open>What a loop over entries does with one of them: the end of the directory, an entry that only
  changes the long name, or an entry with its name.\<close>

datatype scan_step = EndOfDir | Skip lfn | Named "u8 list" lfn

definition scan_entry :: "u8 list \<Rightarrow> lfn \<Rightarrow> scan_step outcome" where
  "scan_entry e l =
     (if e ! 0 = 0x00 then Done EndOfDir
      else if e ! 0 = 0xE5 then Done (Skip (fst l, 0))
      else if e ! 11 = 0x0F then Done (Skip (lfn_add e l))
      else obind (entry_name l e) (\<lambda>name. Done (Named name (fst l, 0))))"

section \<open>Walking a directory\<close>

text \<open>The entries of a sector, with the names given to the callback; the flag is the early return.\<close>

fun walk_entries :: "u8 list list \<Rightarrow> lfn \<Rightarrow> (u8 list \<times> u8 list) list \<Rightarrow> (bool \<times> lfn \<times> (u8 list \<times> u8 list) list) outcome" where
  "walk_entries [] l acc = Done (False, l, acc)"
| "walk_entries (e # es) l acc =
     obind (scan_entry e l) (\<lambda>r. case r of
        EndOfDir \<Rightarrow> Done (True, l, acc)
      | Skip l' \<Rightarrow> walk_entries es l' acc
      | Named name l' \<Rightarrow> walk_entries es l' (acc @ [(e, name)]))"

definition sector_entries :: "block \<Rightarrow> u8 list list" where
  "sector_entries buf = map (\<lambda>i. entry_bytes i buf) [0..<ENTRIES_PER_SECTOR]"

text \<open>The sectors of a cluster: \<open>Some\<close> is a return of the walk with that result.\<close>

fun walk_sectors :: "u64 list \<Rightarrow> disk \<Rightarrow> lfn \<Rightarrow> (u8 list \<times> u8 list) list \<Rightarrow> (bool option \<times> lfn \<times> (u8 list \<times> u8 list) list) outcome" where
  "walk_sectors [] d l acc = Done (None, l, acc)"
| "walk_sectors (s # ss) d l acc =
     (case disk_read s d of
        None \<Rightarrow> Done (Some False, l, acc)
      | Some buf \<Rightarrow> obind (walk_entries (sector_entries buf) l acc) (\<lambda>(fin, l', acc').
          if fin then Done (Some True, l', acc') else walk_sectors ss d l' acc'))"

definition cluster_sectors :: "Fat32Fs \<Rightarrow> u32 \<Rightarrow> u64 list" where
  "cluster_sectors fs cluster = map (\<lambda>s. cluster_to_sector fs cluster + of_nat s) [0..<spc fs]"

fun walk_dir_loop :: "nat \<Rightarrow> Fat32Fs \<Rightarrow> u32 \<Rightarrow> disk \<Rightarrow> lfn \<Rightarrow> (u8 list \<times> u8 list) list \<Rightarrow> (bool \<times> (u8 list \<times> u8 list) list) outcome" where
  "walk_dir_loop 0 fs cluster d l acc = Runaway"
| "walk_dir_loop (Suc n) fs cluster d l acc =
     obind (walk_sectors (cluster_sectors fs cluster) d l acc) (\<lambda>(ret, l', acc').
       case ret of
         Some b \<Rightarrow> Done (b, acc')
       | None \<Rightarrow>
           (case chain_next fs cluster d of
              Some next \<Rightarrow> walk_dir_loop n fs next d l' acc'
            | None \<Rightarrow> Done (True, acc')))"

text \<open>\<open>walk_dir\<close>: the result and the entries (raw bytes and name) in the order of the calls of the callback.\<close>

definition walk_dir :: "nat \<Rightarrow> Fat32Fs \<Rightarrow> u32 \<Rightarrow> disk \<Rightarrow> (bool \<times> (u8 list \<times> u8 list) list) outcome" where
  "walk_dir n fs dir_cluster d = walk_dir_loop n fs dir_cluster d lfn_empty []"

definition to_ascii_upper :: "u8 \<Rightarrow> u8" where
  "to_ascii_upper c = (if 0x61 \<le> c \<and> c \<le> 0x7A then c - 0x20 else c)"

definition eq_ignore_case :: "u8 list \<Rightarrow> u8 list \<Rightarrow> bool" where
  "eq_ignore_case a b \<longleftrightarrow> length a = length b \<and> map to_ascii_upper a = map to_ascii_upper b"

definition find_entry :: "nat \<Rightarrow> Fat32Fs \<Rightarrow> u32 \<Rightarrow> u8 list \<Rightarrow> disk \<Rightarrow> (DirEntry \<times> u8 list) option outcome" where
  "find_entry n fs dir_cluster name d =
     obind (walk_dir n fs dir_cluster d) (\<lambda>(_, es).
       Done (map_option (\<lambda>(e, nm). (read_dir_entry e, nm)) (List.find (\<lambda>(e, nm). eq_ignore_case nm name) es)))"

section \<open>Paths\<close>

definition SLASH :: u8 where "SLASH = 0x2F"

text \<open>\<open>split('/')\<close>.\<close>

fun split_slash :: "u8 list \<Rightarrow> u8 list list" where
  "split_slash [] = [[]]"
| "split_slash (c # cs) =
     (if c = SLASH then [] # split_slash cs
      else case split_slash cs of w # ws \<Rightarrow> (c # w) # ws | [] \<Rightarrow> [[c]])"

text \<open>\<open>str::find\<close>: the first position at which the pattern occurs.\<close>

fun find_sub :: "u8 list \<Rightarrow> u8 list \<Rightarrow> nat option" where
  "find_sub p [] = (if p = [] then Some 0 else None)"
| "find_sub p (c # cs) =
     (if take (length p) (c # cs) = p then Some 0 else map_option Suc (find_sub p cs))"

definition root_entry :: "Fat32Fs \<Rightarrow> DirEntry" where
  "root_entry fs = \<lparr>
     de_name = replicate 8 0x20, de_ext = replicate 3 0x20, de_attr = ATTR_DIRECTORY, de_nt_res = 0,
     de_create_time_tenth = 0, de_create_time = 0, de_create_date = 0, de_access_date = 0,
     de_first_cluster_hi = ucast (drop_bit 16 (root_cluster fs)), de_modify_time = 0, de_modify_date = 0,
     de_first_cluster_lo = ucast (root_cluster fs AND 0xFFFF), de_file_size = 0\<rparr>"

text \<open>The loop over the components, with the current directory and the last entry found.\<close>

fun resolve_loop :: "nat \<Rightarrow> Fat32Fs \<Rightarrow> u8 list \<Rightarrow> u8 list list \<Rightarrow> u32 \<Rightarrow> (DirEntry \<times> u8 list) option \<Rightarrow> disk \<Rightarrow> (DirEntry \<times> u8 list) option outcome" where
  "resolve_loop n fs path [] cluster found d = Done found"
| "resolve_loop n fs path (w # ws) cluster found d =
     (if w = [] then resolve_loop n fs path ws cluster found d
      else obind (find_entry n fs cluster w d) (\<lambda>r.
        case r of
          None \<Rightarrow> Done None
        | Some (entry, name) \<Rightarrow>
            if de_attr entry AND ATTR_DIRECTORY \<noteq> 0
            then resolve_loop n fs path ws (entry_cluster entry) (Some (entry, name)) d
            else (case find_sub w path of
                    None \<Rightarrow> Panic
                  | Some p \<Rightarrow>
                      if SLASH \<in> set (drop (p + length w) path) then Done None
                      else resolve_loop n fs path ws cluster (Some (entry, name)) d)))"

definition resolve_path :: "nat \<Rightarrow> Fat32Fs \<Rightarrow> u8 list \<Rightarrow> disk \<Rightarrow> (DirEntry \<times> u8 list) option outcome" where
  "resolve_path n fs path d =
     (let p = dropWhile (\<lambda>c. c = SLASH) path in
      if p = [] then Done (Some (root_entry fs, [SLASH]))
      else resolve_loop n fs p (split_slash p) (root_cluster fs) None d)"

section \<open>Short names\<close>

text \<open>\<open>lfn_checksum\<close>.\<close>

definition lfn_checksum :: "u8 list \<Rightarrow> u8" where
  "lfn_checksum short_name = fold (\<lambda>b sum. drop_bit 1 sum + push_bit 7 sum + b) short_name 0"

definition is_alnum :: "u8 \<Rightarrow> bool" where
  "is_alnum c \<longleftrightarrow> (0x30 \<le> c \<and> c \<le> 0x39) \<or> (0x41 \<le> c \<and> c \<le> 0x5A) \<or> (0x61 \<le> c \<and> c \<le> 0x7A)"

definition short_char :: "u8 \<Rightarrow> bool" where
  "short_char c \<longleftrightarrow> is_alnum c \<or> c = 0x5F"

definition DOT :: u8 where "DOT = 0x2E"

text \<open>\<open>rfind\<close> of a byte: the parts before and after its last occurrence.\<close>

fun rsplit :: "u8 \<Rightarrow> u8 list \<Rightarrow> (u8 list \<times> u8 list) option" where
  "rsplit x [] = None"
| "rsplit x (c # cs) =
     (case rsplit x cs of
        Some (a, b) \<Rightarrow> Some (c # a, b)
      | None \<Rightarrow> if c = x then Some ([], cs) else None)"

definition name_parts :: "u8 list \<Rightarrow> u8 list \<times> u8 list" where
  "name_parts name = (case rsplit DOT name of Some (a, b) \<Rightarrow> (a, b) | None \<Rightarrow> (name, []))"

definition is_valid_83 :: "u8 list \<Rightarrow> bool" where
  "is_valid_83 name =
     (case name_parts name of (nm, ext) \<Rightarrow>
        0 < length nm \<and> length nm \<le> 8 \<and> length ext \<le> 3 \<and> list_all short_char nm \<and> list_all short_char ext)"

definition pad_to :: "nat \<Rightarrow> u8 list \<Rightarrow> u8 list" where
  "pad_to k xs = xs @ replicate (k - length xs) 0x20"

text \<open>The first candidate: base of eight bytes and extension of three.\<close>

definition short_base :: "u8 list \<Rightarrow> u8 list \<times> u8 list" where
  "short_base name =
     (case name_parts name of (nm, ext) \<Rightarrow>
        if is_valid_83 name then (pad_to 8 (map to_ascii_upper nm), pad_to 3 (map to_ascii_upper ext))
        else (pad_to 6 (map to_ascii_upper (take 6 (filter short_char nm))) @ [0x7E, 0x31],
              pad_to 3 (map to_ascii_upper (take 3 ext))))"

text \<open>The loop over \<open>n\<close> from 1 to 99 that looks for a name not yet in the directory.\<close>

fun short_loop :: "u8 list \<Rightarrow> u8 list \<Rightarrow> u8 list list \<Rightarrow> nat list \<Rightarrow> u8 list" where
  "short_loop base ext existing [] = base @ ext"
| "short_loop base ext existing (n # ns) =
     (if base @ ext \<in> set existing then short_loop (base[6 := 0x7E, 7 := 0x30 + of_nat n]) ext existing ns
      else base @ ext)"

definition make_short_name :: "nat \<Rightarrow> Fat32Fs \<Rightarrow> u8 list \<Rightarrow> u32 \<Rightarrow> disk \<Rightarrow> u8 list outcome" where
  "make_short_name n fs name dir_cluster d =
     (case short_base name of (base, ext) \<Rightarrow>
        if is_valid_83 name then Done (base @ ext)
        else obind (walk_dir n fs dir_cluster d) (\<lambda>(_, es).
               Done (short_loop base ext (map (\<lambda>(e, _). take 11 e) es) [1..<100])))"

section \<open>Creating entries\<close>

text \<open>\<open>encode_utf16\<close> of a valid UTF-8 string, cut at 256 units.\<close>

definition utf8_cont :: "u8 \<Rightarrow> u32" where
  "utf8_cont b = ucast b AND 0x3F"

definition utf16_units :: "u32 \<Rightarrow> u16 list" where
  "utf16_units c =
     (if c < 0x10000 then [ucast c]
      else let v = c - 0x10000 in [0xD800 OR ucast (drop_bit 10 v), 0xDC00 OR ucast (v AND 0x3FF)])"

fun encode_utf16 :: "u8 list \<Rightarrow> u16 list" where
  "encode_utf16 [] = []"
| "encode_utf16 (b # bs) =
     (if b < 0x80 then ucast b # encode_utf16 bs
      else if b < 0xE0 then
        (case bs of c # r \<Rightarrow> utf16_units (push_bit 6 (ucast b AND 0x1F) OR utf8_cont c) @ encode_utf16 r | _ \<Rightarrow> [])
      else if b < 0xF0 then
        (case bs of c # d # r \<Rightarrow>
           utf16_units (push_bit 12 (ucast b AND 0x0F) OR push_bit 6 (utf8_cont c) OR utf8_cont d) @ encode_utf16 r | _ \<Rightarrow> [])
      else
        (case bs of c # d # e # r \<Rightarrow>
           utf16_units (push_bit 18 (ucast b AND 0x07) OR push_bit 12 (utf8_cont c) OR push_bit 6 (utf8_cont d) OR utf8_cont e)
             @ encode_utf16 r | _ \<Rightarrow> []))"

definition name_units :: "u8 list \<Rightarrow> u16 list" where
  "name_units name = take 256 (encode_utf16 name)"

definition lfn_count :: "nat \<Rightarrow> nat" where
  "lfn_count name_len = (if name_len \<le> 13 then 0 else (name_len + 12) div 13)"

text \<open>The unit at a position: the name, one terminator, then \<open>0xFFFF\<close>.\<close>

definition unit_at :: "u16 list \<Rightarrow> nat \<Rightarrow> u16" where
  "unit_at us i = (if i < length us then us ! i else if i = length us then 0 else 0xFFFF)"

definition unit_bytes :: "u16 list \<Rightarrow> nat \<Rightarrow> u8 list" where
  "unit_bytes us i = [ucast (unit_at us i AND 0xFF), ucast (drop_bit 8 (unit_at us i))]"

text \<open>The 32 bytes of the long-name entry with index \<open>k\<close>. The two bytes the code leaves as they are
  in the slot are taken from the old bytes.\<close>

definition lfn_entry_bytes :: "u16 list \<Rightarrow> nat \<Rightarrow> u8 \<Rightarrow> nat \<Rightarrow> u8 list \<Rightarrow> u8 list" where
  "lfn_entry_bytes us count checksum k old =
     (let order = of_nat (k + 1) :: u8;
          flag = (if k = count - 1 then order OR 0x40 else order);
          base = k * 13 in
      [flag] @ concat (map (unit_bytes us) [base..<base + 5]) @ [0x0F, 0, checksum] @
      concat (map (unit_bytes us) [base + 5..<base + 11]) @ take 2 (drop 26 old) @
      concat (map (unit_bytes us) [base + 11..<base + 13]))"

text \<open>The two halves of the cluster number and the size in a short entry.\<close>

definition set_cluster :: "u32 \<Rightarrow> u8 list \<Rightarrow> u8 list" where
  "set_cluster c e = e[20 := ucast (drop_bit 16 c), 21 := ucast (drop_bit 24 c),
                       26 := ucast (c AND 0xFF), 27 := ucast (drop_bit 8 c AND 0xFF)]"

definition set_size :: "u32 \<Rightarrow> u8 list \<Rightarrow> u8 list" where
  "set_size sz e = splice 28 (le_bytes 4 sz) e"

definition short_entry_bytes :: "u8 list \<Rightarrow> u8 \<Rightarrow> u32 \<Rightarrow> u32 \<Rightarrow> u8 list \<Rightarrow> u8 list" where
  "short_entry_bytes short attr cluster sz old =
     set_size sz (set_cluster cluster ((splice 0 short old)[11 := attr]))"

text \<open>The first slot of the first run of enough free slots in a sector: position in the scan, start of
  the current run, its length.\<close>

fun find_run :: "nat \<Rightarrow> nat \<Rightarrow> u8 list list \<Rightarrow> nat \<Rightarrow> nat \<Rightarrow> nat option" where
  "find_run need i [] start cnt = None"
| "find_run need i (e # es) start cnt =
     (if e ! 0 = 0x00 \<or> e ! 0 = 0xE5 then
        (let start' = (if cnt = 0 then i else start) in
         if need \<le> cnt + 1 then Some start' else find_run need (Suc i) es start' (cnt + 1))
      else find_run need (Suc i) es 0 0)"

definition set_entry :: "nat \<Rightarrow> (u8 list \<Rightarrow> u8 list) \<Rightarrow> block \<Rightarrow> block" where
  "set_entry i f buf = splice (i * 32) (f (entry_bytes i buf)) buf"

definition write_entries :: "u16 list \<Rightarrow> u8 list \<Rightarrow> u8 \<Rightarrow> u32 \<Rightarrow> u32 \<Rightarrow> nat \<Rightarrow> block \<Rightarrow> block" where
  "write_entries us short attr cluster sz start buf =
     (let count = lfn_count (length us); checksum = lfn_checksum short;
          buf1 = fold (\<lambda>k b. set_entry (start + (count - 1 - k)) (lfn_entry_bytes us count checksum k) b)
                   (rev [0..<count]) buf
      in set_entry (start + count) (short_entry_bytes short attr cluster sz) buf1)"

text \<open>The sectors of one cluster: \<open>Some\<close> is a return of \<open>create_dir_entry\<close>.\<close>

fun create_in_sectors :: "u64 list \<Rightarrow> u16 list \<Rightarrow> u8 list \<Rightarrow> u8 \<Rightarrow> u32 \<Rightarrow> u32 \<Rightarrow> disk \<Rightarrow> (u64 \<times> nat) option option \<times> disk" where
  "create_in_sectors [] us short attr cluster sz d = (None, d)"
| "create_in_sectors (s # ss) us short attr cluster sz d =
     (case disk_read s d of
        None \<Rightarrow> (Some None, d)
      | Some buf \<Rightarrow>
          (case find_run (lfn_count (length us) + 1) 0 (sector_entries buf) 0 0 of
             None \<Rightarrow> create_in_sectors ss us short attr cluster sz d
           | Some start \<Rightarrow>
               (case disk_write s (write_entries us short attr cluster sz start buf) d of
                  (False, d') \<Rightarrow> (Some None, d')
                | (True, d') \<Rightarrow> (Some (Some (s, (start + lfn_count (length us)) * 32)), d'))))"

fun create_loop :: "nat \<Rightarrow> Fat32Fs \<Rightarrow> u32 \<Rightarrow> u16 list \<Rightarrow> u8 list \<Rightarrow> u8 \<Rightarrow> u32 \<Rightarrow> u32 \<Rightarrow> disk \<Rightarrow> ((u64 \<times> nat) option \<times> disk) outcome" where
  "create_loop 0 fs dir us short attr cluster sz d = Runaway"
| "create_loop (Suc n) fs dir us short attr cluster sz d =
     (case create_in_sectors (cluster_sectors fs dir) us short attr cluster sz d of
        (Some r, d') \<Rightarrow> Done (r, d')
      | (None, d') \<Rightarrow>
          (case chain_next fs dir d' of
             Some next \<Rightarrow> create_loop n fs next us short attr cluster sz d'
           | None \<Rightarrow>
               (case alloc_cluster fs d' of
                  (None, d1) \<Rightarrow> Done (None, d1)
                | (Some new, d1) \<Rightarrow> create_loop n fs new us short attr cluster sz (snd (fat_set fs dir new d1)))))"

definition create_dir_entry :: "nat \<Rightarrow> Fat32Fs \<Rightarrow> u32 \<Rightarrow> u8 list \<Rightarrow> u8 \<Rightarrow> u32 \<Rightarrow> u32 \<Rightarrow> disk \<Rightarrow> ((u64 \<times> nat) option \<times> disk) outcome" where
  "create_dir_entry n fs dir_cluster long_name attr first_cluster file_size d =
     obind (make_short_name n fs long_name dir_cluster d) (\<lambda>short.
       create_loop n fs dir_cluster (name_units long_name) short attr first_cluster file_size d)"

section \<open>Updating and deleting entries\<close>

text \<open>The entries of one sector: every entry of that name gets the new size and cluster. The flags
  are the early return at the end of the directory and whether an entry was found.\<close>

fun update_entries :: "nat list \<Rightarrow> u8 list \<Rightarrow> u32 \<Rightarrow> u32 \<Rightarrow> lfn \<Rightarrow> bool \<Rightarrow> block \<Rightarrow> (bool \<times> bool \<times> lfn \<times> block) outcome" where
  "update_entries [] name sz cl l found buf = Done (False, found, l, buf)"
| "update_entries (i # is) name sz cl l found buf =
     obind (scan_entry (entry_bytes i buf) l) (\<lambda>r. case r of
        EndOfDir \<Rightarrow> Done (True, found, l, buf)
      | Skip l' \<Rightarrow> update_entries is name sz cl l' found buf
      | Named nm l' \<Rightarrow>
          if eq_ignore_case nm name
          then update_entries is name sz cl l' True (set_entry i (\<lambda>e. set_cluster cl (set_size sz e)) buf)
          else update_entries is name sz cl l' found buf)"

text \<open>The sectors of one cluster: \<open>Some\<close> is a return.\<close>

fun update_sectors :: "u64 list \<Rightarrow> u8 list \<Rightarrow> u32 \<Rightarrow> u32 \<Rightarrow> lfn \<Rightarrow> disk \<Rightarrow> (bool option \<times> lfn \<times> disk) outcome" where
  "update_sectors [] name sz cl l d = Done (None, l, d)"
| "update_sectors (s # ss) name sz cl l d =
     (case disk_read s d of
        None \<Rightarrow> Done (Some False, l, d)
      | Some buf \<Rightarrow> obind (update_entries [0..<ENTRIES_PER_SECTOR] name sz cl l False buf) (\<lambda>(fin, found, l', buf').
          if fin then Done (Some found, l', d)
          else if found then (case disk_write s buf' d of (ok, d') \<Rightarrow> Done (Some ok, l', d'))
          else update_sectors ss name sz cl l' d))"

fun update_loop :: "nat \<Rightarrow> Fat32Fs \<Rightarrow> u32 \<Rightarrow> u8 list \<Rightarrow> u32 \<Rightarrow> u32 \<Rightarrow> lfn \<Rightarrow> disk \<Rightarrow> (bool \<times> disk) outcome" where
  "update_loop 0 fs dir name sz cl l d = Runaway"
| "update_loop (Suc n) fs dir name sz cl l d =
     obind (update_sectors (cluster_sectors fs dir) name sz cl l d) (\<lambda>(ret, l', d').
       case ret of
         Some b \<Rightarrow> Done (b, d')
       | None \<Rightarrow>
           (case chain_next fs dir d' of
              Some next \<Rightarrow> update_loop n fs next name sz cl l' d'
            | None \<Rightarrow> Done (False, d')))"

definition update_dir_entry_size :: "nat \<Rightarrow> Fat32Fs \<Rightarrow> u32 \<Rightarrow> u8 list \<Rightarrow> u32 \<Rightarrow> u32 \<Rightarrow> disk \<Rightarrow> (bool \<times> disk) outcome" where
  "update_dir_entry_size n fs dir_cluster name new_size new_cluster d =
     update_loop n fs dir_cluster name new_size new_cluster lfn_empty d"

text \<open>\<open>delete_dir_entry\<close>: the long-name length is cleared before it is tested, so the long-name
  entries are never marked.\<close>

fun delete_entries :: "nat list \<Rightarrow> u8 list \<Rightarrow> lfn \<Rightarrow> block \<Rightarrow> (bool option \<times> lfn \<times> block) outcome" where
  "delete_entries [] name l buf = Done (None, l, buf)"
| "delete_entries (i # is) name l buf =
     obind (scan_entry (entry_bytes i buf) l) (\<lambda>r. case r of
        EndOfDir \<Rightarrow> Done (Some False, l, buf)
      | Skip l' \<Rightarrow> delete_entries is name l' buf
      | Named nm l' \<Rightarrow>
          if eq_ignore_case nm name then Done (Some True, l', set_entry i (\<lambda>e. e[0 := 0xE5]) buf)
          else delete_entries is name l' buf)"

fun delete_sectors :: "u64 list \<Rightarrow> u8 list \<Rightarrow> lfn \<Rightarrow> disk \<Rightarrow> (bool option \<times> lfn \<times> disk) outcome" where
  "delete_sectors [] name l d = Done (None, l, d)"
| "delete_sectors (s # ss) name l d =
     (case disk_read s d of
        None \<Rightarrow> Done (Some False, l, d)
      | Some buf \<Rightarrow> obind (delete_entries [0..<ENTRIES_PER_SECTOR] name l buf) (\<lambda>(ret, l', buf').
          case ret of
            Some True \<Rightarrow> Done (Some True, l', snd (disk_write s buf' d))
          | Some False \<Rightarrow> Done (Some False, l', d)
          | None \<Rightarrow> delete_sectors ss name l' d))"

fun delete_loop :: "nat \<Rightarrow> Fat32Fs \<Rightarrow> u32 \<Rightarrow> u8 list \<Rightarrow> lfn \<Rightarrow> disk \<Rightarrow> (bool \<times> disk) outcome" where
  "delete_loop 0 fs dir name l d = Runaway"
| "delete_loop (Suc n) fs dir name l d =
     obind (delete_sectors (cluster_sectors fs dir) name l d) (\<lambda>(ret, l', d').
       case ret of
         Some b \<Rightarrow> Done (b, d')
       | None \<Rightarrow>
           (case chain_next fs dir d' of
              Some next \<Rightarrow> delete_loop n fs next name l' d'
            | None \<Rightarrow> Done (False, d')))"

definition delete_dir_entry :: "nat \<Rightarrow> Fat32Fs \<Rightarrow> u32 \<Rightarrow> u8 list \<Rightarrow> disk \<Rightarrow> (bool \<times> disk) outcome" where
  "delete_dir_entry n fs dir_cluster name d = delete_loop n fs dir_cluster name lfn_empty d"

text \<open>\<open>create_empty_dir\<close>: a cluster with the entries \<open>.\<close> and \<open>..\<close>.\<close>

definition dot_entry :: "u8 list \<Rightarrow> u32 \<Rightarrow> u8 list" where
  "dot_entry dots cluster =
     set_cluster cluster ((splice 0 (pad_to 11 dots) (replicate 32 0))[11 := ATTR_DIRECTORY])"

definition create_empty_dir :: "Fat32Fs \<Rightarrow> u32 \<Rightarrow> disk \<Rightarrow> u32 option \<times> disk" where
  "create_empty_dir fs parent_cluster d =
     (case alloc_cluster fs d of
        (None, d1) \<Rightarrow> (None, d1)
      | (Some cluster, d1) \<Rightarrow>
          (case disk_write (cluster_to_sector fs cluster)
                  (splice 0 (dot_entry [DOT] cluster @ dot_entry [DOT, DOT] parent_cluster) zero_block) d1 of
             (False, d2) \<Rightarrow> (None, d2)
           | (True, d2) \<Rightarrow> (Some cluster, d2)))"

end
