(* ===== verification/Fat_File.thy ===== *)
theory Fat_File
  imports Fat_Dir
begin

text \<open>
  File data of the file server, \<open>src/user/programs/fs-server/src/main.rs\<close>: reading and writing along
  a cluster chain, truncation, and the formatting of the RAM disk. Offsets and sizes of files are
  32-bit words, whose sums wrap around; the fuel bounds the clusters visited.
\<close>

definition cluster_size :: "Fat32Fs \<Rightarrow> u32" where
  "cluster_size fs = ucast (sectors_per_cluster (fs_bpb fs)) * of_nat BLOCK_SIZE"

section \<open>Reading\<close>

text \<open>Both loops that skip to the cluster of the offset: current cluster and bytes skipped. Reading
  stops with 0 at the end of the chain (\<open>None\<close>).\<close>

fun skip_read :: "nat \<Rightarrow> Fat32Fs \<Rightarrow> u32 \<Rightarrow> u32 \<Rightarrow> u32 \<Rightarrow> disk \<Rightarrow> (u32 \<times> u32) option outcome" where
  "skip_read 0 fs cur cur_offset offset d = Runaway"
| "skip_read (Suc n) fs cur cur_offset offset d =
     (if cur_offset + cluster_size fs \<le> offset then
        (case chain_next fs cur d of
           Some next \<Rightarrow> skip_read n fs next (cur_offset + cluster_size fs) offset d
         | None \<Rightarrow> Done None)
      else Done (Some (cur, cur_offset)))"

text \<open>Where the data starts in a sector: the bytes to skip apply to the sectors up to the offset while
  nothing has been transferred.\<close>

definition start_in_sector :: "u32 \<Rightarrow> nat \<Rightarrow> nat \<Rightarrow> u32 \<Rightarrow> bool \<Rightarrow> nat" where
  "start_in_sector cur_offset s skip offset fresh =
     (if cur_offset + of_nat s * of_nat BLOCK_SIZE \<le> offset \<and> fresh then min skip BLOCK_SIZE else 0)"

text \<open>The sectors of one cluster; the flag is a return.\<close>

primrec read_sectors :: "nat list \<Rightarrow> Fat32Fs \<Rightarrow> u32 \<Rightarrow> u32 \<Rightarrow> nat \<Rightarrow> u32 \<Rightarrow> nat \<Rightarrow> u8 list \<Rightarrow> disk \<Rightarrow> bool \<times> u8 list" where
  "read_sectors [] fs cur cur_offset skip offset to_read got d = (False, got)"
| "read_sectors (s # ss) fs cur cur_offset skip offset to_read got d =
     (case disk_read (cluster_to_sector fs cur + of_nat s) d of
        None \<Rightarrow> (True, got)
      | Some sec \<Rightarrow>
          let start = start_in_sector cur_offset s skip offset (got = []);
              n = min (BLOCK_SIZE - start) (to_read - length got) in
          if n = 0 then read_sectors ss fs cur cur_offset skip offset to_read got d
          else let got' = got @ take n (drop start sec) in
               if to_read \<le> length got' then (True, got')
               else read_sectors ss fs cur cur_offset skip offset to_read got' d)"

fun read_loop :: "nat \<Rightarrow> Fat32Fs \<Rightarrow> u32 \<Rightarrow> u32 \<Rightarrow> nat \<Rightarrow> u32 \<Rightarrow> nat \<Rightarrow> u8 list \<Rightarrow> disk \<Rightarrow> u8 list outcome" where
  "read_loop 0 fs cur cur_offset skip offset to_read got d = Runaway"
| "read_loop (Suc n) fs cur cur_offset skip offset to_read got d =
     (if length got < to_read then
        (case read_sectors [0..<spc fs] fs cur cur_offset skip offset to_read got d of
           (True, got') \<Rightarrow> Done got'
         | (False, got') \<Rightarrow>
             (case chain_next fs cur d of
                Some next \<Rightarrow> read_loop n fs next (cur_offset + cluster_size fs) skip offset to_read got' d
              | None \<Rightarrow> Done got'))
      else Done got)"

text \<open>\<open>read_file\<close> into a buffer of \<open>buf_len\<close> bytes: the bytes read.\<close>

definition read_file :: "nat \<Rightarrow> Fat32Fs \<Rightarrow> u32 \<Rightarrow> u32 \<Rightarrow> u32 \<Rightarrow> nat \<Rightarrow> disk \<Rightarrow> u8 list outcome" where
  "read_file n fs cluster offset file_size buf_len d =
     (if file_size \<le> offset \<or> cluster < 2 then Done []
      else obind (skip_read n fs cluster 0 offset d) (\<lambda>r. case r of
        None \<Rightarrow> Done []
      | Some (cur, cur_offset) \<Rightarrow>
          read_loop n fs cur cur_offset (unat (offset - cur_offset)) offset
            (min buf_len (unat (file_size - offset))) [] d))"

section \<open>Writing\<close>

text \<open>Skipping for a write: the chain is extended when it ends before the offset; \<open>None\<close> is a return.\<close>

fun skip_write :: "nat \<Rightarrow> Fat32Fs \<Rightarrow> u32 \<Rightarrow> u32 \<Rightarrow> u32 \<Rightarrow> disk \<Rightarrow> ((u32 \<times> u32) option \<times> disk) outcome" where
  "skip_write 0 fs cur cur_offset offset d = Runaway"
| "skip_write (Suc n) fs cur cur_offset offset d =
     (if cur_offset + cluster_size fs \<le> offset then
        (case chain_next fs cur d of
           Some next \<Rightarrow> skip_write n fs next (cur_offset + cluster_size fs) offset d
         | None \<Rightarrow>
             (case alloc_cluster fs d of
                (None, d1) \<Rightarrow> Done (None, d1)
              | (Some new, d1) \<Rightarrow>
                  skip_write n fs new (cur_offset + cluster_size fs) offset (snd (fat_set fs cur new d1))))
      else Done (Some (cur, cur_offset), d))"

text \<open>The block a sector is built on: its old contents only when bytes at its start are skipped.\<close>

definition write_base :: "u64 \<Rightarrow> nat \<Rightarrow> disk \<Rightarrow> block" where
  "write_base sector start d =
     (if 0 < start then (case disk_read sector d of Some b \<Rightarrow> b | None \<Rightarrow> zero_block) else zero_block)"

primrec write_sectors :: "nat list \<Rightarrow> Fat32Fs \<Rightarrow> u32 \<Rightarrow> u32 \<Rightarrow> nat \<Rightarrow> u32 \<Rightarrow> u8 list \<Rightarrow> nat \<Rightarrow> disk \<Rightarrow> bool \<times> nat \<times> disk" where
  "write_sectors [] fs cur cur_offset skip offset buf written d = (False, written, d)"
| "write_sectors (s # ss) fs cur cur_offset skip offset buf written d =
     (let sector = cluster_to_sector fs cur + of_nat s;
          start = start_in_sector cur_offset s skip offset (written = 0);
          n = min (BLOCK_SIZE - start) (length buf - written) in
      if n = 0 then write_sectors ss fs cur cur_offset skip offset buf written d
      else case disk_write sector (splice start (take n (drop written buf)) (write_base sector start d)) d of
        (ok, d') \<Rightarrow>
          if \<not> ok then (True, written, d')
          else if length buf \<le> written + n then (True, written + n, d')
          else write_sectors ss fs cur cur_offset skip offset buf (written + n) d')"

fun write_loop :: "nat \<Rightarrow> Fat32Fs \<Rightarrow> u32 \<Rightarrow> u32 \<Rightarrow> nat \<Rightarrow> u32 \<Rightarrow> u8 list \<Rightarrow> nat \<Rightarrow> disk \<Rightarrow> ((nat \<times> u32) \<times> disk) outcome" where
  "write_loop 0 fs cur cur_offset skip offset buf written d = Runaway"
| "write_loop (Suc n) fs cur cur_offset skip offset buf written d =
     (if written < length buf then
        (case write_sectors [0..<spc fs] fs cur cur_offset skip offset buf written d of
           (True, written', d') \<Rightarrow> Done ((written', cur), d')
         | (False, written', d') \<Rightarrow>
             (case chain_next fs cur d' of
                Some next \<Rightarrow> write_loop n fs next (cur_offset + cluster_size fs) skip offset buf written' d'
              | None \<Rightarrow>
                  (case alloc_cluster fs d' of
                     (None, d1) \<Rightarrow> Done ((written', cur), d1)
                   | (Some new, d1) \<Rightarrow>
                       write_loop n fs new (cur_offset + cluster_size fs) skip offset buf written'
                         (snd (fat_set fs cur new d1)))))
      else Done ((written, cur), d))"

text \<open>\<open>write_file\<close>: the bytes written and the last cluster.\<close>

definition write_file :: "nat \<Rightarrow> Fat32Fs \<Rightarrow> u32 \<Rightarrow> u32 \<Rightarrow> u8 list \<Rightarrow> disk \<Rightarrow> ((nat \<times> u32) \<times> disk) outcome" where
  "write_file n fs cluster offset buf d =
     (if cluster < 2 then Done ((0, cluster), d)
      else obind (skip_write n fs cluster 0 offset d) (\<lambda>(r, d'). case r of
        None \<Rightarrow> Done ((0, cluster), d')
      | Some (cur, cur_offset) \<Rightarrow> write_loop n fs cur cur_offset (unat (offset - cur_offset)) offset buf 0 d'))"

section \<open>Truncation\<close>

definition truncate_file :: "nat \<Rightarrow> Fat32Fs \<Rightarrow> u32 \<Rightarrow> u32 \<Rightarrow> u8 list \<Rightarrow> disk \<Rightarrow> (bool \<times> disk) outcome" where
  "truncate_file n fs cluster dir_cluster name d =
     (if cluster < 2 then Done (True, d)
      else obind (case chain_next fs cluster d of
                    Some next \<Rightarrow> obind (free_chain n fs next d) (\<lambda>(_, d1). Done d1)
                  | None \<Rightarrow> Done d) (\<lambda>d1.
        update_dir_entry_size n fs dir_cluster name 0 cluster
          (clear_cluster fs cluster (snd (fat_set fs cluster FAT32_EOC d1)))))"

section \<open>Formatting\<close>

text \<open>Writing fields into a block at their offsets.\<close>

definition put_fields :: "(nat \<times> u8 list) list \<Rightarrow> block \<Rightarrow> block" where
  "put_fields fls b = fold (\<lambda>(off, bs) b. splice off bs b) fls b"

definition FORMAT_RESERVED :: u16 where "FORMAT_RESERVED = 32"

definition format_fat_size :: u32 where
  "format_fat_size = (of_nat RAMDISK_SECTORS * 4 + of_nat BLOCK_SIZE - 1) div of_nat BLOCK_SIZE"

definition format_bpb :: block where
  "format_bpb = put_fields
     [(0, [0xEB, 0x58, 0x90]), (3, ascii ''NEKOS   ''), (11, le_bytes 2 (512 :: u16)), (13, [1]),
      (14, le_bytes 2 FORMAT_RESERVED), (16, [1]), (17, le_bytes 2 (0 :: u16)), (19, le_bytes 2 (0 :: u16)), (21, [0xF8]),
      (22, le_bytes 2 (0 :: u16)), (24, le_bytes 2 (1 :: u16)), (26, le_bytes 2 (1 :: u16)), (28, le_bytes 4 (0 :: u32)),
      (32, le_bytes 4 (of_nat RAMDISK_SECTORS :: u32)), (36, le_bytes 4 format_fat_size), (40, le_bytes 2 (0 :: u16)),
      (42, le_bytes 2 (0 :: u16)), (44, le_bytes 4 (2 :: u32)), (48, le_bytes 2 (1 :: u16)), (50, le_bytes 2 (6 :: u16)),
      (64, [0x80]), (66, [0x29]), (67, le_bytes 4 (0x12345678 :: u32)), (71, ascii ''NEKOS      ''),
      (82, ascii ''FAT32   ''), (510, [0x55, 0xAA])] zero_block"

definition format_fsinfo :: block where
  "format_fsinfo = put_fields
     [(0, [0x52, 0x52, 0x61, 0x41]), (484, [0x72, 0x72, 0x41, 0x61]),
      (488, le_bytes 4 (of_nat RAMDISK_SECTORS - 33 :: u32)), (492, le_bytes 4 (3 :: u32)),
      (508, [0x00, 0x00, 0x55, 0xAA])] zero_block"

definition format_fat :: block where
  "format_fat = put_fields
     [(0, le_bytes 4 (0x0FFFFFF8 :: u32)), (4, le_bytes 4 (0x0FFFFFFF :: u32)), (8, le_bytes 4 FAT32_EOC)] zero_block"

text \<open>\<open>format_fat32\<close>: only the first two writes are checked.\<close>

definition format_fat32 :: "disk \<Rightarrow> bool \<times> disk" where
  "format_fat32 d =
     (case disk_write 0 format_bpb d of (False, d1) \<Rightarrow> (False, d1) | (True, d1) \<Rightarrow>
      case disk_write 6 format_bpb d1 of (False, d2) \<Rightarrow> (False, d2) | (True, d2) \<Rightarrow>
      let d3 = snd (disk_write 1 format_fsinfo d2);
          fstart = ucast FORMAT_RESERVED;
          d4 = snd (disk_write fstart format_fat d3);
          root = fstart + ucast format_fat_size
      in (True, snd (disk_write root zero_block d4)))"

text \<open>The state in which the server starts: the disk formatted and opened; \<open>None\<close> when it exits.\<close>

definition server_start :: "disk \<Rightarrow> (Fat32Fs \<times> disk) option outcome" where
  "server_start d =
     (case format_fat32 d of
        (False, _) \<Rightarrow> Done None
      | (True, d') \<Rightarrow>
          obind (fs_open (case disk_read 0 d' of Some b \<Rightarrow> b | None \<Rightarrow> zero_block)) (\<lambda>r.
            case r of None \<Rightarrow> Panic | Some fs \<Rightarrow> Done (Some (fs, d'))))"

end
