(* ===== verification/Fat_Content.thy ===== *)
theory Fat_Content
  imports Fat_Chain Fat_File
begin

text \<open>
  What \<open>read_file\<close> and \<open>write_file\<close> of the file server
  (\<open>src/user/programs/fs-server/src/main.rs\<close>) do to the content of a file, the blocks of its chain
  one after the other, on the volumes the server makes.
\<close>

lemma cluster_size_one: "fs_ok fs \<Longrightarrow> cluster_size fs = 512"
  by (simp add: cluster_size_def fs_ok_def layout)

lemma spc_one: "fs_ok fs \<Longrightarrow> [0..<spc fs] = [0]"
  by (simp add: spc_def fs_ok_def)

text \<open>The offset of the next cluster, while it does not wrap around.\<close>

lemma next_offset: "unat (w :: u32) + 512 < 2 ^ 32 \<Longrightarrow> unat (w + 512) = unat w + 512"
  by (simp add: unat_word_ariths)

lemma chain_offset: "file_chain fs cs d \<Longrightarrow> fs_ok fs \<Longrightarrow> BLOCK_SIZE * length cs < 2 ^ 32"
  using file_chain_length [of fs cs d] by (simp add: fs_ok_def layout)

section \<open>Reading\<close>

lemma skip_read_ok:
  assumes ok: "fs_ok fs"
  shows "file_chain fs cs d \<Longrightarrow> length cs \<le> n \<Longrightarrow> unat base + 512 * length cs < 2 ^ 32 \<Longrightarrow> base \<le> offset \<Longrightarrow>
    skip_read n fs (hd cs) base offset d =
      (let k = (unat offset - unat base) div 512
       in Done (if k < length cs then Some (cs ! k, base + of_nat (512 * k)) else None))"
proof (induction cs arbitrary: n base)
  case Nil
  then show ?case using file_chain_ne by blast
next
  case (Cons c cs)
  obtain m where n: "n = Suc m" using Cons.prems(2) by (cases n) simp_all
  have nb: "unat (base + 512) = unat base + 512" using Cons.prems(3) by (intro next_offset) simp
  show ?case
  proof (cases "base + 512 \<le> offset")
    case False
    then have "unat offset - unat base < 512" using Cons.prems(4) nb by (simp add: word_le_nat_alt)
    then show ?thesis using n False by (simp add: cluster_size_one [OF ok])
  next
    case True
    then have k: "(unat offset - unat base) div 512 = Suc ((unat offset - unat (base + 512)) div 512)"
      using nb by (simp add: word_le_nat_alt le_div_geq)
    show ?thesis
    proof (cases cs)
      case Nil
      then show ?thesis using n True k Cons.prems(1) by (simp add: cluster_size_one [OF ok] chain_next_ok [OF ok])
    next
      case (Cons c' ds)
      have "file_chain fs cs d" using Cons.prems(1) \<open>cs = c' # ds\<close> file_chain_tl by blast
      then have "skip_read m fs (hd cs) (base + 512) offset d = (let k = (unat offset - unat (base + 512)) div 512
          in Done (if k < length cs then Some (cs ! k, base + 512 + of_nat (512 * k)) else None))"
        using Cons.IH [of m "base + 512"] Cons.prems(2,3) n nb True by simp
      then show ?thesis
        using n True k Cons.prems(1) Cons
        by (simp add: cluster_size_one [OF ok] chain_next_ok [OF ok] Let_def algebra_simps)
    qed
  qed
qed

lemma read_loop_ok:
  assumes ok: "fs_ok fs"
  shows "file_chain fs cs d \<Longrightarrow> length cs \<le> n \<Longrightarrow> length got \<le> to_read \<Longrightarrow> skip < 512 \<Longrightarrow>
    (got = [] \<Longrightarrow> base \<le> offset) \<Longrightarrow>
    read_loop n fs (hd cs) base skip offset to_read got d =
      Done (got @ take (to_read - length got) (drop (if got = [] then skip else 0) (file_content fs cs d)))"
proof (induction cs arbitrary: n base got)
  case Nil
  then show ?case using file_chain_ne by blast
next
  case (Cons c cs)
  obtain m where n: "n = Suc m" using Cons.prems(2) by (cases n) simp_all
  have v: "valid_cluster fs c" using Cons.prems(1) by (simp add: file_chain_def)
  let ?start = "if got = [] then skip else 0"
  let ?sec = "cluster_data fs c d"
  let ?n = "min (512 - ?start) (to_read - length got)"
  have len: "length ?sec = 512" by (simp add: layout)
  have st: "start_in_sector base 0 skip offset (got = []) = ?start"
    using Cons.prems(4,5) by (simp add: start_in_sector_def layout)
  have rd: "disk_read (cluster_to_sector fs c) d = Some ?sec"
    using put_cluster_ok(3) [OF ok v, of zero_block] by simp
  show ?case
  proof (cases "length got < to_read")
    case False
    then show ?thesis using n Cons.prems(3) by simp
  next
    case True
    then have pos: "0 < ?n" using Cons.prems(4) by auto
    have sec: "read_sectors [0..<spc fs] fs c base skip offset to_read got d =
        (let got' = got @ take ?n (drop ?start ?sec) in (to_read \<le> length got', got'))"
      using pos by (auto simp: spc_one [OF ok] rd st layout Let_def)
    have lt: "length (take ?n (drop ?start ?sec)) = ?n" using len by auto
    show ?thesis
    proof (cases "to_read \<le> length got + ?n")
      case full: True
      then have eq: "?n = to_read - length got" "to_read - length got \<le> 512 - ?start" by auto
      then have "take (to_read - length got) (drop ?start (file_content fs (c # cs) d)) = take ?n (drop ?start ?sec)"
        using len Cons.prems(4) by auto
      then show ?thesis using n True sec full lt by (simp add: Let_def)
    next
      case part: False
      then have eq: "?n = 512 - ?start" by auto
      let ?got = "got @ take ?n (drop ?start ?sec)"
      have g: "?got = got @ drop ?start ?sec" "?got \<noteq> []" "length ?got \<le> to_read" "\<not> to_read \<le> length ?got"
        using eq len part pos lt by auto
      have body: "read_loop n fs (hd (c # cs)) base skip offset to_read got d =
          (case chain_next fs c d of Some next \<Rightarrow> read_loop m fs next (base + 512) skip offset to_read ?got d
           | None \<Rightarrow> Done ?got)"
        using n True sec g(4) by (simp add: Let_def cluster_size_one [OF ok] split del: if_split cong: option.case_cong)
      have split: "got @ take (to_read - length got) (drop ?start (file_content fs (c # cs) d)) =
          ?got @ take (to_read - length ?got) (file_content fs cs d)"
        using g(1,3) len Cons.prems(4) by auto
      show ?thesis
      proof (cases cs)
        case Nil
        then show ?thesis using body split Cons.prems(1) by (simp add: chain_next_ok [OF ok])
      next
        case (Cons c' ds)
        have "file_chain fs cs d" using Cons.prems(1) \<open>cs = c' # ds\<close> file_chain_tl by blast
        then have "read_loop m fs (hd cs) (base + 512) skip offset to_read ?got d =
            Done (?got @ take (to_read - length ?got) (drop (if ?got = [] then skip else 0) (file_content fs cs d)))"
        proof (rule Cons.IH [OF _ _ g(3) Cons.prems(4)])
          show "length cs \<le> m" using Cons.prems(2) n by simp
        qed (use g(2) in blast)
        then have "read_loop m fs (hd cs) (base + 512) skip offset to_read ?got d =
            Done (?got @ take (to_read - length ?got) (file_content fs cs d))"
          by (simp only: if_not_P [OF g(2)] drop_0)
        then show ?thesis using body split Cons.prems(1) Cons by (simp only: chain_next_ok [OF ok] list.simps option.simps list.sel)
      qed
    qed
  qed
qed

lemma read_file_ok:
  assumes ok: "fs_ok fs" and ch: "file_chain fs cs d" and n: "length cs \<le> n"
  shows "read_file n fs (hd cs) offset fsize len d =
    Done (take (min len (unat fsize - unat offset)) (drop (unat offset) (file_content fs cs d)))"
proof -
  have "valid_cluster fs (hd cs)" using ch file_chain_ne [OF ch] by (auto simp: file_chain_def)
  then have hd: "\<not> hd cs < 2" using valid_bound [OF ok] by blast
  have skip: "skip_read n fs (hd cs) 0 offset d =
      (let k = unat offset div 512 in Done (if k < length cs then Some (cs ! k, of_nat (512 * k)) else None))"
    using skip_read_ok [OF ok ch n, of 0 offset] chain_offset [OF ch ok] by (simp add: layout Let_def)
  let ?k = "unat offset div 512"
  show ?thesis
  proof (cases "fsize \<le> offset")
    case True
    then show ?thesis by (simp add: read_file_def word_le_nat_alt)
  next
    case False
    then have sz: "unat (fsize - offset) = unat fsize - unat offset" by (simp add: unat_sub)
    show ?thesis
    proof (cases "?k < length cs")
      case False
      have "length (file_content fs cs d) \<le> unat offset"
        using False by (simp add: length_file_content layout not_less less_eq_div_iff_mult_less_eq mult.commute)
      then show ?thesis using \<open>\<not> fsize \<le> offset\<close> hd skip False by (simp add: read_file_def Let_def)
    next
      case True
      let ?b = "of_nat (512 * ?k) :: u32"
      have "512 * ?k \<le> unat offset" by simp
      moreover have "unat offset < 2 ^ 32" using unsigned_less [of offset] by simp
      ultimately have b: "unat ?b = 512 * ?k" by (simp only: unat_of_nat) simp
      have le: "?b \<le> offset" unfolding word_le_nat_alt b by simp
      have sk: "unat (offset - ?b) = unat offset mod 512"
        unfolding unat_sub [OF le] b by (rule minus_mult_div_eq_mod)
      have ch': "file_chain fs (drop ?k cs) d" using file_chain_drop [OF ch True] .
      have "read_loop n fs (hd (drop ?k cs)) ?b (unat offset mod 512) offset (min len (unat fsize - unat offset)) [] d =
          Done (take (min len (unat fsize - unat offset)) (drop (unat offset mod 512) (file_content fs (drop ?k cs) d)))"
        using read_loop_ok [OF ok ch', of n "[]"] le n by simp
      then show ?thesis
        using \<open>\<not> fsize \<le> offset\<close> hd skip True sk sz
        by (simp add: read_file_def Let_def hd_drop_conv_nth file_content_drop layout add.commute)
    qed
  qed
qed

text \<open>C19: reading a file along its chain returns what the reference, a slice of the content of the file,
  gives: from the offset, as many bytes as the buffer, the size and the chain allow.\<close>

theorem read_file_slice:
  assumes "fs_ok fs" and "file_chain fs cs d" and "length cs \<le> n"
  shows "read_file n fs (hd cs) offset fsize len d =
    Done (take (min len (unat fsize - unat offset)) (drop (unat offset) (file_content fs cs d)))"
  using assms by (rule read_file_ok)

theorem read_file_slice_witness: "file_chain sample_fs [2, 3] sample_disk \<and>
    read_file 2 sample_fs 2 600 700 50 sample_disk =
      Done (take 50 (drop 88 (cluster_data sample_fs 3 sample_disk)))"
  using read_file_slice [OF sample_fs_ok sample_chain, of 2 600 700 50] sample_chain by (simp add: layout)

end
