(* ===== verification/Fat_Write.thy ===== *)
theory Fat_Write
  imports Fat_Content
begin

text \<open>
  What \<open>write_file\<close> of the file server (\<open>src/user/programs/fs-server/src/main.rs\<close>) does: the chain
  grows by free clusters as far as it must, the bytes before the offset stay, the bytes written are
  those of the buffer, and the other files of the volume are as before.
\<close>

section \<open>Growing a file\<close>

definition grown :: "Fat32Fs \<Rightarrow> u32 list \<Rightarrow> disk \<Rightarrow> u32 list \<Rightarrow> disk \<Rightarrow> bool" where
  "grown fs cs d cs' d' \<longleftrightarrow> file_chain fs cs' d' \<and> (\<exists>ext. cs' = cs @ ext \<and> (\<forall>c \<in> set ext. fat_get fs c d = 0)) \<and>
     (\<forall>c. valid_cluster fs c \<and> c \<notin> set cs' \<longrightarrow>
        fat_get fs c d' = fat_get fs c d \<and> cluster_data fs c d' = cluster_data fs c d)"

lemma grown_refl: "file_chain fs cs d \<Longrightarrow> grown fs cs d cs d"
  by (simp add: grown_def)

lemma grown_trans:
  assumes "grown fs cs d cs1 d1" and "grown fs cs1 d1 cs2 d2"
  shows "grown fs cs d cs2 d2"
proof -
  obtain e1 e2 where e: "cs1 = cs @ e1" "\<forall>c \<in> set e1. fat_get fs c d = 0" "cs2 = cs1 @ e2"
    "\<forall>c \<in> set e2. fat_get fs c d1 = 0" using assms by (auto simp: grown_def)
  have ch: "file_chain fs cs2 d2" using assms(2) by (simp add: grown_def)
  then have "distinct (cs1 @ e2)" "\<forall>c \<in> set e2. valid_cluster fs c"
    using file_chain_distinct [OF ch] e(3) by (simp_all add: file_chain_def)
  then have "\<forall>c \<in> set e2. fat_get fs c d = 0" using assms(1) e(4) by (fastforce simp: grown_def)
  then have "\<exists>ext. cs2 = cs @ ext \<and> (\<forall>c \<in> set ext. fat_get fs c d = 0)"
    using e by (intro exI [of _ "e1 @ e2"]) auto
  moreover have "fat_get fs c d2 = fat_get fs c d \<and> cluster_data fs c d2 = cluster_data fs c d"
    if "valid_cluster fs c" "c \<notin> set cs2" for c
  proof -
    have "c \<notin> set cs1" using that(2) e(3) by simp
    then show ?thesis using assms that by (simp add: grown_def)
  qed
  ultimately show ?thesis using ch by (simp add: grown_def)
qed

lemma grown_put:
  assumes "fs_ok fs" and "file_chain fs cs d" and "c \<in> set cs" and "length b = BLOCK_SIZE"
  shows "grown fs cs d cs (put_cluster fs c b d)"
proof -
  have v: "\<And>x. x \<in> set cs \<Longrightarrow> valid_cluster fs x" using assms(2) by (simp add: file_chain_def)
  note laws = fat_volume_laws(3,4) [OF assms(1) v [OF assms(3)] _ assms(4)]
  have "chain_of (\<lambda>x. fat_get fs x (put_cluster fs c b d)) cs = chain_of (\<lambda>x. fat_get fs x d) cs"
    by (rule chain_of_cong) (simp add: laws(1) v)
  then show ?thesis using assms(2,3) by (auto simp: grown_def file_chain_def laws)
qed

text \<open>The content when the block of one cluster is replaced.\<close>

lemma content_put:
  assumes "fs_ok fs" and "file_chain fs cs d" and "i < length cs" and "length b = BLOCK_SIZE"
  shows "file_content fs cs (put_cluster fs (cs ! i) b d) =
    take (BLOCK_SIZE * i) (file_content fs cs d) @ b @ drop (BLOCK_SIZE * Suc i) (file_content fs cs d)"
proof -
  have v: "\<And>x. x \<in> set cs \<Longrightarrow> valid_cluster fs x" using assms(2) by (simp add: file_chain_def)
  let ?d = "put_cluster fs (cs ! i) b d"
  have data: "cluster_data fs x ?d = (if x = cs ! i then b else cluster_data fs x d)" if "x \<in> set cs" for x
    using fat_volume_laws(4) [OF assms(1) v [OF nth_mem [OF assms(3)]] v [OF that] assms(4)] .
  have split: "cs = take i cs @ cs ! i # drop (Suc i) cs" using assms(3) by (rule id_take_nth_drop)
  then have "distinct (take i cs @ cs ! i # drop (Suc i) cs)" using file_chain_distinct [OF assms(2)] by simp
  then have nin: "cs ! i \<notin> set (take i cs)" "cs ! i \<notin> set (drop (Suc i) cs)" by auto
  have "file_content fs (take i cs) ?d = file_content fs (take i cs) d"
    by (rule file_content_cong) (use nin data set_take_subset [of i cs] in auto)
  moreover have "file_content fs (drop (Suc i) cs) ?d = file_content fs (drop (Suc i) cs) d"
    by (rule file_content_cong) (use nin data set_drop_subset [of "Suc i" cs] in auto)
  ultimately have "file_content fs (take i cs @ cs ! i # drop (Suc i) cs) ?d =
      file_content fs (take i cs) d @ b @ file_content fs (drop (Suc i) cs) d"
    using data [OF nth_mem [OF assms(3)]] by simp
  moreover have "file_content fs (take i cs) d = take (BLOCK_SIZE * i) (file_content fs cs d)"
  proof -
    have "file_content fs cs d = file_content fs (take i cs) d @ file_content fs (drop i cs) d"
      using file_content_simps(3) [of fs "take i cs" "drop i cs" d] by simp
    then show ?thesis using assms(3) by (simp add: length_file_content)
  qed
  ultimately show ?thesis using split by (simp add: file_content_drop)
qed

text \<open>A new cluster at the end.\<close>

lemma grown_alloc:
  assumes ok: "fs_ok fs" and ch: "file_chain fs cs d" and al: "alloc_cluster fs d = (Some new, d1)"
  defines "d2 \<equiv> snd (fat_set fs (last cs) new d1)"
  shows "grown fs cs d (cs @ [new]) d2" and "file_content fs (cs @ [new]) d2 = file_content fs cs d @ zero_block"
proof -
  have f: "find_free_cluster fs d = Some new" and d1: "d1 = put_cluster fs new zero_block (fat_put fs new FAT32_EOC d)"
    using alloc_cluster_ok(2) [OF ok al] by simp_all
  have v: "valid_cluster fs new" "fat_get fs new d = 0"
    using find_free_cluster_ok(2) [OF ok f] searched_valid by auto
  note b = valid_bound [OF ok v(1)]
  have cv: "\<And>c. c \<in> set cs \<Longrightarrow> valid_cluster fs c" and co: "chain_of (\<lambda>c. fat_get fs c d) cs"
    using ch by (simp_all add: file_chain_def)
  have d2: "d2 = fat_put fs (last cs) new (put_cluster fs new zero_block (fat_put fs new FAT32_EOC d))"
    by (simp add: d2_def fat_put_def d1)
  note ext = volume.extend_chain [OF ok cv v(1) co v(2) b(1,2) length_zero_block, folded d2]
  have "file_chain fs (cs @ [new]) d2" using ext(1) cv v(1) by (auto simp: file_chain_def)
  moreover have "c \<noteq> last cs" if "c \<notin> set cs" for c using that file_chain_ne [OF ch] by auto
  ultimately show "grown fs cs d (cs @ [new]) d2"
    using ext(4,5) v(2) by (auto simp: grown_def)
  have "file_content fs cs d2 = file_content fs cs d"
    by (rule file_content_cong) (use ext(3,4) cv in auto)
  then show "file_content fs (cs @ [new]) d2 = file_content fs cs d @ zero_block" using ext(2) by simp
qed

section \<open>Bytes at a position\<close>

definition written_at :: "u8 list \<Rightarrow> nat \<Rightarrow> u8 list \<Rightarrow> u8 list \<Rightarrow> bool" where
  "written_at ct pos xs ct' \<longleftrightarrow> pos + length xs \<le> length ct' \<and> take pos ct' = take pos ct \<and> take (length xs) (drop pos ct') = xs"

lemma written_at_Nil: "pos \<le> length ct \<Longrightarrow> written_at ct pos [] ct"
  by (simp add: written_at_def)

lemma written_at_append:
  assumes "written_at ct pos xs ct1" and "written_at (ct1 @ z) (pos + length xs) ys ct2"
  shows "written_at ct pos (xs @ ys) ct2"
proof -
  have l: "pos + length xs \<le> length ct1" using assms(1) by (simp add: written_at_def)
  then have t: "take (pos + length xs) ct2 = take (pos + length xs) ct1" using assms(2) by (simp add: written_at_def)
  have "take pos ct2 = take pos (take (pos + length xs) ct2)" by (simp add: min_def)
  also have "\<dots> = take pos ct1" unfolding t by (simp add: min_def)
  finally have "take pos ct2 = take pos ct" using assms(1) by (simp add: written_at_def)
  moreover have "take (length xs) (drop pos ct2) = xs"
  proof -
    have "take (length xs) (drop pos ct2) = drop pos (take (pos + length xs) ct2)" by (simp add: drop_take)
    also have "\<dots> = take (length xs) (drop pos ct1)" unfolding t by (simp add: drop_take)
    finally show ?thesis using assms(1) by (simp add: written_at_def)
  qed
  ultimately show ?thesis using assms(2) by (simp add: written_at_def take_add add.commute add.left_commute)
qed

section \<open>One sector\<close>

lemma written_at_block:
  assumes "length b = BLOCK_SIZE" and "st + length xs \<le> BLOCK_SIZE"
    and "BLOCK_SIZE * Suc i \<le> length ct"
    and "take st b = take st (drop (BLOCK_SIZE * i) ct)" and "take (length xs) (drop st b) = xs"
  shows "written_at ct (BLOCK_SIZE * i + st) xs (take (BLOCK_SIZE * i) ct @ b @ drop (BLOCK_SIZE * Suc i) ct)"
  using assms by (simp add: written_at_def take_add)

lemma splice_block:
  assumes "st + length xs \<le> length base"
  shows "length (splice st xs base) = length base" and "take st (splice st xs base) = take st base"
    and "take (length xs) (drop st (splice st xs base)) = xs"
  using assms by (simp_all add: splice_def)

lemma write_sector_ok:
  assumes ok: "fs_ok fs" and ch: "file_chain fs cs d" and i: "i < length cs"
    and st: "skip < BLOCK_SIZE" "written = 0 \<Longrightarrow> base \<le> offset" and wr: "written < length buf"
  defines "start \<equiv> if written = 0 then skip else 0"
  defines "m \<equiv> min (BLOCK_SIZE - start) (length buf - written)"
  obtains d' where "write_sectors [0..<spc fs] fs (cs ! i) base skip offset buf written d =
      (length buf \<le> written + m, written + m, d')"
    and "0 < m" and "grown fs cs d cs d'"
    and "written_at (file_content fs cs d) (BLOCK_SIZE * i + start) (take m (drop written buf)) (file_content fs cs d')"
proof -
  have v: "valid_cluster fs (cs ! i)" using ch nth_mem [OF i] by (auto simp: file_chain_def)
  have s: "start_in_sector base 0 skip offset (written = 0) = start"
    using st by (auto simp: start_in_sector_def start_def)
  have lt: "start < BLOCK_SIZE" using st(1) by (simp add: start_def layout)
  then have pos: "0 < m" using wr by (simp add: m_def)
  let ?c = "cluster_to_sector fs (cs ! i)" and ?xs = "take m (drop written buf)"
  have rd: "disk_read ?c d = Some (cluster_data fs (cs ! i) d)" using put_cluster_ok(3) [OF ok v length_zero_block] .
  have base: "length (write_base ?c start d) = BLOCK_SIZE"
    "take start (write_base ?c start d) = take start (cluster_data fs (cs ! i) d)"
    by (simp_all add: write_base_def rd)
  have lx: "length ?xs = m" by (simp add: m_def)
  then have fit: "start + length ?xs \<le> length (write_base ?c start d)" using lt base(1) by (simp add: m_def)
  let ?b = "splice start ?xs (write_base ?c start d)"
  have b: "length ?b = BLOCK_SIZE" "take start ?b = take start (cluster_data fs (cs ! i) d)" "take (length ?xs) (drop start ?b) = ?xs"
    using splice_block [OF fit] base by simp_all
  have cd: "take start (cluster_data fs (cs ! i) d) = take start (drop (BLOCK_SIZE * i) (file_content fs cs d))"
    using i lt by (simp add: file_content_drop [symmetric] Cons_nth_drop_Suc [symmetric])
  show thesis
  proof (rule that [of "put_cluster fs (cs ! i) ?b d"])
    show "write_sectors [0..<spc fs] fs (cs ! i) base skip offset buf written d =
        (length buf \<le> written + m, written + m, put_cluster fs (cs ! i) ?b d)"
      using pos put_cluster_ok(1) [OF ok v b(1), of d]
      by (simp add: spc_one [OF ok] s m_def [symmetric] Let_def)
    show "grown fs cs d cs (put_cluster fs (cs ! i) ?b d)" using grown_put [OF ok ch nth_mem [OF i] b(1)] .
    have "length (file_content fs cs d) \<ge> BLOCK_SIZE * Suc i"
      unfolding length_file_content using i by (intro mult_le_mono2) simp
    then show "written_at (file_content fs cs d) (BLOCK_SIZE * i + start) ?xs (file_content fs cs (put_cluster fs (cs ! i) ?b d))"
      unfolding content_put [OF ok ch i b(1)]
      using b cd fit base(1) by (intro written_at_block) simp_all
  qed (rule pos)
qed

section \<open>The loops\<close>

lemma chain_next_nth:
  assumes "fs_ok fs" and "file_chain fs cs d" and "i < length cs"
  shows "chain_next fs (cs ! i) d = (if Suc i < length cs then Some (cs ! Suc i) else None)"
proof -
  have "file_chain fs (cs ! i # drop (Suc i) cs) d"
    using file_chain_drop [OF assms(2,3)] assms(3) by (simp add: Cons_nth_drop_Suc)
  then show ?thesis
    using chain_next_ok [OF assms(1)] by (cases "Suc i < length cs") (simp_all add: Cons_nth_drop_Suc [symmetric])
qed

lemma grown_length: "grown fs cs d cs' d' \<Longrightarrow> length cs \<le> length cs' \<and> file_chain fs cs' d'"
  by (auto simp: grown_def)

text \<open>What a loop that writes from a cluster reaches.\<close>

definition write_goal :: "Fat32Fs \<Rightarrow> u32 list \<Rightarrow> disk \<Rightarrow> nat \<Rightarrow> u8 list \<Rightarrow> nat \<Rightarrow> ((nat \<times> u32) \<times> disk) outcome \<Rightarrow> bool" where
  "write_goal fs cs d pos buf written r \<longleftrightarrow> (\<exists>cs' w lst d'. r = Done ((w, lst), d') \<and> grown fs cs d cs' d' \<and>
     written \<le> w \<and> w \<le> length buf \<and> (w = length buf \<or> find_free_cluster fs d' = None) \<and>
     written_at (file_content fs cs d) pos (take (w - written) (drop written buf)) (file_content fs cs' d'))"

lemma write_goal_step:
  assumes at: "written_at (file_content fs cs d) pos (take m (drop written buf)) (file_content fs cs d1)"
    and z: "file_content fs cs1 d2 = file_content fs cs d1 @ z" and g2: "grown fs cs d cs1 d2"
    and m: "written + m < length buf" and rest: "write_goal fs cs1 d2 (pos + m) buf (written + m) r"
  shows "write_goal fs cs d pos buf written r"
proof -
  obtain cs' w lst d' where r: "r = Done ((w, lst), d')" "grown fs cs1 d2 cs' d'" "written + m \<le> w" "w \<le> length buf"
    "w = length buf \<or> find_free_cluster fs d' = None"
    "written_at (file_content fs cs1 d2) (pos + m) (take (w - (written + m)) (drop (written + m) buf)) (file_content fs cs' d')"
    using rest by (auto simp: write_goal_def)
  have lm: "length (take m (drop written buf)) = m" using m by simp
  have "take m (drop written buf) @ take (w - (written + m)) (drop (written + m) buf) = take (m + (w - (written + m))) (drop written buf)"
    by (simp add: take_add add.commute)
  also have "m + (w - (written + m)) = w - written" using r(3) by simp
  finally have eq: "take m (drop written buf) @ take (w - (written + m)) (drop (written + m) buf) = take (w - written) (drop written buf)" .
  have "written_at (file_content fs cs d1 @ z) (pos + length (take m (drop written buf)))
      (take (w - (written + m)) (drop (written + m) buf)) (file_content fs cs' d')"
    unfolding lm using r(6) z by (simp del: take_drop)
  from written_at_append [OF at this]
  have "written_at (file_content fs cs d) pos (take (w - written) (drop written buf)) (file_content fs cs' d')"
    unfolding eq .
  moreover have "written \<le> w" using r(3) by simp
  ultimately show ?thesis using r(1,4,5) grown_trans [OF g2 r(2)] unfolding write_goal_def by blast
qed

lemma write_loop_ok:
  assumes ok: "fs_ok fs" and st: "skip < BLOCK_SIZE"
  shows "file_chain fs cs d \<Longrightarrow> i < length cs \<Longrightarrow> (written = 0 \<Longrightarrow> base \<le> offset) \<Longrightarrow> written \<le> length buf \<Longrightarrow>
    0 < n \<Longrightarrow> (if written = 0 then skip else 0) + (length buf - written) \<le> BLOCK_SIZE * n \<Longrightarrow>
    write_goal fs cs d (BLOCK_SIZE * i + (if written = 0 then skip else 0)) buf written
      (write_loop n fs (cs ! i) base skip offset buf written d)"
proof (induction n arbitrary: cs d i written base)
  case (Suc n)
  let ?start = "if written = 0 then skip else 0"
  show ?case
  proof (cases "written < length buf")
    case False
    have "BLOCK_SIZE * i + ?start \<le> BLOCK_SIZE * Suc i" using st by simp
    also have "\<dots> \<le> length (file_content fs cs d)"
      unfolding length_file_content using Suc.prems(2) by (intro mult_le_mono2) simp
    finally show ?thesis
      using False Suc.prems(1,4) grown_refl [OF Suc.prems(1)] written_at_Nil
      by (auto simp: write_goal_def)
  next
    case True
    define m where "m = min (BLOCK_SIZE - ?start) (length buf - written)"
    obtain d1 where w: "write_sectors [0..<spc fs] fs (cs ! i) base skip offset buf written d =
        (length buf \<le> written + m, written + m, d1)"
      and pos: "0 < m" and g: "grown fs cs d cs d1"
      and at: "written_at (file_content fs cs d) (BLOCK_SIZE * i + ?start) (take m (drop written buf)) (file_content fs cs d1)"
      using write_sector_ok [OF ok Suc.prems(1,2) st Suc.prems(3) True] unfolding m_def by metis
    note ch1 = conjunct2 [OF grown_length [OF g]]
    show ?thesis
    proof (cases "length buf \<le> written + m")
      case True
      then have "m = length buf - written" by (simp add: m_def)
      then show ?thesis
        using \<open>written < length buf\<close> True w g at by (auto simp: write_goal_def intro!: exI [of _ cs])
    next
      case False
      then have m: "?start + m = BLOCK_SIZE" "written + m < length buf" using st by (auto simp: m_def)
      have p: "BLOCK_SIZE * i + ?start + m = BLOCK_SIZE * Suc i + (if written + m = 0 then skip else 0)"
        using m(1) pos by simp
      have bound: "(if written + m = 0 then skip else 0) + (length buf - (written + m)) \<le> BLOCK_SIZE * n"
        using Suc.prems(6) m pos by simp
      then have n: "0 < n" using m(2) by (cases n) simp_all
      have IH: "write_goal fs cs1 d2 (BLOCK_SIZE * i + ?start + m) buf (written + m)
          (write_loop n fs (cs1 ! Suc i) (base + 512) skip offset buf (written + m) d2)"
        if "file_chain fs cs1 d2" "Suc i < length cs1" for cs1 d2
        unfolding p by (rule Suc.IH [OF that _ less_imp_le [OF m(2)] n bound]) (use pos in simp)
      note step = write_goal_step [OF at _ _ m(2) IH]
      note nx = chain_next_nth [OF ok ch1 Suc.prems(2)]
      note body = True w False cluster_size_one [OF ok]
      show ?thesis
      proof (cases "Suc i < length cs")
        case True
        then show ?thesis using body nx step [of cs d1 "[]", OF _ g ch1] by simp
      next
        case False
        then have lst: "cs ! i = last cs" using Suc.prems(2) by (metis Suc_lessI diff_Suc_1 last_conv_nth list.size(3) not_less_zero)
        show ?thesis
        proof (cases "alloc_cluster fs d1")
          case (Pair r d2)
          show ?thesis
          proof (cases r)
            case None
            then have "d2 = d1" "find_free_cluster fs d1 = None" using alloc_cluster_ok(1) [OF ok, of d1 d2] Pair by auto
            then show ?thesis
              using body nx False None Pair g at m(2) by (auto simp: write_goal_def intro!: exI [of _ cs])
          next
            case (Some new)
            note ga = grown_alloc [OF ok ch1 Pair [unfolded Some]]
            have "write_goal fs cs d (BLOCK_SIZE * i + ?start) buf written
                (write_loop n fs ((cs @ [new]) ! Suc i) (base + 512) skip offset buf (written + m) (snd (fat_set fs (last cs) new d2)))"
              by (rule step [OF ga(2) grown_trans [OF g ga(1)]])
                 (use grown_length [OF ga(1)] Suc.prems(2) in simp_all)
            moreover have "(cs @ [new]) ! Suc i = new"
              using False Suc.prems(2) by (simp add: nth_append)
            ultimately show ?thesis using body nx False Some Pair lst by simp
          qed
        qed
      qed
    qed
  qed
qed simp

end
