(* ===== verification/Fat_Roundtrip.thy ===== *)
theory Fat_Roundtrip
  imports Fat_Write
begin

text \<open>
  \<open>write_file\<close> as a whole (\<open>src/user/programs/fs-server/src/main.rs\<close>): the loop that goes to the
  offset, which extends a file that is too short by zero blocks, and then the loop that writes. What
  was written is what \<open>read_file\<close> returns, and the other files do not change.
\<close>

section \<open>Going to the offset\<close>

definition skip_goal :: "Fat32Fs \<Rightarrow> u32 list \<Rightarrow> disk \<Rightarrow> u32 \<Rightarrow> ((u32 \<times> u32) option \<times> disk) outcome \<Rightarrow> bool" where
  "skip_goal fs cs d offset r \<longleftrightarrow> (\<exists>cs' d' z. grown fs cs d cs' d' \<and>
     file_content fs cs' d' = file_content fs cs d @ replicate z 0 \<and>
     (if unat offset div 512 < length cs'
      then r = Done (Some (cs' ! (unat offset div 512), of_nat (512 * (unat offset div 512))), d')
      else find_free_cluster fs d' = None \<and> r = Done (None, d')))"

lemma skip_goal_step:
  assumes "grown fs cs d cs1 d1" and "file_content fs cs1 d1 = file_content fs cs d @ replicate z 0"
    and "skip_goal fs cs1 d1 offset r"
  shows "skip_goal fs cs d offset r"
proof -
  obtain cs' d' y where g: "grown fs cs1 d1 cs' d'" "file_content fs cs' d' = file_content fs cs1 d1 @ replicate y 0"
    and r: "if unat offset div 512 < length cs'
      then r = Done (Some (cs' ! (unat offset div 512), of_nat (512 * (unat offset div 512))), d')
      else find_free_cluster fs d' = None \<and> r = Done (None, d')"
    using assms(3) unfolding skip_goal_def by blast
  have "file_content fs cs' d' = file_content fs cs d @ replicate (z + y) 0"
    using assms(2) g(2) by (simp add: replicate_add)
  then show ?thesis using grown_trans [OF assms(1) g(1)] r unfolding skip_goal_def by blast
qed

lemma skip_write_ok:
  assumes ok: "fs_ok fs"
  shows "file_chain fs cs d \<Longrightarrow> i < length cs \<Longrightarrow> i \<le> unat offset div 512 \<Longrightarrow> unat offset div 512 < i + n \<Longrightarrow>
    skip_goal fs cs d offset (skip_write n fs (cs ! i) (of_nat (512 * i)) offset d)"
proof (induction n arbitrary: cs d i)
  case (Suc n)
  let ?k = "unat offset div 512" and ?base = "of_nat (512 * i) :: u32"
  have i: "512 * Suc i < 2 ^ 32"
    using Suc.prems(2) file_chain_length [OF Suc.prems(1)] ok by (simp add: fs_ok_def layout)
  then have "unat ?base = 512 * i" by (simp only: unat_of_nat) simp
  then have "unat (?base + 512) = 512 * Suc i" using i next_offset [of ?base] by simp
  then have cond: "?base + cluster_size fs \<le> offset \<longleftrightarrow> i < ?k"
    unfolding cluster_size_one [OF ok] word_le_nat_alt by (simp add: less_eq_div_iff_mult_less_eq Suc_le_eq [symmetric] mult.commute)
  have next_base: "?base + cluster_size fs = of_nat (512 * Suc i)"
    unfolding cluster_size_one [OF ok] by (simp add: algebra_simps)
  note nx = chain_next_nth [OF ok Suc.prems(1,2)]
  show ?case
  proof (cases "i < ?k")
    case False
    then have "i = ?k" using Suc.prems(3) by simp
    then show ?thesis
      using cond grown_refl [OF Suc.prems(1)] Suc.prems(2)
      by (auto simp: skip_goal_def intro!: exI [of _ cs] exI [of _ "0 :: nat"])
  next
    case True
    have IH: "skip_goal fs cs1 d1 offset (skip_write n fs (cs1 ! Suc i) (?base + cluster_size fs) offset d1)"
      if "file_chain fs cs1 d1" "Suc i < length cs1" for cs1 d1
      unfolding next_base by (rule Suc.IH [OF that]) (use True Suc.prems(4) in simp_all)
    show ?thesis
    proof (cases "Suc i < length cs")
      case more: True
      then show ?thesis using True cond nx IH [OF Suc.prems(1) more] by simp
    next
      case at_end: False
      then have lst: "cs ! i = last cs" using Suc.prems(2) by (metis Suc_lessI diff_Suc_1 last_conv_nth list.size(3) not_less_zero)
      show ?thesis
      proof (cases "alloc_cluster fs d")
        case (Pair r d1)
        show ?thesis
        proof (cases r)
          case None
          then have "d1 = d" "find_free_cluster fs d = None" using alloc_cluster_ok(1) [OF ok, of d d1] Pair by auto
          moreover have "\<not> ?k < length cs" using at_end True by simp
          ultimately show ?thesis
            using True cond nx at_end None Pair grown_refl [OF Suc.prems(1)]
            by (auto simp: skip_goal_def intro!: exI [of _ cs] exI [of _ "0 :: nat"])
        next
          case (Some new)
          note ga = grown_alloc [OF ok Suc.prems(1) Pair [unfolded Some]]
          have "skip_goal fs (cs @ [new]) (snd (fat_set fs (last cs) new d1)) offset
              (skip_write n fs ((cs @ [new]) ! Suc i) (?base + cluster_size fs) offset (snd (fat_set fs (last cs) new d1)))"
            by (rule IH) (use grown_length [OF ga(1)] Suc.prems(2) in simp_all)
          then have "skip_goal fs cs d offset
              (skip_write n fs ((cs @ [new]) ! Suc i) (?base + cluster_size fs) offset (snd (fat_set fs (last cs) new d1)))"
            by (rule skip_goal_step [OF ga(1) ga(2) [unfolded zero_block_def]])
          moreover have "(cs @ [new]) ! Suc i = new" using at_end Suc.prems(2) by (simp add: nth_append)
          ultimately show ?thesis using True cond nx at_end Some Pair lst by simp
        qed
      qed
    qed
  qed
qed simp

section \<open>The whole write\<close>

text \<open>What a write reaches: the new chain, the bytes written and the disk.\<close>

definition write_result :: "Fat32Fs \<Rightarrow> u32 list \<Rightarrow> disk \<Rightarrow> nat \<Rightarrow> u8 list \<Rightarrow> u32 list \<Rightarrow> nat \<Rightarrow> disk \<Rightarrow> bool" where
  "write_result fs cs d pos buf cs' w d' \<longleftrightarrow> grown fs cs d cs' d' \<and> w \<le> length buf \<and>
     (w < length buf \<longrightarrow> (\<forall>c. searched fs c \<longrightarrow> fat_get fs c d' \<noteq> 0)) \<and>
     (let ct = file_content fs cs d; ct' = file_content fs cs' d' in
        (0 < w \<longrightarrow> pos + w \<le> length ct') \<and>
        take pos ct' = take (min pos (length ct')) (ct @ replicate pos 0) \<and>
        take w (drop pos ct') = take w buf)"

lemma take_zeros: "take n (xs @ replicate a 0) = take (min n (length xs + a)) (xs @ replicate n 0)"
  by (auto simp: min_def)

lemma write_file_ok:
  assumes ok: "fs_ok fs" and ch: "file_chain fs cs d" and fuel: "unat offset + length buf < 512 * n"
  shows "\<exists>cs' w lst d'. write_file n fs (hd cs) offset buf d = Done ((w, lst), d') \<and>
    write_result fs cs d (unat offset) buf cs' w d'"
proof -
  let ?k = "unat offset div 512"
  have ne: "cs \<noteq> []" using file_chain_ne [OF ch] .
  then have "valid_cluster fs (hd cs)" using ch by (auto simp: file_chain_def)
  then have hd: "\<not> hd cs < 2" using valid_bound [OF ok] by blast
  have "skip_goal fs cs d offset (skip_write n fs (cs ! 0) (of_nat (512 * 0)) offset d)"
    by (rule skip_write_ok [OF ok ch]) (use ne fuel in \<open>auto simp: div_less_iff_less_mult\<close>)
  then obtain cs1 d1 z where g: "grown fs cs d cs1 d1" and ct: "file_content fs cs1 d1 = file_content fs cs d @ replicate z 0"
    and r: "if ?k < length cs1 then skip_write n fs (hd cs) 0 offset d = Done (Some (cs1 ! ?k, of_nat (512 * ?k)), d1)
      else find_free_cluster fs d1 = None \<and> skip_write n fs (hd cs) 0 offset d = Done (None, d1)"
    using ne by (auto simp: skip_goal_def hd_conv_nth)
  note ch1 = conjunct2 [OF grown_length [OF g]]
  show ?thesis
  proof (cases "?k < length cs1")
    case False
    have "length (file_content fs cs1 d1) \<le> unat offset"
      using False by (simp add: length_file_content layout not_less less_eq_div_iff_mult_less_eq mult.commute)
    then have "write_result fs cs d (unat offset) buf cs1 0 d1"
      using g False r find_free_cluster_ok(1) [OF ok] ct take_zeros [of "unat offset" "file_content fs cs d" z]
      by (auto simp: write_result_def Let_def)
    then show ?thesis using False r hd by (auto simp: write_file_def)
  next
    case True
    let ?b = "of_nat (512 * ?k) :: u32"
    have "512 * ?k \<le> unat offset" by simp
    moreover have "unat offset < 2 ^ 32" using unsigned_less [of offset] by simp
    ultimately have b: "unat ?b = 512 * ?k" by (simp only: unat_of_nat) simp
    have le: "?b \<le> offset" unfolding word_le_nat_alt b by simp
    have sk: "unat (offset - ?b) = unat offset mod 512"
      unfolding unat_sub [OF le] b by (rule minus_mult_div_eq_mod)
    have pos: "BLOCK_SIZE * ?k + unat offset mod 512 = unat offset" by (simp add: layout)
    have f: "unat offset mod 512 + length buf \<le> BLOCK_SIZE * n" using fuel by (simp add: layout)
    have "write_goal fs cs1 d1 (unat offset) buf 0 (write_loop n fs (cs1 ! ?k) ?b (unat offset mod 512) offset buf 0 d1)"
      using write_loop_ok [OF ok _ ch1 True _ _ _ , where skip = "unat offset mod 512" and written = 0 and n = n and buf = buf and offset = offset and base = ?b]
        le f fuel pos by (simp add: layout)
    then obtain cs' w lst d' where w: "write_loop n fs (cs1 ! ?k) ?b (unat offset mod 512) offset buf 0 d1 = Done ((w, lst), d')"
      "grown fs cs1 d1 cs' d'" "w \<le> length buf" "w = length buf \<or> find_free_cluster fs d' = None"
      "written_at (file_content fs cs1 d1) (unat offset) (take w buf) (file_content fs cs' d')"
      by (auto simp: write_goal_def)
    have "take (unat offset) (file_content fs cs' d') =
        take (min (unat offset) (length (file_content fs cs' d'))) (file_content fs cs d @ replicate (unat offset) 0)"
    proof -
      have "take (unat offset) (file_content fs cs' d') = take (unat offset) (file_content fs cs d @ replicate z 0)"
        using w(5) ct by (simp add: written_at_def)
      moreover have "unat offset \<le> length (file_content fs cs' d')" using w(5) by (simp add: written_at_def)
      moreover have "unat offset \<le> length (file_content fs cs d) + z"
      proof -
        have "unat offset < BLOCK_SIZE * length cs1"
          using True by (simp add: div_less_iff_less_mult layout mult.commute)
        also have "\<dots> = length (file_content fs cs d) + z"
          unfolding length_file_content [of fs cs1 d1, symmetric] ct by simp
        finally show ?thesis by simp
      qed
      ultimately show ?thesis using take_zeros [of "unat offset" "file_content fs cs d" z] by (simp add: min_absorb1)
    qed
    then have "write_result fs cs d (unat offset) buf cs' w d'"
      using grown_trans [OF g w(2)] w(3,4,5) find_free_cluster_ok(1) [OF ok]
      by (auto simp: write_result_def Let_def written_at_def)
    then show ?thesis using True r hd w(1) sk by (auto simp: write_file_def)
  qed
qed

text \<open>C17: \<open>write_file\<close> returns. It keeps the clusters of the file and appends free ones only; the bytes
  before the offset are the old ones, with zeros where the file was shorter; the bytes it counts are the
  first bytes of the buffer; it counts fewer than all of them only when the volume is full.\<close>

theorem write_file_effect:
  assumes "fs_ok fs" and "file_chain fs cs d" and "unat offset + length buf < 512 * n"
  shows "\<exists>cs' w lst d'. write_file n fs (hd cs) offset buf d = Done ((w, lst), d') \<and>
    write_result fs cs d (unat offset) buf cs' w d'"
  using assms by (rule write_file_ok)

theorem write_file_effect_witness: "file_chain sample_fs [2, 3] sample_disk \<and>
    (\<exists>cs' w lst d'. write_file 4 sample_fs 2 1000 (replicate 100 7) sample_disk = Done ((w, lst), d') \<and>
      write_result sample_fs [2, 3] sample_disk 1000 (replicate 100 7) cs' w d')"
  using write_file_effect [OF sample_fs_ok sample_chain, of 1000 "replicate 100 7" 4] sample_chain by simp

lemma short_write:
  assumes ok: "fs_ok fs" and c: "valid_cluster fs c" and b: "buf \<noteq> []" "length buf \<le> BLOCK_SIZE"
  shows "\<exists>d'. write_file (Suc n) fs c 0 buf d = Done ((length buf, c), d') \<and>
    cluster_data fs c d' = buf @ replicate (BLOCK_SIZE - length buf) 0"
proof -
  let ?b = "splice 0 buf zero_block"
  have len: "length ?b = BLOCK_SIZE" using b(2) by (simp add: length_splice)
  have n: "min BLOCK_SIZE (length buf) = length buf" using b(2) by simp
  have "write_sectors [0..<spc fs] fs c 0 0 0 buf 0 d = (True, length buf, put_cluster fs c ?b d)"
    using b(1) put_cluster_ok(1) [OF ok c len, of d] n
    by (simp add: spc_one [OF ok] start_in_sector_def write_base_def Let_def)
  then have "write_file (Suc n) fs c 0 buf d = Done ((length buf, c), put_cluster fs c ?b d)"
    using b(1) valid_bound(3) [OF ok c] by (simp add: write_file_def cluster_size_one [OF ok])
  moreover have "cluster_data fs c (put_cluster fs c ?b d) = buf @ replicate (BLOCK_SIZE - length buf) 0"
    unfolding fat_volume_laws(4) [OF ok c c len] by (simp add: splice_def zero_block_def)
  ultimately show ?thesis by blast
qed

lemma grown_hd: "grown fs cs d cs' d' \<Longrightarrow> file_chain fs cs d \<Longrightarrow> hd cs' = hd cs"
  using file_chain_ne by (fastforce simp: grown_def)

text \<open>What \<open>write_file\<close> counts as written is what \<open>read_file\<close> then returns at that offset.\<close>

lemma write_read_roundtrip:
  assumes ok: "fs_ok fs" and ch: "file_chain fs cs d" and fuel: "unat offset + length buf < 512 * n"
    and wr: "write_file n fs (hd cs) offset buf d = Done ((w, lst), d')"
    and sz: "unat offset + w \<le> unat fsize" and m: "unat (total_clusters fs) \<le> m"
  shows "read_file m fs (hd cs) offset fsize w d' = Done (take w buf)"
proof -
  obtain cs' where r: "write_result fs cs d (unat offset) buf cs' w d'"
    using write_file_ok [OF ok ch fuel] wr by auto
  then have g: "grown fs cs d cs' d'" by (simp add: write_result_def)
  note ch' = conjunct2 [OF grown_length [OF g]]
  have "min w (unat fsize - unat offset) = w" using sz by simp
  then show ?thesis
    using read_file_ok [OF ok ch', of m offset fsize w] file_chain_length [OF ch'] m r grown_hd [OF g ch]
    by (simp add: write_result_def Let_def)
qed

text \<open>C18: a write to one file leaves every other file of the volume as it was, its chain and its content.\<close>

theorem write_keeps_others:
  assumes ok: "fs_ok fs" and ch: "file_chain fs cs d" and fuel: "unat offset + length buf < 512 * n"
    and other: "file_chain fs ds d" "set ds \<inter> set cs = {}"
    and wr: "write_file n fs (hd cs) offset buf d = Done (r, d')"
  shows "file_chain fs ds d' \<and> file_content fs ds d' = file_content fs ds d"
proof -
  obtain w lst where r: "r = (w, lst)" by (cases r)
  obtain cs' where g: "grown fs cs d cs' d'"
    using write_file_ok [OF ok ch fuel] wr r by (auto simp: write_result_def)
  then obtain ext where ext: "cs' = cs @ ext" "\<forall>c \<in> set ext. fat_get fs c d = 0" by (auto simp: grown_def)
  have same: "valid_cluster fs c \<and> fat_get fs c d' = fat_get fs c d \<and> cluster_data fs c d' = cluster_data fs c d"
    if c: "c \<in> set ds" for c
  proof -
    have "valid_cluster fs c" using other(1) c by (simp add: file_chain_def)
    moreover have "c \<notin> set cs'" using ext other(2) chain_nonzero [OF other(1) c] c by auto
    ultimately show ?thesis using g by (simp add: grown_def)
  qed
  have "chain_of (\<lambda>c. fat_get fs c d') ds = chain_of (\<lambda>c. fat_get fs c d) ds"
    by (rule chain_of_cong) (simp add: same)
  then have "file_chain fs ds d'" using other(1) by (simp add: file_chain_def)
  moreover have "file_content fs ds d' = file_content fs ds d"
    by (rule file_content_cong) (simp add: same)
  ultimately show ?thesis by simp
qed

theorem write_keeps_others_witness: "\<exists>d d' w. write_file 5 sample_fs 2 0 [65, 66] d = Done (w, d') \<and>
    file_chain sample_fs [2] d \<and> file_chain sample_fs [4] d' \<and> file_content sample_fs [4] d' = file_content sample_fs [4] d"
proof -
  define d where "d = fat_put sample_fs 4 FAT32_EOC (fat_put sample_fs 2 FAT32_EOC (\<lambda>_. 0))"
  have c: "file_chain sample_fs [2] d" "file_chain sample_fs [4] d"
    using sample_valid by (simp_all add: file_chain_def d_def fat_volume_laws(1) [OF sample_fs_ok] eoc_mask)
  obtain d' where w: "write_file (Suc 4) sample_fs (hd [2]) 0 [65, 66] d = Done ((length [65, 66 :: u8], 2), d')"
    using short_write [OF sample_fs_ok sample_valid(1), of "[65, 66]" 4 d] by (auto simp: layout)
  have "file_chain sample_fs [4] d' \<and> file_content sample_fs [4] d' = file_content sample_fs [4] d"
    by (rule write_keeps_others [OF sample_fs_ok c(1) _ c(2) _ w]) simp_all
  then show ?thesis using w c by (intro exI [of _ d] exI [of _ d'] exI [of _ "(length [65, 66 :: u8], 2)"]) simp
qed

text \<open>C39: a write at the start of a cluster that does not fill its sector replaces the whole sector: the
  bytes of the sector after those written are zero, whatever the file held there.\<close>

theorem short_write_clears_sector:
  assumes "fs_ok fs" and "valid_cluster fs c" and "buf \<noteq> []" "length buf \<le> BLOCK_SIZE"
  shows "\<exists>d'. write_file (Suc n) fs c 0 buf d = Done ((length buf, c), d') \<and>
    cluster_data fs c d' = buf @ replicate (BLOCK_SIZE - length buf) 0"
  using assms by (rule short_write)

theorem short_write_clears_sector_witness: "valid_cluster sample_fs 2 \<and>
    (\<exists>d'. write_file 1 sample_fs 2 0 [65, 66] sample_disk = Done ((length [65, 66 :: u8], 2), d') \<and>
      cluster_data sample_fs 2 d' = [65, 66] @ replicate 510 0)"
  using short_write_clears_sector [OF sample_fs_ok sample_valid(1), of "[65, 66]" 0 sample_disk] sample_valid(1)
  by (simp add: layout)

end
