(* ===== verification/Fat_Server.thy ===== *)
theory Fat_Server
  imports Fat_File
begin

text \<open>
  The requests of the file server, the main loop of \<open>src/user/programs/fs-server/src/main.rs\<close>: one
  received message (four words, the receive buffer and the length of the data in it) gives a reply
  and the new disk; the loop around it is in \<open>Fs_Program\<close>.
\<close>

definition FS_OPEN :: usize where "FS_OPEN = 1"
definition FS_CLOSE :: usize where "FS_CLOSE = 2"
definition FS_READ :: usize where "FS_READ = 3"
definition FS_WRITE :: usize where "FS_WRITE = 4"
definition FS_MKDIR :: usize where "FS_MKDIR = 6"
definition FS_READDIR :: usize where "FS_READDIR = 7"
definition FS_CREATE_OPEN :: usize where "FS_CREATE_OPEN = 8"
definition FS_UPDATE_SIZE :: usize where "FS_UPDATE_SIZE = 9"
definition FS_DELETE :: usize where "FS_DELETE = 10"
definition FS_TRUNCATE :: usize where "FS_TRUNCATE = 11"
definition FS_OK :: usize where "FS_OK = 0"
definition FS_ERR :: usize where "FS_ERR = - 1"
definition IPC_BUFFER_SIZE :: nat where "IPC_BUFFER_SIZE = 4096"

type_synonym fs_words = "usize \<times> usize \<times> usize \<times> usize"

text \<open>A reply: the four words, and the data of \<open>reply_buf\<close>.\<close>

record Reply =
  rp_words :: fs_words
  rp_data :: "u8 list option"

definition reply_words :: "fs_words \<Rightarrow> Reply" where
  "reply_words ws = \<lparr>rp_words = ws, rp_data = None\<rparr>"

definition reply_err :: Reply where
  "reply_err = reply_words (FS_ERR, 0, 0, 0)"

definition reply_ok :: "usize \<Rightarrow> usize \<Rightarrow> usize \<Rightarrow> Reply" where
  "reply_ok a b c = reply_words (FS_OK, a, b, c)"

definition reply_if :: "bool \<Rightarrow> Reply" where
  "reply_if ok = reply_words (if ok then FS_OK else FS_ERR, 0, 0, 0)"

definition reply_entry :: "DirEntry \<Rightarrow> Reply" where
  "reply_entry e = reply_ok (ucast (entry_cluster e)) (ucast (de_file_size e)) (ucast (de_attr e))"

text \<open>\<open>&recv_path_buf[..buf_len]\<close>, which panics out of range.\<close>

definition recv_data :: "u8 list \<Rightarrow> usize \<Rightarrow> u8 list outcome" where
  "recv_data buf buf_len = (if unat buf_len \<le> length buf then Done (take (unat buf_len) buf) else Panic)"

text \<open>\<open>from_utf8(..).unwrap_or("").trim_end_matches('\0')\<close>.\<close>

definition recv_path :: "u8 list \<Rightarrow> usize \<Rightarrow> u8 list outcome" where
  "recv_path buf buf_len =
     obind (recv_data buf buf_len) (\<lambda>bs.
       Done (if utf8_valid bs then rev (dropWhile (\<lambda>b. b = 0) (rev bs)) else []))"

text \<open>The parent directory of a path and the last name; \<open>None\<close> without a slash.\<close>

definition split_parent :: "u8 list \<Rightarrow> (u8 list \<times> u8 list) option" where
  "split_parent path =
     map_option (\<lambda>(a, b). (if a = [] then [SLASH] else a, b)) (rsplit SLASH path)"

text \<open>The steps shared by the requests that name a file in its parent directory.\<close>

definition with_parent :: "nat \<Rightarrow> Fat32Fs \<Rightarrow> u8 list \<Rightarrow> disk \<Rightarrow> (u32 \<Rightarrow> u8 list \<Rightarrow> (Reply \<times> disk) outcome) \<Rightarrow> (Reply \<times> disk) outcome" where
  "with_parent n fs path d f =
     (case split_parent path of
        None \<Rightarrow> Done (reply_err, d)
      | Some (parent_path, name) \<Rightarrow>
          obind (resolve_path n fs parent_path d) (\<lambda>r. case r of
            None \<Rightarrow> Done (reply_err, d)
          | Some (parent, _) \<Rightarrow> f (entry_cluster parent) name))"

definition handle_open :: "nat \<Rightarrow> Fat32Fs \<Rightarrow> u8 list \<Rightarrow> disk \<Rightarrow> (Reply \<times> disk) outcome" where
  "handle_open n fs path d =
     obind (resolve_path n fs path d) (\<lambda>r. case r of
       Some (entry, _) \<Rightarrow> Done (reply_entry entry, d)
     | None \<Rightarrow> Done (reply_err, d))"

definition handle_read :: "nat \<Rightarrow> Fat32Fs \<Rightarrow> fs_words \<Rightarrow> disk \<Rightarrow> (Reply \<times> disk) outcome" where
  "handle_read n fs ws d =
     (case ws of (_, w1, w2, w3) \<Rightarrow>
      let read_size = min (ucast w3) (of_nat IPC_BUFFER_SIZE) :: u32 in
      obind (read_file n fs (ucast w1) (ucast w2) (- 1) (unat read_size) d) (\<lambda>bs.
        Done (\<lparr>rp_words = (FS_OK, of_nat (length bs), 0, 0), rp_data = Some bs\<rparr>, d)))"

definition handle_readdir :: "nat \<Rightarrow> Fat32Fs \<Rightarrow> fs_words \<Rightarrow> disk \<Rightarrow> (Reply \<times> disk) outcome" where
  "handle_readdir n fs ws d =
     (case ws of (_, w1, _, _) \<Rightarrow>
      obind (walk_dir n fs (ucast w1) d) (\<lambda>(_, es). Done (reply_ok (of_nat (length es)) 0 0, d)))"

definition handle_mkdir :: "nat \<Rightarrow> Fat32Fs \<Rightarrow> u8 list \<Rightarrow> disk \<Rightarrow> (Reply \<times> disk) outcome" where
  "handle_mkdir n fs path d =
     with_parent n fs path d (\<lambda>parent name.
       case create_empty_dir fs parent d of
         (None, d1) \<Rightarrow> Done (reply_err, d1)
       | (Some new, d1) \<Rightarrow>
           obind (create_dir_entry n fs parent name ATTR_DIRECTORY new 0 d1) (\<lambda>(_, d2).
             Done (reply_ok (ucast new) 0 0, d2)))"

definition handle_write :: "nat \<Rightarrow> Fat32Fs \<Rightarrow> fs_words \<Rightarrow> u8 list \<Rightarrow> usize \<Rightarrow> disk \<Rightarrow> (Reply \<times> disk) outcome" where
  "handle_write n fs ws buf buf_len d =
     (case ws of (_, w1, w2, _) \<Rightarrow>
      case (if (ucast w1 :: u32) < 2 then alloc_cluster fs d else (Some (ucast w1), d)) of
        (None, d1) \<Rightarrow> Done (reply_err, d1)
      | (Some cluster, d1) \<Rightarrow>
          obind (recv_data buf buf_len) (\<lambda>data.
          obind (write_file n fs cluster (ucast w2) data d1) (\<lambda>((written, last_cluster), d2).
            Done (reply_ok (of_nat written) (ucast last_cluster) 0, d2))))"

definition handle_create_open :: "nat \<Rightarrow> Fat32Fs \<Rightarrow> u8 list \<Rightarrow> disk \<Rightarrow> (Reply \<times> disk) outcome" where
  "handle_create_open n fs path d =
     obind (resolve_path n fs path d) (\<lambda>r. case r of
       Some (entry, _) \<Rightarrow> Done (reply_entry entry, d)
     | None \<Rightarrow>
         with_parent n fs path d (\<lambda>parent name.
           obind (create_dir_entry n fs parent name ATTR_ARCHIVE 0 0 d) (\<lambda>(r, d1).
             Done (case r of Some _ \<Rightarrow> reply_ok 0 0 (ucast ATTR_ARCHIVE) | None \<Rightarrow> reply_err, d1))))"

definition handle_update_size :: "nat \<Rightarrow> Fat32Fs \<Rightarrow> fs_words \<Rightarrow> u8 list \<Rightarrow> disk \<Rightarrow> (Reply \<times> disk) outcome" where
  "handle_update_size n fs ws path d =
     (case ws of (_, _, w2, w3) \<Rightarrow>
      with_parent n fs path d (\<lambda>parent name.
        obind (update_dir_entry_size n fs parent name (ucast w2) (ucast w3) d) (\<lambda>(ok, d1).
          Done (reply_if ok, d1))))"

definition handle_delete :: "nat \<Rightarrow> Fat32Fs \<Rightarrow> u8 list \<Rightarrow> disk \<Rightarrow> (Reply \<times> disk) outcome" where
  "handle_delete n fs path d =
     with_parent n fs path d (\<lambda>parent name.
       obind (find_entry n fs parent name d) (\<lambda>r. case r of
         None \<Rightarrow> Done (reply_err, d)
       | Some (entry, _) \<Rightarrow>
           obind (delete_dir_entry n fs parent name d) (\<lambda>(ok, d1).
             if ok then
               obind (if 2 \<le> entry_cluster entry then free_chain n fs (entry_cluster entry) d1 else Done (0, d1))
                 (\<lambda>(_, d2). Done (reply_ok 0 0 0, d2))
             else Done (reply_err, d1))))"

definition handle_truncate :: "nat \<Rightarrow> Fat32Fs \<Rightarrow> u8 list \<Rightarrow> disk \<Rightarrow> (Reply \<times> disk) outcome" where
  "handle_truncate n fs path d =
     with_parent n fs path d (\<lambda>parent name.
       obind (find_entry n fs parent name d) (\<lambda>r. case r of
         None \<Rightarrow> Done (reply_err, d)
       | Some (entry, _) \<Rightarrow>
           if 2 \<le> entry_cluster entry then
             obind (truncate_file n fs (entry_cluster entry) parent name d) (\<lambda>(ok, d1). Done (reply_if ok, d1))
           else Done (reply_ok 0 0 0, d)))"

definition handle_request :: "nat \<Rightarrow> Fat32Fs \<Rightarrow> fs_words \<Rightarrow> u8 list \<Rightarrow> usize \<Rightarrow> disk \<Rightarrow> (Reply \<times> disk) outcome" where
  "handle_request n fs ws buf buf_len d =
     (let op = fst ws; on_path = (\<lambda>f. obind (recv_path buf buf_len) (\<lambda>path. f path)) in
      if op = FS_OPEN then on_path (\<lambda>path. handle_open n fs path d)
      else if op = FS_READ then handle_read n fs ws d
      else if op = FS_READDIR then handle_readdir n fs ws d
      else if op = FS_CLOSE then Done (reply_ok 0 0 0, d)
      else if op = FS_MKDIR then on_path (\<lambda>path. handle_mkdir n fs path d)
      else if op = FS_WRITE then handle_write n fs ws buf buf_len d
      else if op = FS_CREATE_OPEN then on_path (\<lambda>path. handle_create_open n fs path d)
      else if op = FS_UPDATE_SIZE then on_path (\<lambda>path. handle_update_size n fs ws path d)
      else if op = FS_DELETE then on_path (\<lambda>path. handle_delete n fs path d)
      else if op = FS_TRUNCATE then on_path (\<lambda>path. handle_truncate n fs path d)
      else Done (reply_err, d))"

end
