(* ===== verification/Fat_Requests.thy ===== *)
theory Fat_Requests
  imports Fat_Roundtrip Fat_Server
begin

text \<open>
  Writing and reading through the requests of the file server
  (\<open>src/user/programs/fs-server/src/main.rs\<close>): what a client that sends \<open>FS_WRITE\<close> and then \<open>FS_READ\<close> gets
  back, for a file it has opened and for one whose first cluster the write allocates.
\<close>

lemmas request_codes = FS_OPEN_def FS_CLOSE_def FS_READ_def FS_WRITE_def FS_MKDIR_def FS_READDIR_def FS_CREATE_OPEN_def
  FS_UPDATE_SIZE_def FS_DELETE_def FS_TRUNCATE_def

lemma request_read: "handle_request n fs (FS_READ, w1, w2, w3) buf len d = handle_read n fs (FS_READ, w1, w2, w3) d"
  by (simp add: handle_request_def request_codes)

lemma request_write: "handle_request n fs (FS_WRITE, w1, w2, w3) buf len d = handle_write n fs (FS_WRITE, w1, w2, w3) buf len d"
  by (simp add: handle_request_def request_codes)

lemma word_cluster [simp]: "ucast (ucast (c :: u32) :: usize) = c"
  by (auto intro!: bit_word_eqI simp: bit_unsigned_iff)

lemma unat_word_u32: "x < 2 ^ 32 \<Longrightarrow> unat (ucast (of_nat x :: usize) :: u32) = x"
  by (simp add: unsigned_ucast_eq unsigned_of_nat take_bit_nat_eq_self)

section \<open>A file with a chain\<close>

text \<open>What \<open>FS_READ\<close> of at most a buffer returns.\<close>

lemma read_request:
  assumes ok: "fs_ok fs" and ch: "file_chain fs cs d" and n: "length cs \<le> n" and r: "r \<le> IPC_BUFFER_SIZE"
    and fits: "r \<noteq> 0 \<Longrightarrow> unat (ucast w2 :: u32) + r \<le> length (file_content fs cs d)"
  shows "handle_request n fs (FS_READ, ucast (hd cs), w2, of_nat r) buf len d =
    Done (\<lparr>rp_words = (FS_OK, of_nat r, 0, 0), rp_data = Some (take r (drop (unat (ucast w2 :: u32)) (file_content fs cs d)))\<rparr>, d)"
proof -
  let ?o = "unat (ucast w2 :: u32)"
  have small: "r < 2 ^ 32" using r by (simp add: IPC_BUFFER_SIZE_def)
  have "min (ucast (of_nat r :: usize)) (of_nat IPC_BUFFER_SIZE) = (ucast (of_nat r :: usize) :: u32)"
    using r unat_word_u32 [OF small] by (simp add: min_def word_le_nat_alt IPC_BUFFER_SIZE_def)
  then have sz: "unat (min (ucast (of_nat r :: usize)) (of_nat IPC_BUFFER_SIZE) :: u32) = r"
    using unat_word_u32 [OF small] by simp
  have "length (file_content fs cs d) < 2 ^ 32" using chain_offset [OF ch ok] by (simp add: length_file_content)
  moreover have "unat (- 1 :: u32) = 2 ^ 32 - 1" by (simp add: unsigned_minus_1_eq_mask mask_eq_exp_minus_1)
  ultimately have m: "min r (unat (- 1 :: u32) - ?o) = r"
    using fits by (cases "r = 0") auto
  have "read_file n fs (hd cs) (ucast w2) (- 1) r d = Done (take r (drop ?o (file_content fs cs d)))"
    using read_file_ok [OF ok ch n, of "ucast w2" "- 1" r] m by simp
  moreover have "length (take r (drop ?o (file_content fs cs d))) = r" using fits by (cases "r = 0") auto
  ultimately show ?thesis using sz by (simp add: request_read handle_read_def Let_def)
qed

lemma write_then_read:
  assumes ok: "fs_ok fs" and ch: "file_chain fs cs d" and len: "unat len \<le> length buf" "unat len \<le> IPC_BUFFER_SIZE"
    and fuel: "unat (ucast w2 :: u32) + unat len < 512 * n" "unat (total_clusters fs) \<le> n"
  shows "\<exists>w lst d'. handle_request n fs (FS_WRITE, ucast (hd cs), w2, w3) buf len d = Done (reply_ok (of_nat w) lst 0, d') \<and>
    w \<le> unat len \<and> (w = unat len \<or> (\<forall>c. searched fs c \<longrightarrow> fat_get fs c d' \<noteq> 0)) \<and>
    handle_request n fs (FS_READ, ucast (hd cs), w2, of_nat w) buf' len' d' =
      Done (\<lparr>rp_words = (FS_OK, of_nat w, 0, 0), rp_data = Some (take w buf)\<rparr>, d')"
proof -
  let ?data = "take (unat len) buf" and ?o = "unat (ucast w2 :: u32)"
  have hd: "\<not> hd cs < 2"
    using valid_bound(3) [OF ok, of "hd cs"] ch file_chain_ne [OF ch] by (auto simp: file_chain_def)
  have "?o + length ?data < 512 * n" using fuel len by simp
  then obtain cs' w lst d' where wr: "write_file n fs (hd cs) (ucast w2) ?data d = Done ((w, lst), d')"
    and r: "write_result fs cs d ?o ?data cs' w d'"
    using write_file_ok [OF ok ch] by blast
  then have g: "grown fs cs d cs' d'" and w: "w \<le> length ?data" "0 < w \<longrightarrow> ?o + w \<le> length (file_content fs cs' d')"
    "take w (drop ?o (file_content fs cs' d')) = take w ?data"
    and full: "w < length ?data \<longrightarrow> (\<forall>c. searched fs c \<longrightarrow> fat_get fs c d' \<noteq> 0)" by (simp_all add: write_result_def Let_def)
  note ch' = conjunct2 [OF grown_length [OF g]]
  have "handle_request n fs (FS_WRITE, ucast (hd cs), w2, w3) buf len d = Done (reply_ok (of_nat w) (ucast lst) 0, d')"
    using wr hd len by (simp add: request_write handle_write_def recv_data_def)
  moreover have "handle_request n fs (FS_READ, ucast (hd cs'), w2, of_nat w) buf' len' d' =
      Done (\<lparr>rp_words = (FS_OK, of_nat w, 0, 0), rp_data = Some (take w (drop ?o (file_content fs cs' d')))\<rparr>, d')"
    by (rule read_request [OF ok ch']) (use file_chain_length [OF ch'] fuel(2) w len in auto)
  moreover have "take w ?data = take w buf" using w(1) len by (simp add: min_absorb1)
  ultimately show ?thesis using w(1,3) full len grown_hd [OF g ch] by (intro exI [of _ w]) auto
qed

text \<open>C16: a client that writes with \<open>FS_WRITE\<close> to an open file and reads back with \<open>FS_READ\<close> at the same
  offset as many bytes as the first reply counts gets these bytes of its buffer; both requests are
  answered, neither panics, and fewer bytes are counted than sent only when the volume is full.\<close>

theorem request_write_read:
  assumes "fs_ok fs" and "file_chain fs cs d" and "unat len \<le> length buf" and "unat len \<le> IPC_BUFFER_SIZE"
    and "unat (ucast w2 :: u32) + unat len < 512 * n" and "unat (total_clusters fs) \<le> n"
  shows "\<exists>w lst d'. handle_request n fs (FS_WRITE, ucast (hd cs), w2, w3) buf len d = Done (reply_ok (of_nat w) lst 0, d') \<and>
    w \<le> unat len \<and> (w = unat len \<or> (\<forall>c. searched fs c \<longrightarrow> fat_get fs c d' \<noteq> 0)) \<and>
    handle_request n fs (FS_READ, ucast (hd cs), w2, of_nat w) buf' len' d' =
      Done (\<lparr>rp_words = (FS_OK, of_nat w, 0, 0), rp_data = Some (take w buf)\<rparr>, d')"
  using assms by (rule write_then_read)

theorem request_write_read_witness: "\<exists>w lst d'.
    handle_request 5 sample_fs (FS_WRITE, 2, 600, 0) [65, 66, 67] 2 sample_disk = Done (reply_ok (of_nat w) lst 0, d') \<and>
    w \<le> 2 \<and> (w = 2 \<or> (\<forall>c. searched sample_fs c \<longrightarrow> fat_get sample_fs c d' \<noteq> 0)) \<and>
    handle_request 5 sample_fs (FS_READ, 2, 600, of_nat w) [] 0 d' =
      Done (\<lparr>rp_words = (FS_OK, of_nat w, 0, 0), rp_data = Some (take w [65, 66, 67])\<rparr>, d')"
  using request_write_read [OF sample_fs_ok sample_chain, of 2 "[65, 66, 67]" 600 5 0 "[]" 0]
  by (simp add: IPC_BUFFER_SIZE_def sample_fs_def)

section \<open>The first write to a new file\<close>

text \<open>A write of one block and a part of the next to a file of one cluster.\<close>

lemma two_block_write:
  assumes ok: "fs_ok fs" and ch: "file_chain fs [c] d" and b: "BLOCK_SIZE < length buf" "length buf \<le> 2 * BLOCK_SIZE"
    and al: "alloc_cluster fs (put_cluster fs c (take BLOCK_SIZE buf) d) = (Some new, d1)"
  shows "write_file (Suc (Suc n)) fs c 0 buf d = Done ((length buf, new),
    put_cluster fs new (drop BLOCK_SIZE buf @ replicate (2 * BLOCK_SIZE - length buf) 0) (snd (fat_set fs c new d1)))"
proof -
  have c: "valid_cluster fs c" using ch by (simp add: file_chain_def)
  let ?d = "put_cluster fs c (take BLOCK_SIZE buf) d"
  have l1: "length (take BLOCK_SIZE buf) = BLOCK_SIZE" using b by simp
  have sp: "splice 0 (take BLOCK_SIZE buf) zero_block = take BLOCK_SIZE buf"
    "splice 0 (drop BLOCK_SIZE buf) zero_block = drop BLOCK_SIZE buf @ replicate (2 * BLOCK_SIZE - length buf) 0"
    using b by (simp_all add: splice_def zero_block_def)
  have w1: "write_sectors [0..<spc fs] fs c 0 0 0 buf 0 d = (False, BLOCK_SIZE, ?d)"
    using b put_cluster_ok(1) [OF ok c l1, of d] sp(1)
    by (simp add: spc_one [OF ok] start_in_sector_def write_base_def Let_def layout)
  have ch': "file_chain fs [c] ?d" using grown_put [OF ok ch _ l1, of c] by (simp add: grown_def)
  have v: "valid_cluster fs new" using alloc_cluster_ok(2) [OF ok al] find_free_cluster_ok(2) [OF ok] searched_valid by blast
  let ?b2 = "drop BLOCK_SIZE buf @ replicate (2 * BLOCK_SIZE - length buf) 0"
  have l2: "length ?b2 = BLOCK_SIZE" using b by simp
  have w2: "write_sectors [0..<spc fs] fs new 512 0 0 buf BLOCK_SIZE x = (True, length buf, put_cluster fs new ?b2 x)" for x
    using b put_cluster_ok(1) [OF ok v l2, of x] sp(2)
    by (simp add: spc_one [OF ok] start_in_sector_def write_base_def Let_def layout)
  show ?thesis
    using b valid_bound(3) [OF ok c] w1 w2 al chain_next_ok [OF ok ch']
    by (auto simp: write_file_def cluster_size_one [OF ok] layout)
qed

lemma alloc_chain:
  assumes ok: "fs_ok fs" and al: "alloc_cluster fs d = (Some c, d')"
  shows "file_chain fs [c] d'" and "valid_cluster fs x \<Longrightarrow> x \<noteq> c \<Longrightarrow> fat_get fs x d' = fat_get fs x d"
proof -
  have f: "find_free_cluster fs d = Some c" and d': "d' = put_cluster fs c zero_block (fat_put fs c FAT32_EOC d)"
    using alloc_cluster_ok(2) [OF ok al] by simp_all
  then have v: "valid_cluster fs c" using find_free_cluster_ok(2) [OF ok] searched_valid by blast
  note get = fat_volume_laws(3) [OF ok v _ length_zero_block] fat_volume_laws(1) [OF ok v]
  show "file_chain fs [c] d'" using v by (simp add: file_chain_def d' get eoc_mask)
  show "valid_cluster fs x \<Longrightarrow> x \<noteq> c \<Longrightarrow> fat_get fs x d' = fat_get fs x d" by (simp add: d' get)
qed

lemma first_write:
  assumes ok: "fs_ok fs" and al: "alloc_cluster fs d = (Some c, d0)"
    and x: "searched fs x" "x \<noteq> c" "fat_get fs x d = 0"
    and len: "BLOCK_SIZE < unat len" "unat len \<le> 2 * BLOCK_SIZE" "unat len \<le> length buf"
  shows "\<exists>new d'. handle_request (Suc (Suc n)) fs (FS_WRITE, 0, 0, w3) buf len d = Done (reply_ok len (ucast new) 0, d') \<and>
    new \<noteq> c \<and> file_chain fs [c, new] d' \<and>
    handle_request (Suc n) fs (FS_READ, ucast new, 0, of_nat BLOCK_SIZE) buf' len' d' =
      Done (\<lparr>rp_words = (FS_OK, of_nat BLOCK_SIZE, 0, 0),
             rp_data = Some (drop BLOCK_SIZE (take (unat len) buf) @ replicate (2 * BLOCK_SIZE - unat len) 0)\<rparr>, d')"
proof -
  let ?data = "take (unat len) buf"
  have ld: "length ?data = unat len" using len by simp
  have ch: "file_chain fs [c] d0" by (rule alloc_chain [OF ok al])
  let ?d1 = "put_cluster fs c (take BLOCK_SIZE ?data) d0" and ?b = "drop BLOCK_SIZE ?data @ replicate (2 * BLOCK_SIZE - unat len) 0"
  have l1: "length (take BLOCK_SIZE ?data) = BLOCK_SIZE" "length ?b = BLOCK_SIZE" using len by auto
  have g1: "grown fs [c] d0 [c] ?d1" by (rule grown_put [OF ok ch _ l1(1)]) simp
  have "fat_get fs x ?d1 = 0"
    using g1 alloc_chain(2) [OF ok al searched_valid [OF x(1)] x(2)] x searched_valid [OF x(1)] by (simp add: grown_def)
  then have "find_free_cluster fs ?d1 \<noteq> None" using find_free_cluster_ok(1) [OF ok _ x(1)] by blast
  then obtain new d2 where al2: "alloc_cluster fs ?d1 = (Some new, d2)"
    using alloc_cluster_ok(1) [OF ok, of ?d1] by (cases "alloc_cluster fs ?d1") (metis option.exhaust)
  let ?d3 = "snd (fat_set fs c new d2)" and ?d' = "put_cluster fs new ?b (snd (fat_set fs c new d2))"
  have "grown fs [c] ?d1 [c, new] ?d3"
    using grown_alloc(1) [OF ok conjunct2 [OF grown_length [OF g1]] al2] by simp
  note ch3 = conjunct2 [OF grown_length [OF this]]
  have ch4: "file_chain fs [c, new] ?d'"
    using grown_put [OF ok ch3 _ l1(2), of new] by (simp add: grown_def)
  have v: "valid_cluster fs new" using ch4 by (simp add: file_chain_def)
  have chn: "file_chain fs [new] ?d'" using file_chain_drop [OF ch4, of 1] by simp
  have ct: "file_content fs [new] ?d' = ?b" using fat_volume_laws(4) [OF ok v v l1(2)] by simp
  have "write_file (Suc (Suc n)) fs c 0 ?data d0 = Done ((length ?data, new), ?d')"
    using two_block_write [OF ok ch _ _ al2, of n] len ld by simp
  then have "handle_request (Suc (Suc n)) fs (FS_WRITE, 0, 0, w3) buf len d = Done (reply_ok len (ucast new) 0, ?d')"
    using al len ld by (simp add: request_write handle_write_def recv_data_def)
  moreover have "handle_request (Suc n) fs (FS_READ, ucast (hd [new]), 0, of_nat BLOCK_SIZE) buf' len' ?d' =
      Done (\<lparr>rp_words = (FS_OK, of_nat BLOCK_SIZE, 0, 0), rp_data = Some (take BLOCK_SIZE (drop 0 ?b))\<rparr>, ?d')"
    using read_request [OF ok chn, of "Suc n" BLOCK_SIZE 0] ct l1(2) by (simp add: IPC_BUFFER_SIZE_def layout)
  moreover have "take BLOCK_SIZE (drop 0 ?b) = ?b" using l1(2) by simp
  moreover have "new \<noteq> c" using file_chain_distinct [OF ch4] by auto
  ultimately show ?thesis using ch4 by (intro exI [of _ new] exI [of _ ?d']) simp
qed

text \<open>C36: The reply to a first write of 513 to 1024 bytes to a new file, which takes two clusters, names the second
  cluster of the chain and not the first, when a second cluster is free: a client that goes on with the cluster it
  was given (as the C library does for a file without clusters) reads the second block where the file should
  start.\<close>

theorem first_write_replies_last:
  assumes "fs_ok fs" and "alloc_cluster fs d = (Some c, d0)" and "searched fs x" and "x \<noteq> c" and "fat_get fs x d = 0"
    and "BLOCK_SIZE < unat len" and "unat len \<le> 2 * BLOCK_SIZE" and "unat len \<le> length buf"
  shows "\<exists>new d'. handle_request (Suc (Suc n)) fs (FS_WRITE, 0, 0, w3) buf len d = Done (reply_ok len (ucast new) 0, d') \<and>
    new \<noteq> c \<and> file_chain fs [c, new] d' \<and>
    handle_request (Suc n) fs (FS_READ, ucast new, 0, of_nat BLOCK_SIZE) buf' len' d' =
      Done (\<lparr>rp_words = (FS_OK, of_nat BLOCK_SIZE, 0, 0),
             rp_data = Some (drop BLOCK_SIZE (take (unat len) buf) @ replicate (2 * BLOCK_SIZE - unat len) 0)\<rparr>, d')"
  using assms by (rule first_write)

theorem first_write_replies_last_witness: "\<exists>c d0 new d'. alloc_cluster sample_fs (\<lambda>_. 0) = (Some c, d0) \<and>
    handle_request 2 sample_fs (FS_WRITE, 0, 0, 0) (replicate 600 65) 600 (\<lambda>_. 0) = Done (reply_ok 600 (ucast new) 0, d') \<and>
    new \<noteq> c \<and> file_chain sample_fs [c, new] d'"
proof -
  have free: "fat_get sample_fs c (\<lambda>_. 0) = 0" "searched sample_fs c" if "c = 3 \<or> c = 2" for c
    using that sample_valid sample_zero by (auto simp: searched_def sample_fs_def)
  then have "find_free_cluster sample_fs (\<lambda>_. 0) \<noteq> None"
    using find_free_cluster_ok(1) [OF sample_fs_ok, of "\<lambda>_. 0" 3] by auto
  then obtain c d0 where al: "alloc_cluster sample_fs (\<lambda>_. 0) = (Some c, d0)"
    using alloc_cluster_ok(1) [OF sample_fs_ok] by (cases "alloc_cluster sample_fs (\<lambda>_. 0)") (metis option.exhaust)
  obtain x where x: "x = 3 \<or> x = (2 :: u32)" "x \<noteq> c" by (cases "c = 3") (use that [of 2] that [of 3] in auto)
  show ?thesis
    using first_write_replies_last [OF sample_fs_ok al free(2) [OF x(1)] x(2) free(1) [OF x(1)], of 600 "replicate 600 65" 0 0 "[]" 0] al
    unfolding numeral_2_eq_2 by (auto simp: layout)
qed

end
