(* ===== verification/Fat_Format.thy ===== *)
theory Fat_Format
  imports Fat_Content
begin

text \<open>
  The volume the file server starts with (\<open>format_fat32\<close> and \<open>Fat32Fs::open\<close> of
  \<open>src/user/programs/fs-server/src/main.rs\<close>) when its static disk is zero, as it is in the image.
\<close>

section \<open>Fields of a block\<close>

definition fits :: "nat \<Rightarrow> (nat \<times> u8 list) list \<Rightarrow> bool" where
  "fits n fls \<longleftrightarrow> list_all (\<lambda>(off, bs). off + length bs \<le> n) fls"

lemma fits_simps [simp]: "fits n []" "fits n ((off, bs) # fls) \<longleftrightarrow> off + length bs \<le> n \<and> fits n fls"
  "fits n (xs @ ys) \<longleftrightarrow> fits n xs \<and> fits n ys" "fits n (rev xs) \<longleftrightarrow> fits n xs"
  by (auto simp: fits_def list_all_iff)

text \<open>A slice of a block with fields, the last field first.\<close>

fun field_of :: "(nat \<times> u8 list) list \<Rightarrow> nat \<Rightarrow> nat \<Rightarrow> block \<Rightarrow> u8 list" where
  "field_of [] off w b = take w (drop off b)"
| "field_of ((o', bs) # fls) off w b =
     (if o' + length bs \<le> off \<or> off + w \<le> o' then field_of fls off w b
      else if o' = off \<and> length bs = w then bs
      else take w (drop off (put_fields (rev ((o', bs) # fls)) b)))"

lemma put_fields_snoc: "put_fields (fls @ [(off, bs)]) b = splice off bs (put_fields fls b)"
  by (simp add: put_fields_def)

lemma length_put_fields: "fits (length b) fls \<Longrightarrow> length (put_fields fls b) = length b"
proof (induction fls rule: rev_induct)
  case (snoc f fls)
  then show ?case by (cases f) (simp add: put_fields_snoc length_splice)
qed (simp add: put_fields_def)

lemma field_of_put: "fits (length b) fls \<Longrightarrow> take w (drop off (put_fields (rev fls) b)) = field_of fls off w b"
proof (induction fls)
  case (Cons f fls)
  obtain o' bs where f: "f = (o', bs)" by (cases f)
  have l: "o' + length bs \<le> length (put_fields (rev fls) b)" using Cons.prems f by (simp add: length_put_fields)
  show ?case
  proof (cases "o' + length bs \<le> off \<or> off + w \<le> o'")
    case True
    then show ?thesis using Cons f slice_splice_other [OF l, of off w] by (auto simp: put_fields_snoc)
  next
    case False
    then show ?thesis using f slice_splice_same [OF l] by (auto simp: put_fields_snoc)
  qed
qed (simp add: put_fields_def)

lemma field_put: "fits (length b) fls \<Longrightarrow> take w (drop off (put_fields fls b)) = field_of (rev fls) off w b"
  using field_of_put [of b "rev fls" w off] by simp

lemma le_byte_field: "i < length b \<Longrightarrow> b ! i = hd (take 1 (drop i b))"
  by (simp add: hd_drop_conv_nth)

lemma length_ascii [simp]: "length (ascii s) = length s"
  by (simp add: ascii_def)

section \<open>The parameter block\<close>

lemma bpb_slice: "take w (drop off format_bpb) = field_of (rev
     [(0, [0xEB, 0x58, 0x90]), (3, ascii ''NEKOS   ''), (11, le_bytes 2 (512 :: u16)), (13, [1]),
      (14, le_bytes 2 FORMAT_RESERVED), (16, [1]), (17, le_bytes 2 (0 :: u16)), (19, le_bytes 2 (0 :: u16)), (21, [0xF8]),
      (22, le_bytes 2 (0 :: u16)), (24, le_bytes 2 (1 :: u16)), (26, le_bytes 2 (1 :: u16)), (28, le_bytes 4 (0 :: u32)),
      (32, le_bytes 4 (of_nat RAMDISK_SECTORS :: u32)), (36, le_bytes 4 format_fat_size), (40, le_bytes 2 (0 :: u16)),
      (42, le_bytes 2 (0 :: u16)), (44, le_bytes 4 (2 :: u32)), (48, le_bytes 2 (1 :: u16)), (50, le_bytes 2 (6 :: u16)),
      (64, [0x80]), (66, [0x29]), (67, le_bytes 4 (0x12345678 :: u32)), (71, ascii ''NEKOS      ''),
      (82, ascii ''FAT32   ''), (510, [0x55, 0xAA])]) off w zero_block"
  unfolding format_bpb_def by (rule field_put) (simp add: layout zero_block_def)

lemma length_format_bpb: "length format_bpb = BLOCK_SIZE"
  unfolding format_bpb_def by (subst length_put_fields) (simp_all add: layout zero_block_def)

lemma bpb_fields:
  "bytes_per_sector (read_bpb format_bpb) = 512" "sectors_per_cluster (read_bpb format_bpb) = 1"
  "reserved_sector_count (read_bpb format_bpb) = 32" "num_fats (read_bpb format_bpb) = 1"
  "root_entry_count (read_bpb format_bpb) = 0" "fat_size_16 (read_bpb format_bpb) = 0"
  "fat_size_32 (read_bpb format_bpb) = format_fat_size" "total_sectors_32 (read_bpb format_bpb) = 8192"
  "bpb_root_cluster (read_bpb format_bpb) = 2"
  by (simp_all add: read_bpb_def le16_def le32_def bpb_slice le_word_le_bytes le_byte_field length_format_bpb layout FORMAT_RESERVED_def)

section \<open>The fresh volume\<close>

definition fresh_fs :: Fat32Fs where
  "fresh_fs = \<lparr>fs_bpb = read_bpb format_bpb, fat_start = 32, data_start = 96, total_clusters = 8096, root_cluster = 2\<rparr>"

definition fresh_disk :: disk where
  "fresh_disk = put_sector 96 zero_block (put_sector 32 format_fat (put_sector 1 format_fsinfo
     (put_sector 6 format_bpb (put_sector 0 format_bpb (\<lambda>_. 0)))))"

lemma format_lengths: "length format_fsinfo = BLOCK_SIZE" "length format_fat = BLOCK_SIZE" "length zero_block = BLOCK_SIZE"
  unfolding format_fsinfo_def format_fat_def by (simp_all add: length_put_fields layout zero_block_def)

lemma fat_size_value: "format_fat_size = 64"
  by (simp add: format_fat_size_def layout)

lemma format_zero: "format_fat32 (\<lambda>_. 0) = (True, fresh_disk)"
  by (simp add: format_fat32_def disk_write_good length_format_bpb format_lengths layout FORMAT_RESERVED_def
      fat_size_value fresh_disk_def Let_def)

lemma fresh_sectors: "sector_data fresh_disk s =
    (if s = 96 then zero_block else if s = 32 then format_fat else if s = 1 then format_fsinfo
     else if s = 6 \<or> s = 0 then format_bpb else zero_block)"
proof -
  have "sector_data (\<lambda>_. 0) s = zero_block" by (rule nth_equalityI) (simp_all add: sector_data_def zero_block_def)
  then show ?thesis
    by (simp add: fresh_disk_def sector_data_put length_format_bpb format_lengths)
qed

lemma open_fresh: "fs_open format_bpb = Done (Some fresh_fs)"
  by (simp add: fs_open_def bpb_fields fat_size_value fresh_fs_def layout Let_def)

lemma server_start_zero: "server_start (\<lambda>_. 0) = Done (Some (fresh_fs, fresh_disk))"
  by (simp add: server_start_def format_zero disk_read_good layout fresh_sectors open_fresh)

lemma fresh_fs_ok: "fs_ok fresh_fs"
  by (simp add: fs_ok_def fresh_fs_def bpb_fields layout)

lemma fat_slice: "12 \<le> off \<Longrightarrow> off + 4 \<le> 512 \<Longrightarrow> le32 off format_fat = 0" "le32 8 format_fat = FAT32_EOC"
proof -
  have s: "take w (drop off format_fat) = field_of (rev
     [(0, le_bytes 4 (0x0FFFFFF8 :: u32)), (4, le_bytes 4 (0x0FFFFFFF :: u32)), (8, le_bytes 4 FAT32_EOC)]) off w zero_block" for w off
    unfolding format_fat_def by (rule field_put) (simp add: layout zero_block_def)
  show "le32 8 format_fat = FAT32_EOC" by (simp add: le32_def s le_word_le_bytes)
  assume off: "12 \<le> off" "off + 4 \<le> 512"
  have "le_word (replicate n 0) = (0 :: u32)" for n by (induction n) simp_all
  then show "le32 off format_fat = 0" using off by (simp add: le32_def s zero_block_def)
qed

lemma fresh_entry:
  assumes c: "valid_cluster fresh_fs c"
  shows "fat_get fresh_fs c fresh_disk = (if c = 2 then FAT32_EOC else 0)"
proof -
  have b: "2 \<le> unat c" "unat c < 8098" using c by (simp_all add: valid_cluster_def fresh_fs_def)
  have zero: "le32 off zero_block = 0" for off
  proof -
    have "le_word (replicate n 0) = (0 :: u32)" for n by (induction n) simp_all
    then show ?thesis by (simp add: le32_def zero_block_def)
  qed
  note get = fat_next_ok(2) [OF fresh_fs_ok c, of fresh_disk]
  have st: "unat (fat_start fresh_fs) = 32" by (simp add: fresh_fs_def)
  show ?thesis
  proof (cases "unat c < 128")
    case False
    then have "0 < unat c div 128" "unat c div 128 < 64" using b by simp_all
    moreover have "c \<noteq> 2" using False by auto
    ultimately show ?thesis by (simp add: get st fresh_sectors zero)
  next
    case True
    then have m: "unat c div 128 = 0" "unat c mod 128 = unat c" by simp_all
    show ?thesis
    proof (cases "c = 2")
      case True
      then show ?thesis unfolding get m by (simp add: st fresh_sectors fat_slice(2) eoc_mask)
    next
      case False
      then have "unat c \<noteq> 2" by (simp add: word_unat_eq_iff)
      then have "12 \<le> 4 * unat c" "4 * unat c + 4 \<le> 512" using b True by simp_all
      then show ?thesis using m False by (simp add: get st fresh_sectors fat_slice(1))
    qed
  qed
qed

text \<open>C21: on the zero-initialised disk the server starts, with a volume of 8096 clusters of one sector in
  which only the root directory is allocated, as a chain of one empty cluster.\<close>

theorem server_starts_empty:
  "\<exists>fs d. server_start (\<lambda>_. 0) = Done (Some (fs, d)) \<and> fs_ok fs \<and> total_clusters fs = 8096 \<and>
     file_chain fs [root_cluster fs] d \<and> file_content fs [root_cluster fs] d = replicate BLOCK_SIZE 0 \<and>
     {c. valid_cluster fs c \<and> fat_get fs c d \<noteq> 0} = {root_cluster fs}"
proof -
  have r: "root_cluster fresh_fs = 2" "total_clusters fresh_fs = 8096" by (simp_all add: fresh_fs_def)
  have v: "valid_cluster fresh_fs 2" by (simp add: valid_cluster_def fresh_fs_def)
  have "file_chain fresh_fs [2] fresh_disk" using v fresh_entry [OF v] by (simp add: file_chain_def)
  moreover have "cluster_data fresh_fs 2 fresh_disk = zero_block"
    unfolding cluster_data_def cluster_sector(1) [OF fresh_fs_ok v] by (simp add: fresh_sectors fresh_fs_def)
  moreover have "{c. valid_cluster fresh_fs c \<and> fat_get fresh_fs c fresh_disk \<noteq> 0} = {2}"
    using v fresh_entry by (auto simp: FAT32_EOC_def split: if_splits)
  ultimately show ?thesis
    using r fresh_fs_ok server_start_zero
    by (intro exI [of _ fresh_fs] exI [of _ fresh_disk]) (simp add: zero_block_def)
qed

end
