(* ===== verification/Fat_Names.thy ===== *)
theory Fat_Names
  imports Fat_Dir Fat_Chain
begin

text \<open>
  Directories of one sector with short names (\<open>src/user/programs/fs-server/src/main.rs\<close>): the sector as
  a list of entries followed by free ones, and what lookup, creation and the update of sizes do to it.
\<close>

section \<open>The sector of a directory\<close>

definition zero_entry :: "u8 list" where
  "zero_entry = replicate 32 0"

definition plain_entry :: "u8 list \<Rightarrow> bool" where
  "plain_entry e \<longleftrightarrow> length e = 32 \<and> e ! 0 \<noteq> 0 \<and> e ! 0 \<noteq> 0xE5 \<and> e ! 11 \<noteq> 0x0F"

definition dir_block :: "u8 list list \<Rightarrow> block" where
  "dir_block es = concat es @ replicate (BLOCK_SIZE - 32 * length es) 0"

text \<open>The entries of a directory with room for one more.\<close>

definition dir_holds :: "Fat32Fs \<Rightarrow> u32 \<Rightarrow> u8 list list \<Rightarrow> disk \<Rightarrow> bool" where
  "dir_holds fs c es d \<longleftrightarrow> cluster_data fs c d = dir_block es \<and> list_all plain_entry es \<and> length es < ENTRIES_PER_SECTOR"

lemma length_concat32: "list_all (\<lambda>e. length e = 32) es \<Longrightarrow> length (concat es) = 32 * length es"
  by (induction es) simp_all

lemma plain_lengths: "list_all plain_entry es \<Longrightarrow> list_all (\<lambda>e. length e = 32) es"
  by (simp add: list_all_iff plain_entry_def)

lemma length_dir_block: "list_all (\<lambda>e. length e = 32) es \<Longrightarrow> length es \<le> 16 \<Longrightarrow> length (dir_block es) = BLOCK_SIZE"
  by (simp add: dir_block_def length_concat32 layout)

lemma entry_bytes_dir:
  assumes l: "list_all (\<lambda>e. length e = 32) es" and i: "i < 16"
  shows "entry_bytes i (dir_block es) = (if i < length es then es ! i else zero_entry)"
proof (cases "i < length es")
  case True
  have "es = take i es @ es ! i # drop (Suc i) es" using True by (rule id_take_nth_drop)
  then have c: "concat es = concat (take i es) @ es ! i @ concat (drop (Suc i) es)"
    by (metis concat.simps(2) concat_append)
  have "list_all (\<lambda>e. length e = 32) (take i es)" using l by (auto simp: list_all_iff dest: in_set_takeD)
  then have "length (concat (take i es)) = i * 32" using True by (simp add: length_concat32)
  moreover have "length (es ! i) = 32" using l True by (simp add: list_all_length)
  ultimately show ?thesis using True by (simp add: entry_bytes_def dir_block_def c)
next
  case False
  then obtain k where k: "i = length es + k" using le_Suc_ex not_less by blast
  then have "i * 32 - length (concat es) = k * 32" using length_concat32 [OF l] by simp
  moreover have "length (concat es) \<le> i * 32" using length_concat32 [OF l] k by simp
  ultimately have "take 32 (drop (i * 32) (dir_block es)) = replicate (min 32 (512 - 32 * length es - k * 32)) 0"
    by (simp add: dir_block_def layout)
  moreover have "min 32 (512 - 32 * length es - k * 32) = 32" using i k by simp
  ultimately show ?thesis using False by (simp add: entry_bytes_def zero_entry_def)
qed

lemma sector_entries_dir:
  assumes "list_all (\<lambda>e. length e = 32) es" and "length es \<le> 16"
  shows "sector_entries (dir_block es) = es @ replicate (16 - length es) zero_entry"
proof (rule nth_equalityI)
  show "length (sector_entries (dir_block es)) = length (es @ replicate (16 - length es) zero_entry)"
    using assms(2) by (simp add: sector_entries_def ENTRIES_PER_SECTOR_def)
  fix i assume "i < length (sector_entries (dir_block es))"
  then have i: "i < 16" by (simp add: sector_entries_def ENTRIES_PER_SECTOR_def)
  then show "sector_entries (dir_block es) ! i = (es @ replicate (16 - length es) zero_entry) ! i"
    using entry_bytes_dir [OF assms(1) i] assms(2) by (simp add: sector_entries_def ENTRIES_PER_SECTOR_def nth_append)
qed

section \<open>Lookup\<close>

lemma scan_plain: "plain_entry e \<Longrightarrow> scan_entry e (b, 0) = Done (Named (short_text e) (b, 0))"
  by (simp add: scan_entry_def plain_entry_def entry_name_def)

lemma scan_zero: "scan_entry zero_entry l = Done EndOfDir"
  by (simp add: scan_entry_def zero_entry_def)

lemma walk_plain:
  "list_all plain_entry es \<Longrightarrow>
   walk_entries (es @ zero_entry # zs) (b, 0) acc = Done (True, (b, 0), acc @ map (\<lambda>e. (e, short_text e)) es)"
  by (induction es arbitrary: acc) (simp_all add: scan_plain scan_zero)

lemma replicate_head: "0 < n \<Longrightarrow> replicate n x = x # replicate (n - 1) x"
  by (cases n) simp_all

lemma cluster_sectors_one: "fs_ok fs \<Longrightarrow> cluster_sectors fs c = [cluster_to_sector fs c]"
  by (simp add: cluster_sectors_def spc_def fs_ok_def)

lemma walk_dir_holds:
  assumes ok: "fs_ok fs" and c: "valid_cluster fs c" and h: "dir_holds fs c es d"
  shows "walk_dir (Suc n) fs c d = Done (True, map (\<lambda>e. (e, short_text e)) es)"
proof -
  have es: "cluster_data fs c d = dir_block es" "list_all plain_entry es" "length es < 16"
    using h by (simp_all add: dir_holds_def ENTRIES_PER_SECTOR_def)
  have rd: "disk_read (cluster_to_sector fs c) d = Some (dir_block es)"
    using put_cluster_ok(3) [OF ok c length_zero_block, of d] es(1) by simp
  have se: "sector_entries (dir_block es) = es @ zero_entry # replicate (15 - length es) zero_entry"
    using sector_entries_dir [OF plain_lengths [OF es(2)]] es(3) replicate_head [of "16 - length es" zero_entry] by simp
  show ?thesis
    using walk_plain [OF es(2), of "replicate (15 - length es) zero_entry" "replicate 256 0" "[]"]
    by (simp add: walk_dir_def cluster_sectors_one [OF ok] rd se lfn_empty_def)
qed

text \<open>Lookup by name in a list of entries.\<close>

definition lookup_name :: "u8 list \<Rightarrow> u8 list list \<Rightarrow> u8 list option" where
  "lookup_name name es = List.find (\<lambda>e. eq_ignore_case (short_text e) name) es"

lemma find_entry_holds:
  assumes "fs_ok fs" and "valid_cluster fs c" and "dir_holds fs c es d"
  shows "find_entry (Suc n) fs c name d = Done (map_option (\<lambda>e. (read_dir_entry e, short_text e)) (lookup_name name es))"
proof -
  have "List.find (\<lambda>(e, nm). eq_ignore_case nm name) (map (\<lambda>e. (e, short_text e)) es) =
      map_option (\<lambda>e. (e, short_text e)) (lookup_name name es)"
    by (induction es) (simp_all add: lookup_name_def)
  then show ?thesis
    by (simp add: find_entry_def walk_dir_holds [OF assms] option.map_comp comp_def)
qed

section \<open>A short name\<close>

lemma upper_idem: "to_ascii_upper (to_ascii_upper c) = to_ascii_upper c"
proof -
  have "\<not> (0x61 \<le> c - 0x20 \<and> c - 0x20 \<le> 0x7A)" if "0x61 \<le> c" "c \<le> 0x7A" for c :: u8
    using that by (simp add: word_le_nat_alt unat_sub)
  then show ?thesis by (auto simp: to_ascii_upper_def)
qed

lemma short_char_upper:
  assumes "short_char c"
  shows "to_ascii_upper c \<noteq> 0x20" and "to_ascii_upper c \<noteq> 0" and "to_ascii_upper c \<noteq> 0xE5" and "c < 0x80" and "c \<noteq> DOT"
proof -
  have r: "0x30 \<le> unat c \<and> unat c \<le> 0x39 \<or> 0x41 \<le> unat c \<and> unat c \<le> 0x5A \<or> 0x61 \<le> unat c \<and> unat c \<le> 0x7A \<or> unat c = 0x5F"
    using assms by (auto simp: short_char_def is_alnum_def word_le_nat_alt word_unat_eq_iff)
  then show "c < 0x80" "c \<noteq> DOT" by (auto simp: word_less_nat_alt DOT_def)
  have u: "unat (to_ascii_upper c) = (if 0x61 \<le> unat c \<and> unat c \<le> 0x7A then unat c - 0x20 else unat c)"
    by (auto simp: to_ascii_upper_def word_le_nat_alt unat_sub)
  show "to_ascii_upper c \<noteq> 0x20" "to_ascii_upper c \<noteq> 0" "to_ascii_upper c \<noteq> 0xE5"
    using r u by (auto simp: word_unat_eq_iff split: if_splits)
qed

lemma rsplit_none: "rsplit x bs = None \<longleftrightarrow> x \<notin> set bs"
  by (induction bs) (auto split: option.splits)

lemma rsplit_Some: "rsplit x bs = Some (a, b) \<Longrightarrow> bs = a @ x # b \<and> x \<notin> set b"
proof (induction bs arbitrary: a b)
  case (Cons c cs)
  then show ?case by (cases "rsplit x cs") (auto simp: rsplit_none split: if_splits)
qed simp

text \<open>A name of the 8.3 form: both parts, and the name again.\<close>

lemma name_83:
  assumes v: "is_valid_83 name" and l: "last name \<noteq> DOT"
  obtains nm ext where "name_parts name = (nm, ext)" and "nm \<noteq> []" and "length nm \<le> 8" and "length ext \<le> 3"
    and "list_all short_char nm" and "list_all short_char ext" and "name = nm @ (if ext = [] then [] else DOT # ext)"
proof -
  obtain nm ext where p: "name_parts name = (nm, ext)" by (cases "name_parts name")
  note vs = v [unfolded is_valid_83_def p prod.case]
  have "name = nm @ (if ext = [] then [] else DOT # ext)"
  proof (cases "rsplit DOT name")
    case None
    then show ?thesis using p by (simp add: name_parts_def)
  next
    case (Some r)
    then have n: "name = nm @ DOT # ext" using p rsplit_Some [of DOT name nm ext] by (cases r) (simp add: name_parts_def)
    then have "ext \<noteq> []" using l by auto
    then show ?thesis using n by simp
  qed
  then show thesis using that [OF p] vs by auto
qed

lemma encode_ascii: "list_all (\<lambda>b. b < 0x80) bs \<Longrightarrow> encode_utf16 bs = map ucast bs"
  by (induction bs) simp_all

lemma takeWhile_pad:
  fixes xs :: "u8 list"
  assumes "list_all (\<lambda>c. c \<noteq> 0x20) xs"
  shows "takeWhile (\<lambda>c. c \<noteq> 0x20) (xs @ replicate k 0x20) = xs"
proof -
  have "takeWhile (\<lambda>c. c \<noteq> 0x20) (xs @ replicate k 0x20) = xs @ takeWhile (\<lambda>c. c \<noteq> 0x20) (replicate k (0x20 :: u8))"
    using assms by (auto simp: list_all_iff)
  then show ?thesis by (cases k) simp_all
qed

text \<open>The halves of a cluster number and their bytes.\<close>

lemma low_byte: "ucast (x AND 0xFF :: u32) = (ucast x :: u8)"
proof -
  have m: "(0xFF :: u32) = mask 8" by (simp add: mask_numeral)
  show ?thesis unfolding m by (rule bit_word_eqI) (auto simp: bit_and_iff bit_mask_iff bit_unsigned_iff)
qed

lemma half_bytes: "[ucast (drop_bit k x), ucast (drop_bit (k + 8) (x :: u32))] = le_bytes 2 (ucast (drop_bit k x) :: u16)"
proof -
  have "(ucast (drop_bit k x) :: u8) = ucast (ucast (drop_bit k x) :: u16)"
    by (rule bit_word_eqI) (auto simp: bit_unsigned_iff)
  moreover have "(ucast (drop_bit (k + 8) x) :: u8) = ucast (drop_bit 8 (ucast (drop_bit k x) :: u16))"
    by (rule bit_word_eqI) (auto simp: bit_unsigned_iff bit_drop_bit_eq add.assoc)
  ultimately show ?thesis by (simp add: numeral_2_eq_2)
qed

lemma halves: "push_bit 16 (ucast (ucast (drop_bit 16 x) :: u16)) OR ucast (ucast x :: u16) = (x :: u32)"
proof (rule bit_word_eqI)
  fix n assume "n < LENGTH(32)"
  then show "bit (push_bit 16 (ucast (ucast (drop_bit 16 x) :: u16)) OR ucast (ucast x :: u16) :: u32) n = bit x n"
    by (cases "n < 16") (auto simp: bit_or_iff bit_push_bit_iff bit_unsigned_iff bit_drop_bit_eq)
qed

text \<open>The bytes of a new entry, read back.\<close>

lemma new_entry:
  fixes attr :: u8 and cl sz :: u32
  assumes "length short = 11"
  defines "e \<equiv> short_entry_bytes short attr cl sz zero_entry"
  shows "length e = 32" and "e ! 0 = short ! 0" and "e ! 11 = attr" and "take 8 e = take 8 short"
    and "take 3 (drop 8 e) = drop 8 short" and "de_attr (read_dir_entry e) = attr" and "de_file_size (read_dir_entry e) = sz"
    and "entry_cluster (read_dir_entry e) = cl"
proof -
  obtain a0 a1 a2 a3 a4 a5 a6 a7 a8 a9 a10 where sh: "short = [a0, a1, a2, a3, a4, a5, a6, a7, a8, a9, a10]"
    using assms(1) by (auto simp: length_Suc_conv numeral_eq_Suc)
  have e: "e = [a0, a1, a2, a3, a4, a5, a6, a7, a8, a9, a10, attr, 0, 0, 0, 0, 0, 0, 0, 0,
      ucast (drop_bit 16 cl), ucast (drop_bit 24 cl), 0, 0, 0, 0, ucast (cl AND 0xFF), ucast (drop_bit 8 cl AND 0xFF)] @ le_bytes 4 sz"
    by (simp add: e_def short_entry_bytes_def set_size_def set_cluster_def splice_def sh zero_entry_def numeral_eq_Suc)
  show "length e = 32" "e ! 0 = short ! 0" "e ! 11 = attr" "take 8 e = take 8 short" "take 3 (drop 8 e) = drop 8 short"
    "de_attr (read_dir_entry e) = attr"
    by (simp_all add: e sh read_dir_entry_def)
  show "de_file_size (read_dir_entry e) = sz"
    by (simp add: e read_dir_entry_def le32_def le_word_le_bytes)
  have "take 2 (drop 20 e) = le_bytes 2 (ucast (drop_bit 16 cl) :: u16)" "take 2 (drop 26 e) = le_bytes 2 (ucast cl :: u16)"
    using half_bytes [of 16 cl] half_bytes [of 0 cl] by (simp_all add: e low_byte)
  then show "entry_cluster (read_dir_entry e) = cl"
    by (simp add: read_dir_entry_def entry_cluster_def le16_def le_word_le_bytes halves)
qed

text \<open>The short name made of an 8.3 name, and the text of an entry with it.\<close>

lemma short_name_83:
  assumes v: "is_valid_83 name" and l: "last name \<noteq> DOT"
  obtains short where "make_short_name n fs name c d = Done short" and "length short = 11"
    and "short ! 0 \<noteq> 0" and "short ! 0 \<noteq> 0xE5" and "lfn_count (length (name_units name)) = 0"
    and "\<And>e. take 8 e = take 8 short \<Longrightarrow> take 3 (drop 8 e) = drop 8 short \<Longrightarrow> short_text e = map to_ascii_upper name"
proof -
  obtain nm ext where p: "name_parts name = (nm, ext)" and ne: "nm \<noteq> []" and len: "length nm \<le> 8" "length ext \<le> 3"
    and ch: "list_all short_char nm" "list_all short_char ext" and name: "name = nm @ (if ext = [] then [] else DOT # ext)"
    by (rule name_83 [OF v l])
  let ?s = "pad_to 8 (map to_ascii_upper nm) @ pad_to 3 (map to_ascii_upper ext)"
  have mk: "make_short_name n fs name c d = Done ?s"
    using v p by (simp add: make_short_name_def short_base_def)
  have l8: "length (pad_to 8 (map to_ascii_upper nm)) = 8" "length (pad_to 3 (map to_ascii_upper ext)) = 3"
    using len by (simp_all add: pad_to_def)
  have hd: "?s ! 0 = to_ascii_upper (hd nm)" using ne by (cases nm) (simp_all add: pad_to_def)
  have "short_char (hd nm)" using ch(1) ne by (cases nm) simp_all
  note hdc = short_char_upper [OF this]
  have nosp: "list_all (\<lambda>c. c \<noteq> 0x20) (map to_ascii_upper nm)" "list_all (\<lambda>c. c \<noteq> 0x20) (map to_ascii_upper ext)"
    using ch short_char_upper(1) by (auto simp: list_all_iff)
  have "list_all (\<lambda>b. b < 0x80) name"
    using ch short_char_upper(4) unfolding name by (auto simp: list_all_iff DOT_def)
  then have "length (name_units name) \<le> 12"
    using len by (simp add: name_units_def encode_ascii name)
  then have cnt: "lfn_count (length (name_units name)) = 0" by (simp add: lfn_count_def)
  have tx: "short_text e = map to_ascii_upper name"
    if e: "take 8 e = take 8 ?s" "take 3 (drop 8 e) = drop 8 ?s" for e
  proof -
    have e8: "take 8 e = pad_to 8 (map to_ascii_upper nm)" "take 3 (drop 8 e) = pad_to 3 (map to_ascii_upper ext)"
      using e l8 by simp_all
    have "takeWhile (\<lambda>c. c \<noteq> 0x20) (take 8 e) = map to_ascii_upper nm"
      unfolding e8 pad_to_def by (rule takeWhile_pad [OF nosp(1)])
    moreover have "takeWhile (\<lambda>c. c \<noteq> 0x20) (take 3 (drop 8 e)) = map to_ascii_upper ext"
      unfolding e8 pad_to_def by (rule takeWhile_pad [OF nosp(2)])
    moreover have "take 3 (drop 8 e) ! 0 = 0x20 \<longleftrightarrow> ext = []"
      unfolding e8 using nosp(2) by (cases ext) (simp_all add: pad_to_def)
    ultimately show ?thesis unfolding short_text_def Let_def name by (simp add: DOT_def to_ascii_upper_def)
  qed
  show thesis
    by (rule that [OF mk _ _ _ cnt tx]) (use l8 hd hdc in simp_all)
qed

section \<open>Creation\<close>

lemma find_run_free: "list_all plain_entry es \<Longrightarrow> find_run 1 i (es @ zero_entry # zs) 0 0 = Some (i + length es)"
  by (induction es arbitrary: i) (simp_all add: plain_entry_def zero_entry_def Let_def)

lemma set_entry_dir:
  assumes l: "list_all (\<lambda>e. length e = 32) es" and n: "length es < 16" and f: "length (f zero_entry) = 32"
  shows "set_entry (length es) f (dir_block es) = dir_block (es @ [f zero_entry])"
proof -
  have e: "entry_bytes (length es) (dir_block es) = zero_entry" using entry_bytes_dir [OF l n] by simp
  have c: "length (concat es) = length es * 32" using length_concat32 [OF l] by simp
  show ?thesis
    unfolding set_entry_def e splice_def using c f n by (simp add: dir_block_def layout)
qed

lemma create_dir_entry_holds:
  assumes ok: "fs_ok fs" and c: "valid_cluster fs c" and h: "dir_holds fs c es d"
    and v: "is_valid_83 name" and l: "last name \<noteq> DOT"
  obtains short where "length short = 11" and "short ! 0 \<noteq> 0" and "short ! 0 \<noteq> 0xE5"
    and "\<And>e. take 8 e = take 8 short \<Longrightarrow> take 3 (drop 8 e) = drop 8 short \<Longrightarrow> short_text e = map to_ascii_upper name"
    and "create_dir_entry (Suc n) fs c name attr cl sz d =
      Done (Some (cluster_to_sector fs c, length es * 32),
        put_cluster fs c (dir_block (es @ [short_entry_bytes short attr cl sz zero_entry])) d)"
proof -
  have es: "cluster_data fs c d = dir_block es" "list_all plain_entry es" "length es < 16"
    using h by (simp_all add: dir_holds_def ENTRIES_PER_SECTOR_def)
  obtain short where sh: "make_short_name (Suc n) fs name c d = Done short" "length short = 11" "short ! 0 \<noteq> 0" "short ! 0 \<noteq> 0xE5"
    and cnt: "lfn_count (length (name_units name)) = 0"
    and tx: "\<And>e. take 8 e = take 8 short \<Longrightarrow> take 3 (drop 8 e) = drop 8 short \<Longrightarrow> short_text e = map to_ascii_upper name"
    by (rule short_name_83 [OF v l, of "Suc n" fs c d]) (rule that)
  let ?new = "short_entry_bytes short attr cl sz zero_entry"
  have rd: "disk_read (cluster_to_sector fs c) d = Some (dir_block es)"
    using put_cluster_ok(3) [OF ok c length_zero_block, of d] es(1) by simp
  have se: "sector_entries (dir_block es) = es @ zero_entry # replicate (15 - length es) zero_entry"
    using sector_entries_dir [OF plain_lengths [OF es(2)]] es(3) replicate_head [of "16 - length es" zero_entry] by simp
  have run: "find_run (Suc 0) 0 (sector_entries (dir_block es)) 0 0 = Some (length es)"
    using find_run_free [OF es(2), of 0 "replicate (15 - length es) zero_entry"] by (simp add: se)
  have wr: "write_entries (name_units name) short attr cl sz (length es) (dir_block es) = dir_block (es @ [?new])"
    using set_entry_dir [OF plain_lengths [OF es(2)] es(3), of "short_entry_bytes short attr cl sz"] new_entry(1) [OF sh(2)]
    by (simp add: write_entries_def cnt)
  have "length (dir_block (es @ [?new])) = BLOCK_SIZE"
    using es(3) plain_lengths [OF es(2)] new_entry(1) [OF sh(2)] by (intro length_dir_block) simp_all
  note put = put_cluster_ok(1) [OF ok c this, of d]
  show thesis
    by (rule that [OF sh(2-4) tx])
       (simp_all add: create_dir_entry_def sh(1) cluster_sectors_one [OF ok] rd run wr put cnt)
qed

end
