(* ===== verification/Fat_Dir_Spec.thy ===== *)
theory Fat_Dir_Spec
  imports Fat_Names
begin

text \<open>
  What creation and update of directory entries promise to a lookup, on directories of one sector with
  short names (\<open>create_dir_entry\<close>, \<open>find_entry\<close>, \<open>update_dir_entry_size\<close> and \<open>delete_dir_entry\<close> of
  \<open>src/user/programs/fs-server/src/main.rs\<close>).
\<close>

section \<open>Creation and lookup\<close>

lemma eq_upper: "eq_ignore_case (map to_ascii_upper a) b = eq_ignore_case a b"
  by (simp add: eq_ignore_case_def upper_idem comp_def)

lemma eq_ignore_case_refl: "eq_ignore_case a a"
  by (simp add: eq_ignore_case_def)

lemma lookup_name_snoc:
  "lookup_name q (es @ [e]) = (case lookup_name q es of Some x \<Rightarrow> Some x
     | None \<Rightarrow> if eq_ignore_case (short_text e) q then Some e else None)"
  by (induction es) (simp_all add: lookup_name_def)

lemma dir_create_find_aux:
  assumes ok: "fs_ok fs" and c: "valid_cluster fs c" and h: "dir_holds fs c es d" and n: "length es < 15"
    and v: "is_valid_83 name" and l: "last name \<noteq> DOT" and a: "attr \<noteq> 0x0F" and new: "lookup_name name es = None"
  shows "\<exists>loc d' e. create_dir_entry (Suc m) fs c name attr cl sz d = Done (Some loc, d') \<and>
    find_entry (Suc m) fs c name d' = Done (Some (e, map to_ascii_upper name)) \<and>
    de_attr e = attr \<and> entry_cluster e = cl \<and> de_file_size e = sz \<and>
    (\<forall>q. eq_ignore_case name q \<or> find_entry (Suc m) fs c q d' = find_entry (Suc m) fs c q d)"
proof -
  obtain short where sh: "length short = 11" "short ! 0 \<noteq> 0" "short ! 0 \<noteq> 0xE5"
    and tx: "\<And>e. take 8 e = take 8 short \<Longrightarrow> take 3 (drop 8 e) = drop 8 short \<Longrightarrow> short_text e = map to_ascii_upper name"
    and cr: "create_dir_entry (Suc m) fs c name attr cl sz d =
      Done (Some (cluster_to_sector fs c, length es * 32),
        put_cluster fs c (dir_block (es @ [short_entry_bytes short attr cl sz zero_entry])) d)"
    by (rule create_dir_entry_holds [OF ok c h v l, of m attr cl sz]) (rule that)
  let ?new = "short_entry_bytes short attr cl sz zero_entry"
  let ?d = "put_cluster fs c (dir_block (es @ [?new])) d"
  note ne = new_entry [OF sh(1), of attr cl sz]
  have tn: "short_text ?new = map to_ascii_upper name" by (rule tx [OF ne(4,5)])
  have es: "list_all plain_entry es" using h by (simp add: dir_holds_def)
  have pl: "plain_entry ?new" using ne(1-3) sh(2,3) a by (simp add: plain_entry_def)
  have "length (dir_block (es @ [?new])) = BLOCK_SIZE"
    using n plain_lengths [OF es] ne(1) by (intro length_dir_block) simp_all
  then have "dir_holds fs c (es @ [?new]) ?d"
    using fat_volume_laws(4) [OF ok c c] es pl n by (simp add: dir_holds_def ENTRIES_PER_SECTOR_def)
  note fnd = find_entry_holds [OF ok c this] and old = find_entry_holds [OF ok c h]
  have lk: "lookup_name q (es @ [?new]) = lookup_name q es" if "\<not> eq_ignore_case name q" for q
    using that by (simp add: lookup_name_snoc tn eq_upper split: option.splits)
  have others: "eq_ignore_case name q \<or> find_entry (Suc m) fs c q ?d = find_entry (Suc m) fs c q d" for q
    by (cases "eq_ignore_case name q") (simp_all add: fnd old lk)
  have "find_entry (Suc m) fs c name ?d = Done (Some (read_dir_entry ?new, map to_ascii_upper name))"
    using fnd [of m name] new by (simp add: lookup_name_snoc tn eq_upper eq_ignore_case_refl)
  then show ?thesis using cr ne(6-8) others by blast
qed

text \<open>C22: in a directory whose first sector holds at most fourteen entries, all of them short names that are not
  deleted, with never-used entries behind them, a file created with a new 8.3 name that does not end in a dot is
  found under its name, in any case, with the attributes, the cluster and the size it was created with; lookups
  of other names are as before.\<close>

theorem dir_create_find:
  assumes "fs_ok fs" and "valid_cluster fs c" and "dir_holds fs c es d" and "length es < 15"
    and "is_valid_83 name" and "last name \<noteq> DOT" and "attr \<noteq> 0x0F" and "lookup_name name es = None"
  shows "\<exists>loc d' e. create_dir_entry (Suc m) fs c name attr cl sz d = Done (Some loc, d') \<and>
    find_entry (Suc m) fs c name d' = Done (Some (e, map to_ascii_upper name)) \<and>
    de_attr e = attr \<and> entry_cluster e = cl \<and> de_file_size e = sz \<and>
    (\<forall>q. eq_ignore_case name q \<or> find_entry (Suc m) fs c q d' = find_entry (Suc m) fs c q d)"
  using assms by (rule dir_create_find_aux)

lemma sample_dir: "dir_holds sample_fs 3 [] (\<lambda>_. 0)"
proof -
  have "sector_data (\<lambda>_. 0) s = replicate BLOCK_SIZE 0" for s by (rule nth_equalityI) (simp_all add: sector_data_def)
  then show ?thesis by (simp add: dir_holds_def cluster_data_def dir_block_def ENTRIES_PER_SECTOR_def)
qed

definition sample_name :: "u8 list" where
  "sample_name = [0x61, 0x2E, 0x63]"

lemma sample_name_ok: "is_valid_83 sample_name" "last sample_name \<noteq> DOT"
  by (simp_all add: sample_name_def is_valid_83_def name_parts_def DOT_def short_char_def is_alnum_def)

theorem dir_create_find_witness: "dir_holds sample_fs 3 [] (\<lambda>_. 0) \<and>
    (\<exists>loc d' e. create_dir_entry 1 sample_fs 3 sample_name ATTR_ARCHIVE 4 77 (\<lambda>_. 0) = Done (Some loc, d') \<and>
      find_entry 1 sample_fs 3 sample_name d' = Done (Some (e, [0x41, 0x2E, 0x43])) \<and> entry_cluster e = 4 \<and> de_file_size e = 77)"
  using dir_create_find [OF sample_fs_ok sample_valid(2) sample_dir _ sample_name_ok, of ATTR_ARCHIVE 0 4 77] sample_dir
  by (simp add: ATTR_ARCHIVE_def lookup_name_def sample_name_def to_ascii_upper_def) blast

section \<open>Updating a size\<close>

lemma length_set_entry: "length buf = 512 \<Longrightarrow> i < 16 \<Longrightarrow> length (f (entry_bytes i buf)) = 32 \<Longrightarrow> length (set_entry i f buf) = 512"
  by (simp add: set_entry_def length_splice)

lemma set_entry_other:
  assumes "length buf = 512" and "i < 16" and "i \<noteq> j" and "length (f (entry_bytes i buf)) = 32"
  shows "entry_bytes j (set_entry i f buf) = entry_bytes j buf"
proof -
  have fit: "i * 32 + length (f (entry_bytes i buf)) \<le> length buf" using assms by simp
  have "j * 32 + 32 \<le> i * 32 \<or> i * 32 + 32 \<le> j * 32" using assms(3) by auto
  then have "take 32 (drop (j * 32) (splice (i * 32) (f (entry_bytes i buf)) buf)) = take 32 (drop (j * 32) buf)"
    using assms(4) by (intro slice_splice_other [OF fit]) simp
  then show ?thesis by (simp add: entry_bytes_def set_entry_def)
qed

lemma update_entries_end:
  "length buf = 512 \<Longrightarrow> k \<le> length es \<Longrightarrow> length es < 16 \<Longrightarrow> list_all plain_entry es \<Longrightarrow>
   (\<And>j. k \<le> j \<Longrightarrow> j < 16 \<Longrightarrow> entry_bytes j buf = (if j < length es then es ! j else zero_entry)) \<Longrightarrow>
   \<exists>buf'. update_entries [k..<16] name sz cl (b, 0) found buf =
     Done (True, found \<or> lookup_name name (drop k es) \<noteq> None, (b, 0), buf')"
proof (induction "length es - k" arbitrary: k buf found)
  case 0
  then have k: "k = length es" by simp
  then have "[k..<16] = k # [Suc k..<16]" using 0(4) by (simp add: upt_conv_Cons)
  moreover have "entry_bytes k buf = zero_entry" using 0(6) [of k] k 0(4) by simp
  ultimately show ?case using k by (simp add: scan_zero lookup_name_def)
next
  case (Suc n)
  then have k: "k < length es" by simp
  then have up: "[k..<16] = k # [Suc k..<16]" using Suc.prems(3) by (simp add: upt_conv_Cons)
  have e: "entry_bytes k buf = es ! k" using Suc.prems(5) [of k] k Suc.prems(3) by simp
  have pl: "plain_entry (es ! k)" using Suc.prems(4) k by (simp add: list_all_length)
  have dr: "drop k es = es ! k # drop (Suc k) es" using k by (simp add: Cons_nth_drop_Suc)
  let ?f = "\<lambda>e. set_cluster cl (set_size sz e)"
  have lf: "length (?f (entry_bytes k buf)) = 32"
    using pl by (simp add: e plain_entry_def set_cluster_def set_size_def splice_def)
  have n: "n = length es - Suc k" using Suc.hyps(2) by simp
  have later: "entry_bytes j (set_entry k ?f buf) = (if j < length es then es ! j else zero_entry)" if "Suc k \<le> j" "j < 16" for j
    using set_entry_other [where f = ?f and i = k and j = j, OF Suc.prems(1) _ _ lf] Suc.prems(5) [of j] that by simp
  have len: "length (set_entry k ?f buf) = 512"
    using length_set_entry [where f = ?f and i = k, OF Suc.prems(1) _ lf] k Suc.prems(3) by simp
  show ?case
  proof (cases "eq_ignore_case (short_text (es ! k)) name")
    case True
    have "\<exists>buf'. update_entries [Suc k..<16] name sz cl (b, 0) True (set_entry k ?f buf) =
        Done (True, True \<or> lookup_name name (drop (Suc k) es) \<noteq> None, (b, 0), buf')"
      by (rule Suc.hyps(1) [OF n len _ Suc.prems(3,4) later]) (use k in simp_all)
    then show ?thesis using True by (simp add: up e scan_plain [OF pl] dr lookup_name_def)
  next
    case False
    have "\<exists>buf'. update_entries [Suc k..<16] name sz cl (b, 0) found buf =
        Done (True, found \<or> lookup_name name (drop (Suc k) es) \<noteq> None, (b, 0), buf')"
      by (rule Suc.hyps(1) [OF n Suc.prems(1) _ Suc.prems(3,4)]) (use k Suc.prems(5) in simp_all)
    then show ?thesis using False by (simp add: up e scan_plain [OF pl] dr lookup_name_def)
  qed
qed

text \<open>C37: on a directory whose first sector holds short names that are not deleted, with a never-used entry
  behind them, \<open>update_dir_entry_size\<close> reports success for a file of this sector and leaves the disk as it is:
  the new size and cluster are not stored.\<close>

theorem update_size_not_stored:
  assumes ok: "fs_ok fs" and c: "valid_cluster fs c" and h: "dir_holds fs c es d"
  shows "update_dir_entry_size (Suc n) fs c name sz cl d = Done (lookup_name name es \<noteq> None, d)"
proof -
  have es: "cluster_data fs c d = dir_block es" "list_all plain_entry es" "length es < 16"
    using h by (simp_all add: dir_holds_def ENTRIES_PER_SECTOR_def)
  have rd: "disk_read (cluster_to_sector fs c) d = Some (dir_block es)"
    using put_cluster_ok(3) [OF ok c length_zero_block, of d] es(1) by simp
  have len: "length (dir_block es) = 512"
    using length_dir_block [OF plain_lengths [OF es(2)]] es(3) by (simp add: layout)
  obtain buf' where "update_entries [0..<16] name sz cl (replicate 256 0, 0) False (dir_block es) =
      Done (True, False \<or> lookup_name name (drop 0 es) \<noteq> None, (replicate 256 0, 0), buf')"
    using update_entries_end [OF len _ es(3,2), of 0 name sz cl "replicate 256 0" False]
      entry_bytes_dir [OF plain_lengths [OF es(2)]] by auto
  then show ?thesis
    by (simp add: update_dir_entry_size_def cluster_sectors_one [OF ok] rd lfn_empty_def ENTRIES_PER_SECTOR_def del: update_entries.simps)
qed

lemma sample_update_dir:
  defines "e \<equiv> short_entry_bytes ([0x41] @ replicate 10 0x20) ATTR_ARCHIVE 0 0 zero_entry"
  shows "dir_holds sample_fs 3 [e] (put_cluster sample_fs 3 (dir_block [e]) (\<lambda>_. 0))"
    and "lookup_name [0x61] [e] \<noteq> None"
proof -
  note ne = new_entry [of "[0x41] @ replicate 10 0x20" ATTR_ARCHIVE 0 0, folded e_def]
  have pl: "plain_entry e" using ne(1-3) by (simp add: plain_entry_def ATTR_ARCHIVE_def)
  then have "length (dir_block [e]) = BLOCK_SIZE" by (intro length_dir_block) (simp_all add: plain_entry_def)
  then show "dir_holds sample_fs 3 [e] (put_cluster sample_fs 3 (dir_block [e]) (\<lambda>_. 0))"
    using fat_volume_laws(4) [OF sample_fs_ok sample_valid(2) sample_valid(2)] pl
    by (simp add: dir_holds_def ENTRIES_PER_SECTOR_def)
  have "take 8 e = 0x41 # replicate 7 0x20" "take 3 (drop 8 e) = replicate 3 0x20" using ne(4,5) by simp_all
  then have "short_text e = [0x41]" by (simp add: short_text_def)
  then show "lookup_name [0x61] [e] \<noteq> None" by (simp add: lookup_name_def eq_ignore_case_def to_ascii_upper_def)
qed

theorem update_size_not_stored_witness:
  "\<exists>d. update_dir_entry_size 1 sample_fs 3 [0x61] 700 4 d = Done (True, d)"
  using update_size_not_stored [OF sample_fs_ok sample_valid(2) sample_update_dir(1), of 0 "[0x61]" 700 4] sample_update_dir(2)
  by fastforce

end
