(* ===== verification/Fat_Long_Names.thy ===== *)
theory Fat_Long_Names
  imports Fat_Dir_Spec
begin

text \<open>
  Long names of the file server (\<open>src/user/programs/fs-server/src/main.rs\<close>): the entries
  \<open>create_dir_entry\<close> writes for an ASCII name of 14 to 195 bytes give the name back when a directory is
  read, and what is left of them when the file is deleted.
\<close>

section \<open>The entries of a long name\<close>

definition long_ascii :: "u8 list \<Rightarrow> bool" where
  "long_ascii name \<longleftrightarrow> 13 < length name \<and> length name \<le> 195 \<and> list_all (\<lambda>b. b \<noteq> 0 \<and> b < 0x80) name"

lemma unit_of_bytes: "le_word [ucast (u AND 0xFF), ucast (drop_bit 8 u)] = (u :: u16)"
proof -
  have m: "(0xFF :: u16) = mask 8" by (simp add: mask_numeral)
  have "(ucast (u AND mask 8) :: u8) = ucast u"
    by (rule bit_word_eqI) (auto simp: bit_and_iff bit_mask_iff bit_unsigned_iff)
  then have "[ucast (u AND 0xFF), ucast (drop_bit 8 u)] = (le_bytes 2 u :: u8 list)" unfolding m by (simp add: numeral_2_eq_2)
  then show ?thesis by (simp only: le_word_le_bytes) (simp add: le_word_le_bytes)
qed

lemma upt5: "[b..<b + 5] = [b, b + 1, b + 2, b + 3, b + 4]"
  and upt6: "[b + 5..<b + 11] = [b + 5, b + 6, b + 7, b + 8, b + 9, b + 10]"
  and upt2: "[b + 11..<b + 13] = [b + 11, b + 12]"
  and upt13: "[b..<b + 13] = [b, b + 1, b + 2, b + 3, b + 4, b + 5, b + 6, b + 7, b + 8, b + 9, b + 10, b + 11, b + 12]"
  by (simp_all add: upt_rec)

definition lfn_flag :: "nat \<Rightarrow> nat \<Rightarrow> u8" where
  "lfn_flag count k = (if k = count - 1 then of_nat (k + 1) OR 0x40 else of_nat (k + 1))"

lemma lfn_flag_ok:
  assumes "k < 15"
  shows "lfn_flag count k \<noteq> 0" and "lfn_flag count k \<noteq> 0xE5" and "unat (lfn_flag count k AND 0x3F) - 1 = k"
proof -
  have "k = 0 \<or> k = 1 \<or> k = 2 \<or> k = 3 \<or> k = 4 \<or> k = 5 \<or> k = 6 \<or> k = 7 \<or> k = 8 \<or> k = 9 \<or> k = 10 \<or> k = 11 \<or> k = 12 \<or> k = 13 \<or> k = 14"
    using assms by presburger
  then show "lfn_flag count k \<noteq> 0" "lfn_flag count k \<noteq> 0xE5" "unat (lfn_flag count k AND 0x3F) - 1 = k"
    by (auto simp: lfn_flag_def)
qed

lemma lfn_entry_ok:
  fixes us :: "u16 list" and count :: nat and chk :: u8
  assumes k: "k < 15"
  defines "e \<equiv> lfn_entry_bytes us count chk k zero_entry"
  shows "length e = 32" and "scan_entry e l = Done (Skip (lfn_add e l))" and "lfn_index e = k"
    and "lfn_units e = map (unit_at us) [k * 13..<k * 13 + 13]" and "e ! 0 \<noteq> 0" and "e ! 0 \<noteq> 0xE5"
proof -
  have e: "e = [lfn_flag count k] @ concat (map (unit_bytes us) [k * 13..<k * 13 + 5]) @ [0x0F, 0, chk] @
      concat (map (unit_bytes us) [k * 13 + 5..<k * 13 + 11]) @ [0, 0] @ concat (map (unit_bytes us) [k * 13 + 11..<k * 13 + 13])"
    by (simp add: e_def lfn_entry_bytes_def lfn_flag_def zero_entry_def numeral_2_eq_2 Let_def)
  note bytes = e [unfolded upt5 upt6 upt2]
  show "length e = 32" by (simp add: bytes unit_bytes_def)
  have h: "e ! 0 = lfn_flag count k" "e ! 11 = 0x0F" by (simp_all add: bytes unit_bytes_def)
  then show "e ! 0 \<noteq> 0" "e ! 0 \<noteq> 0xE5" "lfn_index e = k" using lfn_flag_ok [OF k] by (simp_all add: lfn_index_def)
  then show "scan_entry e l = Done (Skip (lfn_add e l))" using h by (simp add: scan_entry_def)
  show "lfn_units e = map (unit_at us) [k * 13..<k * 13 + 13]"
    unfolding upt13 by (simp add: lfn_units_def le16_def bytes unit_bytes_def unit_of_bytes del: le_word.simps)
qed

section \<open>Collecting a long name\<close>

text \<open>The units from position \<open>13 j\<close> on are in place.\<close>

definition collected :: "u16 list \<Rightarrow> nat \<Rightarrow> nat \<Rightarrow> lfn \<Rightarrow> bool" where
  "collected us count j l \<longleftrightarrow> length (fst l) = 256 \<and> snd l = (if j = count then 0 else count * 13) \<and>
     (\<forall>i. j * 13 \<le> i \<and> i < count * 13 \<longrightarrow> fst l ! i = unit_at us i)"

lemma lfn_add_collected:
  assumes j: "j < count" and c: "count \<le> 15" and l: "collected us count (Suc j) l"
  shows "collected us count j (lfn_add (lfn_entry_bytes us count chk j zero_entry) l)"
proof -
  obtain buf len where bl: "l = (buf, len)" by (cases l)
  have k: "j < 15" using j c by simp
  note e = lfn_entry_ok [OF k, of us count chk]
  have lb: "length buf = 256" and ln: "len = (if Suc j = count then 0 else count * 13)"
    and old: "\<And>i. Suc j * 13 \<le> i \<Longrightarrow> i < count * 13 \<Longrightarrow> buf ! i = unit_at us i"
    using l bl by (auto simp: collected_def)
  have fit: "j * 13 + 13 \<le> length buf" using k lb by simp
  let ?buf = "take (j * 13) buf @ lfn_units (lfn_entry_bytes us count chk j zero_entry) @ drop (j * 13 + 13) buf"
  have add: "lfn_add (lfn_entry_bytes us count chk j zero_entry) l = (?buf, max len (j * 13 + 13))"
    using fit k by (simp add: lfn_add_def bl e(3) Let_def)
  have "max len (j * 13 + 13) = count * 13" using ln j by (auto simp: max_def)
  moreover have "?buf ! i = unit_at us i" if i: "j * 13 \<le> i" "i < count * 13" for i
  proof (cases "i < j * 13 + 13")
    case True
    then have "i - j * 13 < 13" using i(1) by simp
    then show ?thesis using i(1) fit by (simp add: nth_append e(4))
  next
    case False
    then obtain r where "i = j * 13 + 13 + r" using le_Suc_ex not_less by metis
    then show ?thesis using fit old [of i] i by (simp add: nth_append e(4))
  qed
  moreover have "length ?buf = 256" using fit lb by (simp add: e(4))
  ultimately show ?thesis using j by (simp add: add collected_def)
qed

definition lfn_group :: "u16 list \<Rightarrow> nat \<Rightarrow> u8 \<Rightarrow> u8 list list" where
  "lfn_group us count chk = map (\<lambda>k. lfn_entry_bytes us count chk k zero_entry) (rev [0..<count])"

lemma fold_collected:
  "j \<le> count \<Longrightarrow> count \<le> 15 \<Longrightarrow> collected us count j l \<Longrightarrow>
   collected us count 0 (fold lfn_add (map (\<lambda>k. lfn_entry_bytes us count chk k zero_entry) (rev [0..<j])) l)"
proof (induction j arbitrary: l)
  case (Suc j)
  then show ?case using lfn_add_collected [of j count us l chk] by simp
qed simp

lemma walk_group:
  "list_all (\<lambda>k. k < 15) ks \<Longrightarrow>
   walk_entries (map (\<lambda>k. lfn_entry_bytes us count chk k zero_entry) ks @ rest) l acc =
   walk_entries rest (fold lfn_add (map (\<lambda>k. lfn_entry_bytes us count chk k zero_entry) ks) l) acc"
  by (induction ks arbitrary: l) (simp_all add: lfn_entry_ok)

lemma units_before_end:
  assumes "\<forall>u \<in> set us. u \<noteq> 0 \<and> u \<noteq> 0xFFFF" and "length us \<le> m"
  shows "takeWhile (\<lambda>c. c \<noteq> 0 \<and> c \<noteq> 0xFFFF) (map (unit_at us) [0..<m]) = us"
proof -
  have us: "map (unit_at us) [0..<length us] = us" by (rule nth_equalityI) (simp_all add: unit_at_def)
  obtain r where m: "m = length us + r" using assms(2) le_Suc_ex by blast
  have "map (unit_at us) [0..<m] = us @ map (unit_at us) [length us..<m]"
    using us upt_add_eq_append [of 0 "length us" r] by (simp add: m)
  moreover have "takeWhile (\<lambda>c. c \<noteq> 0 \<and> c \<noteq> 0xFFFF) (map (unit_at us) [length us..<m]) = []"
    by (cases r) (simp_all add: m upt_conv_Cons unit_at_def)
  ultimately show ?thesis using assms(1) by simp
qed

lemma collected_text:
  assumes n: "long_ascii name" and l: "collected (map ucast name) count 0 l" and c: "length name \<le> count * 13" "0 < count" "count \<le> 15"
  shows "entry_name l e = Done name"
proof -
  obtain buf len where bl: "l = (buf, len)" by (cases l)
  have lb: "length buf = 256" "len = count * 13" "\<And>i. i < count * 13 \<Longrightarrow> buf ! i = unit_at (map ucast name) i"
    using l c(2) bl by (auto simp: collected_def)
  have tk: "take len buf = map (unit_at (map ucast name)) [0..<len]"
    using lb c(3) by (intro nth_equalityI) auto
  have asc: "b \<noteq> 0 \<and> b < 0x80" if "b \<in> set name" for b using n that by (auto simp: long_ascii_def list_all_iff)
  have sm: "(ucast b :: u16) \<noteq> 0 \<and> (ucast b :: u16) < 0x80" if "b \<in> set name" for b
    using asc [OF that] by (auto simp: word_less_nat_alt word_unat_eq_iff)
  then have nf: "\<forall>u \<in> set (map ucast name :: u16 list). u \<noteq> 0 \<and> u \<noteq> 0xFFFF" by (auto dest!: sm)
  have "takeWhile (\<lambda>c. c \<noteq> 0 \<and> c \<noteq> 0xFFFF) (take len buf) = map ucast name"
    unfolding tk using units_before_end [OF nf, of len] c(1) lb(2) by simp
  moreover have "filter (\<lambda>c. c < 0x80) (map ucast name :: u16 list) = map ucast name"
    using sm by (auto simp: filter_id_conv)
  moreover have "map (\<lambda>b. ucast (ucast b :: u16)) name = name"
    by (rule map_idI) (auto intro!: bit_word_eqI simp: bit_unsigned_iff)
  ultimately show ?thesis
    using lb c n by (simp add: entry_name_def bl lfn_text_def Let_def long_ascii_def comp_def)
qed

section \<open>Reading a directory with a long name\<close>

lemma walk_plain_then:
  "list_all plain_entry es \<Longrightarrow>
   walk_entries (es @ rest) (b, 0) acc = walk_entries rest (b, 0) (acc @ map (\<lambda>e. (e, short_text e)) es)"
  by (induction es arbitrary: acc) (simp_all add: scan_plain)

lemma lfn_count_bounds:
  assumes "long_ascii name"
  defines "count \<equiv> lfn_count (length name)"
  shows "length name \<le> count * 13" and "0 < count" and "count \<le> 15"
  using assms by (auto simp: lfn_count_def long_ascii_def)

lemma walk_long:
  assumes n: "long_ascii name" and es: "list_all plain_entry es" and s: "plain_entry s"
  defines "count \<equiv> lfn_count (length name)"
  shows "\<exists>l. walk_entries (es @ lfn_group (map ucast name) count chk @ s # zero_entry # zs) (replicate 256 0, 0) [] =
    Done (True, l, map (\<lambda>e. (e, short_text e)) es @ [(s, name)])"
proof -
  note b = lfn_count_bounds [OF n, folded count_def]
  let ?l = "fold lfn_add (lfn_group (map ucast name) count chk) (replicate 256 0, 0)"
  have "collected (map ucast name) count count (replicate 256 0, 0)" by (auto simp: collected_def)
  then have c: "collected (map ucast name) count 0 ?l"
    unfolding lfn_group_def by (rule fold_collected [OF order_refl b(3)])
  have ks: "list_all (\<lambda>k. k < 15) (rev [0..<count])" using b(3) by (simp add: list_all_iff)
  have sc: "scan_entry s ?l = Done (Named name (fst ?l, 0))"
    using s collected_text [OF n c b] by (simp add: scan_entry_def plain_entry_def)
  show ?thesis
    unfolding walk_plain_then [OF es]
    using walk_group [OF ks, of "map ucast name" count chk] sc
    by (simp add: lfn_group_def [symmetric] scan_zero)
qed

lemma sector_of_block:
  assumes "list_all (\<lambda>e. length e = 32) xs" and "length xs < 16"
  shows "sector_entries (dir_block xs) = xs @ zero_entry # replicate (15 - length xs) zero_entry"
  using sector_entries_dir [OF assms(1)] assms(2) replicate_head [of "16 - length xs" zero_entry] by simp

lemma walk_dir_block:
  assumes ok: "fs_ok fs" and c: "valid_cluster fs c" and d: "cluster_data fs c d = dir_block xs"
    and xs: "list_all (\<lambda>e. length e = 32) xs" "length xs < 16"
    and w: "walk_entries (xs @ zero_entry # replicate (15 - length xs) zero_entry) (replicate 256 0, 0) [] = Done (True, l, acc)"
  shows "walk_dir (Suc n) fs c d = Done (True, acc)"
proof -
  have "disk_read (cluster_to_sector fs c) d = Some (dir_block xs)"
    using put_cluster_ok(3) [OF ok c length_zero_block, of d] d by simp
  then show ?thesis
    using w by (simp add: walk_dir_def cluster_sectors_one [OF ok] sector_of_block [OF xs] lfn_empty_def)
qed

lemma group_lengths: "count \<le> 15 \<Longrightarrow> list_all (\<lambda>e. length e = 32) (lfn_group us count chk)" "length (lfn_group us count chk) = count"
  by (simp_all add: lfn_group_def list_all_iff lfn_entry_ok)

lemma find_long:
  assumes ok: "fs_ok fs" and c: "valid_cluster fs c" and n: "long_ascii name"
    and d: "cluster_data fs c d = dir_block (es @ lfn_group (map ucast name) (lfn_count (length name)) chk @ [s])"
    and es: "list_all plain_entry es" and s: "plain_entry s" and room: "length es + lfn_count (length name) + 1 < 16"
  shows "find_entry (Suc m) fs c q d = Done (case lookup_name q es of
      Some e \<Rightarrow> Some (read_dir_entry e, short_text e)
    | None \<Rightarrow> if eq_ignore_case name q then Some (read_dir_entry s, name) else None)"
proof -
  let ?xs = "es @ lfn_group (map ucast name) (lfn_count (length name)) chk @ [s]"
  note b = lfn_count_bounds [OF n]
  have xs: "list_all (\<lambda>e. length e = 32) ?xs" "length ?xs < 16"
    using plain_lengths [OF es] group_lengths(1) [OF b(3)] group_lengths(2) s room by (simp_all add: plain_entry_def)
  obtain l where "walk_entries (?xs @ zero_entry # replicate (15 - length ?xs) zero_entry) (replicate 256 0, 0) [] =
      Done (True, l, map (\<lambda>e. (e, short_text e)) es @ [(s, name)])"
    using walk_long [OF n es s, of chk "replicate (15 - length ?xs) zero_entry"] by auto
  note w = walk_dir_block [OF ok c d xs this]
  have "List.find (\<lambda>(e, nm). eq_ignore_case nm q) (map (\<lambda>e. (e, short_text e)) es @ [(s, name)]) =
      (case lookup_name q es of Some e \<Rightarrow> Some (e, short_text e)
       | None \<Rightarrow> if eq_ignore_case name q then Some (s, name) else None)"
    by (induction es) (simp_all add: lookup_name_def)
  then show ?thesis by (auto simp: find_entry_def w split: option.splits)
qed

section \<open>Creating a long name\<close>

lemma short_loop_shape: "length base = 8 \<Longrightarrow> \<exists>b. short_loop base ext ex ns = b @ ext \<and> length b = 8 \<and> b ! 0 = base ! 0"
proof (induction ns arbitrary: base)
  case (Cons n ns)
  then show ?case using Cons.IH [of "base[6 := 0x7E, 7 := 0x30 + of_nat n]"] by auto
qed auto

lemma not_83: "long_ascii name \<Longrightarrow> \<not> is_valid_83 name"
proof -
  assume l: "long_ascii name"
  obtain nm ext where p: "name_parts name = (nm, ext)" by (cases "name_parts name")
  have "length name \<le> length nm + 1 + length ext"
    using p rsplit_Some [of DOT name] by (auto simp: name_parts_def split: option.splits prod.splits)
  then show ?thesis using l by (auto simp: is_valid_83_def p long_ascii_def)
qed

lemma long_short_name:
  assumes n: "long_ascii name" and w: "walk_dir m fs c d = Done r"
  obtains short where "make_short_name m fs name c d = Done short" and "length short = 11"
    and "short ! 0 \<noteq> 0" and "short ! 0 \<noteq> 0xE5"
proof -
  obtain nm ext where p: "name_parts name = (nm, ext)" by (cases "name_parts name")
  obtain fin es where r: "r = (fin, es)" by (cases r)
  let ?f = "map to_ascii_upper (take 6 (filter short_char nm))"
  let ?base = "pad_to 6 ?f @ [0x7E, 0x31]" and ?ext = "pad_to 3 (map to_ascii_upper (take 3 ext))"
  have len: "length ?base = 8" "length ?ext = 3" by (simp_all add: pad_to_def)
  obtain b where b: "short_loop ?base ?ext (map (\<lambda>(e, _). take 11 e) es) [1..<100] = b @ ?ext" "length b = 8" "b ! 0 = ?base ! 0"
    using short_loop_shape [OF len(1)] by blast
  have mk: "make_short_name m fs name c d = Done (b @ ?ext)"
    using not_83 [OF n] p r w b(1) by (simp add: make_short_name_def short_base_def)
  have "?base ! 0 \<noteq> 0 \<and> ?base ! 0 \<noteq> 0xE5"
  proof (cases "filter short_char nm")
    case Nil
    then show ?thesis by (simp add: pad_to_def nth_append)
  next
    case (Cons x xs)
    then have "x \<in> set (filter short_char nm)" by simp
    then have "short_char x" by simp
    then show ?thesis using Cons short_char_upper(2,3) by (simp add: pad_to_def)
  qed
  then show thesis using that [OF mk] b(2,3) len by (simp add: nth_append)
qed

lemma find_run_zeros:
  "0 < cnt \<Longrightarrow> cnt < need \<Longrightarrow> need \<le> cnt + m \<Longrightarrow> find_run need i (replicate m zero_entry) start cnt = Some start"
proof (induction m arbitrary: i cnt)
  case (Suc m)
  then show ?case using Suc.IH [of "cnt + 1" "Suc i"] by (cases "need \<le> cnt + 1") (simp_all add: zero_entry_def)
qed simp

lemma find_run_room:
  "list_all plain_entry es \<Longrightarrow> 1 < need \<Longrightarrow> need \<le> m \<Longrightarrow>
   find_run need i (es @ replicate m zero_entry) 0 0 = Some (i + length es)"
proof (induction es arbitrary: i)
  case Nil
  then obtain m' where m: "m = Suc m'" by (cases m) simp_all
  have "find_run need (Suc i) (replicate m' zero_entry) i 1 = Some i"
    using Nil m by (intro find_run_zeros) simp_all
  then show ?case using Nil m by (simp add: zero_entry_def)
next
  case (Cons e es)
  then show ?case by (simp add: plain_entry_def)
qed

lemma write_group:
  assumes es: "list_all (\<lambda>e. length e = 32) es" and c: "count \<le> 15" "length es + count \<le> 16"
  shows "j \<le> count \<Longrightarrow>
    fold (\<lambda>k b. set_entry (length es + (count - 1 - k)) (lfn_entry_bytes us count chk k) b) (rev [0..<j])
      (dir_block (es @ map (\<lambda>k. lfn_entry_bytes us count chk k zero_entry) (rev [j..<count]))) =
    dir_block (es @ lfn_group us count chk)"
proof (induction j)
  case 0
  then show ?case by (simp add: lfn_group_def)
next
  case (Suc j)
  let ?g = "\<lambda>j. es @ map (\<lambda>k. lfn_entry_bytes us count chk k zero_entry) (rev [j..<count])"
  have l: "list_all (\<lambda>e. length e = 32) (?g (Suc j))" using es c(1) by (auto simp: list_all_iff lfn_entry_ok)
  have n: "length (?g (Suc j)) = length es + (count - 1 - j)" using Suc.prems by simp
  have "?g (Suc j) @ [lfn_entry_bytes us count chk j zero_entry] = ?g j"
    using Suc.prems by (simp add: upt_conv_Cons)
  then have "set_entry (length es + (count - 1 - j)) (lfn_entry_bytes us count chk j) (dir_block (?g (Suc j))) = dir_block (?g j)"
    using set_entry_dir [OF l, of "lfn_entry_bytes us count chk j"] n c Suc.prems lfn_entry_ok(1) [of j us count chk] by simp
  then show ?case using Suc by simp
qed

lemma create_long:
  assumes ok: "fs_ok fs" and c: "valid_cluster fs c" and h: "dir_holds fs c es d" and n: "long_ascii name"
    and room: "length es + lfn_count (length name) + 1 < 16"
  obtains short where "length short = 11" and "short ! 0 \<noteq> 0" and "short ! 0 \<noteq> 0xE5"
    and "\<exists>loc. create_dir_entry (Suc m) fs c name attr cl sz d = Done (Some loc,
      put_cluster fs c (dir_block (es @ lfn_group (map ucast name) (lfn_count (length name)) (lfn_checksum short)
        @ [short_entry_bytes short attr cl sz zero_entry])) d)"
proof -
  have es: "cluster_data fs c d = dir_block es" "list_all plain_entry es" "length es < 16"
    using h by (simp_all add: dir_holds_def ENTRIES_PER_SECTOR_def)
  note b = lfn_count_bounds [OF n]
  obtain short where sh: "make_short_name (Suc m) fs name c d = Done short" "length short = 11" "short ! 0 \<noteq> 0" "short ! 0 \<noteq> 0xE5"
    by (rule long_short_name [OF n walk_dir_holds [OF ok c h]]) (rule that)
  have us: "name_units name = map ucast name"
    using n encode_ascii [of name] by (simp add: name_units_def long_ascii_def list_all_iff)
  let ?count = "lfn_count (length name)" and ?new = "short_entry_bytes short attr cl sz zero_entry"
  let ?g = "es @ lfn_group (map ucast name) ?count (lfn_checksum short)"
  have gl: "list_all (\<lambda>e. length e = 32) ?g" "length ?g = length es + ?count"
    using plain_lengths [OF es(2)] group_lengths(1) [OF b(3)] group_lengths(2) by simp_all
  have rd: "disk_read (cluster_to_sector fs c) d = Some (dir_block es)"
    using put_cluster_ok(3) [OF ok c length_zero_block, of d] es(1) by simp
  have run: "find_run (Suc ?count) 0 (sector_entries (dir_block es)) 0 0 = Some (length es)"
    using find_run_room [OF es(2), of "Suc ?count" "16 - length es" 0] room b(2)
      sector_entries_dir [OF plain_lengths [OF es(2)]] by simp
  have wr: "write_entries (map ucast name) short attr cl sz (length es) (dir_block es) = dir_block (?g @ [?new])"
    using write_group [OF plain_lengths [OF es(2)] b(3), of ?count "map ucast name" "lfn_checksum short"] room
      set_entry_dir [OF gl(1), of "short_entry_bytes short attr cl sz"] gl(2) new_entry(1) [OF sh(2)]
    by (simp add: write_entries_def Let_def)
  have "length (dir_block (?g @ [?new])) = BLOCK_SIZE"
    using gl room new_entry(1) [OF sh(2)] by (intro length_dir_block) simp_all
  note put = put_cluster_ok(1) [OF ok c this, of d]
  have "create_dir_entry (Suc m) fs c name attr cl sz d = Done (Some (cluster_to_sector fs c, (length es + ?count) * 32),
      put_cluster fs c (dir_block (?g @ [?new])) d)"
    using put by (simp add: create_dir_entry_def sh(1) us cluster_sectors_one [OF ok] rd run wr)
  then show thesis using that [OF sh(2-4)] by auto
qed

lemma holds_after_put:
  assumes ok: "fs_ok fs" and c: "valid_cluster fs c" and xs: "list_all (\<lambda>e. length e = 32) xs" "length xs < 16"
  shows "cluster_data fs c (put_cluster fs c (dir_block xs) d) = dir_block xs"
  using fat_volume_laws(4) [OF ok c c length_dir_block [OF xs(1)]] xs(2) by simp

lemma new_plain: "length short = 11 \<Longrightarrow> short ! 0 \<noteq> 0 \<Longrightarrow> short ! 0 \<noteq> 0xE5 \<Longrightarrow> attr \<noteq> 0x0F \<Longrightarrow>
    plain_entry (short_entry_bytes short attr cl sz zero_entry)"
  using new_entry(1-3) [of short attr cl sz] by (simp add: plain_entry_def)

text \<open>C23: in a directory whose first sector holds short names that are not deleted, with never-used entries behind
  them, a file created with a new ASCII name of 14 to 182 bytes is found under that name, with the attributes,
  cluster and size it was created with, when the entries of the name, its short entry and one more entry fit
  the sector.\<close>

theorem long_name_roundtrip:
  assumes ok: "fs_ok fs" and c: "valid_cluster fs c" and h: "dir_holds fs c es d" and n: "long_ascii name"
    and room: "length es + lfn_count (length name) + 1 < 16" and a: "attr \<noteq> 0x0F" and new: "lookup_name name es = None"
  shows "\<exists>loc d' e. create_dir_entry (Suc m) fs c name attr cl sz d = Done (Some loc, d') \<and>
    find_entry (Suc m) fs c name d' = Done (Some (e, name)) \<and>
    de_attr e = attr \<and> entry_cluster e = cl \<and> de_file_size e = sz"
proof -
  obtain short where sh: "length short = 11" "short ! 0 \<noteq> 0" "short ! 0 \<noteq> 0xE5"
    and cr: "\<exists>loc. create_dir_entry (Suc m) fs c name attr cl sz d = Done (Some loc,
      put_cluster fs c (dir_block (es @ lfn_group (map ucast name) (lfn_count (length name)) (lfn_checksum short)
        @ [short_entry_bytes short attr cl sz zero_entry])) d)"
    by (rule create_long [OF ok c h n room]) (rule that)
  let ?new = "short_entry_bytes short attr cl sz zero_entry"
  let ?xs = "es @ lfn_group (map ucast name) (lfn_count (length name)) (lfn_checksum short) @ [?new]"
  have es: "list_all plain_entry es" using h by (simp add: dir_holds_def)
  have pl: "plain_entry ?new" by (rule new_plain [OF sh a])
  have "list_all (\<lambda>e. length e = 32) ?xs" "length ?xs < 16"
    using plain_lengths [OF es] group_lengths(1) [OF lfn_count_bounds(3) [OF n]] group_lengths(2) pl room
    by (simp_all add: plain_entry_def)
  note d = holds_after_put [OF ok c this, of d]
  have "find_entry (Suc m) fs c name (put_cluster fs c (dir_block ?xs) d) = Done (Some (read_dir_entry ?new, name))"
    using find_long [OF ok c n d es pl room] new by (simp add: eq_ignore_case_refl)
  then show ?thesis using cr new_entry(6-8) [OF sh(1), of attr cl sz] by blast
qed

definition sample_long :: "u8 list" where
  "sample_long = replicate 14 0x78"

lemma sample_long_ok: "long_ascii sample_long" "lfn_count (length sample_long) = 2"
  by (simp_all add: sample_long_def long_ascii_def lfn_count_def list_all_iff)

theorem long_name_roundtrip_witness: "dir_holds sample_fs 3 [] (\<lambda>_. 0) \<and>
    (\<exists>loc d' e. create_dir_entry 1 sample_fs 3 sample_long ATTR_ARCHIVE 4 77 (\<lambda>_. 0) = Done (Some loc, d') \<and>
      find_entry 1 sample_fs 3 sample_long d' = Done (Some (e, sample_long)) \<and> entry_cluster e = 4 \<and> de_file_size e = 77)"
  using long_name_roundtrip [OF sample_fs_ok sample_valid(2) sample_dir sample_long_ok(1), of ATTR_ARCHIVE 0 4 77]
    sample_dir sample_long_ok(2)
  by (simp add: ATTR_ARCHIVE_def lookup_name_def) blast

section \<open>Deleting a long name\<close>

lemma delete_skip:
  assumes "\<And>j l. j < count \<Longrightarrow> scan_entry (entry_bytes j buf) l = Done (Skip (lfn_add (entry_bytes j buf) l))" and "count < 16"
  shows "k \<le> count \<Longrightarrow> delete_entries [k..<16] name l buf =
    delete_entries [count..<16] name (fold lfn_add (map (\<lambda>j. entry_bytes j buf) [k..<count]) l) buf"
proof (induction "count - k" arbitrary: k l)
  case (Suc n)
  then have k: "k < count" by simp
  then have "[k..<16] = k # [Suc k..<16]" "[k..<count] = k # [Suc k..<count]"
    using assms(2) by (simp_all add: upt_conv_Cons)
  then show ?case using Suc.hyps(1) [of "Suc k"] Suc.hyps(2) k assms(1) by simp
qed simp

lemma set_entry_last:
  assumes "list_all (\<lambda>e. length e = 32) xs" and "length xs < 16" and "length e = 32" and "length (f e) = 32"
  shows "set_entry (length xs) f (dir_block (xs @ [e])) = dir_block (xs @ [f e])"
proof -
  have l: "list_all (\<lambda>e. length e = 32) (xs @ [e])" using assms by simp
  have eb: "entry_bytes (length xs) (dir_block (xs @ [e])) = e" using entry_bytes_dir [OF l assms(2)] by simp
  have c: "length (concat xs) = length xs * 32" using length_concat32 [OF assms(1)] by simp
  show ?thesis unfolding set_entry_def eb splice_def using c assms(3,4) by (simp add: dir_block_def)
qed

lemma overwritten_entry:
  assumes "length s1 = 11" and "length s2 = 11"
  shows "short_entry_bytes s2 a2 c2 z2 ((short_entry_bytes s1 a1 c1 z1 zero_entry)[0 := x]) = short_entry_bytes s2 a2 c2 z2 zero_entry"
proof -
  obtain p0 p1 p2 p3 p4 p5 p6 p7 p8 p9 p10 where 1: "s1 = [p0, p1, p2, p3, p4, p5, p6, p7, p8, p9, p10]"
    using assms(1) by (auto simp: length_Suc_conv numeral_eq_Suc)
  obtain q0 q1 q2 q3 q4 q5 q6 q7 q8 q9 q10 where 2: "s2 = [q0, q1, q2, q3, q4, q5, q6, q7, q8, q9, q10]"
    using assms(2) by (auto simp: length_Suc_conv numeral_eq_Suc)
  show ?thesis
    by (simp add: short_entry_bytes_def set_size_def set_cluster_def splice_def 1 2 zero_entry_def numeral_eq_Suc)
qed

lemma delete_long:
  assumes ok: "fs_ok fs" and c: "valid_cluster fs c" and n: "long_ascii name"
    and d: "cluster_data fs c d = dir_block (lfn_group (map ucast name) (lfn_count (length name)) chk @ [s])"
    and s: "plain_entry s" and room: "lfn_count (length name) + 1 < 16"
  shows "delete_dir_entry (Suc m) fs c name d = Done (True,
    put_cluster fs c (dir_block (lfn_group (map ucast name) (lfn_count (length name)) chk @ [s[0 := 0xE5]])) d)"
proof -
  let ?count = "lfn_count (length name)"
  let ?g = "lfn_group (map ucast name) ?count chk"
  let ?b = "dir_block (?g @ [s])"
  note b = lfn_count_bounds [OF n]
  have gl: "list_all (\<lambda>e. length e = 32) ?g" "length ?g = ?count" using group_lengths(1) [OF b(3)] group_lengths(2) by simp_all
  have ls: "length s = 32" using s by (simp add: plain_entry_def)
  have all32: "list_all (\<lambda>e. length e = 32) (?g @ [s])" using gl(1) ls by simp
  have eb: "entry_bytes j ?b = ?g ! j" if "j < ?count" for j
    using entry_bytes_dir [OF all32, of j] that gl(2) room by (simp add: nth_append)
  have sk: "scan_entry (entry_bytes j ?b) l = Done (Skip (lfn_add (entry_bytes j ?b) l))" if "j < ?count" for j l
  proof -
    have "?g ! j = lfn_entry_bytes (map ucast name) ?count chk (?count - Suc j) zero_entry"
      using that by (simp add: lfn_group_def rev_nth)
    then show ?thesis using lfn_entry_ok(2) [of "?count - Suc j"] eb [OF that] that b(3) by simp
  qed
  have "map (\<lambda>j. entry_bytes j ?b) [0..<?count] = ?g"
    using eb gl(2) by (intro nth_equalityI) simp_all
  then have del: "delete_entries [0..<16] name lfn_empty ?b = delete_entries [?count..<16] name (fold lfn_add ?g lfn_empty) ?b"
    using delete_skip [of ?count ?b 0, OF sk] room by simp
  have "collected (map ucast name) ?count ?count lfn_empty" by (auto simp: collected_def lfn_empty_def)
  then have col: "collected (map ucast name) ?count 0 (fold lfn_add ?g lfn_empty)"
    unfolding lfn_group_def by (rule fold_collected [OF order_refl b(3)])
  have es: "entry_bytes ?count ?b = s" using entry_bytes_dir [OF all32, of ?count] gl(2) room by (simp add: nth_append)
  have "scan_entry s (fold lfn_add ?g lfn_empty) = Done (Named name (fst (fold lfn_add ?g lfn_empty), 0))"
    using s collected_text [OF n col b] by (simp add: scan_entry_def plain_entry_def)
  moreover have "[?count..<16] = ?count # [Suc ?count..<16]" using room by (simp add: upt_conv_Cons)
  moreover have "set_entry ?count (\<lambda>e. e[0 := 0xE5]) ?b = dir_block (?g @ [s[0 := 0xE5]])"
    using set_entry_last [OF gl(1) _ ls, of "\<lambda>e. e[0 := 0xE5]"] gl(2) room ls by simp
  ultimately have fin: "delete_entries [0..<16] name lfn_empty ?b =
      Done (Some True, (fst (fold lfn_add ?g lfn_empty), 0), dir_block (?g @ [s[0 := 0xE5]]))"
    using del es by (simp add: eq_ignore_case_refl)
  have "length (dir_block (?g @ [s[0 := 0xE5]])) = BLOCK_SIZE"
    using gl ls room by (intro length_dir_block) simp_all
  note put = put_cluster_ok(1) [OF ok c this, of d]
  have rd: "disk_read (cluster_to_sector fs c) d = Some ?b"
    using put_cluster_ok(3) [OF ok c length_zero_block, of d] d by simp
  show ?thesis
    by (simp add: delete_dir_entry_def cluster_sectors_one [OF ok] rd ENTRIES_PER_SECTOR_def fin put del: delete_entries.simps)
qed

lemma find_run_group:
  "list_all (\<lambda>e. e ! 0 \<noteq> 0 \<and> e ! 0 \<noteq> 0xE5) xs \<Longrightarrow> e ! 0 = 0xE5 \<Longrightarrow> find_run 1 i (xs @ e # zs) 0 0 = Some (i + length xs)"
  by (induction xs arbitrary: i) (simp_all add: Let_def)

lemma reuse_slot:
  assumes ok: "fs_ok fs" and c: "valid_cluster fs c" and n: "long_ascii name" and room: "lfn_count (length name) + 1 < 16"
    and d: "cluster_data fs c d = dir_block (lfn_group (map ucast name) (lfn_count (length name)) chk @
      [(short_entry_bytes s1 a1 c1 z1 zero_entry)[0 := 0xE5]])" and s1: "length s1 = 11"
    and v: "is_valid_83 name2" and l: "last name2 \<noteq> DOT" and a: "a2 \<noteq> 0x0F"
  obtains s2 where "plain_entry (short_entry_bytes s2 a2 c2 z2 zero_entry)" and "length s2 = 11"
    and "\<exists>loc. create_dir_entry (Suc m) fs c name2 a2 c2 z2 d = Done (Some loc,
      put_cluster fs c (dir_block (lfn_group (map ucast name) (lfn_count (length name)) chk @ [short_entry_bytes s2 a2 c2 z2 zero_entry])) d)"
proof -
  let ?count = "lfn_count (length name)"
  let ?g = "lfn_group (map ucast name) ?count chk" and ?old = "(short_entry_bytes s1 a1 c1 z1 zero_entry)[0 := 0xE5]"
  note b = lfn_count_bounds [OF n]
  obtain s2 where sh: "make_short_name (Suc m) fs name2 c d = Done s2" "length s2 = 11" "s2 ! 0 \<noteq> 0" "s2 ! 0 \<noteq> 0xE5"
    and cnt: "lfn_count (length (name_units name2)) = 0"
    by (rule short_name_83 [OF v l, of "Suc m" fs c d]) (rule that)
  let ?new = "short_entry_bytes s2 a2 c2 z2 zero_entry"
  have gl: "list_all (\<lambda>e. length e = 32) ?g" "length ?g = ?count" using group_lengths(1) [OF b(3)] group_lengths(2) by simp_all
  have lo: "length ?old = 32" "?old ! 0 = 0xE5" using new_entry(1) [OF s1, of a1 c1 z1] by simp_all
  have used: "list_all (\<lambda>e. e ! 0 \<noteq> 0 \<and> e ! 0 \<noteq> 0xE5) ?g"
    using b(3) lfn_entry_ok(5,6) by (simp add: lfn_group_def list_all_iff)
  have se: "sector_entries (dir_block (?g @ [?old])) = (?g @ [?old]) @ zero_entry # replicate (15 - length (?g @ [?old])) zero_entry"
    using gl lo(1) room by (intro sector_of_block) simp_all
  have run: "find_run (Suc 0) 0 (sector_entries (dir_block (?g @ [?old]))) 0 0 = Some ?count"
    using find_run_group [OF used lo(2), of 0] gl(2) by (simp add: se)
  have "set_entry ?count (short_entry_bytes s2 a2 c2 z2) (dir_block (?g @ [?old])) = dir_block (?g @ [?new])"
    using set_entry_last [OF gl(1) _ lo(1), of "short_entry_bytes s2 a2 c2 z2"] gl(2) room
      overwritten_entry [OF s1 sh(2), of a2 c2 z2 a1 c1 z1 "0xE5"] new_entry(1) [OF sh(2), of a2 c2 z2] by simp
  then have wr: "write_entries (name_units name2) s2 a2 c2 z2 ?count (dir_block (?g @ [?old])) = dir_block (?g @ [?new])"
    by (simp add: write_entries_def cnt)
  have "length (dir_block (?g @ [?new])) = BLOCK_SIZE"
    using gl room new_entry(1) [OF sh(2)] by (intro length_dir_block) simp_all
  note put = put_cluster_ok(1) [OF ok c this, of d]
  have rd: "disk_read (cluster_to_sector fs c) d = Some (dir_block (?g @ [?old]))"
    using put_cluster_ok(3) [OF ok c length_zero_block, of d] d by simp
  have "create_dir_entry (Suc m) fs c name2 a2 c2 z2 d = Done (Some (cluster_to_sector fs c, ?count * 32), put_cluster fs c (dir_block (?g @ [?new])) d)"
    by (simp add: create_dir_entry_def sh(1) cluster_sectors_one [OF ok] rd run wr put cnt)
  then show thesis using that [OF new_plain [OF sh(2-4) a] sh(2)] by blast
qed



end
