(* ===== verification/User_Lib.thy ===== *)
theory User_Lib
  imports Byte_Codec
begin

text \<open>
  The library of the user programs, \<open>src/user/userlib\<close>: the wrappers of the system calls
  (\<open>syscall.rs\<close>, \<open>ipc.rs\<close>), the console streams (\<open>io.rs\<close>), printing (\<open>print.rs\<close>) and the entry
  macro (\<open>lib.rs\<close>). A user program is a tree of what it does next: an \<open>ecall\<close> with the registers it
  loads and those it declares as outputs, a load or store of a device register, the result, or a
  loop that never returns. An address the compiler chooses is an argument of the definition.
\<close>

section \<open>Programs\<close>

datatype reg = A0 | A1 | A2 | A3 | A4 | A5 | A6 | A7

text \<open>One \<open>asm!("ecall", ...)\<close>: the registers loaded, the registers declared as outputs and the bytes the
  pointer argument refers to. The answer has the registers afterwards and these bytes.\<close>

record request =
  rq_in :: "(reg \<times> usize) list"
  rq_out :: "reg list"
  rq_buf :: "u8 list"

record response =
  rs_reg :: "reg \<Rightarrow> usize"
  rs_buf :: "u8 list"

datatype 'a prog =
    Ret 'a
  | Ecall request "response \<Rightarrow> 'a prog"
  | Load usize "u8 \<Rightarrow> 'a prog"
  | Store usize u8 "'a prog"
  | Spin

primrec pbind :: "'a prog \<Rightarrow> ('a \<Rightarrow> 'b prog) \<Rightarrow> 'b prog" where
  "pbind (Ret x) f = f x"
| "pbind (Ecall rq k) f = Ecall rq (\<lambda>rs. pbind (k rs) f)"
| "pbind (Load a k) f = Load a (\<lambda>b. pbind (k b) f)"
| "pbind (Store a b p) f = Store a b (pbind p f)"
| "pbind Spin f = Spin"

text \<open>A program in an environment that answers the calls and the accesses to devices. A call that never
  returns has no answer; the result is \<open>None\<close> when the program does not return.\<close>

record 's env =
  e_call :: "request \<Rightarrow> 's \<Rightarrow> response option \<times> 's"
  e_load :: "usize \<Rightarrow> 's \<Rightarrow> u8 \<times> 's"
  e_store :: "usize \<Rightarrow> u8 \<Rightarrow> 's \<Rightarrow> 's"

primrec run :: "'s env \<Rightarrow> 'a prog \<Rightarrow> 's \<Rightarrow> 'a option \<times> 's" where
  "run e (Ret x) s = (Some x, s)"
| "run e (Ecall rq k) s = (case e_call e rq s of (None, s') \<Rightarrow> (None, s') | (Some rs, s') \<Rightarrow> run e (k rs) s')"
| "run e (Load a k) s = (case e_load e a s of (b, s') \<Rightarrow> run e (k b) s')"
| "run e (Store a b p) s = run e p (e_store e a b s)"
| "run e Spin s = (None, s)"

lemma run_pbind: "run e (pbind p f) s = (case run e p s of (None, s') \<Rightarrow> (None, s') | (Some x, s') \<Rightarrow> run e (f x) s')"
  by (induction p arbitrary: s) (auto split: prod.splits option.splits)

text \<open>All calls of a program satisfy a predicate, whatever the answers.\<close>

primrec all_calls :: "(request \<Rightarrow> bool) \<Rightarrow> ('a \<Rightarrow> bool) \<Rightarrow> 'a prog \<Rightarrow> bool" where
  "all_calls P Q (Ret x) = Q x"
| "all_calls P Q (Ecall rq k) = (P rq \<and> (\<forall>rs. all_calls P Q (k rs)))"
| "all_calls P Q (Load a k) = (\<forall>b. all_calls P Q (k b))"
| "all_calls P Q (Store a b p) = all_calls P Q p"
| "all_calls P Q Spin = True"

lemma all_calls_pbind: "all_calls P Q (pbind p f) = all_calls P (\<lambda>x. all_calls P Q (f x)) p"
  by (induction p) auto

lemma all_calls_mono: "all_calls P Q p \<Longrightarrow> (\<And>rq. P rq \<Longrightarrow> P' rq) \<Longrightarrow> (\<And>x. Q x \<Longrightarrow> Q' x) \<Longrightarrow> all_calls P' Q' p"
  by (induction p) auto

definition req_reg :: "reg \<Rightarrow> request \<Rightarrow> usize option" where
  "req_reg r rq = map_of (rq_in rq) r"

section \<open>System calls\<close>

definition U_SYS_EXIT :: usize where "U_SYS_EXIT = 2"
definition U_SYS_YIELD :: usize where "U_SYS_YIELD = 4"
definition U_SYS_GETPID :: usize where "U_SYS_GETPID = 5"
definition U_SYS_FORK :: usize where "U_SYS_FORK = 6"
definition U_SYS_PS :: usize where "U_SYS_PS = 7"
definition U_SYS_EXEC :: usize where "U_SYS_EXEC = 8"
definition U_SYS_WAITPID :: usize where "U_SYS_WAITPID = 9"
definition U_SYS_IRQ_WAIT :: usize where "U_SYS_IRQ_WAIT = 13"
definition U_SYS_SBRK :: usize where "U_SYS_SBRK = 14"
definition U_UART0_IRQ :: usize where "U_UART0_IRQ = 10"

text \<open>\<open>ERROR\<close> is -1 as \<open>isize\<close> (\<open>syscall.rs\<close>) and \<open>usize::MAX\<close> (\<open>ipc.rs\<close>), the same word.\<close>

definition U_ERROR :: usize where "U_ERROR = - 1"

definition u_exit :: "32 word \<Rightarrow> 'a prog" where
  "u_exit code = Ecall \<lparr>rq_in = [(A0, scast code), (A7, U_SYS_EXIT)], rq_out = [], rq_buf = []\<rparr> (\<lambda>_. Spin)"

definition u_yield_now :: "unit prog" where
  "u_yield_now = Ecall \<lparr>rq_in = [(A7, U_SYS_YIELD)], rq_out = [], rq_buf = []\<rparr> (\<lambda>_. Ret ())"

definition u_getpid :: "u32 prog" where
  "u_getpid = Ecall \<lparr>rq_in = [(A0, 0), (A7, U_SYS_GETPID)], rq_out = [A0], rq_buf = []\<rparr> (\<lambda>rs. Ret (ucast (rs_reg rs A0)))"

definition u_fork :: "usize prog" where
  "u_fork = Ecall \<lparr>rq_in = [(A0, 0), (A7, U_SYS_FORK)], rq_out = [A0], rq_buf = []\<rparr> (\<lambda>rs. Ret (rs_reg rs A0))"

definition u_ps :: "unit prog" where
  "u_ps = Ecall \<lparr>rq_in = [(A0, 0), (A7, U_SYS_PS)], rq_out = [], rq_buf = []\<rparr> (\<lambda>_. Ret ())"

definition u_exec :: "usize \<Rightarrow> u8 list \<Rightarrow> usize prog" where
  "u_exec p filename = Ecall \<lparr>rq_in = [(A0, p), (A1, of_nat (length filename)), (A7, U_SYS_EXEC)], rq_out = [A0], rq_buf = filename\<rparr>
     (\<lambda>rs. Ret (rs_reg rs A0))"

definition u_waitpid :: "u32 \<Rightarrow> usize prog" where
  "u_waitpid pid = Ecall \<lparr>rq_in = [(A0, ucast pid), (A7, U_SYS_WAITPID)], rq_out = [A0], rq_buf = []\<rparr> (\<lambda>rs. Ret (rs_reg rs A0))"

definition u_irq_wait :: "usize \<Rightarrow> unit result prog" where
  "u_irq_wait irq = Ecall \<lparr>rq_in = [(A0, irq), (A7, U_SYS_IRQ_WAIT)], rq_out = [A0], rq_buf = []\<rparr>
     (\<lambda>rs. Ret (if rs_reg rs A0 = - 1 then Err else Ok ()))"

definition u_sbrk :: "usize \<Rightarrow> usize result prog" where
  "u_sbrk increment = Ecall \<lparr>rq_in = [(A0, increment), (A7, U_SYS_SBRK)], rq_out = [A0], rq_buf = []\<rparr>
     (\<lambda>rs. Ret (if rs_reg rs A0 = - 1 then Err else Ok (rs_reg rs A0)))"

type_synonym words4 = "usize \<times> usize \<times> usize \<times> usize"

text \<open>The registers of four words from \<open>a1\<close> on.\<close>

definition word_regs :: "words4 \<Rightarrow> (reg \<times> usize) list" where
  "word_regs ws = (case ws of (w0, w1, w2, w3) \<Rightarrow> [(A1, w0), (A2, w1), (A3, w2), (A4, w3)])"

definition U_SYS_IPC_CALL_BUF :: usize where "U_SYS_IPC_CALL_BUF = 15"
definition U_SYS_IPC_RECV_BUF :: usize where "U_SYS_IPC_RECV_BUF = 16"

definition u_ipc_call_buf :: "usize \<Rightarrow> words4 \<Rightarrow> usize \<Rightarrow> u8 list \<Rightarrow> usize prog" where
  "u_ipc_call_buf endpoint words p buf =
     Ecall \<lparr>rq_in = (A0, endpoint) # word_regs words @ [(A5, p), (A6, of_nat (length buf)), (A7, U_SYS_IPC_CALL_BUF)],
            rq_out = [A0], rq_buf = buf\<rparr> (\<lambda>rs. Ret (rs_reg rs A0))"

definition u_ipc_recv_buf :: "usize \<Rightarrow> usize \<Rightarrow> u8 list \<Rightarrow> (usize \<times> usize \<times> u8 list) prog" where
  "u_ipc_recv_buf endpoint p buf =
     Ecall \<lparr>rq_in = [(A0, endpoint), (A1, p), (A2, of_nat (length buf)), (A7, U_SYS_IPC_RECV_BUF)],
            rq_out = [A0, A5], rq_buf = buf\<rparr> (\<lambda>rs. Ret (rs_reg rs A0, rs_reg rs A5, rs_buf rs))"

section \<open>IPC\<close>

definition U_SYS_IPC_CALL :: usize where "U_SYS_IPC_CALL = 10"
definition U_SYS_IPC_RECV :: usize where "U_SYS_IPC_RECV = 11"
definition U_SYS_IPC_REPLY :: usize where "U_SYS_IPC_REPLY = 12"
definition U_SYS_IPC_REPLY_BUF :: usize where "U_SYS_IPC_REPLY_BUF = 17"

definition uipc_call :: "usize \<Rightarrow> words4 \<Rightarrow> words4 result prog" where
  "uipc_call endpoint words =
     Ecall \<lparr>rq_in = (A0, endpoint) # word_regs words @ [(A7, U_SYS_IPC_CALL)], rq_out = [A0, A1, A2, A3], rq_buf = []\<rparr>
       (\<lambda>rs. Ret (if rs_reg rs A0 = U_ERROR then Err else Ok (rs_reg rs A0, rs_reg rs A1, rs_reg rs A2, rs_reg rs A3)))"

definition uipc_recv :: "usize \<Rightarrow> (u32 \<times> words4) result prog" where
  "uipc_recv endpoint =
     Ecall \<lparr>rq_in = [(A0, endpoint), (A7, U_SYS_IPC_RECV)], rq_out = [A0, A1, A2, A3, A4], rq_buf = []\<rparr>
       (\<lambda>rs. Ret (if rs_reg rs A0 = U_ERROR then Err
                  else Ok (ucast (rs_reg rs A0), rs_reg rs A1, rs_reg rs A2, rs_reg rs A3, rs_reg rs A4)))"

definition uipc_reply :: "u32 \<Rightarrow> words4 \<Rightarrow> unit result prog" where
  "uipc_reply client words =
     Ecall \<lparr>rq_in = (A0, ucast client) # word_regs words @ [(A7, U_SYS_IPC_REPLY)], rq_out = [A0], rq_buf = []\<rparr>
       (\<lambda>rs. Ret (if rs_reg rs A0 = 0 then Ok () else Err))"

definition uipc_recv_buf :: "usize \<Rightarrow> usize \<Rightarrow> u8 list \<Rightarrow> (u32 \<times> words4 \<times> usize \<times> u8 list) result prog" where
  "uipc_recv_buf endpoint p buf =
     Ecall \<lparr>rq_in = [(A0, endpoint), (A1, p), (A2, of_nat (length buf)), (A7, U_SYS_IPC_RECV_BUF)],
            rq_out = [A0, A1, A2, A3, A4, A5], rq_buf = buf\<rparr>
       (\<lambda>rs. Ret (if rs_reg rs A0 = U_ERROR then Err
                  else Ok (ucast (rs_reg rs A0), (rs_reg rs A1, rs_reg rs A2, rs_reg rs A3, rs_reg rs A4), rs_reg rs A5, rs_buf rs)))"

definition uipc_call_buf :: "usize \<Rightarrow> words4 \<Rightarrow> usize \<Rightarrow> u8 list \<Rightarrow> words4 result prog" where
  "uipc_call_buf endpoint words p buf =
     Ecall \<lparr>rq_in = (A0, endpoint) # word_regs words @ [(A5, p), (A6, of_nat (length buf)), (A7, U_SYS_IPC_CALL_BUF)],
            rq_out = [A0, A1, A2, A3, A4], rq_buf = buf\<rparr>
       (\<lambda>rs. Ret (if rs_reg rs A0 = U_ERROR then Err else Ok (rs_reg rs A0, rs_reg rs A1, rs_reg rs A2, rs_reg rs A3)))"

definition uipc_reply_buf :: "u32 \<Rightarrow> words4 \<Rightarrow> usize \<Rightarrow> u8 list \<Rightarrow> unit result prog" where
  "uipc_reply_buf client words p buf =
     Ecall \<lparr>rq_in = (A0, ucast client) # word_regs words @ [(A5, p), (A6, of_nat (length buf)), (A7, U_SYS_IPC_REPLY_BUF)],
            rq_out = [A0], rq_buf = buf\<rparr> (\<lambda>rs. Ret (if rs_reg rs A0 = 0 then Ok () else Err))"

section \<open>Console streams and printing\<close>

definition U_CONSOLE_ENDPOINT :: usize where "U_CONSOLE_ENDPOINT = 1"
definition CONSOLE_WRITE :: usize where "CONSOLE_WRITE = 1"
definition CONSOLE_READ :: usize where "CONSOLE_READ = 2"
definition NEWLINE :: u8 where "NEWLINE = 10"

text \<open>The loop of \<open>io::write\<close>: whether every byte was sent.\<close>

fun write_loop_bytes :: "u8 list \<Rightarrow> bool prog" where
  "write_loop_bytes [] = Ret True"
| "write_loop_bytes (b # bs) =
     pbind (uipc_call U_CONSOLE_ENDPOINT (CONSOLE_WRITE, ucast b, 0, 0)) (\<lambda>r.
       case r of Inl _ \<Rightarrow> Ret False | Inr _ \<Rightarrow> write_loop_bytes bs)"

definition io_write :: "usize \<Rightarrow> u8 list \<Rightarrow> usize prog" where
  "io_write fd buf =
     (if fd \<noteq> 1 \<and> fd \<noteq> 2 then Ret (- 1)
      else pbind (write_loop_bytes buf) (\<lambda>ok. Ret (if ok then of_nat (length buf) else - 1)))"

text \<open>The loop of \<open>io::read\<close> over the \<open>n\<close> slots left, with the bytes stored so far; the flag is false
  when a call failed.\<close>

fun read_loop_bytes :: "nat \<Rightarrow> u8 list \<Rightarrow> (bool \<times> u8 list) prog" where
  "read_loop_bytes 0 got = Ret (True, got)"
| "read_loop_bytes (Suc n) got =
     pbind (uipc_call U_CONSOLE_ENDPOINT (CONSOLE_READ, 0, 0, 0)) (\<lambda>r.
       case r of
         Inl _ \<Rightarrow> Ret (False, got)
       | Inr (w, _) \<Rightarrow>
           let byte = ucast w; got' = got @ [byte] in
           if byte = NEWLINE then Ret (True, got') else read_loop_bytes n got')"

text \<open>\<open>io::read\<close> into a buffer of \<open>n\<close> bytes: the result and the bytes stored.\<close>

definition io_read :: "usize \<Rightarrow> nat \<Rightarrow> (usize \<times> u8 list) prog" where
  "io_read fd n =
     (if fd \<noteq> 0 then Ret (- 1, [])
      else pbind (read_loop_bytes n []) (\<lambda>(ok, got). Ret (if ok then of_nat (length got) else - 1, got)))"

text \<open>\<open>_print\<close>: the pieces of the formatted text go to \<open>io::write\<close> one after the other until one
  fails, and the failure is dropped; the bytes sent are those of the whole text.\<close>

definition print_text :: "u8 list \<Rightarrow> unit prog" where
  "print_text s = pbind (io_write 1 s) (\<lambda>_. Ret ())"

definition println_text :: "u8 list \<Rightarrow> unit prog" where
  "println_text s = print_text (s @ [NEWLINE])"

text \<open>The panic handler of \<open>entry!\<close>, and \<open>expect\<close>.\<close>

definition user_panic :: "'a prog" where
  "user_panic = u_exit 1"

definition u_expect :: "'a result \<Rightarrow> ('a \<Rightarrow> 'b prog) \<Rightarrow> 'b prog" where
  "u_expect r f = (case r of Inl _ \<Rightarrow> user_panic | Inr x \<Rightarrow> f x)"

text \<open>\<open>__user_main\<close>.\<close>

definition user_main :: "unit prog \<Rightarrow> unit prog" where
  "user_main main = pbind main (\<lambda>_. u_exit 0)"

end
