(* ===== verification/Console_Server.thy ===== *)
theory Console_Server
  imports User_Lib
begin

text \<open>
  The console server, \<open>src/user/programs/console/src/main.rs\<close>, and the UART driver of the kernel,
  \<open>src/drivers/uart.rs\<close>. The UART is a device: what a load of one of its registers returns and does is
  an argument, in the environment of a program for the server and as a pair of functions for the
  driver. Waiting for the transmitter takes a fuel; without it the loop does not return.
\<close>

section \<open>The console server\<close>

definition C_UART_BASE :: usize where "C_UART_BASE = 0x10000000"
definition C_RBR :: usize where "C_RBR = 0"
definition C_THR :: usize where "C_THR = 0"
definition C_LSR :: usize where "C_LSR = 5"

definition console_read_reg :: "usize \<Rightarrow> (u8 \<Rightarrow> 'a prog) \<Rightarrow> 'a prog" where
  "console_read_reg offset k = Load (C_UART_BASE + offset) k"

definition console_write_reg :: "usize \<Rightarrow> u8 \<Rightarrow> 'a prog \<Rightarrow> 'a prog" where
  "console_write_reg offset value p = Store (C_UART_BASE + offset) value p"

fun console_putc :: "nat \<Rightarrow> u8 \<Rightarrow> unit prog" where
  "console_putc 0 byte = Spin"
| "console_putc (Suc n) byte =
     console_read_reg C_LSR (\<lambda>v. if v AND 0x20 = 0 then console_putc n byte else console_write_reg C_THR byte (Ret ()))"

fun console_getc :: "nat \<Rightarrow> u8 prog" where
  "console_getc 0 = Spin"
| "console_getc (Suc n) =
     console_read_reg C_LSR (\<lambda>v.
       if v AND 0x01 \<noteq> 0 then console_read_reg C_RBR Ret
       else pbind (u_irq_wait U_UART0_IRQ) (\<lambda>r. u_expect r (\<lambda>_. console_getc n)))"

definition CARRIAGE_RETURN :: u8 where "CARRIAGE_RETURN = 13"

text \<open>The answer to one request.\<close>

definition console_request :: "nat \<Rightarrow> words4 \<Rightarrow> words4 prog" where
  "console_request n words =
     (case words of (w0, w1, _, _) \<Rightarrow>
      if w0 = CONSOLE_WRITE then
        (let byte = ucast w1 in
         pbind (if byte = NEWLINE then console_putc n CARRIAGE_RETURN else Ret ()) (\<lambda>_.
         pbind (console_putc n byte) (\<lambda>_. Ret (1, 0, 0, 0))))
      else if w0 = CONSOLE_READ then
        pbind (console_getc n) (\<lambda>byte. Ret (ucast (if byte = CARRIAGE_RETURN then NEWLINE else byte), 0, 0, 0))
      else Ret (- 1, 0, 0, 0))"

text \<open>One round of the main loop.\<close>

definition console_round :: "nat \<Rightarrow> unit prog" where
  "console_round n =
     pbind (uipc_recv U_CONSOLE_ENDPOINT) (\<lambda>r. u_expect r (\<lambda>(client, words).
       pbind (console_request n words) (\<lambda>reply.
       pbind (uipc_reply client reply) (\<lambda>_. Ret ()))))"

text \<open>The first rounds of the loop, which never ends.\<close>

fun console_main :: "nat \<Rightarrow> nat \<Rightarrow> unit prog" where
  "console_main n 0 = Spin"
| "console_main n (Suc k) = pbind (console_round n) (\<lambda>_. console_main n k)"

section \<open>The UART driver of the kernel\<close>

definition UART_BASE :: usize where "UART_BASE = 0x10000000"
definition RBR :: usize where "RBR = 0"
definition THR :: usize where "THR = 0"
definition IER :: usize where "IER = 1"
definition FCR :: usize where "FCR = 2"
definition LCR :: usize where "LCR = 3"
definition MCR :: usize where "MCR = 4"
definition LSR :: usize where "LSR = 5"

text \<open>A device: \<open>read_volatile\<close> and \<open>write_volatile\<close> of its registers.\<close>

record 'd device =
  dev_load :: "usize \<Rightarrow> 'd \<Rightarrow> u8 \<times> 'd"
  dev_store :: "usize \<Rightarrow> u8 \<Rightarrow> 'd \<Rightarrow> 'd"

definition uart_read_reg :: "'d device \<Rightarrow> usize \<Rightarrow> 'd \<Rightarrow> u8 \<times> 'd" where
  "uart_read_reg dev offset d = dev_load dev (UART_BASE + offset) d"

definition uart_write_reg :: "'d device \<Rightarrow> usize \<Rightarrow> u8 \<Rightarrow> 'd \<Rightarrow> 'd" where
  "uart_write_reg dev offset val d = dev_store dev (UART_BASE + offset) val d"

definition uart_init :: "'d device \<Rightarrow> 'd \<Rightarrow> 'd" where
  "uart_init dev d = fold (\<lambda>(off, v). uart_write_reg dev off v)
     [(IER, 0x00), (FCR, 0x01), (LCR, 0x80), (0, 0x0C), (1, 0x00), (LCR, 0x03), (MCR, 0x03), (IER, 0x01)] d"

fun uart_putc :: "nat \<Rightarrow> 'd device \<Rightarrow> u8 \<Rightarrow> 'd \<Rightarrow> 'd outcome" where
  "uart_putc 0 dev c d = Runaway"
| "uart_putc (Suc n) dev c d =
     (case uart_read_reg dev LSR d of (v, d') \<Rightarrow>
      if v AND 0x20 = 0 then uart_putc n dev c d' else Done (uart_write_reg dev THR c d'))"

definition uart_has_data :: "'d device \<Rightarrow> 'd \<Rightarrow> bool \<times> 'd" where
  "uart_has_data dev d = (case uart_read_reg dev LSR d of (v, d') \<Rightarrow> (v AND 0x01 \<noteq> 0, d'))"

definition uart_getc :: "'d device \<Rightarrow> 'd \<Rightarrow> u8 option \<times> 'd" where
  "uart_getc dev d =
     (case uart_has_data dev d of
        (False, d') \<Rightarrow> (None, d')
      | (True, d') \<Rightarrow> (case uart_read_reg dev RBR d' of (b, d'') \<Rightarrow> (Some b, d'')))"

fun uart_puts :: "nat \<Rightarrow> 'd device \<Rightarrow> u8 list \<Rightarrow> 'd \<Rightarrow> 'd outcome" where
  "uart_puts n dev [] d = Done d"
| "uart_puts n dev (c # cs) d =
     obind (if c = NEWLINE then uart_putc n dev CARRIAGE_RETURN d else Done d) (\<lambda>d1.
     obind (uart_putc n dev c d1) (uart_puts n dev cs))"

text \<open>\<open>print_fmt\<close>: every piece of the formatted text goes to \<open>puts\<close>, which does not fail.\<close>

definition uart_print :: "nat \<Rightarrow> 'd device \<Rightarrow> u8 list list \<Rightarrow> 'd \<Rightarrow> 'd outcome" where
  "uart_print n dev pieces d = fold (\<lambda>s r. obind r (uart_puts n dev s)) pieces (Done d)"

lemma uart_puts_append: "uart_puts n dev (xs @ ys) d = obind (uart_puts n dev xs d) (uart_puts n dev ys)"
proof (induction xs arbitrary: d)
  case (Cons x xs)
  have assoc: "obind (obind m f) g = obind m (\<lambda>x. obind (f x) g)" for m :: "'d outcome" and f :: "'d \<Rightarrow> 'd outcome" and g
    by (cases m) simp_all
  have "uart_puts n dev (xs @ ys) = (\<lambda>d. obind (uart_puts n dev xs d) (uart_puts n dev ys))"
    using Cons by (rule ext)
  then show ?case by (simp add: assoc)
qed simp

lemma uart_print_concat: "uart_print n dev pieces d = uart_puts n dev (concat pieces) d"
proof -
  have "fold (\<lambda>s r. obind r (uart_puts n dev s)) pieces r = obind r (uart_puts n dev (concat pieces))" for r
  proof (induction pieces arbitrary: r)
    case Nil
    then show ?case by (cases r) simp_all
  next
    case (Cons s ss)
    then show ?case by (cases r) (simp_all add: uart_puts_append)
  qed
  then show ?thesis by (simp add: uart_print_def)
qed

end
