(* ===== verification/Shell.thy ===== *)
theory Shell
  imports User_Lib
begin

text \<open>
  The shell, \<open>src/user/programs/shell/src/main.rs\<close>: the line editor, the commands and one round of the
  loop, with the operations of the core library on text it uses (\<open>trim\<close>, \<open>parse\<close>, decimal display).
  Text is UTF-8 bytes. The argument \<open>place\<close> is where a string lies in the memory of the program.
\<close>

section \<open>Text\<close>

text \<open>The white-space characters of Unicode in UTF-8: the length of the one at the start, 0 if none.\<close>

fun space_len :: "u8 list \<Rightarrow> nat" where
  "space_len [] = 0"
| "space_len (b # bs) =
     (if (0x09 \<le> b \<and> b \<le> 0x0D) \<or> b = 0x20 then 1
      else case bs of
        c # r \<Rightarrow>
          if b = 0xC2 \<and> (c = 0x85 \<or> c = 0xA0) then 2
          else (case r of
                  e # _ \<Rightarrow>
                    if (b = 0xE1 \<and> c = 0x9A \<and> e = 0x80) \<or>
                       (b = 0xE2 \<and> c = 0x80 \<and> (0x80 \<le> e \<and> e \<le> 0x8A \<or> e = 0xA8 \<or> e = 0xA9 \<or> e = 0xAF)) \<or>
                       (b = 0xE2 \<and> c = 0x81 \<and> e = 0x9F) \<or> (b = 0xE3 \<and> c = 0x80 \<and> e = 0x80) then 3 else 0
                | [] \<Rightarrow> 0)
      | [] \<Rightarrow> 0)"

text \<open>\<open>trim\<close>, with as much fuel as the text has bytes.\<close>

fun trim_start_loop :: "nat \<Rightarrow> u8 list \<Rightarrow> u8 list" where
  "trim_start_loop 0 bs = bs"
| "trim_start_loop (Suc n) bs = (if space_len bs = 0 then bs else trim_start_loop n (drop (space_len bs) bs))"

text \<open>The length of the white-space character at the end.\<close>

definition space_end :: "u8 list \<Rightarrow> nat" where
  "space_end bs =
     (let l = length bs in
      if 1 \<le> l \<and> space_len (drop (l - 1) bs) = 1 then 1
      else if 2 \<le> l \<and> space_len (drop (l - 2) bs) = 2 then 2
      else if 3 \<le> l \<and> space_len (drop (l - 3) bs) = 3 then 3 else 0)"

fun trim_end_loop :: "nat \<Rightarrow> u8 list \<Rightarrow> u8 list" where
  "trim_end_loop 0 bs = bs"
| "trim_end_loop (Suc n) bs = (if space_end bs = 0 then bs else trim_end_loop n (take (length bs - space_end bs) bs))"

definition trim :: "u8 list \<Rightarrow> u8 list" where
  "trim bs = (let s = trim_start_loop (length bs) bs in trim_end_loop (length s) s)"

text \<open>\<open>parse::<u32>\<close>: an optional plus sign and decimal digits, with overflow an error.\<close>

fun parse_digits :: "u8 list \<Rightarrow> u32 \<Rightarrow> u32 option" where
  "parse_digits [] acc = Some acc"
| "parse_digits (b # bs) acc =
     (if 0x30 \<le> b \<and> b \<le> 0x39 then
        (case checked_mul acc 10 of
           None \<Rightarrow> None
         | Some m \<Rightarrow> (case checked_add m (ucast (b - 0x30)) of None \<Rightarrow> None | Some v \<Rightarrow> parse_digits bs v))
      else None)"

definition parse_u32 :: "u8 list \<Rightarrow> u32 option" where
  "parse_u32 bs =
     (case bs of
        [] \<Rightarrow> None
      | b # r \<Rightarrow> if r = [] \<and> (b = 0x2B \<or> b = 0x2D) then None
                 else parse_digits (if b = 0x2B then r else bs) 0)"

text \<open>Decimal display of unsigned and signed numbers.\<close>

fun dec_digits :: "nat \<Rightarrow> u8 list" where
  "dec_digits n = (if n < 10 then [0x30 + of_nat n] else dec_digits (n div 10) @ [0x30 + of_nat (n mod 10)])"

declare dec_digits.simps [simp del]

definition show_int :: "int \<Rightarrow> u8 list" where
  "show_int i = (if i < 0 then 0x2D # dec_digits (nat (- i)) else dec_digits (nat i))"

section \<open>The line editor\<close>

definition LINE_SIZE :: nat where "LINE_SIZE = 80"

text \<open>\<open>read_line\<close> with the bytes of the line so far; a byte read and typed needs one unit of fuel.\<close>

fun read_line :: "nat \<Rightarrow> u8 list \<Rightarrow> u8 list prog" where
  "read_line 0 line = Spin"
| "read_line (Suc n) line =
     (if length line + 1 < LINE_SIZE then
        pbind (io_read 0 1) (\<lambda>(r, input).
          if r \<noteq> 1 then Ret line
          else let byte = hd input in
            if byte = 0x7F \<or> byte = 8 then
              (if line \<noteq> [] then pbind (print_text [8, 0x20, 8]) (\<lambda>_. read_line n (butlast line))
               else read_line n line)
            else pbind (io_write 1 [byte]) (\<lambda>w.
              if w \<noteq> 1 then Ret line
              else if byte = NEWLINE then Ret line
              else read_line n (line @ [byte])))
      else Ret line)"

section \<open>Commands\<close>

abbreviation say :: "string \<Rightarrow> unit prog" where
  "say s \<equiv> println_text (ascii s)"

fun say_all :: "string list \<Rightarrow> unit prog" where
  "say_all [] = Ret ()"
| "say_all (s # ss) = pbind (say s) (\<lambda>_. say_all ss)"

definition cmd_help :: "unit prog" where
  "cmd_help = say_all
     [''available commands:'', ''  help      - show this help'', ''  hello     - print hello message'',
      ''  about     - about this OS'', ''  pid       - show current process ID'', ''  ps        - list all processes'',
      ''  yield     - yield CPU to other tasks'', ''  fork      - fork a child process'',
      ''  exec NAME - replace shell with program (no return)'',
      ''  COMMAND   - fork+exec+wait (e.g. hello, linked-list-test)'',
      ''  wait PID  - wait for and reap a child'', ''  exit      - exit the shell'']"

definition cmd_about :: "unit prog" where
  "cmd_about = say_all
     [''nekos - Minimal RISC-V Operating System'', ''Written in Rust'', ''Features:'', ''  - Sv39 virtual memory'',
      ''  - Preemptive scheduling'', ''  - User-mode processes'', ''  - User-mode Console Server over IPC'']"

definition cmd_fork :: "unit prog" where
  "cmd_fork = pbind u_fork (\<lambda>pid.
     if pid = 0 then
       pbind u_getpid (\<lambda>me.
       pbind (println_text (ascii ''[child] pid='' @ show_int (uint me) @ ascii '' hello!'')) (\<lambda>_. u_exit 0))
     else if pid = U_ERROR then say ''fork failed''
     else println_text (ascii ''[parent] forked child pid='' @ show_int (sint pid)))"

definition cmd_exectest :: "(u8 list \<Rightarrow> usize) \<Rightarrow> unit prog" where
  "cmd_exectest place = pbind u_fork (\<lambda>pid.
     if pid = 0 then
       pbind (u_exec (place (ascii ''hello'')) (ascii ''hello'')) (\<lambda>r.
         if r = U_ERROR then pbind (say ''[child] exec failed'') (\<lambda>_. u_exit 1) else Ret ())
     else if pid = U_ERROR then say ''fork failed''
     else
       pbind (println_text (ascii ''[parent] waiting for child pid='' @ show_int (sint pid))) (\<lambda>_.
       pbind (u_waitpid (ucast pid)) (\<lambda>code.
         println_text (ascii ''[parent] child exited with code='' @ show_int (sint code)))))"

definition cmd_exec :: "(u8 list \<Rightarrow> usize) \<Rightarrow> u8 list \<Rightarrow> unit prog" where
  "cmd_exec place name = pbind (u_exec (place name) name) (\<lambda>r.
     if r = U_ERROR then println_text (ascii ''exec: failed to run '' @ [0x27] @ name @ [0x27]) else Ret ())"

definition cmd_wait :: "u8 list \<Rightarrow> unit prog" where
  "cmd_wait arg =
     (case parse_u32 arg of
        Some pid \<Rightarrow>
          pbind (u_waitpid pid) (\<lambda>code.
            if sint code < 0 then println_text (ascii ''wait: pid '' @ show_int (uint pid) @ ascii '' is not a child'')
            else println_text (ascii ''wait: child '' @ show_int (uint pid) @ ascii '' exited with code='' @ show_int (sint code)))
      | None \<Rightarrow> say ''usage: wait PID'')"

text \<open>Any other command: a child that runs the program of that name. The code after a successful
  \<open>exec\<close> is \<open>unreachable!()\<close>, a panic.\<close>

definition cmd_run :: "(u8 list \<Rightarrow> usize) \<Rightarrow> u8 list \<Rightarrow> unit prog" where
  "cmd_run place cmd = pbind u_fork (\<lambda>pid.
     if pid = 0 then
       pbind (u_exec (place cmd) cmd) (\<lambda>r.
         if r = U_ERROR then pbind (println_text (cmd @ ascii '': command not found'')) (\<lambda>_. u_exit 127)
         else user_panic)
     else if pid = U_ERROR then say ''fork failed''
     else pbind (u_waitpid (ucast pid)) (\<lambda>code. if sint code < 0 then say ''waitpid failed'' else Ret ()))"

definition starts_with :: "u8 list \<Rightarrow> u8 list \<Rightarrow> bool" where
  "starts_with p s \<longleftrightarrow> take (length p) s = p"

definition run_command :: "(u8 list \<Rightarrow> usize) \<Rightarrow> u8 list \<Rightarrow> unit prog" where
  "run_command place cmd =
     (if cmd = ascii ''help'' then cmd_help
      else if cmd = ascii ''hello'' then say ''Hello from nekos Shell!''
      else if cmd = ascii ''about'' then cmd_about
      else if cmd = ascii ''pid'' then
        pbind u_getpid (\<lambda>pid. println_text (ascii ''current pid: '' @ show_int (uint pid)))
      else if cmd = ascii ''ps'' then pbind (say ''process list:'') (\<lambda>_. u_ps)
      else if cmd = ascii ''yield'' then
        pbind (say ''yielding CPU...'') (\<lambda>_. pbind u_yield_now (\<lambda>_. say ''resumed after yield''))
      else if cmd = ascii ''fork'' then cmd_fork
      else if cmd = ascii ''exectest'' then cmd_exectest place
      else if cmd = ascii ''exit'' then pbind (say ''goodbye!'') (\<lambda>_. u_exit 0)
      else if starts_with (ascii ''exec '') cmd then cmd_exec place (trim (drop 5 cmd))
      else if starts_with (ascii ''wait '') cmd then cmd_wait (trim (drop 5 cmd))
      else cmd_run place cmd)"

text \<open>One round of the loop.\<close>

definition shell_round :: "(u8 list \<Rightarrow> usize) \<Rightarrow> nat \<Rightarrow> unit prog" where
  "shell_round place n =
     pbind (print_text (ascii ''> '')) (\<lambda>_.
     pbind (read_line n []) (\<lambda>line.
       if line = [] then Ret ()
       else run_command place (trim (if utf8_valid line then line else []))))"

text \<open>The greeting and the first rounds of the loop, which never ends.\<close>

fun shell_loop :: "(u8 list \<Rightarrow> usize) \<Rightarrow> nat \<Rightarrow> nat \<Rightarrow> unit prog" where
  "shell_loop place n 0 = Spin"
| "shell_loop place n (Suc k) = pbind (shell_round place n) (\<lambda>_. shell_loop place n k)"

definition shell_main :: "(u8 list \<Rightarrow> usize) \<Rightarrow> nat \<Rightarrow> nat \<Rightarrow> unit prog" where
  "shell_main place n k =
     pbind (say ''=== nekos Shell ==='') (\<lambda>_.
     pbind (print_text (ascii ''type '' @ [0x27] @ ascii ''help'' @ [0x27] @ ascii '' for commands'' @ [NEWLINE])) (\<lambda>_.
     pbind (print_text [NEWLINE]) (\<lambda>_. shell_loop place n k)))"

end
