(* ===== verification/Fs_Program.thy ===== *)
theory Fs_Program
  imports Fat_Server User_Lib
begin

text \<open>
  The file server as a user program (\<open>main\<close> of \<open>src/user/programs/fs-server/src/main.rs\<close>): format, open,
  then receive, handle and reply for ever; and the two smallest programs (\<open>hello\<close>, \<open>test\<close>). The addresses of the
  two static buffers are arguments.
\<close>

definition FS_SERVER_ENDPOINT :: usize where "FS_SERVER_ENDPOINT = 2"

text \<open>\<open>ipc::reply\<close> or, for the data of a read, \<open>ipc::reply_buf\<close>; the result is dropped.\<close>

definition fs_reply :: "usize \<Rightarrow> u32 \<Rightarrow> Reply \<Rightarrow> unit prog" where
  "fs_reply data_buf client r =
     pbind (case rp_data r of None \<Rightarrow> uipc_reply client (rp_words r)
            | Some bs \<Rightarrow> uipc_reply_buf client (rp_words r) data_buf bs) (\<lambda>_. Ret ())"

text \<open>The first \<open>k\<close> rounds of the loop, with the receive buffer as the round before left it. A panic exits
  the server; a chain that is a cycle keeps it busy.\<close>

fun fs_loop :: "usize \<Rightarrow> usize \<Rightarrow> nat \<Rightarrow> Fat32Fs \<Rightarrow> nat \<Rightarrow> u8 list \<Rightarrow> disk \<Rightarrow> unit prog" where
  "fs_loop path_buf data_buf n fs 0 buf d = Spin"
| "fs_loop path_buf data_buf n fs (Suc k) buf d =
     pbind (uipc_recv_buf FS_SERVER_ENDPOINT path_buf buf) (\<lambda>r. u_expect r (\<lambda>(client, words, buf_len, buf').
       case handle_request n fs words buf' buf_len d of
         Done (reply, d') \<Rightarrow> pbind (fs_reply data_buf client reply) (\<lambda>_. fs_loop path_buf data_buf n fs k buf' d')
       | Panic \<Rightarrow> user_panic
       | _ \<Rightarrow> Spin))"

definition fs_main :: "usize \<Rightarrow> usize \<Rightarrow> nat \<Rightarrow> nat \<Rightarrow> unit prog" where
  "fs_main path_buf data_buf n k =
     (case server_start (\<lambda>_. 0) of
        Done None \<Rightarrow> u_exit 1
      | Done (Some (fs, d)) \<Rightarrow> fs_loop path_buf data_buf n fs k (replicate IPC_BUFFER_SIZE 0) d
      | Panic \<Rightarrow> user_panic
      | _ \<Rightarrow> Spin)"

section \<open>Small programs\<close>

definition hello_main :: "unit prog" where
  "hello_main = println_text (ascii ''Hello from Rust hello program!'')"

definition test_main :: "unit prog" where
  "test_main = println_text (ascii ''Test'')"

end
