(* ===== verification/User_Claims.thy ===== *)
theory User_Claims
  imports Console_Server Shell Fs_Program Kernel_Inv
begin

text \<open>
  The user programs against the kernel: the numbers of their system calls, and the registers the
  wrappers of the library load against those the dispatch of the kernel reads.
\<close>

section \<open>System-call numbers\<close>

definition known_call :: "request \<Rightarrow> bool" where
  "known_call rq \<longleftrightarrow> (case req_reg A7 rq of Some n \<Rightarrow> known_syscall n | None \<Rightarrow> False)"

abbreviation well_called :: "'a prog \<Rightarrow> bool" where
  "well_called p \<equiv> all_calls known_call (\<lambda>_. True) p"

named_theorems called \<open>programs that make known system calls only\<close>

lemma well_called_pbind [called]: "well_called p \<Longrightarrow> (\<And>x. well_called (f x)) \<Longrightarrow> well_called (pbind p f)"
  unfolding all_calls_pbind by (rule all_calls_mono [where Q = "\<lambda>_. True"]) simp_all

lemma well_called_Ret [called]: "well_called (Ret x)" "well_called Spin"
  by simp_all

lemmas call_numbers = known_call_def req_reg_def known_syscall_def SYS_EXIT_def SYS_YIELD_def SYS_GETPID_def SYS_FORK_def
  SYS_PS_def SYS_EXEC_def SYS_WAITPID_def SYS_IPC_CALL_def SYS_IPC_RECV_def SYS_IPC_REPLY_def SYS_IRQ_WAIT_def SYS_SBRK_def
  SYS_IPC_CALL_BUF_def SYS_IPC_RECV_BUF_def SYS_IPC_REPLY_BUF_def SYS_SHUTDOWN_def U_SYS_EXIT_def U_SYS_YIELD_def
  U_SYS_GETPID_def U_SYS_FORK_def U_SYS_PS_def U_SYS_EXEC_def U_SYS_WAITPID_def U_SYS_IPC_CALL_def U_SYS_IPC_RECV_def
  U_SYS_IPC_REPLY_def U_SYS_IRQ_WAIT_def U_SYS_SBRK_def U_SYS_IPC_CALL_BUF_def U_SYS_IPC_RECV_BUF_def U_SYS_IPC_REPLY_BUF_def
  word_regs_def

lemma well_called_sys [called]:
  "well_called (u_exit c)" "well_called u_yield_now" "well_called u_getpid" "well_called u_fork" "well_called u_ps"
  "well_called (u_exec p nm)" "well_called (u_waitpid pid)" "well_called (u_irq_wait irq)" "well_called (u_sbrk i)"
  by (simp_all add: u_exit_def u_yield_now_def u_getpid_def u_fork_def u_ps_def u_exec_def u_waitpid_def u_irq_wait_def
      u_sbrk_def call_numbers)

lemma well_called_ipc [called]:
  "well_called (uipc_call ep ws)" "well_called (uipc_recv ep)" "well_called (uipc_reply c ws)"
  "well_called (uipc_recv_buf ep p bs)" "well_called (uipc_reply_buf c ws p bs)"
  by (simp_all add: uipc_call_def uipc_recv_def uipc_reply_def uipc_recv_buf_def uipc_reply_buf_def call_numbers split: prod.splits)

lemma well_called_io [called]: "well_called (write_loop_bytes bs)" "well_called (read_loop_bytes n got)"
proof -
  show "well_called (write_loop_bytes bs)"
    by (induction bs) (auto intro!: called split: sum.splits)
  show "well_called (read_loop_bytes n got)"
    by (induction n arbitrary: got) (auto intro!: called simp: Let_def split: sum.splits)
qed

lemma well_called_print [called]: "well_called (io_write fd bs)" "well_called (io_read fd n)" "well_called (print_text bs)"
    "well_called (println_text bs)" "well_called user_panic"
  by (auto simp: io_write_def io_read_def print_text_def println_text_def user_panic_def intro!: called)

lemma well_called_expect [called]: "(\<And>x. well_called (f x)) \<Longrightarrow> well_called (u_expect r f)"
  by (auto simp: u_expect_def intro!: called split: sum.splits)

lemma well_called_console [called]: "well_called (console_putc n b)" "well_called (console_getc n)"
  "well_called (console_request n ws)" "well_called (console_round n)"
proof -
  show putc: "well_called (console_putc n b)" for n b
    by (induction n) (auto simp: console_read_reg_def console_write_reg_def)
  show getc: "well_called (console_getc n)" for n
    by (induction n) (auto simp: console_read_reg_def intro!: called)
  show req: "well_called (console_request n ws)" for ws
    by (auto simp: console_request_def Let_def intro!: called putc getc split: prod.splits)
  show "well_called (console_round n)"
    by (auto simp: console_round_def intro!: called req split: prod.splits)
qed

lemma well_called_line [called]: "well_called (read_line n line)"
  by (induction n arbitrary: line) (auto simp: Let_def intro!: called split: prod.splits)

lemma well_called_if [called]: "well_called p \<Longrightarrow> well_called q \<Longrightarrow> well_called (if b then p else q)"
  by simp

lemma well_called_say_all [called]: "well_called (say_all ss)"
  by (induction ss) (auto intro!: called)

lemma well_called_commands [called]:
  "well_called cmd_help" "well_called cmd_about" "well_called cmd_fork" "well_called (cmd_exectest place)"
  "well_called (cmd_exec place nm)" "well_called (cmd_run place cmd)"
  unfolding cmd_help_def cmd_about_def cmd_fork_def cmd_exectest_def cmd_exec_def cmd_run_def
  by (intro called)+

lemma well_called_wait [called]: "well_called (cmd_wait arg)"
  unfolding cmd_wait_def by (cases "parse_u32 arg") (simp_all only: option.case, (intro called)+)

lemma well_called_run [called]: "well_called (run_command place cmd)"
  unfolding run_command_def by (intro called)

lemma well_called_reply [called]: "well_called (fs_reply q c r)"
  by (auto simp: fs_reply_def intro!: called split: option.splits)

lemma well_called_fs_loop [called]: "well_called (fs_loop p q n fs k buf d)"
proof (induction k arbitrary: buf d)
  case (Suc k)
  show ?case by (auto intro!: called Suc split: outcome.splits prod.splits)
qed simp

lemma well_called_mains [called]: "well_called (fs_main p q n k)" "well_called hello_main" "well_called test_main"
  by (auto simp: fs_main_def hello_main_def test_main_def intro!: called split: outcome.splits option.splits prod.splits)

text \<open>Every system call the user programs make (the shell, the console and the file server, and the two test
  programs), whatever the kernel and the devices answer, has a number the kernel knows; the kernel stops on an
  unknown number.\<close>

lemma user_programs_known_calls:
  "all_calls known_call (\<lambda>_. True) (user_main (shell_main place n k)) \<and>
   all_calls known_call (\<lambda>_. True) (user_main (console_main n k)) \<and>
   all_calls known_call (\<lambda>_. True) (user_main (fs_main p q n k)) \<and>
   all_calls known_call (\<lambda>_. True) (user_main hello_main) \<and> all_calls known_call (\<lambda>_. True) (user_main test_main)"
proof -
  have "well_called (shell_loop place n k)" by (induction k) (auto simp: shell_round_def intro!: called)
  then have "well_called (shell_main place n k)" by (auto simp: shell_main_def intro!: called)
  moreover have "well_called (console_main n k)" by (induction k) (auto intro!: called)
  moreover have "well_called (user_main m)" if "well_called m" for m
    unfolding user_main_def using that by (intro called)
  ultimately show ?thesis using well_called_mains by blast
qed

section \<open>The registers of a call\<close>

fun set_reg :: "reg \<times> usize \<Rightarrow> TrapFrame \<Rightarrow> TrapFrame" where
  "set_reg (A0, v) fr = fr\<lparr>tf_a0 := v\<rparr>"
| "set_reg (A1, v) fr = fr\<lparr>tf_a1 := v\<rparr>"
| "set_reg (A2, v) fr = fr\<lparr>tf_a2 := v\<rparr>"
| "set_reg (A3, v) fr = fr\<lparr>tf_a3 := v\<rparr>"
| "set_reg (A4, v) fr = fr\<lparr>tf_a4 := v\<rparr>"
| "set_reg (A5, v) fr = fr\<lparr>tf_a5 := v\<rparr>"
| "set_reg (A6, v) fr = fr\<lparr>tf_a6 := v\<rparr>"
| "set_reg (A7, v) fr = fr\<lparr>tf_a7 := v\<rparr>"

text \<open>The request a program starts with, the state in which its trap frame has the registers of the
  request, and this state with the program counter behind the \<open>ecall\<close>.\<close>

fun request_of :: "'a prog \<Rightarrow> request option" where
  "request_of (Ecall rq k) = Some rq"
| "request_of _ = None"

definition trapped :: "usize \<Rightarrow> 'a prog \<Rightarrow> kstate \<Rightarrow> kstate" where
  "trapped tf p s = (case request_of p of None \<Rightarrow> s | Some rq \<Rightarrow> update_frame tf (fold set_reg (rq_in rq)) s)"

definition stepped :: "usize \<Rightarrow> 'a prog \<Rightarrow> kstate \<Rightarrow> kstate" where
  "stepped tf p s = update_frame tf (\<lambda>fr. fr\<lparr>tf_sepc := tf_sepc fr + 4\<rparr>) (trapped tf p s)"

lemma narrow_wide [simp]: "ucast (scast (c :: 32 word) :: usize) = c" "ucast (ucast (c :: 32 word) :: usize) = c"
  by (auto intro!: bit_word_eqI simp: bit_unsigned_iff bit_signed_iff)

lemmas wrappers = u_exit_def u_yield_now_def u_getpid_def u_fork_def u_ps_def u_exec_def u_waitpid_def u_irq_wait_def
  u_sbrk_def uipc_call_def uipc_recv_def uipc_reply_def uipc_call_buf_def uipc_recv_buf_def uipc_reply_buf_def
  u_ipc_call_buf_def u_ipc_recv_buf_def

text \<open>C15: what the wrappers of the user library put into the registers is what the dispatch of the kernel reads: for
  each of the seventeen wrappers of \<open>syscall.rs\<close> and \<open>ipc.rs\<close> the \<open>ecall\<close> makes the kernel perform the
  corresponding operation with exactly the arguments of the wrapper (number, argument registers, conversions
  of width). The outputs are not compared, but for \<open>yield\<close>, which overwrites \<open>a0\<close> although its wrapper
  declares no output.\<close>

theorem syscall_abi:
  "handle fs tf (trapped tf (u_exit code :: unit prog) s) = task_exit code (stepped tf (u_exit code :: unit prog) s) \<and>
   handle fs tf (trapped tf u_fork s) =
     obind (fork tf (stepped tf u_fork s)) (\<lambda>(r, s'). Done (tf, set_a0 tf (case r of Inr pid \<Rightarrow> ucast pid | Inl _ \<Rightarrow> - 1) s')) \<and>
   handle fs tf (trapped tf (u_exec p nm) s) =
     obind (sys_exec fs p (of_nat (length nm)) tf (stepped tf (u_exec p nm) s)) (\<lambda>(v, s'). Done (tf, set_a0 tf v s')) \<and>
   handle fs tf (trapped tf (u_waitpid pid) s) =
     obind (waitpid pid tf (stepped tf (u_waitpid pid) s)) (\<lambda>(r, s').
       case r of Reaped c \<Rightarrow> Done (tf, set_a0 tf (scast c) s') | WaitBlocked next \<Rightarrow> Done (next, s')
               | WaitError \<Rightarrow> Done (tf, set_a0 tf (- 1) s')) \<and>
   handle fs tf (trapped tf (uipc_call ep ws) s) = obind (ipc_call ep ws tf (stepped tf (uipc_call ep ws) s)) (ipc_result tf) \<and>
   handle fs tf (trapped tf (uipc_recv ep) s) = obind (ipc_recv ep tf (stepped tf (uipc_recv ep) s)) (ipc_result tf) \<and>
   handle fs tf (trapped tf (uipc_reply cl ws) s) = reply_result tf (ipc_reply cl ws (stepped tf (uipc_reply cl ws) s)) \<and>
   handle fs tf (trapped tf (uipc_call_buf ep ws p bs) s) =
     obind (ipc_call_buf ep ws p (of_nat (length bs)) tf (stepped tf (uipc_call_buf ep ws p bs) s)) (ipc_result tf) \<and>
   handle fs tf (trapped tf (uipc_recv_buf ep p bs) s) =
     obind (ipc_recv_buf ep p (of_nat (length bs)) tf (stepped tf (uipc_recv_buf ep p bs) s)) (ipc_result tf) \<and>
   handle fs tf (trapped tf (uipc_reply_buf cl ws p bs) s) =
     obind (ipc_reply_buf cl ws p (of_nat (length bs)) (stepped tf (uipc_reply_buf cl ws p bs) s)) (reply_result tf) \<and>
   handle fs tf (trapped tf u_getpid s) =
     Done (tf, set_a0 tf (ucast (get_current_pid (mgr s))) (stepped tf u_getpid s)) \<and>
   handle fs tf (trapped tf u_ps s) = Done (tf, set_a0 tf 0 (stepped tf u_ps s)) \<and>
   handle fs tf (trapped tf (u_irq_wait irq) s) =
     (if irq \<noteq> ucast UART0_IRQ then Done (tf, set_a0 tf (- 1) (stepped tf (u_irq_wait irq) s))
      else obind (wait_uart_irq tf (stepped tf (u_irq_wait irq) s)) (\<lambda>(r, s').
             case r of Inr next \<Rightarrow> Done (next, s') | Inl _ \<Rightarrow> Done (tf, set_a0 tf (- 1) s'))) \<and>
   handle fs tf (trapped tf (u_sbrk inc) s) =
     (case sbrk inc (stepped tf (u_sbrk inc) s) of (r, s') \<Rightarrow>
        Done (tf, set_a0 tf (case r of Inr v \<Rightarrow> v | Inl _ \<Rightarrow> - 1) s')) \<and>
   handle fs tf (trapped tf (u_ipc_call_buf ep ws p bs) s) =
     obind (ipc_call_buf ep ws p (of_nat (length bs)) tf (stepped tf (u_ipc_call_buf ep ws p bs) s)) (ipc_result tf) \<and>
   handle fs tf (trapped tf (u_ipc_recv_buf ep p bs) s) =
     obind (ipc_recv_buf ep p (of_nat (length bs)) tf (stepped tf (u_ipc_recv_buf ep p bs) s)) (ipc_result tf) \<and>
   handle fs tf (trapped tf u_yield_now s) = schedule tf (set_a0 tf 0 (stepped tf u_yield_now s)) \<and>
   map_option (\<lambda>rq. A0 \<in> set (rq_out rq)) (request_of u_yield_now) = Some False"
proof -
  obtain w0 w1 w2 w3 where ws: "ws = (w0, w1, w2, w3)" by (cases ws)
  show ?thesis
    unfolding ws by (intro conjI) (simp_all add: handle_def trapped_def stepped_def wrappers call_numbers Let_def)
qed

end
