(* ===== verification/User_Io.thy ===== *)
theory User_Io
  imports Console_Server Shell
begin

text \<open>
  What the user sees: the bytes that reach the UART through \<open>io::write\<close>, the console server and the
  kernel driver, and the line the shell's editor returns against a reference.
\<close>

lemma byte_in_word [simp]: "ucast (ucast (b :: u8) :: usize) = b"
  by (auto intro!: bit_word_eqI simp: bit_unsigned_iff)

lemma byte_not_error: "ucast (b :: u8) \<noteq> (- 1 :: usize)"
proof
  assume "ucast b = (- 1 :: usize)"
  then have "bit (ucast b :: usize) 63 = bit (- 1 :: usize) 63" by (rule arg_cong)
  then show False by (auto simp: bit_unsigned_iff dest: bit_imp_le_length)
qed

section \<open>Output\<close>

definition crlf :: "u8 list \<Rightarrow> u8 list" where
  "crlf bs = concat (map (\<lambda>b. if b = NEWLINE then [CARRIAGE_RETURN, NEWLINE] else [b]) bs)"

text \<open>What the code relies on of the transmitter: polling the line status sends nothing and shows an empty
  transmitter within \<open>n\<close> polls, and a byte stored in the holding register is sent.\<close>

definition transmits :: "(usize \<Rightarrow> 'd \<Rightarrow> u8 \<times> 'd) \<Rightarrow> (usize \<Rightarrow> u8 \<Rightarrow> 'd \<Rightarrow> 'd) \<Rightarrow> ('d \<Rightarrow> u8 list) \<Rightarrow> nat \<Rightarrow> bool" where
  "transmits ld st out n \<longleftrightarrow>
     (\<forall>d. out (snd (ld (UART_BASE + LSR) d)) = out d) \<and>
     (\<forall>d b. out (st (UART_BASE + THR) b d) = out d @ [b]) \<and>
     (\<forall>d. \<exists>k<n. fst (ld (UART_BASE + LSR) (((\<lambda>x. snd (ld (UART_BASE + LSR) x)) ^^ k) d)) AND 0x20 \<noteq> 0)"

lemmas uart_regs = UART_BASE_def LSR_def THR_def C_UART_BASE_def C_LSR_def C_THR_def

lemma poll_putc:
  assumes st: "\<And>d. out (snd (ld (UART_BASE + LSR) d)) = out d" "\<And>d b. out (st (UART_BASE + THR) b d) = out d @ [b]"
  shows "fst (ld (UART_BASE + LSR) (((\<lambda>x. snd (ld (UART_BASE + LSR) x)) ^^ k) d)) AND 0x20 \<noteq> 0 \<Longrightarrow> k < n \<Longrightarrow>
    \<exists>d'. run \<lparr>e_call = c, e_load = ld, e_store = st\<rparr> (console_putc n b) d = (Some (), d') \<and>
         uart_putc n \<lparr>dev_load = ld, dev_store = st\<rparr> b d = Done d' \<and> out d' = out d @ [b]"
proof (induction n arbitrary: k d)
  case (Suc n)
  obtain v d1 where ld: "ld (UART_BASE + LSR) d = (v, d1)" by fastforce
  have o: "out d1 = out d" using st(1) [of d] ld by simp
  show ?case
  proof (cases "v AND 0x20 = 0")
    case False
    then show ?thesis
      using ld o st(2) [of b d1]
      by (simp add: console_read_reg_def console_write_reg_def uart_read_reg_def uart_write_reg_def uart_regs)
  next
    case True
    then obtain j where j: "k = Suc j" using Suc.prems(1) ld by (cases k) simp_all
    have "((\<lambda>x. snd (ld (UART_BASE + LSR) x)) ^^ k) d = ((\<lambda>x. snd (ld (UART_BASE + LSR) x)) ^^ j) d1"
      unfolding j funpow_Suc_right using ld by simp
    then have "\<exists>d'. run \<lparr>e_call = c, e_load = ld, e_store = st\<rparr> (console_putc n b) d1 = (Some (), d') \<and>
         uart_putc n \<lparr>dev_load = ld, dev_store = st\<rparr> b d1 = Done d' \<and> out d' = out d1 @ [b]"
      using Suc.prems j by (intro Suc.IH [of j]) simp_all
    then show ?thesis
      using True ld o by (simp add: console_read_reg_def uart_read_reg_def uart_regs)
  qed
qed simp

lemma putc_sends:
  assumes "transmits ld st out n"
  obtains d' where "run \<lparr>e_call = c, e_load = ld, e_store = st\<rparr> (console_putc n b) d = (Some (), d')"
    and "uart_putc n \<lparr>dev_load = ld, dev_store = st\<rparr> b d = Done d'" and "out d' = out d @ [b]"
proof -
  obtain k where "k < n" "fst (ld (UART_BASE + LSR) (((\<lambda>x. snd (ld (UART_BASE + LSR) x)) ^^ k) d)) AND 0x20 \<noteq> 0"
    using assms unfolding transmits_def by blast
  then show thesis
    using poll_putc [of out ld st k d n c b] assms that unfolding transmits_def by blast
qed

text \<open>The answer the kernel leaves in the frame of the caller of \<open>ipc::call\<close>.\<close>

definition answer :: "words4 \<Rightarrow> request \<Rightarrow> response" where
  "answer ws rq = (case ws of (w0, w1, w2, w3) \<Rightarrow>
     \<lparr>rs_reg = (\<lambda>r. case r of A0 \<Rightarrow> w0 | A1 \<Rightarrow> w1 | A2 \<Rightarrow> w2 | A3 \<Rightarrow> w3
        | _ \<Rightarrow> (case req_reg r rq of Some v \<Rightarrow> v | None \<Rightarrow> 0)), rs_buf = rq_buf rq\<rparr>)"

text \<open>The words of a call on the endpoint of the console.\<close>

definition console_words :: "request \<Rightarrow> words4 option" where
  "console_words rq =
     (if req_reg A7 rq = Some U_SYS_IPC_CALL \<and> req_reg A0 rq = Some U_CONSOLE_ENDPOINT
      then Some (the (req_reg A1 rq), the (req_reg A2 rq), the (req_reg A3 rq), the (req_reg A4 rq)) else None)"

text \<open>A harness for the statements below, which models no code of its own: calls on this endpoint are answered by
  \<open>console_request\<close>, run on the device, in the place of the kernel's IPC and the receive loop of the server.\<close>

definition console_service :: "nat \<Rightarrow> 'd env \<Rightarrow> 'd env" where
  "console_service n e = e\<lparr>e_call := (\<lambda>rq d.
     case console_words rq of
       None \<Rightarrow> e_call e rq d
     | Some ws \<Rightarrow> (case run e (console_request n ws) d of
         (None, d') \<Rightarrow> (None, d')
       | (Some reply, d') \<Rightarrow> (Some (answer reply rq), d')))\<rparr>"

lemma console_words_call: "console_words \<lparr>rq_in = (A0, U_CONSOLE_ENDPOINT) # word_regs (w0, w1, w2, w3) @ [(A7, U_SYS_IPC_CALL)],
    rq_out = rs, rq_buf = bs\<rparr> = Some (w0, w1, w2, w3)"
  by (simp add: console_words_def req_reg_def word_regs_def)

lemma write_byte_sends:
  assumes tr: "transmits (e_load e) (e_store e) out n"
  shows "\<exists>d'. run e (console_request n (CONSOLE_WRITE, ucast b, 0, 0)) d = (Some (1, 0, 0, 0), d') \<and>
    uart_puts n \<lparr>dev_load = e_load e, dev_store = e_store e\<rparr> (b # bs) d =
      uart_puts n \<lparr>dev_load = e_load e, dev_store = e_store e\<rparr> bs d' \<and> out d' = out d @ crlf [b]"
proof -
  have e: "e = \<lparr>e_call = e_call e, e_load = e_load e, e_store = e_store e\<rparr>" by simp
  note putc = putc_sends [OF tr, where c = "e_call e", folded e]
  show ?thesis
  proof (cases "b = NEWLINE")
    case False
    obtain d' where "run e (console_putc n b) d = (Some (), d')"
      "uart_putc n \<lparr>dev_load = e_load e, dev_store = e_store e\<rparr> b d = Done d'" "out d' = out d @ [b]"
      by (rule putc)
    then show ?thesis using False by (simp add: console_request_def run_pbind CONSOLE_WRITE_def crlf_def Let_def)
  next
    case True
    obtain d1 where 1: "run e (console_putc n CARRIAGE_RETURN) d = (Some (), d1)"
      "uart_putc n \<lparr>dev_load = e_load e, dev_store = e_store e\<rparr> CARRIAGE_RETURN d = Done d1" "out d1 = out d @ [CARRIAGE_RETURN]"
      by (rule putc)
    obtain d2 where 2: "run e (console_putc n NEWLINE) d1 = (Some (), d2)"
      "uart_putc n \<lparr>dev_load = e_load e, dev_store = e_store e\<rparr> NEWLINE d1 = Done d2" "out d2 = out d1 @ [NEWLINE]"
      by (rule putc)
    show ?thesis using True 1 2 by (simp add: console_request_def run_pbind CONSOLE_WRITE_def crlf_def Let_def)
  qed
qed

lemma write_loop_sends:
  assumes tr: "transmits (e_load e) (e_store e) out n"
  shows "\<exists>d'. run (console_service n e) (write_loop_bytes bs) d = (Some True, d') \<and>
    uart_puts n \<lparr>dev_load = e_load e, dev_store = e_store e\<rparr> bs d = Done d' \<and> out d' = out d @ crlf bs"
proof (induction bs arbitrary: d)
  case Nil
  then show ?case by (simp add: crlf_def)
next
  case (Cons b bs)
  obtain d1 where 1: "run e (console_request n (CONSOLE_WRITE, ucast b, 0, 0)) d = (Some (1, 0, 0, 0), d1)"
    "uart_puts n \<lparr>dev_load = e_load e, dev_store = e_store e\<rparr> (b # bs) d =
      uart_puts n \<lparr>dev_load = e_load e, dev_store = e_store e\<rparr> bs d1" "out d1 = out d @ crlf [b]"
    using write_byte_sends [OF tr] by blast
  obtain d' where 2: "run (console_service n e) (write_loop_bytes bs) d1 = (Some True, d')"
    "uart_puts n \<lparr>dev_load = e_load e, dev_store = e_store e\<rparr> bs d1 = Done d'" "out d' = out d1 @ crlf bs"
    using Cons.IH by blast
  have call: "run (console_service n e) (uipc_call U_CONSOLE_ENDPOINT (CONSOLE_WRITE, ucast b, 0, 0)) d =
      (Some (Ok (1, 0, 0, 0)), d1)"
    using 1(1) by (simp add: uipc_call_def console_service_def console_words_call answer_def U_ERROR_def)
  have "out d' = out d @ crlf (b # bs)" using 1(3) 2(3) by (simp add: crlf_def)
  then show ?case using 1(2) 2 call by (simp add: run_pbind del: uart_puts.simps(2))
qed

text \<open>C33: what a program writes to its standard output reaches the UART through the console server byte
  for byte, with a carriage return before each newline, and \<open>io::write\<close> returns the number of bytes; the
  driver of the kernel sends the same bytes for the same text. (The call is answered by the request handler of the
  server directly; the kernel's IPC between the two is the subject of other properties.)\<close>

theorem console_output:
  assumes "transmits (e_load e) (e_store e) out n"
  shows "\<exists>d'. run (console_service n e) (io_write 1 bs) d = (Some (of_nat (length bs)), d') \<and>
    uart_puts n \<lparr>dev_load = e_load e, dev_store = e_store e\<rparr> bs d = Done d' \<and> out d' = out d @ crlf bs"
  using write_loop_sends [OF assms, of bs d] by (auto simp: io_write_def run_pbind)

text \<open>A transmitter that is busy for one poll after each byte.\<close>

definition slow_uart :: "(bool \<times> u8 list) env" where
  "slow_uart = \<lparr>e_call = (\<lambda>_ d. (None, d)), e_load = (\<lambda>a (busy, sent). (if busy then 0 else 0x20, (False, sent))),
     e_store = (\<lambda>a b (busy, sent). (True, sent @ [b]))\<rparr>"

lemma slow_uart_transmits: "transmits (e_load slow_uart) (e_store slow_uart) snd 2"
proof -
  have "\<exists>k<2. fst (e_load slow_uart (UART_BASE + LSR) (((\<lambda>x. snd (e_load slow_uart (UART_BASE + LSR) x)) ^^ k) (busy, sent))) AND 0x20 \<noteq> 0"
    for busy sent
    by (intro exI [of _ "if busy then 1 else 0"]) (simp add: slow_uart_def)
  then show ?thesis by (auto simp: transmits_def) (auto simp: slow_uart_def)
qed

theorem console_output_witness: "\<exists>d'. run (console_service 2 slow_uart) (io_write 1 (ascii ''ab'')) (False, []) =
    (Some (of_nat (length (ascii ''ab''))), d') \<and> snd d' = crlf (ascii ''ab'')"
  using console_output [OF slow_uart_transmits, of "ascii ''ab''" "(False, [])"] by auto

section \<open>The line editor\<close>

text \<open>A terminal: the bytes typed and the bytes shown.\<close>

definition terminal :: "(u8 list \<times> u8 list) env" where
  "terminal = \<lparr>e_call = (\<lambda>rq (inp, out).
       case console_words rq of
         None \<Rightarrow> (None, inp, out)
       | Some (w0, w1, _, _) \<Rightarrow>
           if w0 = CONSOLE_WRITE then (Some (answer (1, 0, 0, 0) rq), inp, out @ [ucast w1])
           else (case inp of [] \<Rightarrow> (None, inp, out) | b # r \<Rightarrow> (Some (answer (ucast b, 0, 0, 0) rq), r, out))),
     e_load = (\<lambda>a s. (0, s)), e_store = (\<lambda>a b s. s)\<rparr>"

definition erases :: "u8 \<Rightarrow> bool" where
  "erases b \<longleftrightarrow> b = 0x7F \<or> b = 8"

text \<open>The reference: the line after the typed bytes, and what is shown for them.\<close>

definition edit :: "u8 list \<Rightarrow> u8 list \<Rightarrow> u8 list" where
  "edit typed line = fold (\<lambda>b l. if erases b then butlast l else l @ [b]) typed line"

fun echo :: "u8 list \<Rightarrow> u8 list \<Rightarrow> u8 list" where
  "echo [] line = []"
| "echo (b # bs) line =
     (if erases b then (if line = [] then [] else [8, 0x20, 8]) @ echo bs (butlast line) else b # echo bs (line @ [b]))"

lemma terminal_write: "run terminal (write_loop_bytes bs) (inp, out) = (Some True, inp, out @ bs)"
proof (induction bs arbitrary: out)
  case (Cons b bs)
  have "run terminal (uipc_call U_CONSOLE_ENDPOINT (CONSOLE_WRITE, ucast b, 0, 0)) (inp, out) = (Some (Ok (1, 0, 0, 0)), inp, out @ [b])"
    by (simp add: uipc_call_def terminal_def console_words_call answer_def U_ERROR_def)
  then show ?case using Cons by (simp add: run_pbind)
qed simp

lemma terminal_io:
  "run terminal (io_write 1 bs) (inp, out) = (Some (of_nat (length bs)), inp, out @ bs)"
  "run terminal (print_text bs) (inp, out) = (Some (), inp, out @ bs)"
  by (simp_all add: io_write_def print_text_def run_pbind terminal_write)

lemma terminal_read: "run terminal (io_read 0 (Suc 0)) (b # inp, out) = (Some (1, [b]), inp, out)"
proof -
  have "run terminal (uipc_call U_CONSOLE_ENDPOINT (CONSOLE_READ, 0, 0, 0)) (b # inp, out) = (Some (Ok (ucast b, 0, 0, 0)), inp, out)"
    using byte_not_error
    by (simp add: uipc_call_def terminal_def console_words_call answer_def U_ERROR_def CONSOLE_READ_def CONSOLE_WRITE_def)
  then show ?thesis by (simp add: io_read_def run_pbind Let_def)
qed

lemma read_line_typed:
  "NEWLINE \<notin> set typed \<Longrightarrow> length line + length typed + 1 < LINE_SIZE \<Longrightarrow> length typed < n \<Longrightarrow>
   run terminal (read_line n line) (typed @ NEWLINE # rest, out) =
     (Some (edit typed line), rest, out @ echo typed line @ [NEWLINE])"
proof (induction typed arbitrary: n line out)
  case Nil
  then obtain m where n: "n = Suc m" by (cases n) simp_all
  show ?case
    using Nil n by (simp add: run_pbind terminal_read terminal_io edit_def NEWLINE_def)
next
  case (Cons b bs)
  then obtain m where n: "n = Suc m" by (cases n) simp_all
  have room: "length line + 1 < LINE_SIZE" using Cons.prems(2) by simp
  show ?case
  proof (cases "erases b")
    case True
    have "length (butlast line) + length bs + 1 < LINE_SIZE" using Cons.prems(2) by simp
    then have IH: "run terminal (read_line m (butlast line)) (bs @ NEWLINE # rest, out') =
        (Some (edit bs (butlast line)), rest, out' @ echo bs (butlast line) @ [NEWLINE])" for out'
      using Cons.IH Cons.prems n by simp
    then show ?thesis
      using True n room IH
      by (cases "line = []") (simp_all add: run_pbind terminal_read terminal_io edit_def erases_def Let_def)
  next
    case False
    have "run terminal (read_line m (line @ [b])) (bs @ NEWLINE # rest, out') =
        (Some (edit bs (line @ [b])), rest, out' @ echo bs (line @ [b]) @ [NEWLINE])" for out'
      using Cons.IH [of "line @ [b]" m out'] Cons.prems n by simp
    then show ?thesis
      using False n room Cons.prems(1)
      by (auto simp: run_pbind terminal_read terminal_io edit_def erases_def Let_def)
  qed
qed

lemma all_calls_after: "(\<And>x. all_calls (\<lambda>_. True) Q (f x)) \<Longrightarrow> all_calls (\<lambda>_. True) Q (pbind p f)"
  by (induction p) auto

lemma read_line_bound:
  "length line < LINE_SIZE \<Longrightarrow> NEWLINE \<notin> set line \<Longrightarrow> (\<And>b. b \<in> set line \<Longrightarrow> \<not> erases b) \<Longrightarrow>
   all_calls (\<lambda>_. True) (\<lambda>l. length l < LINE_SIZE \<and> NEWLINE \<notin> set l \<and> list_all (\<lambda>b. \<not> erases b) l) (read_line n line)"
proof (induction n arbitrary: line)
  case (Suc n)
  have short: "length (butlast line) < LINE_SIZE" using Suc.prems(1) by simp
  have keep: "all_calls (\<lambda>_. True) (\<lambda>l. length l < LINE_SIZE \<and> NEWLINE \<notin> set l \<and> list_all (\<lambda>b. \<not> erases b) l) (read_line n (butlast line))"
    by (rule Suc.IH) (use short Suc.prems in_set_butlastD in fastforce)+
  have grow: "all_calls (\<lambda>_. True) (\<lambda>l. length l < LINE_SIZE \<and> NEWLINE \<notin> set l \<and> list_all (\<lambda>b. \<not> erases b) l) (read_line n (line @ [b]))"
    if "length line + 1 < LINE_SIZE" "b \<noteq> NEWLINE" "\<not> erases b" for b
    by (rule Suc.IH) (use Suc.prems that in auto)
  show ?case
    using Suc.prems keep grow Suc.IH [of line]
    by (auto simp: Let_def erases_def list_all_iff intro!: all_calls_after split: prod.splits)
qed simp

text \<open>C34: the line editor of the shell returns the line a reference editor gives for the bytes typed before
  the newline, shows exactly their echo, and leaves the bytes after the newline unread. Whatever the
  console answers, a line it returns fits the buffer and has no newline and no erase byte.\<close>

theorem read_line_edits:
  assumes "NEWLINE \<notin> set typed" and "length typed + 1 < LINE_SIZE" and "length typed < n"
  shows "run terminal (read_line n []) (typed @ NEWLINE # rest, out) = (Some (edit typed []), rest, out @ echo typed [] @ [NEWLINE]) \<and>
    all_calls (\<lambda>_. True) (\<lambda>l. length l < LINE_SIZE \<and> NEWLINE \<notin> set l \<and> list_all (\<lambda>b. \<not> erases b) l) (read_line n [])"
  using read_line_typed [of typed "[]" n rest out] read_line_bound [of "[]" n] assms by (simp add: LINE_SIZE_def)

theorem read_line_edits_witness:
  "run terminal (read_line 9 []) ([108, 115, 8, 112] @ NEWLINE # [1], []) = (Some [108, 112], [1], [108, 115, 8, 32, 8, 112, NEWLINE])"
  using read_line_edits [of "[108, 115, 8, 112]" 9 "[1]" "[]"] by (simp add: NEWLINE_def LINE_SIZE_def edit_def erases_def)

end
