(* ===== verification/Hart.thy ===== *)
theory Hart
  imports Console_Server Schedule_Spec Syscall
begin

text \<open>
  The hart and its firmware: the control registers and their accessors (\<open>src/arch/riscv/csr.rs\<close>), the
  calls of the supervisor binary interface (\<open>sbi.rs\<close>), and the parts of the boot that set them up
  (\<open>vm::switch\<close>, \<open>trap::init\<close>, \<open>timer::init\<close>, the start of \<open>kernel_main\<close>). A control register is a
  64-bit cell; the fields the hardware keeps fixed are not modelled. The firmware is an argument: what
  an \<open>ecall\<close> in supervisor mode returns and does.
\<close>

section \<open>Control registers\<close>

type_synonym csrs = "usize \<Rightarrow> usize"

definition read_csr :: "usize \<Rightarrow> csrs \<Rightarrow> usize" where
  "read_csr csr c = c csr"

definition write_csr :: "usize \<Rightarrow> usize \<Rightarrow> csrs \<Rightarrow> csrs" where
  "write_csr csr val c = c(csr := val)"

definition set_csr :: "usize \<Rightarrow> usize \<Rightarrow> csrs \<Rightarrow> csrs" where
  "set_csr csr val c = c(csr := c csr OR val)"

definition clear_csr :: "usize \<Rightarrow> usize \<Rightarrow> csrs \<Rightarrow> csrs" where
  "clear_csr csr val c = c(csr := c csr AND NOT val)"

lemmas csr_ops = read_csr_def write_csr_def set_csr_def clear_csr_def

definition SSTATUS :: usize where [layout]: "SSTATUS = 0x100"
definition SIE :: usize where [layout]: "SIE = 0x104"
definition STVEC :: usize where [layout]: "STVEC = 0x105"
definition SSCRATCH :: usize where [layout]: "SSCRATCH = 0x140"
definition SEPC :: usize where [layout]: "SEPC = 0x141"
definition SCAUSE :: usize where [layout]: "SCAUSE = 0x142"
definition STVAL :: usize where [layout]: "STVAL = 0x143"
definition SATP :: usize where [layout]: "SATP = 0x180"
definition SSTATUS_SIE :: usize where [layout]: "SSTATUS_SIE = 0x2"

definition read_sstatus :: "csrs \<Rightarrow> usize" where "read_sstatus = read_csr SSTATUS"
definition write_sstatus :: "usize \<Rightarrow> csrs \<Rightarrow> csrs" where "write_sstatus = write_csr SSTATUS"
definition read_stvec :: "csrs \<Rightarrow> usize" where "read_stvec = read_csr STVEC"
definition write_stvec :: "usize \<Rightarrow> csrs \<Rightarrow> csrs" where "write_stvec = write_csr STVEC"
definition read_sscratch :: "csrs \<Rightarrow> usize" where "read_sscratch = read_csr SSCRATCH"
definition write_sscratch :: "usize \<Rightarrow> csrs \<Rightarrow> csrs" where "write_sscratch = write_csr SSCRATCH"
definition read_sepc :: "csrs \<Rightarrow> usize" where "read_sepc = read_csr SEPC"
definition write_sepc :: "usize \<Rightarrow> csrs \<Rightarrow> csrs" where "write_sepc = write_csr SEPC"
definition read_scause :: "csrs \<Rightarrow> usize" where "read_scause = read_csr SCAUSE"
definition read_stval :: "csrs \<Rightarrow> usize" where "read_stval = read_csr STVAL"
definition read_satp :: "csrs \<Rightarrow> usize" where "read_satp = read_csr SATP"
definition write_satp :: "usize \<Rightarrow> csrs \<Rightarrow> csrs" where "write_satp = write_csr SATP"

lemmas csr_accessors = read_sstatus_def write_sstatus_def read_stvec_def write_stvec_def read_sscratch_def
  write_sscratch_def read_sepc_def write_sepc_def read_scause_def read_stval_def read_satp_def write_satp_def

definition enable_interrupts :: "csrs \<Rightarrow> csrs" where
  "enable_interrupts = set_csr SSTATUS SSTATUS_SIE"

definition disable_interrupts :: "csrs \<Rightarrow> csrs" where
  "disable_interrupts = clear_csr SSTATUS SSTATUS_SIE"

definition interrupts_enabled :: "csrs \<Rightarrow> bool" where
  "interrupts_enabled c \<longleftrightarrow> read_sstatus c AND SSTATUS_SIE \<noteq> 0"

text \<open>\<open>sstatus.SIE\<close> is bit 1: enabling and disabling decide the test, and touch nothing else.\<close>

lemma bit_SIE: "bit SSTATUS_SIE n \<longleftrightarrow> n = 1"
  using bit_exp_iff [of 1 n, where 'a = "64 word"] by (auto simp: SSTATUS_SIE_def)

lemma interrupts_enabled_bit: "interrupts_enabled c \<longleftrightarrow> bit (c SSTATUS) 1"
  by (auto simp: interrupts_enabled_def read_sstatus_def read_csr_def bit_eq_iff [of _ 0] bit_and_iff bit_SIE)

lemma interrupts_switch:
  "interrupts_enabled (enable_interrupts c)" "\<not> interrupts_enabled (disable_interrupts c)"
  "r \<noteq> SSTATUS \<Longrightarrow> enable_interrupts c r = c r" "r \<noteq> SSTATUS \<Longrightarrow> disable_interrupts c r = c r"
  by (simp_all add: interrupts_enabled_bit enable_interrupts_def disable_interrupts_def csr_ops
      bit_or_iff bit_and_iff bit_not_iff bit_SIE)

text \<open>\<open>vm::switch\<close>; the translation buffer that \<open>sfence.vma\<close> flushes is not modelled.\<close>

definition vm_switch :: "usize \<Rightarrow> csrs \<Rightarrow> csrs" where
  "vm_switch pt c = write_satp (satp_of pt) c"

text \<open>\<open>trap::init\<close>: the entry, supervisor interrupts on, and the timer (5) and external (9) ones.\<close>

definition trap_init :: "usize \<Rightarrow> csrs \<Rightarrow> csrs" where
  "trap_init trap_entry c =
     write_csr SIE (push_bit 5 1 OR push_bit 9 1) (set_csr SSTATUS SSTATUS_SIE (write_stvec trap_entry c))"

section \<open>Firmware calls\<close>

record SbiResult =
  sbi_error :: usize
  sbi_value :: usize

type_synonym 'f firmware = "usize \<Rightarrow> usize \<Rightarrow> usize \<Rightarrow> usize \<Rightarrow> usize \<Rightarrow> 'f \<Rightarrow> SbiResult \<times> 'f"

text \<open>\<open>sbi_call\<close>: extension, function and three arguments.\<close>

definition sbi_call :: "'f firmware \<Rightarrow> usize \<Rightarrow> usize \<Rightarrow> usize \<Rightarrow> usize \<Rightarrow> usize \<Rightarrow> 'f \<Rightarrow> SbiResult \<times> 'f" where
  "sbi_call fw eid fid arg0 arg1 arg2 f = fw eid fid arg0 arg1 arg2 f"

definition console_putchar :: "'f firmware \<Rightarrow> u8 \<Rightarrow> 'f \<Rightarrow> 'f" where
  "console_putchar fw c f = snd (sbi_call fw 1 0 (ucast c) 0 0 f)"

definition console_getchar :: "'f firmware \<Rightarrow> 'f \<Rightarrow> u8 option \<times> 'f" where
  "console_getchar fw f =
     (case sbi_call fw 2 0 0 0 0 f of (r, f') \<Rightarrow>
      (if 0 \<le> sint (sbi_error r) then Some (ucast (sbi_error r)) else None, f'))"

text \<open>\<open>shutdown\<close> and \<open>reboot\<close>: the firmware after the call; if it returns, the hart waits for ever.\<close>

definition sbi_shutdown :: "'f firmware \<Rightarrow> 'f \<Rightarrow> 'f" where
  "sbi_shutdown fw f = snd (sbi_call fw 8 0 0 0 0 f)"

definition sbi_reboot :: "'f firmware \<Rightarrow> 'f \<Rightarrow> 'f" where
  "sbi_reboot fw f = snd (sbi_call fw 8 1 0 0 0 f)"

definition set_timer :: "'f firmware \<Rightarrow> u64 \<Rightarrow> 'f \<Rightarrow> 'f" where
  "set_timer fw stime_value f = snd (sbi_call fw 0 0 stime_value 0 0 f)"

text \<open>\<open>timer::init\<close> and \<open>timer::handle\<close> with their firmware calls: \<open>NEXT_TIMER\<close> and the firmware.\<close>

definition timer_init_sbi :: "'f firmware \<Rightarrow> u64 \<Rightarrow> 'f \<Rightarrow> u64 \<times> 'f" where
  "timer_init_sbi fw time f = (timer_init time, set_timer fw (timer_init time) f)"

definition timer_handle_sbi :: "'f firmware \<Rightarrow> u64 \<times> 'f \<Rightarrow> u64 \<times> 'f" where
  "timer_handle_sbi fw st = (case st of (next_timer, f) \<Rightarrow> (timer_handle next_timer, set_timer fw (timer_handle next_timer) f))"

text \<open>The n-th tick asks for the deadline n intervals after the first one, whatever the latency of the
  ticks before: the clock does not drift.\<close>

lemma timer_no_drift:
  "fst ((timer_handle_sbi fw ^^ n) (timer_init_sbi fw time f)) = time + of_nat (Suc n) * TIMER_INTERVAL"
proof (induction n)
  case (Suc n)
  have "fst (timer_handle_sbi fw st) = fst st + TIMER_INTERVAL" for st :: "u64 \<times> 'a"
    by (cases st) (simp add: timer_handle_sbi_def timer_handle_def)
  then show ?case using Suc by (simp add: algebra_simps)
qed (simp add: timer_init_sbi_def timer_init_def)

section \<open>Boot\<close>

text \<open>The hart when \<open>kernel_main\<close> registers the idle task: the kernel page table is on, and so are
  interrupts.\<close>

definition boot_csrs :: "usize \<Rightarrow> usize \<Rightarrow> csrs \<Rightarrow> csrs" where
  "boot_csrs pt trap_entry c = trap_init trap_entry (vm_switch pt c)"

lemma boot_csrs_facts:
  "interrupts_enabled (boot_csrs pt e c)" "read_csr SIE (boot_csrs pt e c) = 0x220"
  "read_satp (boot_csrs pt e c) = satp_of pt" "read_stvec (boot_csrs pt e c) = e"
  by (simp_all add: interrupts_enabled_bit boot_csrs_def trap_init_def vm_switch_def csr_accessors csr_ops
      bit_or_iff bit_SIE)
    (simp_all add: layout push_bit_eq_mult)

text \<open>While no task is current, as in the rest of \<open>kernel_main\<close>, a tick that finds a ready user task
  switches to it and stores the interrupted context nowhere: the initialisation would not go on.\<close>

lemma boot_tick_abandons:
  assumes wf: "sched_wf (mgr s)" and cur: "current_pid (mgr s) = None" and z: "no_orphan_zombie (mgr s)"
    and r: "i < MAX_TASKS" "ready_user (tasks (mgr s) ! i)"
  shows "\<exists>j m'. schedule tf s = Done (t_trap_frame (task_at j (mgr s)), s\<lparr>mgr := m'\<rparr>) \<and> ready_user (tasks (mgr s) ! j)"
proof -
  have ci: "current_index (mgr s) = None" using cur by (simp add: current_index_def)
  have sv: "save_current tf s = s" using ci by (simp add: save_current_def)
  have rp: "reap_detached_zombies s = Done s" by (rule reap_none [OF z sched_wf_length [OF wf]])
  obtain j where j: "List.find (\<lambda>i. ready_user (tasks (mgr s) ! i)) (scan_order (scan_start (mgr s))) = Some j"
    using scan_order_None [OF _ r(1), of "\<lambda>i. ready_user (tasks (mgr s) ! i)"] r(2) by (meson option.exhaust)
  then have "ready_user (tasks (mgr s) ! j)" by (auto simp: find_Some_iff)
  moreover have "schedule tf s = Done (t_trap_frame (task_at j (mgr s)), update_mgr (run_task j) s)"
    unfolding schedule_def rp obind.simps Let_def sv j by simp
  ultimately show ?thesis unfolding update_mgr_def by auto
qed

end
