(* ===== verification/Legacy_Io.thy ===== *)
theory Legacy_Io
  imports User_Io Syscall
begin

text \<open>
  The character system calls of \<open>src/kernel/syscall.rs\<close> from before the console server, \<open>sys_write\<close> and
  \<open>sys_read\<close>: the kernel still has them, marked deprecated, and dispatches to neither. They move bytes
  between the memory of the current task and the UART. The second fuel bounds the rounds of the reading
  loop, which waits for input.
\<close>

section \<open>Writing\<close>

fun sys_write_loop :: "nat \<Rightarrow> 'd device \<Rightarrow> nat list \<Rightarrow> usize \<Rightarrow> kstate \<Rightarrow> 'd \<Rightarrow> (bool \<times> 'd) outcome" where
  "sys_write_loop n dev [] buf s d = Done (True, d)"
| "sys_write_loop n dev (i # is) buf s d =
     (case translate_user (buf + of_nat i) s of
        None \<Rightarrow> Done (False, d)
      | Some pa \<Rightarrow>
          let c = read_byte (phys (mem s)) pa in
          obind (if c = NEWLINE then uart_putc n dev CARRIAGE_RETURN d else Done d) (\<lambda>d1.
          obind (uart_putc n dev c d1) (sys_write_loop n dev is buf s)))"

definition sys_write :: "nat \<Rightarrow> 'd device \<Rightarrow> usize \<Rightarrow> usize \<Rightarrow> usize \<Rightarrow> kstate \<Rightarrow> 'd \<Rightarrow> (usize \<times> 'd) outcome" where
  "sys_write n dev fd buf len s d =
     (if fd \<noteq> 1 \<and> fd \<noteq> 2 then Done (- 1, d)
      else obind (sys_write_loop n dev [0..<unat len] buf s d) (\<lambda>(ok, d'). Done (if ok then len else - 1, d')))"

text \<open>The bytes of the user buffer up to the first address without a translation.\<close>

fun user_bytes :: "nat list \<Rightarrow> usize \<Rightarrow> kstate \<Rightarrow> bool \<times> u8 list" where
  "user_bytes [] buf s = (True, [])"
| "user_bytes (i # is) buf s =
     (case translate_user (buf + of_nat i) s of
        None \<Rightarrow> (False, [])
      | Some pa \<Rightarrow> (case user_bytes is buf s of (ok, bs) \<Rightarrow> (ok, read_byte (phys (mem s)) pa # bs)))"

lemma sys_write_loop_puts:
  "sys_write_loop n dev is buf s d =
     obind (uart_puts n dev (snd (user_bytes is buf s)) d) (\<lambda>d'. Done (fst (user_bytes is buf s), d'))"
proof (induction "is" arbitrary: d)
  case (Cons i "is")
  have assoc: "obind (obind m f) g = obind m (\<lambda>x. obind (f x) g)" for m :: "'a outcome" and f :: "'a \<Rightarrow> 'a outcome"
    and g :: "'a \<Rightarrow> (bool \<times> 'a) outcome"
    by (cases m) simp_all
  show ?case
    by (simp add: Let_def assoc Cons [abs_def] split: option.split prod.split)
qed simp

text \<open>With a transmitter that sends, the call sends what the console server would send for the bytes it can
  read, and returns their number when it could read them all.\<close>

lemma sys_write_sends:
  assumes tr: "transmits ld st out n" and fd: "fd = 1 \<or> fd = 2"
  shows "\<exists>d'. sys_write n \<lparr>dev_load = ld, dev_store = st\<rparr> fd buf len s d =
      Done (if fst (user_bytes [0..<unat len] buf s) then len else - 1, d') \<and>
    out d' = out d @ crlf (snd (user_bytes [0..<unat len] buf s))"
proof -
  let ?e = "\<lparr>e_call = (\<lambda>_ d. (None, d)), e_load = ld, e_store = st\<rparr>"
  obtain d' where "uart_puts n \<lparr>dev_load = ld, dev_store = st\<rparr> (snd (user_bytes [0..<unat len] buf s)) d = Done d'"
    "out d' = out d @ crlf (snd (user_bytes [0..<unat len] buf s))"
    using write_loop_sends [of ?e out n "snd (user_bytes [0..<unat len] buf s)" d] tr by auto
  then show ?thesis using fd by (auto simp: sys_write_def sys_write_loop_puts)
qed

section \<open>Reading\<close>

fun sys_read_loop :: "nat \<Rightarrow> nat \<Rightarrow> 'd device \<Rightarrow> usize \<Rightarrow> usize \<Rightarrow> usize \<Rightarrow> kstate \<Rightarrow> 'd \<Rightarrow> (usize option \<times> kstate \<times> 'd) outcome" where
  "sys_read_loop n 0 dev buf len i s d = Runaway"
| "sys_read_loop n (Suc m) dev buf len i s d =
     (if i + 1 < len then
        (case uart_getc dev d of
           (None, d1) \<Rightarrow> sys_read_loop n m dev buf len i s d1
         | (Some b, d1) \<Rightarrow>
             let c = (if b = CARRIAGE_RETURN then NEWLINE else b) in
             if c = 0x7F \<or> c = 8 then
               (if 0 < i then obind (uart_puts n dev [8, 32, 8] d1) (sys_read_loop n m dev buf len (i - 1) s)
                else sys_read_loop n m dev buf len i s d1)
             else
               (case translate_user (buf + i) s of
                  None \<Rightarrow> Done (None, s, d1)
                | Some pa \<Rightarrow>
                    let s1 = s\<lparr>mem := (mem s)\<lparr>phys := write_byte pa c (phys (mem s))\<rparr>\<rparr> in
                    obind (if c = NEWLINE then uart_putc n dev CARRIAGE_RETURN d1 else Done d1) (\<lambda>d2.
                    obind (uart_putc n dev c d2) (\<lambda>d3.
                    if c = NEWLINE then Done (Some (i + 1), s1, d3)
                    else sys_read_loop n m dev buf len (i + 1) s1 d3))))
      else Done (Some i, s, d))"

definition sys_read :: "nat \<Rightarrow> nat \<Rightarrow> 'd device \<Rightarrow> usize \<Rightarrow> usize \<Rightarrow> usize \<Rightarrow> kstate \<Rightarrow> 'd \<Rightarrow> (usize \<times> kstate \<times> 'd) outcome" where
  "sys_read n m dev fd buf len s d =
     (if fd \<noteq> 0 then Done (- 1, s, d)
      else if len = 0 then Done (0, s, d)
      else obind (sys_read_loop n m dev buf len 0 s d) (\<lambda>(r, s1, d1).
        case r of None \<Rightarrow> Done (- 1, s1, d1) | Some i \<Rightarrow>
        case translate_user (buf + i) s1 of
          None \<Rightarrow> Done (- 1, s1, d1)
        | Some pa \<Rightarrow> Done (i, s1\<lparr>mem := (mem s1)\<lparr>phys := write_byte pa 0 (phys (mem s1))\<rparr>\<rparr>, d1)))"

text \<open>The line and its terminator fit in the buffer: the count returned stays below its length.\<close>

lemma sys_read_loop_bound:
  assumes "sys_read_loop n m dev buf len i s d = Done (Some j, s', d')" and "i < len"
  shows "j < len"
  using assms
proof (induction m arbitrary: i s d)
  case (Suc m)
  note IH = Suc.IH and ret = Suc.prems(1)
  show ?case
  proof (cases "i + 1 < len")
    case True
    have "i - 1 < len" if "0 < i" using Suc.prems(2) that by unat_arith
    then show ?thesis using ret True IH Suc.prems(2)
      by (auto simp: Let_def split: option.splits prod.splits if_splits)
  qed (use Suc.prems in simp)
qed simp

lemma sys_read_bound:
  assumes "sys_read n m dev fd buf len s d = Done (v, s', d')" and "len \<noteq> 0"
  shows "v = - 1 \<or> v < len"
  using assms sys_read_loop_bound [of n m dev buf len 0 s d]
  by (auto simp: sys_read_def word_neq_0_conv split: if_splits option.splits)

end
