(* ===== verification/Build_Script.thy ===== *)
theory Build_Script
  imports Initrd "HOL-Library.List_Lexorder"
begin

text \<open>
  The part of \<open>build.rs\<close> that decides what goes into the archive: which directories of
  \<open>user/programs\<close> are programs, in which order, and how each is compiled and packed. The compilers are
  arguments: the ELF image a run leaves, or \<open>None\<close> when it fails and the script stops.
\<close>

text \<open>What the script sees of an entry of the directory: its name (\<open>None\<close> when it is not UTF-8), whether
  it is a directory, and whether \<open>src/main.rs\<close> and \<open>src/main.c\<close> are files in it.\<close>

record prog_dir =
  pd_name :: "u8 list option"
  pd_is_dir :: bool
  pd_rust :: bool
  pd_c :: bool

definition is_program :: "prog_dir \<Rightarrow> bool" where
  "is_program e \<longleftrightarrow> pd_is_dir e \<and> pd_name e \<noteq> None \<and> (pd_rust e \<or> pd_c e)"

text \<open>The sorted list of programs; names are compared byte by byte.\<close>

definition user_programs :: "prog_dir list \<Rightarrow> prog_dir list" where
  "user_programs entries = sort_key (\<lambda>e. the (pd_name e)) (filter is_program entries)"

type_synonym compiler = "u8 list \<Rightarrow> u8 list option"

text \<open>A Rust source takes precedence over a C source.\<close>

definition compile_user :: "compiler \<Rightarrow> compiler \<Rightarrow> prog_dir \<Rightarrow> (u8 list \<times> u8 list) option" where
  "compile_user rustc gcc e =
     (let name = the (pd_name e) in
      map_option (Pair name) (if pd_rust e then rustc name else if pd_c e then gcc name else None))"

fun compile_all :: "compiler \<Rightarrow> compiler \<Rightarrow> prog_dir list \<Rightarrow> files option" where
  "compile_all rustc gcc [] = Some []"
| "compile_all rustc gcc (e # es) =
     (case compile_user rustc gcc e of None \<Rightarrow> None | Some f \<Rightarrow> map_option ((#) f) (compile_all rustc gcc es))"

definition build_initrd :: "compiler \<Rightarrow> compiler \<Rightarrow> prog_dir list \<Rightarrow> u8 list option" where
  "build_initrd rustc gcc entries = Option.bind (compile_all rustc gcc (user_programs entries)) build_archive"

section \<open>What the kernel finds\<close>

lemma compile_all_iff:
  "compile_all rustc gcc es = Some fs \<longleftrightarrow> map Some fs = map (compile_user rustc gcc) es"
  by (induction es arbitrary: fs) (auto simp: map_eq_Cons_conv split: option.split)

lemma compile_user_name: "compile_user rustc gcc e = Some f \<Longrightarrow> fst f = the (pd_name e)"
  by (auto simp: compile_user_def Let_def)

lemma initrd_find_distinct:
  assumes "distinct (map fst fs)" and "(name, data) \<in> set fs"
  shows "initrd_find name fs = Some data"
  using assms by (induction fs) (force simp: initrd_find_def)+

text \<open>Every program of the directory that compiles is found by the kernel under its name with the image the
  compiler made, when there are at most sixteen and their names are usable in the archive.\<close>

lemma programs_found:
  assumes b: "build_initrd rustc gcc entries = Some ar" and len: "length ar < 2 ^ 63"
    and few: "length (filter is_program entries) \<le> MAX_FILES" and d: "distinct (map pd_name (filter is_program entries))"
    and ok: "\<forall>e \<in> set (filter is_program entries). entry_name_ok (the (pd_name e)) \<and> the (pd_name e) \<noteq> ascii ''.''"
    and e: "e \<in> set entries" "is_program e"
  shows "\<exists>elf. compile_user rustc gcc e = Some (the (pd_name e), elf) \<and>
    initrd_find (the (pd_name e)) (initrd_init ar) = Some elf"
proof -
  let ?ps = "user_programs entries"
  obtain fs where fs: "map Some fs = map (compile_user rustc gcc) ?ps" "build_archive fs = Some ar"
    using b by (auto simp: build_initrd_def compile_all_iff bind_eq_Some_conv)
  have names: "map fst fs = map (\<lambda>e. the (pd_name e)) ?ps"
  proof (rule nth_equalityI)
    show l: "length (map fst fs) = length (map (\<lambda>e. the (pd_name e)) ?ps)" using arg_cong [OF fs(1), of length] by simp
    fix i assume "i < length (map fst fs)"
    then have "compile_user rustc gcc (?ps ! i) = Some (fs ! i)" using l fs(1) by (metis length_map nth_map)
    then show "map fst fs ! i = map (\<lambda>e. the (pd_name e)) ?ps ! i"
      using compile_user_name l \<open>i < length (map fst fs)\<close> by simp
  qed
  have ps: "set ?ps = set (filter is_program entries)" "length ?ps = length (filter is_program entries)"
    by (simp_all add: user_programs_def)
  have "inj_on (\<lambda>e. the (pd_name e)) (set ?ps) \<and> distinct ?ps"
    using d ps by (auto simp: distinct_map user_programs_def inj_on_def is_program_def)
  then have dist: "distinct (map fst fs)" by (simp add: names distinct_map)
  have ok': "entry_name_ok (fst f)" "fst f \<noteq> ascii ''.''" if "f \<in> set fs" for f
  proof -
    have "fst f \<in> set (map (\<lambda>e. the (pd_name e)) ?ps)" using that names by (metis image_eqI set_map)
    then show "entry_name_ok (fst f)" "fst f \<noteq> ascii ''.''" using ok ps by auto
  qed
  have init: "initrd_init ar = fs"
  proof -
    have "filter (\<lambda>f. fst f \<noteq> ascii ''.'') fs = fs" using ok' by (simp add: filter_id_conv)
    moreover have "length fs \<le> MAX_FILES" using few ps arg_cong [OF fs(1), of length] by simp
    ultimately show ?thesis
      using init_loop_archive [OF fs(2) [unfolded build_archive_def] _ len, of "[]"] fold_add_file [of "[]" fs] ok'
      by (simp add: initrd_init_def)
  qed
  have "compile_user rustc gcc e \<in> set (map Some fs)" using fs(1) e ps by simp
  then obtain f where f: "f \<in> set fs" "compile_user rustc gcc e = Some f" by auto
  then have f': "f = (the (pd_name e), snd f)" using compile_user_name by (metis prod.collapse)
  then have "initrd_find (the (pd_name e)) fs = Some (snd f)" using initrd_find_distinct [OF dist] f(1) by metis
  then show ?thesis using f f' init by auto
qed

end
