(* ===== verification/Spec2Isabelle.thy ===== *)
theory Spec2Isabelle
  imports Page_Table_Spec Kernel_Reach Ipc_Claims Fork_Spec Elf_Image Fat_Requests Fat_Format Fat_Long_Names User_Claims User_Io
    Hart Legacy_Io Build_Script
begin

text \<open>
  NekOS: a RISC-V 64-bit microkernel in Rust with user-mode servers, and its verification.

  \<^bold>\<open>The program.\<close> The kernel (\<open>src/src\<close>) runs on one hart in supervisor mode. It owns physical memory
  (a bitmap page allocator), builds Sv39 page tables in it, keeps a table of at most sixteen tasks that
  it schedules round robin, and gives them sixteen system calls: processes (fork, exec, exit, waitpid, sbrk),
  synchronous messages over endpoints (call, receive, reply, each also with a data buffer), and
  the hand-over of the UART interrupt. It enters by traps only: \<open>trap_handler\<close> gets the address of the
  trap frame of the interrupted task and returns the address of the frame to resume. Everything else runs
  in user mode (\<open>src/user\<close>): the console server owns the UART and endpoint 1, the file server keeps a FAT32
  volume on a RAM disk and owns endpoint 2, the shell is their client; all are built on a small user
  library and are packed by \<open>build.rs\<close> into an archive the kernel finds in its image.

  \<^bold>\<open>Conventions.\<close> \<open>usize\<close> is a 64-bit word with wrap-around; \<open>Result<T, ()>\<close> is a sum; a panic is the value
  \<open>Panic\<close> of the type \<open>outcome\<close>, a loop that uses up its fuel is \<open>Runaway\<close>, the shutdown of the machine is
  \<open>Shutdown\<close>, and a copy of the buffered IPC calls to a page that is not a user page is \<open>Overwrite\<close>. Memory is a function from the addresses of 64-bit cells; page tables, trap frames and user buffers
  live in it at their real addresses and alias each other as they do in the program. The state of the
  kernel is the record \<open>kstate\<close>: memory with the page allocator, the task manager, the kernel's page
  table and the PLIC's registers. The manager, the allocator and the pointer to the kernel's table are fields
  apart from memory, while in the program they are statics of the kernel image. Code writes them by name; the
  pages of user tasks are frames of the allocator, which lie behind the image. The one way past this is a
  buffered IPC call: \<open>mem_copy_to_user\<close> and the copy of \<open>ipc_reply_buf\<close> do not test \<open>PTE_U\<close>, so that a user
  task can direct them to the kernel window that its table maps, and thereby to the task manager. The model
  does not claim anything about such a copy: it ends the run with \<open>Overwrite\<close>, the theorems say which calls
  can end so, and the states \<open>reach\<close> reaches are those before it.

  \<^bold>\<open>Theories and sources.\<close>
  \<^item> \<open>Rust_Prelude\<close>, \<open>Byte_Codec\<close>: machine integers, checked arithmetic, outcomes; little-endian bytes, UTF-8.
    \<open>Riscv_Machine\<close>: layout constants, memory, pages, trap frames (\<open>arch/riscv/mod.rs\<close>, \<open>kernel/trap.rs\<close>).
  \<^item> \<open>Page_Alloc\<close>: \<open>kernel/page.rs\<close>. The interface \<open>frame_allocator\<close> (what a client may rely on: a frame
    handed out was free, is aligned and is not handed out again before it is freed) is a locale interpreted on the
    bitmap allocator.
  \<^item> \<open>Page_Table\<close> (definitions), \<open>Page_Table_Tree\<close>, \<open>Page_Table_Ops\<close>, \<open>Page_Table_Progress\<close>, \<open>Page_Table_Spec\<close>:
    \<open>kernel/pgtable.rs\<close>. A table is read as a tree of table pages; the contract of \<open>map\<close>, \<open>set_flags\<close>, \<open>unmap\<close> and
    \<open>free\<close> is stated on the translation \<open>virt_to_phys\<close> and on the set of used frames. \<open>Vm\<close>: \<open>kernel/vm.rs\<close>.
  \<^item> \<open>Task_State\<close>, \<open>Address_Space\<close>, \<open>Scheduler\<close>, \<open>Task_Memory\<close>, \<open>Task_Ipc\<close>: \<open>kernel/task.rs\<close>; \<open>Ipc_Queue\<close>:
    \<open>kernel/ipc.rs\<close>, the ring buffer against the locale \<open>bounded_fifo\<close>. \<open>Scheduler_Inv\<close>, \<open>Schedule_Spec\<close>,
    \<open>Task_Lifecycle\<close>: the invariant of the task table, round robin against a reference, no
    starvation, exit and waitpid. \<open>Ipc_Inv\<close>, \<open>Ipc_Spec\<close>, \<open>Ipc_Claims\<close>: who waits for whom, and the contracts of call,
    receive and reply.
  \<^item> \<open>Syscall\<close>: \<open>kernel/syscall.rs\<close>, \<open>trap.rs\<close>, \<open>timer.rs\<close>, \<open>drivers/plic.rs\<close> and \<open>main.rs\<close>. \<open>Kernel_Inv\<close>,
    \<open>Authority\<close>, \<open>Kernel_Reach\<close>: the invariant under every system call and trap, the rights no trap changes, and the
    states reachable from a boot as an inductive relation; \<open>Syscall_Stops\<close>: the ways in which a system call can end other
    than by returning. \<open>Hart\<close>: \<open>arch/riscv/csr.rs\<close>, \<open>sbi.rs\<close> and the parts of the
    boot that use them. \<open>Legacy_Io\<close>: the two system calls \<open>syscall.rs\<close> keeps without using them.
  \<^item> \<open>Initrd\<close>, \<open>Build_Script\<close>: \<open>kernel/initrd.rs\<close> and the packing part of \<open>build.rs\<close>. \<open>Elf_Exec\<close>: \<open>kernel/exec.rs\<close>.
    \<open>Page_Contents\<close>: address spaces that grow in new frames and what their pages hold, on which
    \<open>Elf_Image\<close> (the image \<open>elf_load\<close> builds) and \<open>Fork_Spec\<close> (the address space \<open>fork\<close> gives the child) rest.
  \<^item> \<open>Fat_Core\<close>, \<open>Fat_Dir\<close>, \<open>Fat_File\<close>, \<open>Fat_Server\<close>, \<open>Fs_Program\<close>: \<open>user/programs/fs-server\<close>, from the RAM disk up
    to the requests and the loop that serves them. \<open>Fat_Table\<close> states the laws of table and clusters as the locale
    \<open>fat_volume\<close>, interpreted on the code; \<open>Fat_Chain\<close>, \<open>Fat_Content\<close>, \<open>Fat_Write\<close>, \<open>Fat_Roundtrip\<close>,
    \<open>Fat_Requests\<close>: chains, reading, writing, and both through requests; \<open>Fat_Format\<close>: the volume the server
    starts with; \<open>Fat_Names\<close>, \<open>Fat_Dir_Spec\<close>, \<open>Fat_Long_Names\<close>: directories.
  \<^item> \<open>User_Lib\<close>: \<open>user/userlib\<close>, programs as trees of system calls; \<open>Console_Server\<close> (with \<open>drivers/uart.rs\<close>),
    \<open>Shell\<close>: the two programs; \<open>User_Claims\<close>, \<open>User_Io\<close>: their calls against the dispatch of the kernel, the
    bytes on the UART, the line editor against a reference.

  \<^bold>\<open>What is shown.\<close> The properties are the numbered theorems of the theories. The kernel: in every state reachable by
  traps without an \<open>Overwrite\<close> its invariant holds and known system calls, ticks and interrupts do not panic; how each
  system call can end is a case analysis; page tables
  translate what was mapped, keep what was not touched, and give back what they took; the
  allocator hands out no frame twice; scheduling is round robin and starves nobody; messages arrive
  once, in order and only where they may; exit codes arrive and tasks are
  reaped once, with all of their frames; a forked child has a copy of its parent's memory. Between kernel and user
  code: the wrappers pass what the dispatch reads (outputs are not compared), and the console shows the bytes
  written (with kernel IPC replaced by a direct call of the server's request handler). The file server: what is
  written is read back, other files are not touched, chains are freed exactly, and in directories of one sector with short, undeleted entries names are found
  again. The archive: round trip. The ELF loader: the pages it maps hold the bytes of the file and nothing
  outside the file is read. The last properties state where the
  code does not do what it means to: a size that is not stored, a deleted name that comes back, a
  sector that is cleared, a reply that names the wrong cluster, frames the kernel cannot reach.

  \<^bold>\<open>Fuel and bounds.\<close> Loops over page-table levels and task slots are recursions over lists of known length. The
  walk that frees a page table has a fuel of three levels, which is enough for every well-formed table (shown). The
  loops of the file server along cluster chains take the fuel as an argument, since a table with a cycle keeps
  the code busy for ever; the theorems give the fuel that is enough (the length of the chain, the
  number of clusters, or one more than the blocks written). Busy waiting on the UART takes a fuel that the hypothesis
  \<open>transmits\<close> bounds. The invariant of reachable states holds as long as the 32-bit pid counter does not wrap.

  \<^bold>\<open>Not modelled.\<close> The assembly around \<open>trap_handler\<close> (\<open>trap.S\<close>, \<open>user.S\<close>, \<open>start.S\<close>) and the \<open>wfi\<close> loop of the idle
  task: they are the steps between two traps of the relation \<open>reach\<close>. The translation buffer and \<open>sfence.vma\<close>. The
  spin locks and the wrappers of \<open>task.rs\<close>, \<open>ipc.rs\<close> and \<open>uart.rs\<close> that take a lock and call the method of the same
  name: there is one hart, and a trap runs with interrupts off. What the kernel prints. The compiler runs of
  \<open>build.rs\<close>, which are arguments. The C library for user programs (\<open>user/libc\<close>), which is not Rust.
\<close>

section \<open>The system from boot on\<close>

text \<open>Boot, traps and rights together: in every state a booted kernel reaches, the invariant holds, the first
  program spawned (the console) owns the UART and endpoint 1, and the second (the file server) endpoint 2.\<close>

lemma booted_system:
  assumes boot: "kernel_main kernel_end memory archive idle_main regs = Done (ue, s0)"
    and run: "reach (initrd_init archive) s0 n s" and n: "n < 2 ^ 32 - 5"
  shows "kernel_ok (mgr s)" and "uart_owner (mgr s) = Some 1"
    and "owns_endpoint 1 CONSOLE_ENDPOINT (mgr s)" and "owns_endpoint 2 FS_ENDPOINT (mgr s)"
proof -
  note b = boot_ok [OF boot]
  show "kernel_ok (mgr s)" using reach_invariant [OF run b(1,2)] b(3) n by simp
  note r = reach_rights [OF run]
  show "uart_owner (mgr s) = Some 1" using r b(5) by (simp add: rights_def)
  show "owns_endpoint 1 CONSOLE_ENDPOINT (mgr s)" "owns_endpoint 2 FS_ENDPOINT (mgr s)"
    using owns_rights [OF r] b(6,7) by simp_all
qed

end
